(* ===== verification/Prelude.thy ===== *)
theory Prelude
  imports Complex_Main "HOL-Library.Char_ord" "HOL-Library.List_Lexorder" "HOL-Library.Multiset"
begin

text \<open>
  Shared vocabulary of the development: the names of the model's basic types, fallible results,
  JavaScript string helpers, the row operations that stand for the SQL statements of the services,
  and the generic lemmas and fact collections the component theories use.

  Conventions. A point in time is its number of milliseconds since the epoch (what
  \<^verbatim>\<open>Date.getTime()\<close> returns); an ISO string that the code builds from a \<^verbatim>\<open>Date\<close> and parses
  back is kept as that number. The clock and \<^verbatim>\<open>randomUUID()\<close> are arguments of the operations
  that read them. A string is a list of code units below 256. A database table is the list of its
  rows in insertion order.
\<close>

type_synonym time = int
type_synonym uuid = string

named_theorems frame_simps \<open>fields an operation leaves alone\<close>
named_theorems table_simps \<open>facts about row selection and update\<close>
named_theorems shape_intros \<open>introduction rules for well-formedness predicates\<close>

subsection \<open>Fallible results\<close>

text \<open>A thrown error is \<^term>\<open>Inl e\<close>; \<open>and_then\<close> runs the rest of the body when nothing was thrown.\<close>

fun and_then :: "'e + 'a \<Rightarrow> ('a \<Rightarrow> 'e + 'b) \<Rightarrow> 'e + 'b" where
  "and_then (Inl e) f = Inl e"
| "and_then (Inr a) f = f a"

lemma and_then_Inr: "and_then r f = Inr b \<longleftrightarrow> (\<exists>a. r = Inr a \<and> f a = Inr b)"
  by (cases r) auto

lemma and_then_Inl: "and_then r f = Inl e \<longleftrightarrow> r = Inl e \<or> (\<exists>a. r = Inr a \<and> f a = Inl e)"
  by (cases r) auto

text \<open>\<open>Array.prototype.map\<close> with a callback that may throw: the first error wins.\<close>

fun map_res :: "('a \<Rightarrow> 'e + 'b) \<Rightarrow> 'a list \<Rightarrow> 'e + 'b list" where
  "map_res f [] = Inr []"
| "map_res f (x # xs) = and_then (f x) (\<lambda>y. and_then (map_res f xs) (\<lambda>ys. Inr (y # ys)))"

lemma map_res_Inr: "map_res f xs = Inr ys \<longleftrightarrow> list_all2 (\<lambda>x y. f x = Inr y) xs ys"
  by (induction xs arbitrary: ys) (auto simp: and_then_Inr list_all2_Cons1)

lemma map_res_length: "map_res f xs = Inr ys \<Longrightarrow> length ys = length xs"
  by (simp add: map_res_Inr list_all2_lengthD)

subsection \<open>Strings\<close>

definition is_ws :: "char \<Rightarrow> bool" where
  "is_ws c \<longleftrightarrow> (let n = (of_char c :: nat) in (9 \<le> n \<and> n \<le> 13) \<or> n = 32 \<or> n = 160)"

definition trim :: "string \<Rightarrow> string" where
  "trim s = rev (dropWhile is_ws (rev (dropWhile is_ws s)))"

definition lower_char :: "char \<Rightarrow> char" where
  "lower_char c =
     (let n = (of_char c :: nat) in
      if (65 \<le> n \<and> n \<le> 90) \<or> (192 \<le> n \<and> n \<le> 222 \<and> n \<noteq> 215) then char_of (n + 32) else c)"

definition lower :: "string \<Rightarrow> string" where
  "lower s = map lower_char s"

lemma length_lower [simp]: "length (lower s) = length s"
  by (simp add: lower_def)

lemma length_trim: "length (trim s) \<le> length s"
  unfolding trim_def
  by (metis length_dropWhile_le length_rev order_trans)

text \<open>\<open>Array.prototype.join\<close> and \<open>String.prototype.split\<close> on a one-character separator.\<close>

fun join :: "string \<Rightarrow> string list \<Rightarrow> string" where
  "join sep [] = []"
| "join sep [x] = x"
| "join sep (x # y # ys) = x @ sep @ join sep (y # ys)"

fun split_on :: "char \<Rightarrow> string \<Rightarrow> string list" where
  "split_on c [] = [[]]"
| "split_on c (x # xs) =
     (if x = c then [] # split_on c xs
      else (case split_on c xs of [] \<Rightarrow> [[x]] | w # ws \<Rightarrow> (x # w) # ws))"

lemma split_on_not_Nil [simp]: "split_on c s \<noteq> []"
  by (induction s) (auto split: list.splits)

lemma join_split_on: "join [c] (split_on c s) = s"
proof (induction s)
  case Nil
  then show ?case by simp
next
  case (Cons x xs)
  obtain w ws where ws: "split_on c xs = w # ws"
    by (cases "split_on c xs") auto
  with Cons show ?case by (cases ws) auto
qed

definition quoted :: "string \<Rightarrow> string" where
  "quoted s = CHR 0x27 # s @ [CHR 0x27]"

fun includes_text :: "string \<Rightarrow> string \<Rightarrow> bool" where
  "includes_text needle [] = (needle = [])"
| "includes_text needle (c # cs) = (take (length needle) (c # cs) = needle \<or> includes_text needle cs)"

definition digit_char :: "nat \<Rightarrow> char" where
  "digit_char d = char_of (48 + d)"

fun show_nat :: "nat \<Rightarrow> string" where
  "show_nat n = (if n < 10 then [digit_char n] else show_nat (n div 10) @ [digit_char (n mod 10)])"

declare show_nat.simps [simp del]

definition show_int :: "int \<Rightarrow> string" where
  "show_int i = (if i < 0 then CHR 0x2D # show_nat (nat (- i)) else show_nat (nat i))"

subsection \<open>Numbers\<close>

text \<open>
  \<open>Math.round\<close> rounds halves upwards. Quotients are exact rationals here; the code's doubles agree
  with them wherever only a comparison or a rounded value of integers below \<open>2 ^ 26\<close> is used.
\<close>

definition js_round :: "rat \<Rightarrow> int" where
  "js_round x = \<lfloor>x + 1 / 2\<rfloor>"

definition ceil_div :: "int \<Rightarrow> int \<Rightarrow> int" where
  "ceil_div a b = - ((- a) div b)"

lemma js_round_mono: "x \<le> y \<Longrightarrow> js_round x \<le> js_round y"
  by (simp add: js_round_def floor_mono)

lemma js_round_of_int [simp]: "js_round (of_int n) = n"
proof -
  have "\<lfloor>of_int n + 1 / 2 :: rat\<rfloor> = n" by (rule floor_unique) auto
  then show ?thesis by (simp add: js_round_def)
qed

lemma le_int_div_iff: "0 < b \<Longrightarrow> c \<le> a div b \<longleftrightarrow> c * b \<le> (a :: int)"
proof
  assume b: "0 < b" and "c \<le> a div b"
  then have "c * b \<le> a div b * b" by (intro mult_right_mono) auto
  also have "a div b * b \<le> a"
    using b pos_mod_sign [of b a] div_mult_mod_eq [of a b] by linarith
  finally show "c * b \<le> a" .
next
  assume b: "0 < b" and "c * b \<le> a"
  then have "(c * b) div b \<le> a div b" by (intro zdiv_mono1)
  with b show "c \<le> a div b" by simp
qed

lemma int_div_less_iff: "0 < b \<Longrightarrow> a div b < c \<longleftrightarrow> a < c * (b :: int)"
  using le_int_div_iff [of b c a] by linarith

lemma ceil_div_le_iff: "0 < b \<Longrightarrow> ceil_div a b \<le> c \<longleftrightarrow> a \<le> c * b"
  using le_int_div_iff [of b "- c" "- a"] by (auto simp: ceil_div_def)

subsection \<open>Rows\<close>

text \<open>\<open>UPDATE t SET f WHERE P\<close>.\<close>

definition update_where :: "('r \<Rightarrow> bool) \<Rightarrow> ('r \<Rightarrow> 'r) \<Rightarrow> 'r list \<Rightarrow> 'r list" where
  "update_where P f rows = map (\<lambda>r. if P r then f r else r) rows"

lemma length_update_where [table_simps]: "length (update_where P f rows) = length rows"
  by (simp add: update_where_def)

lemma set_update_where: "r \<in> set (update_where P f rows) \<longleftrightarrow> (\<exists>r' \<in> set rows. r = (if P r' then f r' else r'))"
  by (auto simp: update_where_def)

lemma map_update_where [table_simps]:
  "(\<And>r. P r \<Longrightarrow> g (f r) = g r) \<Longrightarrow> map g (update_where P f rows) = map g rows"
  by (auto simp: update_where_def)

lemma update_where_none [table_simps]: "(\<And>r. r \<in> set rows \<Longrightarrow> \<not> P r) \<Longrightarrow> update_where P f rows = rows"
  by (auto simp: update_where_def intro: map_idI)

lemma update_where_Nil [simp]: "update_where P f [] = []"
  by (simp add: update_where_def)

lemma update_where_Cons [simp]:
  "update_where P f (r # rs) = (if P r then f r else r) # update_where P f rs"
  by (simp add: update_where_def)

lemma update_where_append [simp]:
  "update_where P f (rs @ rs') = update_where P f rs @ update_where P f rs'"
  by (simp add: update_where_def)

lemma find_update_where:
  "(\<And>r. P r \<Longrightarrow> Q (f r) = Q r) \<Longrightarrow>
   find Q (update_where P f rows) = map_option (\<lambda>r. if P r then f r else r) (find Q rows)"
  by (induction rows) auto

lemma find_append [table_simps]:
  "find P (xs @ ys) = (case find P xs of None \<Rightarrow> find P ys | Some x \<Rightarrow> Some x)"
  by (induction xs) auto

lemma find_None_iff_all: "find P xs = None \<longleftrightarrow> (\<forall>x \<in> set xs. \<not> P x)"
  by (auto simp: find_None_iff)

lemma find_SomeD: "find P xs = Some x \<Longrightarrow> P x \<and> x \<in> set xs"
  by (auto simp: find_Some_iff)

lemma find_unique:
  assumes "x \<in> set xs" "P x" "\<And>y. y \<in> set xs \<Longrightarrow> P y \<Longrightarrow> y = x"
  shows "find P xs = Some x"
proof (cases "find P xs")
  case None
  then show ?thesis using assms(1,2) by (simp add: find_None_iff)
next
  case (Some y)
  then show ?thesis using assms(3) by (auto dest: find_SomeD)
qed

lemma distinct_id_eq: "distinct (map f xs) \<Longrightarrow> x \<in> set xs \<Longrightarrow> y \<in> set xs \<Longrightarrow> f x = f y \<Longrightarrow> x = y"
  by (metis distinct_map inj_onD)

lemma find_distinct_key:
  "distinct (map key rows) \<Longrightarrow> r \<in> set rows \<Longrightarrow> find (\<lambda>x. key x = key r) rows = Some r"
  by (induction rows) (auto simp: image_iff)

lemma set_map_filter: "y \<in> set (List.map_filter f xs) \<longleftrightarrow> (\<exists>x \<in> set xs. f x = Some y)"
  by (induction xs) (auto simp: List.map_filter_def)

text \<open>\<open>SELECT ... ORDER BY key DESC LIMIT 1\<close> with the first of equal keys.\<close>

fun max_by :: "('r \<Rightarrow> int) \<Rightarrow> 'r list \<Rightarrow> 'r option" where
  "max_by key [] = None"
| "max_by key (r # rs) =
     (case max_by key rs of None \<Rightarrow> Some r | Some m \<Rightarrow> if key r < key m then Some m else Some r)"

lemma max_by_None [simp]: "max_by key rows = None \<longleftrightarrow> rows = []"
  by (cases rows) (auto split: option.splits)

lemma max_by_Some: "max_by key rows = Some m \<Longrightarrow> m \<in> set rows \<and> (\<forall>r \<in> set rows. key r \<le> key m)"
proof (induction rows arbitrary: m)
  case (Cons r rs)
  then show ?case by (cases "max_by key rs") (fastforce split: if_splits)+
qed simp

lemma max_by_snoc:
  "(\<And>x. x \<in> set rows \<Longrightarrow> key x < key r) \<Longrightarrow> max_by key (rows @ [r]) = Some r"
  by (induction rows) (auto split: option.splits)

subsection \<open>Sorting with a comparator\<close>

text \<open>\<open>Array.prototype.sort\<close> is stable.\<close>

fun insert_by :: "('a \<Rightarrow> 'a \<Rightarrow> 'n :: {linorder, zero}) \<Rightarrow> 'a \<Rightarrow> 'a list \<Rightarrow> 'a list" where
  "insert_by cmp x [] = [x]"
| "insert_by cmp x (y # ys) = (if cmp x y \<le> 0 then x # y # ys else y # insert_by cmp x ys)"

definition sort_by :: "('a \<Rightarrow> 'a \<Rightarrow> 'n :: {linorder, zero}) \<Rightarrow> 'a list \<Rightarrow> 'a list" where
  "sort_by cmp xs = foldr (insert_by cmp) xs []"

definition total_preorder :: "('a \<Rightarrow> 'a \<Rightarrow> 'n :: {linorder, zero}) \<Rightarrow> bool" where
  "total_preorder cmp \<longleftrightarrow> (\<forall>a b. cmp a b \<le> 0 \<or> cmp b a \<le> 0) \<and> (\<forall>a b c. cmp a b \<le> 0 \<longrightarrow> cmp b c \<le> 0 \<longrightarrow> cmp a c \<le> 0)"

lemma set_insert_by: "set (insert_by cmp x ys) = insert x (set ys)"
  by (induction ys) auto

lemma set_sort_by: "set (sort_by cmp xs) = set xs"
  by (induction xs) (auto simp: sort_by_def set_insert_by)

lemma hd_insert_by: "\<exists>zs. insert_by cmp x (y # ys) = (if cmp x y \<le> 0 then x else y) # zs"
  by simp

lemma sort_by_least:
  assumes "total_preorder cmp" "sort_by cmp xs = y # ys" "x \<in> set xs"
  shows "cmp y x \<le> 0"
  using assms(2,3)
proof (induction xs arbitrary: x y ys)
  case (Cons z zs)
  have refl: "cmp a a \<le> 0" for a using assms(1) by (auto simp: total_preorder_def)
  show ?case
  proof (cases "sort_by cmp zs")
    case Nil
    then have "zs = []" using set_sort_by [of cmp zs] by simp
    with Cons.prems show ?thesis by (simp add: sort_by_def refl)
  next
    case inner: (Cons h hs)
    then have y: "y = (if cmp z h \<le> 0 then z else h)"
      using Cons.prems(1) by (auto simp: sort_by_def split: if_splits)
    have least: "cmp h w \<le> 0" if "w \<in> set zs" for w using Cons.IH [OF inner that] .
    show ?thesis
      using Cons.prems(2) y least assms(1) refl unfolding total_preorder_def by (auto split: if_splits)
  qed
qed (simp add: sort_by_def)

lemma lex_trans:
  fixes x y z :: "'a :: linorder"
  shows "y < x \<or> y = x \<and> P \<Longrightarrow> z < y \<or> z = y \<and> Q \<Longrightarrow> (P \<Longrightarrow> Q \<Longrightarrow> R) \<Longrightarrow> z < x \<or> z = x \<and> R"
  by (elim disjE conjE) auto

subsection \<open>Invariants of step relations\<close>

locale step_invariant =
  fixes step :: "'s \<Rightarrow> 's \<Rightarrow> bool"
    and inv :: "'s \<Rightarrow> bool"
  assumes step_keeps: "step s t \<Longrightarrow> inv s \<Longrightarrow> inv t"
begin

lemma run_keeps: "step\<^sup>*\<^sup>* s t \<Longrightarrow> inv s \<Longrightarrow> inv t"
  by (induction rule: rtranclp_induct) (auto intro: step_keeps)

end

end
