(* ===== verification/Jsval.thy ===== *)
theory Jsval
  imports Prelude
begin

text \<open>
  JavaScript values as far as payloads, custom fields and canonical events use them, and the
  canonical text that \<^verbatim>\<open>stableStringify\<close> (\<^verbatim>\<open>src/modules/audit/audit-integrity.ts\<close>) hashes.

  A number is kept as the text ECMAScript prints for it (the text \<^verbatim>\<open>JSON.stringify\<close> writes), an
  object as its entries in insertion order. \<open>JUndef\<close> is \<^verbatim>\<open>undefined\<close>, which JSON drops from objects
  and prints as \<open>null\<close> inside arrays.
\<close>

datatype jsval =
    JUndef
  | JNull
  | JBool bool
  | JNum string
  | JStr string
  | JArr "jsval list"
  | JObj "(string \<times> jsval) list"

type_synonym jsobj = "(string \<times> jsval) list"

definition JInt :: "int \<Rightarrow> jsval" where
  "JInt n = JNum (show_int n)"

text \<open>A nullable column or property.\<close>

definition jopt :: "string option \<Rightarrow> jsval" where
  "jopt x = (case x of None \<Rightarrow> JNull | Some s \<Rightarrow> JStr s)"

text \<open>Property read \<open>o[k]\<close>, and the spread \<open>{ ...a, ...b }\<close>: keys keep their first position.\<close>

definition jget :: "jsobj \<Rightarrow> string \<Rightarrow> jsval" where
  "jget kvs k = (case map_of kvs k of None \<Rightarrow> JUndef | Some v \<Rightarrow> v)"

fun jset :: "string \<Rightarrow> jsval \<Rightarrow> jsobj \<Rightarrow> jsobj" where
  "jset k v [] = [(k, v)]"
| "jset k v ((k', v') # kvs) = (if k = k' then (k, v) # kvs else (k', v') # jset k v kvs)"

fun jspread :: "jsobj \<Rightarrow> jsobj \<Rightarrow> jsobj" where
  "jspread a [] = a"
| "jspread a ((k, v) # b) = jspread (jset k v a) b"

lemma jget_jset: "jget (jset k v kvs) k' = (if k' = k then v else jget kvs k')"
  by (induction kvs) (auto simp: jget_def)

lemma map_of_jset: "map_of (jset k v kvs) = (map_of kvs)(k \<mapsto> v)"
  by (induction kvs) (auto simp: fun_eq_iff)

lemma keys_jset: "fst ` set (jset k v kvs) = insert k (fst ` set kvs)"
  using map_of_jset [of k v kvs] by (metis dom_fun_upd dom_map_of_conv_image_fst option.discI)

lemma distinct_jset: "distinct (map fst kvs) \<Longrightarrow> distinct (map fst (jset k v kvs))"
proof (induction kvs)
  case (Cons e kvs)
  obtain k' v' where e: "e = (k', v')" by (cases e)
  show ?case
  proof (cases "k = k'")
    case False
    with Cons e keys_jset [of k v kvs] show ?thesis by auto
  qed (use Cons e in auto)
qed simp

lemma distinct_jspread: "distinct (map fst a) \<Longrightarrow> distinct (map fst (jspread a b))"
  by (induction a b rule: jspread.induct) (auto simp: distinct_jset)

lemma jget_jspread:
  "distinct (map fst b) \<Longrightarrow> jget (jspread a b) k = (case map_of b k of Some v \<Rightarrow> v | None \<Rightarrow> jget a k)"
proof (induction a b rule: jspread.induct)
  case (2 a k' v b)
  then have nb: "map_of b k' = None" by (auto simp: map_of_eq_None_iff)
  from 2 show ?case by (auto simp: jget_jset nb split: option.splits)
qed simp

text \<open>\<open>JSON.parse(JSON.stringify(v))\<close>: undefined properties disappear, undefined elements become null.\<close>

fun json_clone :: "jsval \<Rightarrow> jsval" where
  "json_clone JUndef = JNull"
| "json_clone (JArr vs) = JArr (map json_clone vs)"
| "json_clone (JObj kvs) = JObj (map (\<lambda>(k, v). (k, json_clone v)) (filter (\<lambda>(k, v). v \<noteq> JUndef) kvs))"
| "json_clone v = v"

lemma json_clone_not_undef [simp]: "json_clone v \<noteq> JUndef"
  by (cases v) auto

lemma json_clone_idem [simp]: "json_clone (json_clone v) = json_clone v"
proof (induction v rule: json_clone.induct)
  case (3 kvs)
  have "filter (\<lambda>(k, v). v \<noteq> JUndef) (map (\<lambda>(k, v). (k, json_clone v)) xs) = map (\<lambda>(k, v). (k, json_clone v)) xs"
    for xs :: jsobj by (induction xs) auto
  with 3 show ?case by (auto simp: o_def intro!: map_cong)
qed (auto simp: o_def)

subsection \<open>Numbers\<close>

text \<open>
  \<open>Number(v)\<close> when it is finite: the decimal forms that JSON and JavaScript print. Binary, octal and
  hexadecimal strings and non-scalar values are read as \<open>NaN\<close>, that is \<open>None\<close>.
\<close>

definition digit_of :: "char \<Rightarrow> nat option" where
  "digit_of c = (let n = (of_char c :: nat) in if 48 \<le> n \<and> n \<le> 57 then Some (n - 48) else None)"

fun read_digits :: "string \<Rightarrow> nat \<Rightarrow> nat \<Rightarrow> nat \<times> nat \<times> string" where
  "read_digits [] acc k = (acc, k, [])"
| "read_digits (c # cs) acc k =
     (case digit_of c of Some d \<Rightarrow> read_digits cs (10 * acc + d) (Suc k) | None \<Rightarrow> (acc, k, c # cs))"

definition read_exponent :: "string \<Rightarrow> int option" where
  "read_exponent s =
     (case s of
        [] \<Rightarrow> Some 0
      | c # r \<Rightarrow>
          if c \<noteq> CHR ''e'' \<and> c \<noteq> CHR ''E'' then None
          else (let (sgn, t) = (case r of [] \<Rightarrow> (1, []) | d # u \<Rightarrow> if d = CHR ''-'' then (-1, u) else if d = CHR ''+'' then (1, u) else (1, r));
                    (n, k, rest) = read_digits t 0 0
                in if k = 0 \<or> rest \<noteq> [] then None else Some (sgn * int n)))"

definition scale10 :: "rat \<Rightarrow> int \<Rightarrow> rat" where
  "scale10 r e = (if 0 \<le> e then r * 10 ^ nat e else r / 10 ^ nat (- e))"

definition read_decimal :: "string \<Rightarrow> rat option" where
  "read_decimal s =
     (let (sgn, t) = (case s of [] \<Rightarrow> (1, []) | c # r \<Rightarrow> if c = CHR ''-'' then (-1, r) else if c = CHR ''+'' then (1, r) else (1, s));
          (a, k, r) = read_digits t 0 0;
          (b, j, r') = (case r of [] \<Rightarrow> (a, 0, []) | c # u \<Rightarrow> if c = CHR ''.'' then read_digits u a 0 else (a, 0, r))
      in if k + j = 0 then None
         else map_option (\<lambda>e. sgn * scale10 (of_nat b) (e - int j)) (read_exponent r'))"

definition js_number :: "jsval \<Rightarrow> rat option" where
  "js_number v =
     (case v of
        JNull \<Rightarrow> Some 0
      | JBool b \<Rightarrow> Some (if b then 1 else 0)
      | JNum t \<Rightarrow> read_decimal t
      | JStr t \<Rightarrow> if trim t = [] then Some 0 else read_decimal (trim t)
      | _ \<Rightarrow> None)"

subsection \<open>The canonical text\<close>

definition hex_char :: "nat \<Rightarrow> char" where
  "hex_char d = (if d < 10 then char_of (48 + d) else char_of (87 + d))"

definition esc_char :: "char \<Rightarrow> string" where
  "esc_char c =
     (if c = CHR 0x22 then [CHR 0x5C, CHR 0x22]
      else if c = CHR 0x5C then [CHR 0x5C, CHR 0x5C]
      else if c = CHR 0x08 then [CHR 0x5C, CHR ''b'']
      else if c = CHR 0x0C then [CHR 0x5C, CHR ''f'']
      else if c = CHR 0x0A then [CHR 0x5C, CHR ''n'']
      else if c = CHR 0x0D then [CHR 0x5C, CHR ''r'']
      else if c = CHR 0x09 then [CHR 0x5C, CHR ''t'']
      else if (of_char c :: nat) < 32
        then [CHR 0x5C, CHR ''u'', CHR ''0'', CHR ''0'', hex_char (of_char c div 16), hex_char (of_char c mod 16)]
      else [c])"

definition json_quote :: "string \<Rightarrow> string" where
  "json_quote s = CHR 0x22 # concat (map esc_char s) @ [CHR 0x22]"

text \<open>
  \<open>stableStringify\<close>: primitives as \<^verbatim>\<open>JSON.stringify\<close> prints them (\<open>?? 'null'\<close> for undefined), arrays
  in order, objects with their keys sorted by code units.
\<close>

function stable_stringify :: "jsval \<Rightarrow> string" where
  "stable_stringify JUndef = ''null''"
| "stable_stringify JNull = ''null''"
| "stable_stringify (JBool b) = (if b then ''true'' else ''false'')"
| "stable_stringify (JNum n) = n"
| "stable_stringify (JStr s) = json_quote s"
| "stable_stringify (JArr vs) = ''['' @ join '','' (map stable_stringify vs) @ '']''"
| "stable_stringify (JObj kvs) =
     ''{'' @ join '','' (map (\<lambda>(k, v). json_quote k @ '':'' @ stable_stringify v) (sort_key fst kvs)) @ ''}''"
  by pat_completeness auto
termination
proof (relation "measure size", goal_cases)
  case (3 kvs e k v)
  then have "(k, v) \<in> set kvs" by simp
  then have "size v < size_list (size_prod (\<lambda>_. 0) size) kvs"
    by (induction kvs) auto
  then show ?case by simp
qed (auto simp: less_Suc_eq_le intro: size_list_estimation')

text \<open>
  What the text stands for: the value with every object's entries in key order and undefined read
  as null.
\<close>

function canon :: "jsval \<Rightarrow> jsval" where
  "canon JUndef = JNull"
| "canon (JArr vs) = JArr (map canon vs)"
| "canon (JObj kvs) = JObj (map (\<lambda>(k, v). (k, canon v)) (sort_key fst kvs))"
| "canon JNull = JNull"
| "canon (JBool b) = JBool b"
| "canon (JNum n) = JNum n"
| "canon (JStr s) = JStr s"
  by pat_completeness auto
termination
proof (relation "measure size", goal_cases)
  case (3 kvs e k v)
  then have "(k, v) \<in> set kvs" by simp
  then have "size v < size_list (size_prod (\<lambda>_. 0) size) kvs"
    by (induction kvs) auto
  then show ?case by simp
qed (auto simp: less_Suc_eq_le intro: size_list_estimation')

subsection \<open>The text determines the value up to key order\<close>

lemma stringify_key_order:
  assumes "mset kvs = mset kvs'" and "distinct (map fst kvs)"
  shows "stable_stringify (JObj kvs) = stable_stringify (JObj kvs')"
proof -
  have "sort_key fst kvs = sort_key fst kvs'"
    by (rule sort_key_inj_key_eq) (use assms in \<open>auto simp: distinct_map\<close>)
  then show ?thesis by simp
qed
text \<open>An inverse of the escaping, for the proof that it is uniquely readable.\<close>

fun unesc :: "string \<Rightarrow> (char \<times> string) option" where
  "unesc [] = None"
| "unesc (c # r) =
     (if c \<noteq> CHR 0x5C then Some (c, r)
      else case r of
        [] \<Rightarrow> None
      | e # r' \<Rightarrow>
          if e = CHR ''u'' then
            (case r' of a # b # h # l # r'' \<Rightarrow>
               Some (char_of (16 * (if h = CHR ''1'' then 1 else 0 :: nat) +
                 (let d = of_char l :: nat in if d < 58 then d - 48 else d - 87)), r'')
             | _ \<Rightarrow> None)
          else Some (if e = CHR ''b'' then CHR 0x08 else if e = CHR ''f'' then CHR 0x0C
            else if e = CHR ''n'' then CHR 0x0A else if e = CHR ''r'' then CHR 0x0D
            else if e = CHR ''t'' then CHR 0x09 else e, r'))"

lemma unesc_esc: "unesc (esc_char c @ x) = Some (c, x)"
proof (cases "(of_char c :: nat) < 32")
  case True
  define n where "n = (of_char c :: nat)"
  then have c: "c = char_of n" by simp
  from True have "n < 32" by (simp add: n_def)
  then have "n \<in> {0,1,2,3,4,5,6,7,8,9,10,11,12,13,14,15,16,17,18,19,20,21,22,23,24,25,26,27,28,29,30,31}"
    unfolding insert_iff empty_iff by arith
  then show ?thesis unfolding c
    by (elim insertE emptyE) (simp_all add: esc_char_def hex_char_def char_of_def bit_numeral_rec bit_Suc_0_iff)
next
  case False
  then show ?thesis by (auto simp: esc_char_def)
qed
lemma esc_char_prefix: "esc_char c @ x = esc_char d @ y \<Longrightarrow> c = d \<and> x = y"
  by (metis unesc_esc option.inject prod.inject)

lemma esc_char_not_quote: "esc_char c = a # r \<Longrightarrow> a \<noteq> CHR 0x22"
  by (auto simp: esc_char_def split: if_splits)

lemma esc_char_nonempty: "esc_char c \<noteq> []"
  by (simp add: esc_char_def)

lemma escaped_prefix:
  "concat (map esc_char s) @ CHR 0x22 # x = concat (map esc_char t) @ CHR 0x22 # y \<Longrightarrow> s = t \<and> x = y"
proof (induction s arbitrary: t)
  case Nil
  then show ?case
    by (cases t) (auto dest: esc_char_not_quote [OF sym] esc_char_not_quote
      simp: append_eq_Cons_conv Cons_eq_append_conv esc_char_nonempty)
next
  case (Cons c s)
  show ?case
  proof (cases t)
    case Nil
    with Cons.prems show ?thesis
      by (auto dest: esc_char_not_quote simp: append_eq_Cons_conv Cons_eq_append_conv esc_char_nonempty)
  next
    case (Cons d t')
    with Cons.prems have "esc_char c @ (concat (map esc_char s) @ CHR 0x22 # x) =
        esc_char d @ (concat (map esc_char t') @ CHR 0x22 # y)" by simp
    from esc_char_prefix [OF this] Cons.IH Cons show ?thesis by blast
  qed
qed

lemma json_quote_prefix: "json_quote s @ x = json_quote t @ y \<Longrightarrow> s = t \<and> x = y"
  unfolding json_quote_def using escaped_prefix [of s x t y] by simp

text \<open>Number texts: what ECMAScript prints for a finite number.\<close>

definition num_char :: "char \<Rightarrow> bool" where
  "num_char c \<longleftrightarrow> c \<in> set ''0123456789+-.e''"

lemma not_num_char [simp]:
  "\<not> num_char CHR ''n''" "\<not> num_char CHR ''t''" "\<not> num_char CHR ''f''" "\<not> num_char CHR 0x22"
  "\<not> num_char CHR ''[''" "\<not> num_char CHR ''{''" "\<not> num_char CHR '']''" "\<not> num_char CHR ''}''"
  by (simp_all add: num_char_def)

definition num_text :: "string \<Rightarrow> bool" where
  "num_text n \<longleftrightarrow> n \<noteq> [] \<and> (\<forall>c \<in> set n. num_char c)"

fun nums_ok :: "jsval \<Rightarrow> bool" where
  "nums_ok (JNum n) = num_text n"
| "nums_ok (JArr vs) = (\<forall>v \<in> set vs. nums_ok v)"
| "nums_ok (JObj kvs) = (\<forall>(k, v) \<in> set kvs. nums_ok v)"
| "nums_ok _ = True"

text \<open>What may follow a value inside a larger text.\<close>

definition delim :: "string \<Rightarrow> bool" where
  "delim r \<longleftrightarrow> r = [] \<or> hd r \<in> {CHR '','', CHR '']'', CHR ''}''}"

lemma delim_simps [simp]: "delim []" "delim (CHR '','' # r)" "delim (CHR '']'' # r)" "delim (CHR ''}'' # r)"
  by (simp_all add: delim_def)

lemma num_text_prefix:
  assumes "num_text n" "num_text m" "delim r" "delim s" "n @ r = m @ s"
  shows "n = m \<and> r = s"
proof -
  have *: "takeWhile num_char (n @ r) = n" if "num_text n" "delim r" for n r
    using that by (cases r) (auto simp: num_text_def delim_def num_char_def takeWhile_append2)
  from * [OF assms(1,3)] * [OF assms(2,4)] assms(5) have "n = m" by simp
  with assms(5) show ?thesis by simp
qed

text \<open>
  Reading back a bracketed, comma-separated list: if each element's text determines the element and
  where it stops, the whole list's text determines the list.
\<close>

definition reads_back :: "('a \<Rightarrow> string) \<Rightarrow> ('a \<Rightarrow> 'b) \<Rightarrow> 'a \<Rightarrow> 'a set \<Rightarrow> bool" where
  "reads_back txt val x Y \<longleftrightarrow>
     (\<forall>y \<in> Y. \<forall>r s. delim r \<longrightarrow> delim s \<longrightarrow> txt x @ r = txt y @ s \<longrightarrow> val x = val y \<and> r = s)"

lemma tail_reads_back:
  assumes "\<And>x. x \<in> set xs \<Longrightarrow> reads_back txt val x Y" and "set ys \<subseteq> Y"
    and "cl \<in> {CHR '']'', CHR ''}''}"
    and "concat (map (\<lambda>x. CHR '','' # txt x) xs) @ cl # r = concat (map (\<lambda>x. CHR '','' # txt x) ys) @ cl # s"
  shows "map val xs = map val ys \<and> r = s"
  using assms
proof (induction xs arbitrary: ys)
  case Nil
  then show ?case by (cases ys) auto
next
  case (Cons x xs)
  show ?case
  proof (cases ys)
    case Nil
    with Cons.prems show ?thesis by auto
  next
    case (Cons y ys')
    let ?rest = "\<lambda>zs r. concat (map (\<lambda>x. CHR '','' # txt x) zs) @ cl # r"
    have d: "delim (?rest zs r)" for zs r
      using Cons.prems(3) by (cases zs) auto
    from Cons Cons.prems(4) have "txt x @ ?rest xs r = txt y @ ?rest ys' s" by simp
    with Cons.prems(1,2) Cons d have "val x = val y \<and> ?rest xs r = ?rest ys' s"
      unfolding reads_back_def by (meson list.set_intros(1) subsetD)
    with Cons.IH [of ys'] Cons.prems Cons show ?thesis by auto
  qed
qed

lemma join_comma: "join '','' (x # xs) = x @ concat (map (\<lambda>y. CHR '','' # y) xs)"
  by (induction xs arbitrary: x) auto

lemma list_reads_back:
  assumes "\<And>x. x \<in> set xs \<Longrightarrow> reads_back txt val x Y" and "set ys \<subseteq> Y"
    and cl: "cl \<in> {CHR '']'', CHR ''}''}"
    and head: "\<And>x a u. x \<in> set xs \<union> set ys \<Longrightarrow> txt x \<noteq> [] \<and> hd (txt x) \<noteq> cl"
    and eq: "join '','' (map txt xs) @ cl # r = join '','' (map txt ys) @ cl # s"
  shows "map val xs = map val ys \<and> r = s"
proof (cases xs)
  case Nil
  show ?thesis
  proof (cases ys)
    case (Cons y ys')
    with Nil eq head [of y] show ?thesis
      by (cases "txt y") (auto simp: join_comma simp del: join.simps(2,3))
  qed (use Nil eq in auto)
next
  case (Cons x xs')
  show ?thesis
  proof (cases ys)
    case Nil
    with Cons eq head [of x] show ?thesis
      by (cases "txt x") (auto simp: join_comma simp del: join.simps(2,3))
  next
    case (Cons y ys')
    have "concat (map (\<lambda>x. CHR '','' # txt x) xs) @ cl # r = concat (map (\<lambda>x. CHR '','' # txt x) ys) @ cl # s"
      using \<open>xs = x # xs'\<close> Cons eq
      by (simp add: join_comma o_def del: join.simps(2,3))
    with assms(1,2) cl show ?thesis by (rule tail_reads_back)
  qed
qed


lemma num_head_num:
  assumes "num_text n" shows "\<exists>c n'. n = c # n' \<and> num_char c"
  using assms by (cases n) (auto simp: num_text_def)

lemma num_text_head: "num_text m \<Longrightarrow> c # x = m @ s \<Longrightarrow> num_char c"
  by (cases m) (auto simp: num_text_def)

lemma value_head:
  assumes "nums_ok v"
  shows "stable_stringify v \<noteq> [] \<and> hd (stable_stringify v) \<notin> {CHR '']'', CHR ''}''}"
proof (cases v)
  case (JNum n)
  with assms num_head_num [of n] show ?thesis by auto
qed (auto simp: json_quote_def)

text \<open>Two values whose texts start alike have the same outermost shape.\<close>

lemma value_reads_back:
  "nums_ok v \<Longrightarrow> reads_back stable_stringify canon v {w. nums_ok w}"
proof (induction v)
  case (JNum n)
  show ?case unfolding reads_back_def
  proof (intro ballI allI impI)
    fix w r s
    assume w: "w \<in> {w. nums_ok w}" "delim r" "delim s"
      and eq: "stable_stringify (JNum n) @ r = stable_stringify w @ s"
    from JNum num_head_num [of n] obtain c n' where c: "n = c # n'" "num_char c" by auto
    show "canon (JNum n) = canon w \<and> r = s"
    proof (cases w)
      case (JNum m)
      then show ?thesis using num_text_prefix [of n m r s] w eq \<open>nums_ok (JNum n)\<close> by simp
    qed (use eq c in \<open>auto simp: json_quote_def split: if_splits\<close>)
  qed
next
  case (JStr t)
  show ?case unfolding reads_back_def
  proof (intro ballI allI impI)
    fix w r s
    assume w: "w \<in> {w. nums_ok w}" "delim r" "delim s"
      and eq: "stable_stringify (JStr t) @ r = stable_stringify w @ s"
    show "canon (JStr t) = canon w \<and> r = s"
    proof (cases w)
      case (JStr u)
      then show ?thesis using json_quote_prefix [of t r u s] eq by simp
    next
      case (JNum m)
      then show ?thesis using eq w num_head_num [of m] by (auto simp: json_quote_def)
    qed (use eq in \<open>auto simp: json_quote_def split: if_splits\<close>)
  qed
next
  case (JArr vs)
  show ?case unfolding reads_back_def
  proof (intro ballI allI impI)
    fix w r s
    assume w: "w \<in> {w. nums_ok w}" "delim r" "delim s"
      and eq: "stable_stringify (JArr vs) @ r = stable_stringify w @ s"
    show "canon (JArr vs) = canon w \<and> r = s"
    proof (cases w)
      case (JArr ws)
      have "map canon vs = map canon ws \<and> r = s"
      proof (rule list_reads_back)
        show "\<And>x. x \<in> set vs \<Longrightarrow> reads_back stable_stringify canon x {w. nums_ok w}"
          using JArr.IH JArr.prems by simp
        show "set ws \<subseteq> {w. nums_ok w}" using w \<open>w = JArr ws\<close> by auto
        show "join '','' (map stable_stringify vs) @ CHR '']'' # r = join '','' (map stable_stringify ws) @ CHR '']'' # s"
          using eq \<open>w = JArr ws\<close> by simp
        fix x
        assume "x \<in> set vs \<union> set ws"
        then have "nums_ok x" using JArr.prems w \<open>w = JArr ws\<close> by auto
        from value_head [OF this] show "stable_stringify x \<noteq> [] \<and> hd (stable_stringify x) \<noteq> CHR '']''" by simp
      qed simp
      then show ?thesis using \<open>w = JArr ws\<close> by simp
    next
      case (JNum m)
      then show ?thesis using eq w num_head_num [of m] by auto
    qed (use eq in \<open>auto simp: json_quote_def split: if_splits\<close>)
  qed
next
  case (JObj kvs)
  let ?txt = "\<lambda>(k, v). json_quote k @ '':'' @ stable_stringify v"
  let ?val = "\<lambda>(k, v). (k, canon v)"
  have entry: "reads_back ?txt ?val (k, v) {(k, w). nums_ok w}" if "(k, v) \<in> set kvs" for k v
    unfolding reads_back_def
  proof (intro ballI allI impI)
    fix e r s
    assume "e \<in> {(k, w). nums_ok w}" "delim r" "delim s" "?txt (k, v) @ r = ?txt e @ s"
    moreover obtain k' w where e: "e = (k', w)" by (cases e)
    ultimately have w: "nums_ok w" "delim r" "delim s"
      and "json_quote k @ (CHR '':'' # stable_stringify v @ r) = json_quote k' @ (CHR '':'' # stable_stringify w @ s)"
      by auto
    from json_quote_prefix [OF this(4)] have "k = k'" "stable_stringify v @ r = stable_stringify w @ s" by auto
    moreover have "reads_back stable_stringify canon v {w. nums_ok w}"
      using that JObj by (metis (mono_tags, lifting) case_prodD nums_ok.simps(3) snds.intros snd_conv)
    ultimately show "?val (k, v) = ?val e \<and> r = s"
      using w unfolding e reads_back_def by auto
  qed
  show ?case unfolding reads_back_def
  proof (intro ballI allI impI)
    fix w r s
    assume w: "w \<in> {w. nums_ok w}" "delim r" "delim s"
      and eq: "stable_stringify (JObj kvs) @ r = stable_stringify w @ s"
    show "canon (JObj kvs) = canon w \<and> r = s"
    proof (cases w)
      case (JObj kws)
      have "map ?val (sort_key fst kvs) = map ?val (sort_key fst kws) \<and> r = s"
      proof (rule list_reads_back)
        show "\<And>x. x \<in> set (sort_key fst kvs) \<Longrightarrow> reads_back ?txt ?val x {(k, w). nums_ok w}"
          using entry by auto
        show "set (sort_key fst kws) \<subseteq> {(k, w). nums_ok w}" using w \<open>w = JObj kws\<close> by auto
        show "join '','' (map ?txt (sort_key fst kvs)) @ CHR ''}'' # r =
            join '','' (map ?txt (sort_key fst kws)) @ CHR ''}'' # s"
          using eq \<open>w = JObj kws\<close> by simp
        fix x :: "string \<times> jsval"
        show "?txt x \<noteq> [] \<and> hd (?txt x) \<noteq> CHR ''}''" by (cases x) (simp add: json_quote_def)
      qed simp
      then show ?thesis using \<open>w = JObj kws\<close> by simp
    next
      case (JNum m)
      then show ?thesis using eq w num_head_num [of m] by auto
    qed (use eq in \<open>auto simp: json_quote_def split: if_splits\<close>)
  qed
next
  case JUndef
  show ?case unfolding reads_back_def
  proof (intro ballI allI impI)
    fix w r s
    assume "w \<in> {w. nums_ok w}" "stable_stringify JUndef @ r = stable_stringify w @ s"
    then show "canon JUndef = canon w \<and> r = s"
      by (cases w) (auto simp: json_quote_def split: if_splits dest: num_text_head)
  qed
next
  case JNull
  show ?case unfolding reads_back_def
  proof (intro ballI allI impI)
    fix w r s
    assume "w \<in> {w. nums_ok w}" "stable_stringify JNull @ r = stable_stringify w @ s"
    then show "canon JNull = canon w \<and> r = s"
      by (cases w) (auto simp: json_quote_def split: if_splits dest: num_text_head)
  qed
next
  case (JBool b)
  show ?case unfolding reads_back_def
  proof (intro ballI allI impI)
    fix w r s
    assume "w \<in> {w. nums_ok w}" "stable_stringify (JBool b) @ r = stable_stringify w @ s"
    then show "canon (JBool b) = canon w \<and> r = s"
      by (cases w) (auto simp: json_quote_def split: if_splits dest: num_text_head)
  qed
qed

lemma sort_key_map_snd:
  "sort_key fst (map (\<lambda>(k, v). (k, f v)) (sort_key fst kvs)) = map (\<lambda>(k, v). (k, f v)) (sort_key fst kvs)"
proof -
  have "sorted (map fst (map (\<lambda>(k, v). (k, f v)) (sort_key fst kvs)))"
    by (simp add: o_def case_prod_beta)
  then show ?thesis by (rule sort_key_id_if_sorted)
qed

lemma stringify_canon: "stable_stringify (canon v) = stable_stringify v"
proof (induction v)
  case (JObj kvs)
  have "stable_stringify (canon v) = stable_stringify v" if "(k, v) \<in> set kvs" for k v
    using JObj that by (metis snds.intros snd_conv)
  then have "map (\<lambda>(k, v). json_quote k @ '':'' @ stable_stringify v) (map (\<lambda>(k, v). (k, canon v)) (sort_key fst kvs))
      = map (\<lambda>(k, v). json_quote k @ '':'' @ stable_stringify v) (sort_key fst kvs)"
    by auto
  then show ?case by (simp only: canon.simps stable_stringify.simps sort_key_map_snd)
next
  case (JArr vs)
  then have "map stable_stringify (map canon vs) = map stable_stringify vs" by simp
  then show ?case by (simp only: canon.simps stable_stringify.simps)
qed auto

lemma stringify_eq_iff:
  assumes "nums_ok v" "nums_ok w"
  shows "stable_stringify v = stable_stringify w \<longleftrightarrow> canon v = canon w"
  using value_reads_back [OF assms(1)] assms(2) stringify_canon
  unfolding reads_back_def by (metis (full_types) append_Nil2 delim_simps(1) mem_Collect_eq)

end
