(* ===== verification/JsDate.thy ===== *)
theory JsDate
  imports Prelude
begin

text \<open>
  The UTC calendar arithmetic of \<^verbatim>\<open>Date\<close> that the services use, on milliseconds since the epoch:
  the day a time falls on, its weekday (0 is Sunday) and hour, and the ISO-8601 text of
  \<^verbatim>\<open>toISOString()\<close>. Part of the language's library, not of the repository.
\<close>

definition minute_ms :: int where "minute_ms = 60000"
definition hour_ms :: int where "hour_ms = 3600000"
definition day_ms :: int where "day_ms = 86400000"

lemmas date_units = minute_ms_def hour_ms_def day_ms_def

definition utc_day_number :: "time \<Rightarrow> int" where
  "utc_day_number t = t div day_ms"

definition utc_midnight :: "time \<Rightarrow> time" where
  "utc_midnight t = utc_day_number t * day_ms"

text \<open>1 January 1970 was a Thursday, so \<open>getUTCDay\<close> of day 0 is 4.\<close>

definition weekday_of :: "int \<Rightarrow> int" where
  "weekday_of d = (d + 4) mod 7"

definition utc_day :: "time \<Rightarrow> int" where
  "utc_day t = weekday_of (utc_day_number t)"

definition utc_hours :: "time \<Rightarrow> int" where
  "utc_hours t = (t mod day_ms) div hour_ms"

definition pad :: "nat \<Rightarrow> int \<Rightarrow> string" where
  "pad w n = (let s = show_nat (nat n) in replicate (w - length s) CHR ''0'' @ s)"

text \<open>Year, month and day of a day number (proleptic Gregorian calendar).\<close>

definition civil :: "int \<Rightarrow> int \<times> int \<times> int" where
  "civil d =
     (let z = d + 719468; era = z div 146097; doe = z mod 146097;
          yoe = (doe - doe div 1460 + doe div 36524 - doe div 146096) div 365;
          doy = doe - (365 * yoe + yoe div 4 - yoe div 100);
          mp = (5 * doy + 2) div 153;
          m = (if mp < 10 then mp + 3 else mp - 9)
      in (yoe + era * 400 + (if m \<le> 2 then 1 else 0), m, doy - (153 * mp + 2) div 5 + 1))"

definition iso_string :: "time \<Rightarrow> string" where
  "iso_string t =
     (let (y, m, d) = civil (utc_day_number t); r = t mod day_ms in
      (if 0 \<le> y \<and> y \<le> 9999 then pad 4 y else (if y < 0 then ''-'' else ''+'') @ pad 6 \<bar>y\<bar>)
      @ ''-'' @ pad 2 m @ ''-'' @ pad 2 d @ ''T'' @ pad 2 (r div hour_ms) @ '':''
      @ pad 2 ((r div minute_ms) mod 60) @ '':'' @ pad 2 ((r div 1000) mod 60) @ ''.''
      @ pad 3 (r mod 1000) @ ''Z'')"

lemma day_ms_pos [simp]: "0 < day_ms" and hour_ms_pos [simp]: "0 < hour_ms" and minute_ms_pos [simp]: "0 < minute_ms"
  by (simp_all add: date_units)

lemma units_nonneg [simp]: "0 \<le> day_ms" "0 \<le> hour_ms" "0 \<le> minute_ms"
  by (simp_all add: date_units)

lemma split_day: "t = utc_midnight t + t mod day_ms"
  by (simp add: utc_midnight_def utc_day_number_def)

lemma utc_midnight_le: "utc_midnight t \<le> t"
  using split_day [of t] pos_mod_sign [OF day_ms_pos, of t] by linarith

lemma utc_midnight_gt: "t < utc_midnight t + day_ms"
  using split_day [of t] pos_mod_bound [OF day_ms_pos, of t] by linarith

lemma utc_day_number_midnight [simp]: "utc_day_number (d * day_ms) = d"
  using day_ms_pos by (simp add: utc_day_number_def del: day_ms_pos)

lemma utc_hours_iff: "utc_hours t < h \<longleftrightarrow> t < utc_midnight t + h * hour_ms"
proof -
  have "utc_hours t < h \<longleftrightarrow> t mod day_ms < h * hour_ms"
    unfolding utc_hours_def by (simp add: int_div_less_iff)
  then show ?thesis using split_day [of t] by linarith
qed

lemma weekday_range: "0 \<le> weekday_of d \<and> weekday_of d < 7"
  unfolding weekday_of_def by simp

end
