(* ===== verification/Store.thy ===== *)
theory Store
  imports Jsval JsDate
begin

text \<open>
  The rows the core tables hold (\<^verbatim>\<open>src/database/database.service.ts\<close>) and the part of the state
  every component shares: the work items, the two event tables, the audit hash chain, the outbox
  and the in-process bus's log of emitted events. A component with tables of its own extends this
  record, so the outbox and audit operations apply to its state unchanged.
\<close>

record work_item =
  wi_id :: uuid
  wi_key :: string
  wi_type :: string
  wi_title :: string
  wi_description :: string
  wi_status :: string
  wi_workflow_version :: int
  wi_priority :: string
  wi_severity :: "string option"
  wi_owner_id :: "string option"
  wi_team_id :: string
  wi_org_id :: string
  wi_entered_state_at :: "time option"
  wi_aging_bucket :: string
  wi_aging_score :: rat
  wi_sla_elapsed_minutes :: int
  wi_sla_clock_started_at :: "time option"
  wi_sla_suspended :: bool
  wi_custom_fields :: jsobj
  wi_tags :: "string list"
  wi_created_at :: time
  wi_updated_at :: time
  wi_origin :: string
  wi_source_twin_id :: "string option"
  wi_source_system :: "string option"

record domain_event =
  de_event_id :: uuid
  de_org_id :: "string option"
  de_event_type :: string
  de_schema_version :: int
  de_work_item_id :: "string option"
  de_actor_type :: string
  de_actor_id :: string
  de_payload :: jsval
  de_occurred_at :: time

record audit_event =
  ae_id :: uuid
  ae_event_type :: string
  ae_work_item_id :: string
  ae_actor_type :: string
  ae_actor_id :: string
  ae_payload :: jsval
  ae_timestamp :: time

record integrity_entry =
  ie_sequence :: int
  ie_org_id :: string
  ie_source :: string
  ie_event_id :: uuid
  ie_work_item_id :: "string option"
  ie_event_type :: string
  ie_occurred_at :: time
  ie_previous_hash :: "string option"
  ie_event_hash :: string
  ie_canonical :: jsval
  ie_proof_version :: int

record outbox_row =
  ob_event_id :: uuid
  ob_status :: string
  ob_attempts :: int
  ob_last_error :: "string option"
  ob_created_at :: time
  ob_last_attempt_at :: "time option"
  ob_dispatched_at :: "time option"

record envelope =
  ev_id :: uuid
  ev_type :: string
  ev_schema_version :: int
  ev_timestamp :: time
  ev_actor_type :: string
  ev_actor_id :: string
  ev_work_item_id :: string
  ev_payload :: jsval

record store =
  work_items :: "work_item list"
  domain_events :: "domain_event list"
  audit_events :: "audit_event list"
  integrity :: "integrity_entry list"
  integrity_seq :: int
  outbox :: "outbox_row list"
  emitted :: "envelope list"

definition empty_store :: store where
  "empty_store = \<lparr>work_items = [], domain_events = [], audit_events = [], integrity = [],
     integrity_seq = 1, outbox = [], emitted = []\<rparr>"

end
