(* ===== verification/AuditChain.thy ===== *)
theory AuditChain
  imports Store
begin

text \<open>
  The tenant audit chain of \<^verbatim>\<open>src/modules/audit/audit-integrity.ts\<close>: the canonical event that is
  hashed, the append with its bounded retry, and the verification that recomputes every link from
  the stored source rows. The SHA-256 digest (Node's crypto) is the parameter \<open>sha\<close>.

  The append reads the head and inserts as two statements, so other writers may commit in
  between: \<open>env k\<close> is what they commit between the read and the insert of attempt \<open>k\<close>. The caller
  passes either the pool, where each statement is its own transaction, or an open transaction,
  which PostgreSQL aborts at its first failed statement (every later statement of it fails with
  SQLSTATE 25P02 until it is rolled back).
\<close>

record audit_input =
  ai_source :: string
  ai_event_id :: uuid
  ai_org_id :: "string option"
  ai_work_item_id :: "string option"
  ai_event_type :: string
  ai_actor_type :: string
  ai_actor_id :: string
  ai_payload :: jsval
  ai_occurred_at :: time

definition js_truthy :: "jsval \<Rightarrow> bool" where
  "js_truthy v = (case v of JUndef \<Rightarrow> False | JNull \<Rightarrow> False | JBool b \<Rightarrow> b | JNum n \<Rightarrow> n \<noteq> ''0''
     | JStr s \<Rightarrow> s \<noteq> [] | JArr _ \<Rightarrow> True | JObj _ \<Rightarrow> True)"

definition or_empty_obj :: "jsval \<Rightarrow> jsval" where
  "or_empty_obj v = (if js_truthy v then v else JObj [])"

definition or_null :: "string option \<Rightarrow> string option" where
  "or_null x = (case x of None \<Rightarrow> None | Some s \<Rightarrow> if s = [] then None else Some s)"

definition audit_proof_version :: int where "audit_proof_version = 1"

definition canonical_audit_event :: "audit_input \<Rightarrow> jsval" where
  "canonical_audit_event i = JObj
     [(''proof_version'', JInt audit_proof_version),
      (''source'', JStr (ai_source i)),
      (''event_id'', JStr (ai_event_id i)),
      (''org_id'', jopt (ai_org_id i)),
      (''work_item_id'', jopt (ai_work_item_id i)),
      (''event_type'', JStr (ai_event_type i)),
      (''actor'', JObj [(''type'', JStr (ai_actor_type i)), (''id'', JStr (ai_actor_id i))]),
      (''occurred_at'', JStr (iso_string (ai_occurred_at i))),
      (''payload'', json_clone (or_empty_obj (ai_payload i)))]"

definition hash_text :: "string option \<Rightarrow> jsval \<Rightarrow> string" where
  "hash_text prev ev =
     (case or_null prev of None \<Rightarrow> ''GENESIS'' | Some h \<Rightarrow> h) @ [CHR 0x0A] @ stable_stringify ev"

definition calculate_audit_hash :: "(string \<Rightarrow> string) \<Rightarrow> string option \<Rightarrow> jsval \<Rightarrow> string" where
  "calculate_audit_hash sha prev ev = sha (hash_text prev ev)"

subsection \<open>Appending\<close>

datatype db_error =
    UniqueViolation string
  | NotNullViolation string
  | TransactionAborted

datatype insert_outcome = Inserted | Ignored | Violates string

datatype queryable = Pool | Transaction

text \<open>
  \<open>INSERT ... ON CONFLICT (source, event_id) DO NOTHING\<close> under the three unique indexes of the
  table. The serial column takes its value whether or not the row is kept.
\<close>

definition insert_integrity :: "integrity_entry \<Rightarrow> 'z store_scheme \<Rightarrow> insert_outcome \<times> 'z store_scheme" where
  "insert_integrity e st =
     (let st1 = st\<lparr>integrity_seq := integrity_seq st + 1\<rparr>;
          same_org = filter (\<lambda>x. ie_org_id x = ie_org_id e) (integrity st)
      in if \<exists>x \<in> set (integrity st). ie_source x = ie_source e \<and> ie_event_id x = ie_event_id e
           then (Ignored, st1)
         else if \<exists>x \<in> set same_org. ie_event_hash x = ie_event_hash e
           then (Violates ''audit_integrity_hash_unique'', st1)
         else if ie_previous_hash e \<noteq> None \<and> (\<exists>x \<in> set same_org. ie_previous_hash x = ie_previous_hash e)
           then (Violates ''audit_integrity_chain_link'', st1)
         else if ie_previous_hash e = None \<and> (\<exists>x \<in> set same_org. ie_previous_hash x = None)
           then (Violates ''audit_integrity_chain_genesis'', st1)
         else (Inserted, st1\<lparr>integrity := integrity st @ [e\<lparr>ie_sequence := integrity_seq st\<rparr>]\<rparr>))"

definition chain_head :: "'z store_scheme \<Rightarrow> string \<Rightarrow> string option" where
  "chain_head st org =
     or_null (map_option ie_event_hash
       (max_by ie_sequence (filter (\<lambda>x. ie_org_id x = org) (integrity st))))"

definition new_entry :: "(string \<Rightarrow> string) \<Rightarrow> audit_input \<Rightarrow> string \<Rightarrow> string option \<Rightarrow> integrity_entry" where
  "new_entry sha i org prev =
     \<lparr>ie_sequence = 0, ie_org_id = org, ie_source = ai_source i, ie_event_id = ai_event_id i,
      ie_work_item_id = ai_work_item_id i, ie_event_type = ai_event_type i,
      ie_occurred_at = ai_occurred_at i, ie_previous_hash = prev,
      ie_event_hash = calculate_audit_hash sha prev (canonical_audit_event i),
      ie_canonical = json_clone (canonical_audit_event i), ie_proof_version = audit_proof_version\<rparr>"

definition max_append_attempts :: nat where "max_append_attempts = 8"

definition chain_prefix :: string where "chain_prefix = ''audit_integrity_chain_''"

text \<open>One attempt per unit of \<open>left\<close>; a lost race on a chain index is retried against the new head.\<close>

fun append_attempts ::
  "(string \<Rightarrow> string) \<Rightarrow> queryable \<Rightarrow> (nat \<Rightarrow> 'z store_scheme \<Rightarrow> 'z store_scheme) \<Rightarrow> audit_input \<Rightarrow> string
   \<Rightarrow> nat \<Rightarrow> nat \<Rightarrow> bool \<Rightarrow> 'z store_scheme \<Rightarrow> db_error + 'z store_scheme" where
  "append_attempts sha q env i org 0 k aborted st = Inr st"
| "append_attempts sha q env i org (Suc left) k aborted st =
     (if aborted then Inl TransactionAborted
      else
        (let prev = chain_head st org in
         case insert_integrity (new_entry sha i org prev) (env k st) of
           (Inserted, st') \<Rightarrow> Inr st'
         | (Ignored, st') \<Rightarrow> Inr st'
         | (Violates c, st') \<Rightarrow>
             if take (length chain_prefix) c \<noteq> chain_prefix \<or> left = 0 then Inl (UniqueViolation c)
             else append_attempts sha q env i org left (Suc k) (q = Transaction) st'))"

definition append_audit_entry ::
  "(string \<Rightarrow> string) \<Rightarrow> queryable \<Rightarrow> (nat \<Rightarrow> 'z store_scheme \<Rightarrow> 'z store_scheme) \<Rightarrow> audit_input
   \<Rightarrow> 'z store_scheme \<Rightarrow> db_error + 'z store_scheme" where
  "append_audit_entry sha q env i st =
     (if \<exists>x \<in> set (integrity st). ie_source x = ai_source i \<and> ie_event_id x = ai_event_id i then Inr st
      else case ai_org_id i of
        None \<Rightarrow> Inl (NotNullViolation ''org_id'')
      | Some org \<Rightarrow> append_attempts sha q env i org max_append_attempts 1 False st)"

text \<open>No other writer between the two statements.\<close>

definition quiet :: "nat \<Rightarrow> 'z store_scheme \<Rightarrow> 'z store_scheme" where
  "quiet k st = st"

subsection \<open>Verification\<close>

record integrity_metadata =
  im_proof_version :: int
  im_sequence :: int
  im_previous_hash :: "string option"
  im_hash :: string
  im_verified :: bool

definition verify_audit_entry :: "(string \<Rightarrow> string) \<Rightarrow> integrity_entry \<Rightarrow> audit_input \<Rightarrow> integrity_metadata" where
  "verify_audit_entry sha r cur =
     \<lparr>im_proof_version = ie_proof_version r, im_sequence = ie_sequence r,
      im_previous_hash = or_null (ie_previous_hash r), im_hash = ie_event_hash r,
      im_verified = (ie_proof_version r = audit_proof_version \<and>
        calculate_audit_hash sha (or_null (ie_previous_hash r)) (canonical_audit_event cur) = ie_event_hash r)\<rparr>"

definition item_org :: "'z store_scheme \<Rightarrow> string \<Rightarrow> string option" where
  "item_org st wid = map_option wi_org_id (find (\<lambda>w. wi_id w = wid) (work_items st))"

definition domain_input :: "domain_event \<Rightarrow> audit_input" where
  "domain_input d =
     \<lparr>ai_source = ''domain_events'', ai_event_id = de_event_id d, ai_org_id = de_org_id d,
      ai_work_item_id = or_null (de_work_item_id d), ai_event_type = de_event_type d,
      ai_actor_type = de_actor_type d, ai_actor_id = de_actor_id d,
      ai_payload = or_empty_obj (de_payload d), ai_occurred_at = de_occurred_at d\<rparr>"

definition audit_row_input :: "'z store_scheme \<Rightarrow> audit_event \<Rightarrow> audit_input" where
  "audit_row_input st a =
     \<lparr>ai_source = ''audit_events'', ai_event_id = ae_id a, ai_org_id = item_org st (ae_work_item_id a),
      ai_work_item_id = Some (ae_work_item_id a), ai_event_type = ae_event_type a,
      ai_actor_type = ae_actor_type a, ai_actor_id = ae_actor_id a,
      ai_payload = or_empty_obj (ae_payload a), ai_occurred_at = ae_timestamp a\<rparr>"

text \<open>The left joins of the verification query: the source row as it is stored now.\<close>

definition current_of :: "'z store_scheme \<Rightarrow> string \<Rightarrow> uuid \<Rightarrow> audit_input option" where
  "current_of st source eid =
     (if source = ''domain_events''
        then map_option domain_input (find (\<lambda>d. de_event_id d = eid) (domain_events st))
      else if source = ''audit_events''
        then map_option (audit_row_input st) (find (\<lambda>a. ae_id a = eid) (audit_events st))
      else None)"

abbreviation current_input :: "'z store_scheme \<Rightarrow> integrity_entry \<Rightarrow> audit_input option" where
  "current_input st r \<equiv> current_of st (ie_source r) (ie_event_id r)"

definition row_valid :: "(string \<Rightarrow> string) \<Rightarrow> 'z store_scheme \<Rightarrow> string option \<Rightarrow> integrity_entry \<Rightarrow> bool" where
  "row_valid sha st prev r \<longleftrightarrow>
     or_null (ie_previous_hash r) = prev \<and>
     calculate_audit_hash sha (or_null (ie_previous_hash r)) (ie_canonical r) = ie_event_hash r \<and>
     (case current_input st r of None \<Rightarrow> False
      | Some cur \<Rightarrow> calculate_audit_hash sha (or_null (ie_previous_hash r)) (canonical_audit_event cur) = ie_event_hash r) \<and>
     ie_proof_version r = audit_proof_version"

fun verify_rows ::
  "(string \<Rightarrow> string) \<Rightarrow> 'z store_scheme \<Rightarrow> integrity_entry list \<Rightarrow> string option \<Rightarrow> bool \<Rightarrow> bool \<times> string option" where
  "verify_rows sha st [] prev valid = (valid, prev)"
| "verify_rows sha st (r # rs) prev valid =
     verify_rows sha st rs (Some (ie_event_hash r)) (valid \<and> row_valid sha st prev r)"

record chain_report =
  cr_length :: nat
  cr_head :: "string option"
  cr_verified :: bool

definition tenant_rows :: "'z store_scheme \<Rightarrow> string \<Rightarrow> integrity_entry list" where
  "tenant_rows st org = sort_key ie_sequence (filter (\<lambda>x. ie_org_id x = org) (integrity st))"

definition verify_tenant_chain :: "(string \<Rightarrow> string) \<Rightarrow> 'z store_scheme \<Rightarrow> string \<Rightarrow> chain_report" where
  "verify_tenant_chain sha st org =
     (let rows = tenant_rows st org; (valid, hd) = verify_rows sha st rows None True
      in \<lparr>cr_length = length rows, cr_head = hd, cr_verified = valid\<rparr>)"

subsection \<open>The chain stays linear and verified\<close>

definition digest :: "(string \<Rightarrow> string) \<Rightarrow> bool" where
  "digest sha \<longleftrightarrow> (\<forall>x. sha x \<noteq> [])"

definition seqs_ok :: "'z store_scheme \<Rightarrow> bool" where
  "seqs_ok st \<longleftrightarrow> sorted_wrt (<) (map ie_sequence (integrity st)) \<and>
     (\<forall>e \<in> set (integrity st). ie_sequence e < integrity_seq st)"

definition org_rows :: "'z store_scheme \<Rightarrow> string \<Rightarrow> integrity_entry list" where
  "org_rows st org = filter (\<lambda>x. ie_org_id x = org) (integrity st)"

definition head_of :: "integrity_entry list \<Rightarrow> string option" where
  "head_of rows = (if rows = [] then None else Some (ie_event_hash (last rows)))"

definition chain_ok :: "(string \<Rightarrow> string) \<Rightarrow> 'z store_scheme \<Rightarrow> string \<Rightarrow> bool" where
  "chain_ok sha st org \<longleftrightarrow> cr_verified (verify_tenant_chain sha st org)"

text \<open>
  What every honest writer keeps: sequences grow, no stored link is the empty string, and every
  tenant's chain verifies, with the distinct digests its unique index requires.
\<close>

definition chain_state :: "(string \<Rightarrow> string) \<Rightarrow> 'z store_scheme \<Rightarrow> bool" where
  "chain_state sha st \<longleftrightarrow> seqs_ok st \<and> (\<forall>r \<in> set (integrity st). ie_previous_hash r \<noteq> Some []) \<and>
     (\<forall>org. chain_ok sha st org \<and> distinct (map ie_event_hash (org_rows st org)))"

lemma canonical_cloned [simp]: "json_clone (canonical_audit_event i) = canonical_audit_event i"
  by (auto simp: canonical_audit_event_def jopt_def JInt_def split: option.splits)

lemma or_null_idem [simp]: "or_null (or_null x) = or_null x"
  by (auto simp: or_null_def split: option.splits)

lemma hash_text_or_null [simp]: "hash_text (or_null p) ev = hash_text p ev"
  by (simp add: hash_text_def)

lemma calculate_or_null [simp]: "calculate_audit_hash sha (or_null p) ev = calculate_audit_hash sha p ev"
  by (simp add: calculate_audit_hash_def)

lemma tenant_rows_eq: "seqs_ok st \<Longrightarrow> tenant_rows st org = org_rows st org"
proof -
  assume "seqs_ok st"
  then have "sorted_wrt (<) (map ie_sequence (integrity st))" by (simp add: seqs_ok_def)
  then have "sorted_wrt (<) (map ie_sequence (filter (\<lambda>x. ie_org_id x = org) (integrity st)))"
    by (simp add: sorted_wrt_map sorted_wrt_filter)
  then have "sorted (map ie_sequence (filter (\<lambda>x. ie_org_id x = org) (integrity st)))"
    by (rule strict_sorted_imp_sorted)
  then show ?thesis unfolding tenant_rows_def org_rows_def by (rule sort_key_id_if_sorted)
qed

lemma verify_rows_false: "fst (verify_rows sha st rs prev False) = False"
  by (induction rs arbitrary: prev) auto

lemma verify_rows_append:
  "verify_rows sha st (rs @ rs') prev v =
     (let (v', p) = verify_rows sha st rs prev v in verify_rows sha st rs' p v')"
  by (induction rs arbitrary: prev v) auto

lemma verify_rows_head: "snd (verify_rows sha st rs prev v) = (if rs = [] then prev else Some (ie_event_hash (last rs)))"
  by (induction rs arbitrary: prev v) auto

lemma verify_rows_valid: "fst (verify_rows sha st rs prev v) \<Longrightarrow> v"
  by (cases v) (simp_all add: verify_rows_false)

lemma chain_ok_rows: "seqs_ok st \<Longrightarrow> chain_ok sha st org = fst (verify_rows sha st (org_rows st org) None True)"
  by (simp add: chain_ok_def verify_tenant_chain_def tenant_rows_eq case_prod_beta Let_def)

lemma chain_ok_snoc:
  assumes "seqs_ok st" "seqs_ok st'"
    and rows: "org_rows st' org = org_rows st org @ [r]"
    and same: "\<And>x. x \<in> set (org_rows st org) \<Longrightarrow> current_input st' x = current_input st x"
  shows "chain_ok sha st' org \<longleftrightarrow> chain_ok sha st org \<and> row_valid sha st' (head_of (org_rows st org)) r"
proof -
  have cong: "verify_rows sha st' rs p v = verify_rows sha st rs p v"
    if "\<And>x. x \<in> set rs \<Longrightarrow> current_input st' x = current_input st x" for rs p v
    using that by (induction rs arbitrary: p v) (auto simp: row_valid_def)
  have "chain_ok sha st' org = fst (verify_rows sha st' (org_rows st org @ [r]) None True)"
    using assms(2) rows by (simp add: chain_ok_rows)
  also have "\<dots> = (fst (verify_rows sha st (org_rows st org) None True) \<and>
      row_valid sha st' (snd (verify_rows sha st (org_rows st org) None True)) r)"
    using cong [of "org_rows st org"] same by (auto simp: verify_rows_append case_prod_beta)
  finally show ?thesis using assms(1) by (simp add: chain_ok_rows verify_rows_head head_of_def)
qed

lemma verified_nth:
  assumes "fst (verify_rows sha st rows None True)" "n < length rows"
  shows "row_valid sha st (head_of (take n rows)) (rows ! n)"
proof -
  have "fst (verify_rows sha st (take n rows @ rows ! n # drop (Suc n) rows) None True)"
    using assms by (simp add: id_take_nth_drop [symmetric])
  then show ?thesis
    using verify_rows_head [of sha st "take n rows" None True]
    by (auto simp: verify_rows_append case_prod_beta head_of_def dest: verify_rows_valid split: if_splits)
qed

lemma chain_ok_cong:
  assumes "seqs_ok st" "seqs_ok st'" "org_rows st' org = org_rows st org"
    and "\<And>x. x \<in> set (org_rows st org) \<Longrightarrow> current_input st' x = current_input st x"
  shows "chain_ok sha st' org = chain_ok sha st org"
proof -
  have "verify_rows sha st' rs p v = verify_rows sha st rs p v"
    if "\<And>x. x \<in> set rs \<Longrightarrow> current_input st' x = current_input st x" for rs p v
    using that by (induction rs arbitrary: p v) (auto simp: row_valid_def)
  with assms show ?thesis by (simp add: chain_ok_rows)
qed

lemma chain_head_eq:
  assumes "seqs_ok st"
  shows "chain_head st org = or_null (head_of (org_rows st org))"
proof -
  have "max_by ie_sequence (org_rows st org) = (if org_rows st org = [] then None else Some (last (org_rows st org)))"
  proof (cases "org_rows st org" rule: rev_cases)
    case (snoc rs r)
    have "sorted_wrt (\<lambda>x y. ie_sequence x < ie_sequence y) (org_rows st org)"
      using assms by (simp add: seqs_ok_def org_rows_def sorted_wrt_map sorted_wrt_filter)
    then have "\<And>x. x \<in> set rs \<Longrightarrow> ie_sequence x < ie_sequence r"
      unfolding snoc by (simp add: sorted_wrt_append)
    then have "max_by ie_sequence (rs @ [r]) = Some r" by (rule max_by_snoc)
    then show ?thesis unfolding snoc by simp
  qed simp
  then show ?thesis by (simp add: chain_head_def org_rows_def head_of_def)
qed

lemma valid_rows_nonempty_hash:
  assumes "digest sha" "seqs_ok st" "chain_ok sha st org"
  shows "or_null (head_of (org_rows st org)) = head_of (org_rows st org)"
proof (cases "org_rows st org" rule: rev_cases)
  case (snoc rs r)
  have "row_valid sha st (head_of rs) r"
    using assms(2,3) by (simp add: chain_ok_rows snoc verify_rows_append case_prod_beta verify_rows_head head_of_def)
  then have "ie_event_hash r \<noteq> []"
    using assms(1) by (auto simp: row_valid_def calculate_audit_hash_def digest_def)
  then show ?thesis by (simp add: snoc head_of_def or_null_def)
qed (simp add: head_of_def or_null_def)

subsection \<open>Appending under interference\<close>

definition sourced :: "'z store_scheme \<Rightarrow> audit_input \<Rightarrow> bool" where
  "sourced st i \<longleftrightarrow>
     map_option canonical_audit_event (current_of st (ai_source i) (ai_event_id i)) = Some (canonical_audit_event i)"

text \<open>
  The other writers append links of their own, keep the chains verified and leave the recorded
  source rows (and with them the row being logged) as they are.
\<close>

definition honest :: "(string \<Rightarrow> string) \<Rightarrow> (nat \<Rightarrow> 'z store_scheme \<Rightarrow> 'z store_scheme) \<Rightarrow> bool" where
  "honest sha env \<longleftrightarrow> (\<forall>k st. chain_state sha st \<longrightarrow>
     chain_state sha (env k st) \<and> (\<exists>added. integrity (env k st) = integrity st @ added) \<and>
     (\<exists>evs. domain_events (env k st) = domain_events st @ evs) \<and>
     (\<forall>s e. current_of st s e \<noteq> None \<longrightarrow> current_of (env k st) s e = current_of st s e))"

lemma honest_quiet: "honest sha quiet"
  by (simp add: honest_def quiet_def)

lemma audit_row_input_frame [simp]:
  "audit_row_input (st\<lparr>integrity_seq := n\<rparr>) = audit_row_input st"
  "audit_row_input (st\<lparr>integrity := l\<rparr>) = audit_row_input st"
  by (simp_all add: audit_row_input_def item_org_def fun_eq_iff)

lemma current_of_frame [simp]:
  "current_of (st\<lparr>integrity_seq := n\<rparr>) s e = current_of st s e"
  "current_of (st\<lparr>integrity := l\<rparr>) s e = current_of st s e"
  by (simp_all add: current_of_def)

lemma seqs_ok_bump: "seqs_ok st \<Longrightarrow> seqs_ok (st\<lparr>integrity_seq := integrity_seq st + 1\<rparr>)"
  by (auto simp: seqs_ok_def intro: less_trans)

lemma seqs_ok_snoc:
  "seqs_ok st \<Longrightarrow> seqs_ok (st\<lparr>integrity_seq := integrity_seq st + 1,
     integrity := integrity st @ [e\<lparr>ie_sequence := integrity_seq st\<rparr>]\<rparr>)"
  by (auto simp: seqs_ok_def sorted_wrt_append intro: less_trans)

lemma chain_state_bump: "chain_state sha st \<Longrightarrow> chain_state sha (st\<lparr>integrity_seq := integrity_seq st + 1\<rparr>)"
  unfolding chain_state_def
  using chain_ok_cong [of st "st\<lparr>integrity_seq := integrity_seq st + 1\<rparr>" _ sha] seqs_ok_bump [of st]
  by (auto simp: org_rows_def)

lemma insert_cases:
  assumes "insert_integrity e st = (out, st')"
  shows "(out = Inserted \<and> st' = st\<lparr>integrity_seq := integrity_seq st + 1,
            integrity := integrity st @ [e\<lparr>ie_sequence := integrity_seq st\<rparr>]\<rparr> \<and>
          (\<forall>x \<in> set (org_rows st (ie_org_id e)).
             ie_previous_hash x \<noteq> ie_previous_hash e \<and> ie_event_hash x \<noteq> ie_event_hash e)) \<or>
         (out = Ignored \<and> st' = st\<lparr>integrity_seq := integrity_seq st + 1\<rparr> \<and>
          (\<exists>x \<in> set (integrity st). ie_source x = ie_source e \<and> ie_event_id x = ie_event_id e)) \<or>
         (\<exists>c. out = Violates c \<and> st' = st\<lparr>integrity_seq := integrity_seq st + 1\<rparr> \<and>
           (c = ''audit_integrity_hash_unique'' \<or>
             (\<exists>x \<in> set (org_rows st (ie_org_id e)). ie_previous_hash x = ie_previous_hash e)))"
  using assms by (auto simp: insert_integrity_def Let_def org_rows_def split: if_splits)

text \<open>A link that the unique indexes accept extends the current head.\<close>

lemma accepted_extends_head:
  assumes "digest sha" "chain_state sha st" "chain_state sha st1"
    and ext: "integrity st1 = integrity st @ added"
    and new: "\<forall>x \<in> set (org_rows st1 org). ie_previous_hash x \<noteq> chain_head st org"
  shows "org_rows st1 org = org_rows st org"
proof (rule ccontr)
  assume "org_rows st1 org \<noteq> org_rows st org"
  then obtain r rest where split: "org_rows st1 org = org_rows st org @ r # rest"
    using ext by (cases "filter (\<lambda>x. ie_org_id x = org) added") (auto simp: org_rows_def)
  have seqs: "seqs_ok st1" "chain_ok sha st1 org" using assms(3) by (auto simp: chain_state_def)
  then have "fst (verify_rows sha st1 (org_rows st org @ r # rest) None True)"
    by (simp add: chain_ok_rows split)
  then have "row_valid sha st1 (head_of (org_rows st org)) r"
    using verify_rows_head [of sha st1 "org_rows st org" None True]
    by (auto simp: verify_rows_append case_prod_beta head_of_def dest: verify_rows_valid split: if_splits)
  then have "or_null (ie_previous_hash r) = head_of (org_rows st org)" by (simp add: row_valid_def)
  moreover have "chain_head st org = head_of (org_rows st org)"
    using assms(1,2) chain_head_eq [of st org] valid_rows_nonempty_hash [of sha st org]
    by (simp add: chain_state_def)
  moreover have "ie_previous_hash r \<noteq> Some []"
  proof -
    have "r \<in> set (org_rows st1 org)" by (simp add: split)
    then show ?thesis using assms(3) by (auto simp: chain_state_def org_rows_def)
  qed
  ultimately have "ie_previous_hash r = chain_head st org"
    by (auto simp: or_null_def split: option.splits if_splits)
  with new split show False by simp
qed


lemma inserted_keeps_chain:
  assumes "digest sha" "chain_state sha st" "chain_state sha st1"
    and ext: "integrity st1 = integrity st @ added" and src: "sourced st1 i"
    and ins: "insert_integrity (new_entry sha i org (chain_head st org)) st1 = (Inserted, st')"
  shows "chain_state sha st'"
proof -
  let ?e = "new_entry sha i org (chain_head st org)"
  let ?r = "?e\<lparr>ie_sequence := integrity_seq st1\<rparr>"
  have st': "st' = st1\<lparr>integrity_seq := integrity_seq st1 + 1, integrity := integrity st1 @ [?r]\<rparr>"
    and new: "\<forall>x \<in> set (org_rows st1 org). ie_previous_hash x \<noteq> chain_head st org"
    and fresh: "\<forall>x \<in> set (org_rows st1 org). ie_event_hash x \<noteq> ie_event_hash ?e"
    using insert_cases [OF ins] by (auto simp: new_entry_def)
  have same: "org_rows st1 org = org_rows st org"
    using accepted_extends_head [OF assms(1-4)] new by blast
  have seqs: "seqs_ok st1" "seqs_ok st'" "seqs_ok st"
    using assms(2,3) seqs_ok_snoc [of st1 ?e] by (auto simp: chain_state_def st')
  have hd: "chain_head st org = head_of (org_rows st1 org)"
    using assms(1-3) chain_head_eq [of st org] valid_rows_nonempty_hash [of sha st org] same
    by (simp add: chain_state_def)
  have "chain_ok sha st' org'" for org'
  proof (cases "org' = org")
    case True
    have rows: "org_rows st' org = org_rows st1 org @ [?r]"
      by (simp add: st' org_rows_def new_entry_def)
    have "row_valid sha st' (head_of (org_rows st1 org)) ?r"
      using src by (auto simp: row_valid_def st' new_entry_def hd sourced_def chain_head_def
          simp flip: hd split: option.splits)
    then show ?thesis
      using chain_ok_snoc [OF seqs(1,2) rows] assms(3) True by (simp add: chain_state_def st')
  next
    case False
    then have "org_rows st' org' = org_rows st1 org'" by (simp add: st' org_rows_def new_entry_def)
    then show ?thesis
      using chain_ok_cong [OF seqs(1,2), of org' sha] assms(3) by (simp add: chain_state_def st')
  qed
  moreover have "distinct (map ie_event_hash (org_rows st' org'))" for org'
    using assms(3) fresh by (auto simp: st' org_rows_def chain_state_def new_entry_def)
  moreover have "chain_head st org \<noteq> Some []"
    by (auto simp: chain_head_def or_null_def split: option.splits if_splits)
  ultimately show ?thesis
    using seqs assms(3) by (auto simp: chain_state_def st' new_entry_def)
qed

lemma sourced_honest: "honest sha env \<Longrightarrow> chain_state sha st \<Longrightarrow> sourced st i \<Longrightarrow> sourced (env k st) i"
  by (auto simp: honest_def sourced_def)

lemma sourced_bump [simp]: "sourced (st\<lparr>integrity_seq := n\<rparr>) i = sourced st i"
  by (simp add: sourced_def)

lemma attempts_keep_chain:
  assumes "digest sha" "honest sha env"
  shows "chain_state sha st \<Longrightarrow> sourced st i \<Longrightarrow>
    append_attempts sha q env i org left k ab st = Inr st' \<Longrightarrow> chain_state sha st'"
proof (induction left arbitrary: k ab st)
  case (Suc left)
  let ?st1 = "env k st" and ?e = "new_entry sha i org (chain_head st org)"
  obtain out st2 where ins: "insert_integrity ?e ?st1 = (out, st2)" by fastforce
  have env1: "chain_state sha ?st1 \<and> (\<exists>added. integrity ?st1 = integrity st @ added)"
    using assms(2) Suc.prems(1) unfolding honest_def by blast
  then obtain added where env: "chain_state sha ?st1" "integrity ?st1 = integrity st @ added"
    by blast
  have src: "sourced ?st1 i" using sourced_honest assms(2) Suc.prems by blast
  have bump: "out \<noteq> Inserted \<Longrightarrow> chain_state sha st2 \<and> sourced st2 i"
    using insert_cases [OF ins] chain_state_bump [OF env(1)] src by auto
  show ?case
  proof (cases out)
    case Inserted
    then show ?thesis
      using inserted_keeps_chain [OF assms(1) Suc.prems(1) env src] ins Suc.prems(3)
      by (auto split: if_splits)
  qed (use Suc.prems(3) ins bump Suc.IH [of st2 "Suc k" "q = Transaction"] in
      \<open>auto simp: Let_def split: if_splits\<close>)
qed simp

lemma attempts_logged:
  assumes "append_attempts sha q env i org (Suc left) k ab st = Inr st'"
  shows "\<exists>x \<in> set (integrity st'). ie_source x = ai_source i \<and> ie_event_id x = ai_event_id i"
  using assms
proof (induction left arbitrary: k ab st)
  case 0
  then show ?case
    using insert_cases [of "new_entry sha i org (chain_head st org)" "env k st"]
    by (auto simp: Let_def new_entry_def split: if_splits prod.splits insert_outcome.splits)
next
  case (Suc left)
  obtain out st2 where ins: "insert_integrity (new_entry sha i org (chain_head st org)) (env k st) = (out, st2)"
    by fastforce
  show ?case
  proof (cases "\<exists>c. out = Violates c")
    case True
    then have "append_attempts sha q env i org (Suc left) (Suc k) (q = Transaction) st2 = Inr st'"
      using Suc.prems ins by (auto simp: Let_def split: if_splits)
    then show ?thesis by (rule Suc.IH)
  next
    case False
    then show ?thesis
      using Suc.prems ins insert_cases [OF ins]
      by (cases out) (auto simp: Let_def new_entry_def split: if_splits)
  qed
qed


lemma head_unclaimed:
  assumes "digest sha" "chain_state sha st" "x \<in> set (org_rows st org)"
  shows "ie_previous_hash x \<noteq> chain_head st org"
proof
  assume claim: "ie_previous_hash x = chain_head st org"
  let ?rows = "org_rows st org"
  obtain n where n: "n < length ?rows" "?rows ! n = x" using assms(3) by (auto simp: in_set_conv_nth)
  have st: "seqs_ok st" "chain_ok sha st org" "distinct (map ie_event_hash ?rows)"
    using assms(2) by (auto simp: chain_state_def)
  have "or_null (ie_previous_hash x) = head_of (take n ?rows)"
    using verified_nth [of sha st ?rows n] st n by (simp add: chain_ok_rows row_valid_def)
  moreover have hd: "chain_head st org = head_of ?rows"
    using chain_head_eq [of st org] valid_rows_nonempty_hash [of sha st org] st assms(1) by simp
  ultimately have eq: "head_of (take n ?rows) = head_of ?rows"
    using claim by (metis chain_head_def or_null_idem)
  then have "n \<noteq> 0" using n by (auto simp: head_of_def split: if_splits)
  then have "ie_event_hash (?rows ! (n - 1)) = ie_event_hash (?rows ! (length ?rows - 1))"
    using eq n(1) by (auto simp: head_of_def last_conv_nth min_def split: if_splits)
  then show False
    using st(3) n(1) \<open>n \<noteq> 0\<close> by (auto simp: distinct_conv_nth)
qed

lemma attempts_pool_recover:
  assumes "left \<ge> 1" "\<exists>j < left. \<forall>s. env (k + j) s = s"
    and "digest sha" "honest sha env" "chain_state sha st"
  shows "(\<exists>st'. append_attempts sha Pool env i org left k False st = Inr st') \<or>
    append_attempts sha Pool env i org left k False st = Inl (UniqueViolation ''audit_integrity_hash_unique'')"
  using assms(1,2,5)
proof (induction left arbitrary: k st)
  case (Suc left)
  obtain out st2 where ins: "insert_integrity (new_entry sha i org (chain_head st org)) (env k st) = (out, st2)"
    by fastforce
  show ?case
  proof (cases "\<exists>c. out = Violates c \<and> c \<noteq> ''audit_integrity_hash_unique''")
    case False
    then show ?thesis using ins by (cases out) (auto simp: Let_def chain_prefix_def)
  next
    case True
    then obtain c where c: "out = Violates c" "c \<noteq> ''audit_integrity_hash_unique''" by blast
    have pre: "take (length chain_prefix) c = chain_prefix" and st2: "st2 = env k st\<lparr>integrity_seq := integrity_seq (env k st) + 1\<rparr>"
      and clash: "\<exists>x \<in> set (org_rows (env k st) org). ie_previous_hash x = chain_head st org"
      using ins c by (auto simp: insert_integrity_def Let_def org_rows_def new_entry_def chain_prefix_def split: if_splits)
    have "\<not> (\<forall>s. env k s = s)"
    proof
      assume quiet: "\<forall>s. env k s = s"
      then have "\<exists>x \<in> set (org_rows st org). ie_previous_hash x = chain_head st org" using clash by simp
      then show False using head_unclaimed assms(3) Suc.prems(3) by blast
    qed
    with Suc.prems(2) obtain j where "j < left" "\<forall>s. env (Suc k + j) s = s"
      by (metis add_Suc_shift add_0_right less_Suc_eq_0_disj)
    moreover have "chain_state sha st2"
      using assms(4) Suc.prems(3) chain_state_bump [of sha "env k st"] st2 by (auto simp: honest_def)
    ultimately show ?thesis
      using Suc.IH [of "Suc k" st2] ins c pre by (auto simp: Let_def)
  qed
qed simp

subsection \<open>Properties\<close>

lemma chain_state_no_links: "integrity st = [] \<Longrightarrow> chain_state sha st"
  by (simp add: chain_state_def seqs_ok_def chain_ok_def verify_tenant_chain_def tenant_rows_def org_rows_def)

lemma attempts_extend_events:
  assumes "digest sha" "honest sha env"
  shows "chain_state sha st \<Longrightarrow> sourced st i \<Longrightarrow>
    append_attempts sha q env i org left k ab st = Inr st' \<Longrightarrow> \<exists>evs. domain_events st' = domain_events st @ evs"
proof (induction left arbitrary: k ab st)
  case (Suc left)
  let ?st1 = "env k st" and ?e = "new_entry sha i org (chain_head st org)"
  obtain out st2 where ins: "insert_integrity ?e ?st1 = (out, st2)" by fastforce
  have env: "chain_state sha ?st1 \<and> (\<exists>evs. domain_events ?st1 = domain_events st @ evs)"
    using assms(2) Suc.prems(1) unfolding honest_def by blast
  have same: "domain_events st2 = domain_events ?st1"
    using insert_cases [OF ins] by auto
  show ?case
  proof (cases "\<exists>c. out = Violates c")
    case True
    then have "chain_state sha st2" "sourced st2 i"
      using insert_cases [OF ins] chain_state_bump env sourced_honest [OF assms(2) Suc.prems(1,2)] by auto
    moreover have "append_attempts sha q env i org left (Suc k) (q = Transaction) st2 = Inr st'"
      using True Suc.prems(3) ins by (auto simp: Let_def split: if_splits)
    ultimately have "\<exists>evs. domain_events st' = domain_events st2 @ evs" by (rule Suc.IH)
    then show ?thesis using env same by auto
  next
    case False
    then have "st' = st2" using Suc.prems(3) ins by (cases out) (auto simp: Let_def split: if_splits)
    then show ?thesis using env same by simp
  qed
qed simp

lemma append_extends_events:
  assumes "digest sha" "honest sha env" "chain_state sha st" "sourced st i"
    and "append_audit_entry sha q env i st = Inr st'"
  shows "\<exists>evs. domain_events st' = domain_events st @ evs"
proof (cases "\<exists>x \<in> set (integrity st). ie_source x = ai_source i \<and> ie_event_id x = ai_event_id i")
  case True
  then show ?thesis using assms(5) by (auto simp: append_audit_entry_def)
next
  case False
  obtain org where "append_attempts sha q env i org max_append_attempts 1 False st = Inr st'"
    using assms(5) unfolding append_audit_entry_def if_not_P [OF False]
    by (cases "ai_org_id i") auto
  then show ?thesis using attempts_extend_events [OF assms(1-4)] by blast
qed

lemma append_sound:
  assumes "digest sha" "honest sha env" "chain_state sha st" "sourced st i"
    and "append_audit_entry sha q env i st = Inr st'"
  shows "chain_state sha st' \<and> (\<exists>x \<in> set (integrity st'). ie_source x = ai_source i \<and> ie_event_id x = ai_event_id i)"
proof (cases "\<exists>x \<in> set (integrity st). ie_source x = ai_source i \<and> ie_event_id x = ai_event_id i")
  case True
  then show ?thesis using assms by (auto simp: append_audit_entry_def)
next
  case False
  obtain org where "append_attempts sha q env i org (Suc 7) 1 False st = Inr st'"
    using assms(5) unfolding append_audit_entry_def if_not_P [OF False]
    by (cases "ai_org_id i") (auto simp: max_append_attempts_def simp del: append_attempts.simps)
  then show ?thesis
    using attempts_keep_chain [OF assms(1,2,3,4)] attempts_logged by blast
qed

text \<open>C1. Whatever other honest writers commit in between, an append that returns leaves every
  tenant's chain linear and verified, and leaves a link for the logged event.\<close>

theorem append_keeps_chain:
  assumes "digest sha" "honest sha env" "chain_state sha st" "sourced st i"
    and "append_audit_entry sha q env i st = Inr st'"
  shows "chain_state sha st' \<and>
    (\<exists>x \<in> set (integrity st'). ie_source x = ai_source i \<and> ie_event_id x = ai_event_id i)"
  using assms by (rule append_sound)

definition sample_event :: domain_event where
  "sample_event = \<lparr>de_event_id = ''e1'', de_org_id = Some ''o1'', de_event_type = ''note.added'',
     de_schema_version = 1, de_work_item_id = None, de_actor_type = ''user'', de_actor_id = ''u1'',
     de_payload = JObj [(''n'', JInt 1)], de_occurred_at = 0\<rparr>"

definition sample_store :: store where
  "sample_store = empty_store\<lparr>domain_events := [sample_event]\<rparr>"

definition sample_sha :: "string \<Rightarrow> string" where
  "sample_sha x = CHR ''h'' # x"

lemma sample_digest: "digest sample_sha"
  by (simp add: digest_def sample_sha_def)

lemma sample_sourced: "sourced sample_store (domain_input sample_event)"
  by (simp add: sourced_def current_of_def sample_store_def domain_input_def sample_event_def)

lemma append_keeps_chain_witness:
  "\<exists>st'. append_audit_entry sample_sha Pool quiet (domain_input sample_event) sample_store = Inr st' \<and>
     chain_state sample_sha st' \<and> length (integrity st') = 1"
proof -
  let ?i = "domain_input sample_event"
  obtain st' where st': "append_audit_entry sample_sha Pool quiet ?i sample_store = Inr st'"
    and len: "length (integrity st') = 1"
    by (simp add: append_audit_entry_def domain_input_def sample_event_def sample_store_def empty_store_def
        max_append_attempts_def numeral_eq_Suc insert_integrity_def quiet_def Let_def)
  have "chain_state sample_sha st'"
    using append_keeps_chain [OF sample_digest honest_quiet _ sample_sourced st']
    by (simp add: chain_state_no_links sample_store_def empty_store_def)
  with st' len show ?thesis by blast
qed

text \<open>C2. On the pool, where a failed insert costs nothing but its own statement, the append
  succeeds as soon as one of its eight attempts meets no competing commit; the only error left is
  a digest collision inside the tenant.\<close>

theorem append_recovers_on_pool:
  assumes "digest sha" "honest sha env" "chain_state sha st" "ai_org_id i = Some org"
    and "1 \<le> k" "k \<le> 8" "\<forall>s. env k s = s"
  shows "(\<exists>st'. append_audit_entry sha Pool env i st = Inr st') \<or>
    append_audit_entry sha Pool env i st = Inl (UniqueViolation ''audit_integrity_hash_unique'')"
proof -
  have "\<exists>j < 8. \<forall>s. env (1 + j) s = s"
    using assms(5-7) by (intro exI [of _ "k - 1"]) auto
  then show ?thesis
    using attempts_pool_recover [of 8 env 1 sha st i org] assms(1-4)
    by (auto simp: append_audit_entry_def max_append_attempts_def)
qed

lemma append_recovers_on_pool_witness:
  "(\<exists>st'. append_audit_entry sample_sha Pool quiet (domain_input sample_event) sample_store = Inr st') \<or>
    append_audit_entry sample_sha Pool quiet (domain_input sample_event) sample_store =
      Inl (UniqueViolation ''audit_integrity_hash_unique'')"
  by (rule append_recovers_on_pool [OF sample_digest honest_quiet, where org = "''o1''" and k = 1])
    (simp_all add: chain_state_no_links sample_store_def empty_store_def domain_input_def sample_event_def quiet_def)

text \<open>Another writer that commits a link of its own, for the same head, before the first insert only.\<close>

definition rival :: "audit_input \<Rightarrow> string \<Rightarrow> nat \<Rightarrow> 'z store_scheme \<Rightarrow> 'z store_scheme" where
  "rival i org k st =
     (if k = 1 then snd (insert_integrity (new_entry (\<lambda>x. CHR ''r'' # x) i org (chain_head st org)) st) else st)"

text \<open>C3. In an open transaction the documented retry cannot happen: the first lost race aborts the
  transaction, and the re-read of the head is refused, so the append fails.\<close>

theorem append_in_transaction_fails_on_race:
  assumes "ai_org_id i = Some org"
    and "\<forall>x \<in> set (integrity st). \<not> (ie_source x = ai_source i \<and> ie_event_id x = ai_event_id i)"
    and "insert_integrity (new_entry sha i org (chain_head st org)) (env 1 st) = (Violates c, st1)"
    and "c = ''audit_integrity_chain_link'' \<or> c = ''audit_integrity_chain_genesis''"
  shows "append_audit_entry sha Transaction env i st = Inl TransactionAborted"
  using assms
  by (auto simp: append_audit_entry_def max_append_attempts_def numeral_eq_Suc Let_def chain_prefix_def)

lemma append_in_transaction_fails_on_race_witness:
  "append_audit_entry sample_sha Transaction (rival ((domain_input sample_event)\<lparr>ai_event_id := ''e0''\<rparr>) ''o1'')
     (domain_input sample_event) sample_store = Inl TransactionAborted"
proof (rule append_in_transaction_fails_on_race [where org = "''o1''" and c = "''audit_integrity_chain_genesis''"])
qed (auto simp: domain_input_def sample_event_def sample_store_def empty_store_def rival_def insert_integrity_def
    Let_def new_entry_def chain_head_def or_null_def
    calculate_audit_hash_def sample_sha_def hash_text_def)

lemma chain_ok_nth:
  "seqs_ok st \<Longrightarrow> chain_ok sha st org \<Longrightarrow> org_rows st org = xs @ r # ys \<Longrightarrow>
   row_valid sha st (head_of xs) r"
  using verified_nth [of sha st "org_rows st org" "length xs"] by (simp add: chain_ok_rows)

text \<open>C4. Rewriting the stored source row of a logged event is detected: once the row's canonical
  content differs, the tenant's chain no longer verifies, unless the digest collides on the two
  hashed texts.\<close>

theorem tampering_detected:
  assumes "seqs_ok st" "chain_ok sha st org" "integrity st' = integrity st" "integrity_seq st' = integrity_seq st"
    and "r \<in> set (org_rows st org)" "current_input st r = Some c" "current_input st' r = Some c'"
    and "nums_ok (canonical_audit_event c)" "nums_ok (canonical_audit_event c')"
    and "canon (canonical_audit_event c) \<noteq> canon (canonical_audit_event c')"
    and "inj_on sha {hash_text (ie_previous_hash r) (canonical_audit_event c),
                     hash_text (ie_previous_hash r) (canonical_audit_event c')}"
  shows "\<not> cr_verified (verify_tenant_chain sha st' org)"
proof
  assume "cr_verified (verify_tenant_chain sha st' org)"
  then have ok': "chain_ok sha st' org" by (simp add: chain_ok_def)
  obtain xs ys where split: "org_rows st org = xs @ r # ys" using assms(5) by (meson split_list)
  have "seqs_ok st'" "org_rows st' org = xs @ r # ys"
    using assms(1,3,4) split by (simp_all add: seqs_ok_def org_rows_def)
  then have "row_valid sha st (head_of xs) r" "row_valid sha st' (head_of xs) r"
    using chain_ok_nth assms(1,2) split ok' by blast+
  then have "sha (hash_text (ie_previous_hash r) (canonical_audit_event c)) = ie_event_hash r"
      "sha (hash_text (ie_previous_hash r) (canonical_audit_event c')) = ie_event_hash r"
    unfolding row_valid_def assms(6,7) calculate_audit_hash_def hash_text_or_null by simp_all
  then have "hash_text (ie_previous_hash r) (canonical_audit_event c) =
      hash_text (ie_previous_hash r) (canonical_audit_event c')"
    by (rule inj_onD [OF assms(11) _ insertI1 insertI2 [OF insertI1], OF trans [OF _ sym]])
  then have "stable_stringify (canonical_audit_event c) = stable_stringify (canonical_audit_event c')"
    by (simp add: hash_text_def)
  then show False using stringify_eq_iff assms(8-10) by blast
qed

definition logged_store :: store where
  "logged_store = sample_store\<lparr>integrity := [new_entry sample_sha (domain_input sample_event) ''o1'' None],
     integrity_seq := 1\<rparr>"

definition forged_store :: store where
  "forged_store = logged_store\<lparr>domain_events := [sample_event\<lparr>de_actor_id := ''u2''\<rparr>]\<rparr>"

lemma logged_ok: "seqs_ok logged_store" "chain_ok sample_sha logged_store ''o1''"
  by (simp_all add: logged_store_def sample_store_def empty_store_def seqs_ok_def chain_ok_def Let_def
      verify_tenant_chain_def tenant_rows_def new_entry_def domain_input_def sample_event_def
      row_valid_def or_null_def current_of_def)

lemma sample_nums: "num_text (show_int audit_proof_version)" "num_text (show_int 1)"
  by (simp_all add: audit_proof_version_def show_int_def show_nat.simps digit_char_def num_text_def num_char_def char_of_def bit_numeral_rec bit_Suc_0_iff)

lemma tampering_detected_witness:
  "cr_verified (verify_tenant_chain sample_sha logged_store ''o1'') \<and>
   \<not> cr_verified (verify_tenant_chain sample_sha forged_store ''o1'')"
proof
  show "cr_verified (verify_tenant_chain sample_sha logged_store ''o1'')"
    using logged_ok by (simp add: chain_ok_def)
  let ?r = "new_entry sample_sha (domain_input sample_event) ''o1'' None"
  show "\<not> cr_verified (verify_tenant_chain sample_sha forged_store ''o1'')"
  proof (rule tampering_detected [OF logged_ok, where r = ?r and c = "domain_input sample_event"
        and c' = "(domain_input sample_event)\<lparr>ai_actor_id := ''u2''\<rparr>"])
    show "?r \<in> set (org_rows logged_store ''o1'')"
      by (simp add: org_rows_def logged_store_def new_entry_def)
  qed (simp_all add: forged_store_def logged_store_def new_entry_def sample_store_def current_of_def
      domain_input_def sample_event_def sample_sha_def inj_on_def
      canonical_audit_event_def JInt_def jopt_def or_null_def or_empty_obj_def js_truthy_def sample_nums)
qed

text \<open>A link removed from the middle of a chain is detected, with no assumption on the digest.\<close>

lemma removed_link_detected:
  assumes "chain_state sha st" "seqs_ok st'"
    and "org_rows st org = xs @ r # ys" "ys \<noteq> []" "org_rows st' org = xs @ ys"
  shows "\<not> cr_verified (verify_tenant_chain sha st' org)"
proof
  assume "cr_verified (verify_tenant_chain sha st' org)"
  then have ok': "chain_ok sha st' org" by (simp add: chain_ok_def)
  obtain y zs where ys: "ys = y # zs" using assms(4) by (cases ys) auto
  have st: "seqs_ok st" "chain_ok sha st org" "distinct (map ie_event_hash (org_rows st org))"
    using assms(1) by (auto simp: chain_state_def)
  have "row_valid sha st (head_of (xs @ [r])) y"
    using chain_ok_nth [of st sha org "xs @ [r]" y zs] st assms(3) ys by simp
  moreover have "row_valid sha st' (head_of xs) y"
    using chain_ok_nth [of st' sha org xs y zs] assms(2,5) ok' ys by simp
  ultimately have "head_of (xs @ [r]) = head_of xs" by (simp add: row_valid_def)
  then show False
    using st(3) assms(3) by (cases xs rule: rev_cases) (auto simp: head_of_def)
qed


definition two_links :: store where
  "two_links =
     (let e2 = sample_event\<lparr>de_event_id := ''e2''\<rparr>;
          r1 = new_entry sample_sha (domain_input sample_event) ''o1'' None;
          r2 = (new_entry sample_sha (domain_input e2) ''o1'' (Some (ie_event_hash r1)))\<lparr>ie_sequence := 1\<rparr>
      in logged_store\<lparr>domain_events := [sample_event, e2], integrity := [r1, r2], integrity_seq := 2\<rparr>)"

lemma two_links_ok: "chain_state sample_sha two_links"
proof -
  have org: "org_rows two_links org = (if org = ''o1'' then integrity two_links else [])" for org
    by (simp add: two_links_def Let_def logged_store_def org_rows_def new_entry_def domain_input_def sample_event_def)
  have seqs: "seqs_ok two_links"
    by (simp add: two_links_def Let_def logged_store_def seqs_ok_def new_entry_def)
  have "chain_ok sample_sha two_links org" for org
    by (simp add: chain_ok_rows seqs org)
      (simp add: two_links_def Let_def logged_store_def new_entry_def domain_input_def sample_event_def
        row_valid_def or_null_def current_of_def calculate_audit_hash_def sample_sha_def hash_text_def)
  then show ?thesis
    using seqs org
    by (auto simp: chain_state_def)
      (auto simp: two_links_def Let_def logged_store_def new_entry_def calculate_audit_hash_def sample_sha_def
        hash_text_def or_null_def dest: arg_cong [where f=length])
qed

end
