(* ===== verification/EventOutbox.thy ===== *)
theory EventOutbox
  imports AuditChain
begin

text \<open>
  The event backbone of \<^verbatim>\<open>src/modules/events\<close>: the in-process bus (\<open>event-bus.ts\<close>), the tenant
  resolution (\<open>tenant-resolution.ts\<close>), the event store (\<open>event-store.service.ts\<close>) and the
  transactional outbox (\<open>event-outbox.service.ts\<close>).

  A handler is a function from the envelope and the state to the error it throws, if any, and the
  new state. \<open>CURRENT_TIMESTAMP\<close> and \<open>new Date()\<close> are the argument \<open>now\<close>.
\<close>

subsection \<open>The bus\<close>

type_synonym 's handler = "envelope \<Rightarrow> 's \<Rightarrow> string option \<times> 's"

record 's bus =
  wildcard_handlers :: "'s handler list"
  typed_handlers :: "(string \<times> 's handler) list"

definition empty_bus :: "'s bus" where
  "empty_bus = \<lparr>wildcard_handlers = [], typed_handlers = []\<rparr>"

definition subscribe_all :: "'s handler \<Rightarrow> 's bus \<Rightarrow> 's bus" where
  "subscribe_all h b = b\<lparr>wildcard_handlers := wildcard_handlers b @ [h]\<rparr>"

definition subscribe :: "string \<Rightarrow> 's handler \<Rightarrow> 's bus \<Rightarrow> 's bus" where
  "subscribe ty h b = b\<lparr>typed_handlers := typed_handlers b @ [(ty, h)]\<rparr>"

fun run_handlers :: "'s handler list \<Rightarrow> 's handler" where
  "run_handlers [] ev s = (None, s)"
| "run_handlers (h # hs) ev s =
     (case h ev s of (Some err, t) \<Rightarrow> (Some err, t) | (None, t) \<Rightarrow> run_handlers hs ev t)"

definition publish_envelope :: "'z store_scheme bus \<Rightarrow> 'z store_scheme handler" where
  "publish_envelope b ev st =
     run_handlers (wildcard_handlers b @ map snd (filter (\<lambda>(ty, h). ty = ev_type ev) (typed_handlers b))) ev
       (st\<lparr>emitted := emitted st @ [ev]\<rparr>)"

definition publish ::
  "'z store_scheme bus \<Rightarrow> uuid \<Rightarrow> time \<Rightarrow> string \<Rightarrow> string \<Rightarrow> string \<Rightarrow> string \<Rightarrow> jsval
   \<Rightarrow> 'z store_scheme \<Rightarrow> (string option \<times> 'z store_scheme) \<times> envelope" where
  "publish b fresh now ty wid actor_type actor_id payload st =
     (let ev = \<lparr>ev_id = fresh, ev_type = ty, ev_schema_version = 1, ev_timestamp = now,
                ev_actor_type = actor_type, ev_actor_id = actor_id, ev_work_item_id = wid, ev_payload = payload\<rparr>
      in (publish_envelope b ev st, ev))"

definition clear_emitted :: "'z store_scheme \<Rightarrow> 'z store_scheme" where
  "clear_emitted st = st\<lparr>emitted := []\<rparr>"

subsection \<open>Which tenant an event belongs to\<close>

definition nullish_or :: "jsval \<Rightarrow> jsval \<Rightarrow> jsval" where
  "nullish_or a b = (case a of JUndef \<Rightarrow> b | JNull \<Rightarrow> b | _ \<Rightarrow> a)"

definition jprop :: "jsval \<Rightarrow> string \<Rightarrow> jsval" where
  "jprop v k = (case v of JObj kvs \<Rightarrow> jget kvs k | _ \<Rightarrow> JUndef)"

definition org_id_from_payload :: "envelope \<Rightarrow> string option" where
  "org_id_from_payload ev =
     (let p = or_empty_obj (ev_payload ev);
          candidate = nullish_or (jprop p ''org_id'') (nullish_or (jprop (jprop p ''work_item'') ''org_id'')
            (nullish_or (jprop (jprop p ''service'') ''org_id'') (jprop (jprop p ''result'') ''org_id'')))
      in (case candidate of JStr s \<Rightarrow> Some s | _ \<Rightarrow> None))"

definition hex_digit :: "char \<Rightarrow> bool" where
  "hex_digit c \<longleftrightarrow> c \<in> set ''0123456789abcdefABCDEF''"

text \<open>The text PostgreSQL reads as a UUID: a hyphen is optional after each group of four digits.\<close>

fun pg_uuid :: "nat \<Rightarrow> string \<Rightarrow> bool" where
  "pg_uuid 0 s = (s = [])"
| "pg_uuid (Suc n) (a # b # r) = (hex_digit a \<and> hex_digit b \<and>
     pg_uuid n (if 0 < n \<and> even n \<and> r \<noteq> [] \<and> hd r = CHR ''-'' then tl r else r))"
| "pg_uuid (Suc n) _ = False"

definition looks_like_uuid :: "string \<Rightarrow> bool" where
  "looks_like_uuid s \<longleftrightarrow> length s = 36 \<and> (\<forall>c \<in> set s. hex_digit c \<or> c = CHR ''-'')"

definition resolve_event_org_id :: "'z store_scheme \<Rightarrow> envelope \<Rightarrow> string + string option" where
  "resolve_event_org_id st ev =
     (case or_null (org_id_from_payload ev) of
        Some org \<Rightarrow> Inr (Some org)
      | None \<Rightarrow>
          if ev_work_item_id ev = [] \<or> \<not> looks_like_uuid (ev_work_item_id ev) then Inr None
          else if \<not> pg_uuid 16 (ev_work_item_id ev) then Inl ''invalid input syntax for type uuid''
          else Inr (item_org st (lower (ev_work_item_id ev))))"

subsection \<open>The event store\<close>

definition event_row :: "string option \<Rightarrow> string option \<Rightarrow> envelope \<Rightarrow> domain_event" where
  "event_row org wid ev =
     \<lparr>de_event_id = ev_id ev, de_org_id = org, de_event_type = ev_type ev,
      de_schema_version = ev_schema_version ev, de_work_item_id = wid,
      de_actor_type = ev_actor_type ev, de_actor_id = ev_actor_id ev,
      de_payload = json_clone (or_empty_obj (ev_payload ev)), de_occurred_at = ev_timestamp ev\<rparr>"

definition event_input :: "string \<Rightarrow> string option \<Rightarrow> envelope \<Rightarrow> audit_input" where
  "event_input org wid ev =
     \<lparr>ai_source = ''domain_events'', ai_event_id = ev_id ev, ai_org_id = Some org, ai_work_item_id = wid,
      ai_event_type = ev_type ev, ai_actor_type = ev_actor_type ev, ai_actor_id = ev_actor_id ev,
      ai_payload = or_empty_obj (ev_payload ev), ai_occurred_at = ev_timestamp ev\<rparr>"

definition has_event :: "'z store_scheme \<Rightarrow> uuid \<Rightarrow> bool" where
  "has_event st eid \<longleftrightarrow> (\<exists>d \<in> set (domain_events st). de_event_id d = eid)"

definition show_db_error :: "db_error \<Rightarrow> string" where
  "show_db_error e = (case e of
       UniqueViolation c \<Rightarrow> ''duplicate key value violates unique constraint '' @ c
     | NotNullViolation c \<Rightarrow> ''null value in column '' @ c
     | TransactionAborted \<Rightarrow> ''current transaction is aborted'')"

text \<open>\<open>record\<close>: one transaction, so an error leaves the tables as they were.\<close>

definition record_event ::
  "(string \<Rightarrow> string) \<Rightarrow> (nat \<Rightarrow> 'z store_scheme \<Rightarrow> 'z store_scheme) \<Rightarrow> envelope
   \<Rightarrow> 'z store_scheme \<Rightarrow> string + 'z store_scheme" where
  "record_event sha env ev st =
     and_then (resolve_event_org_id st ev) (\<lambda>org.
       let wid = or_null (Some (ev_work_item_id ev));
           st1 = (if has_event st (ev_id ev) then st
                  else st\<lparr>domain_events := domain_events st @ [event_row org wid ev]\<rparr>)
       in case or_null org of
            None \<Rightarrow> Inr st1
          | Some o' \<Rightarrow>
              (case append_audit_entry sha Transaction env (event_input o' wid ev) st1 of
                 Inl e \<Rightarrow> Inl (show_db_error e) | Inr st2 \<Rightarrow> Inr st2))"

text \<open>\<open>attach\<close>: the wildcard subscription swallows what \<open>record\<close> throws.\<close>

definition store_handler ::
  "(string \<Rightarrow> string) \<Rightarrow> (nat \<Rightarrow> 'z store_scheme \<Rightarrow> 'z store_scheme) \<Rightarrow> 'z store_scheme handler" where
  "store_handler sha env ev st =
     (None, (case record_event sha env ev st of Inl e \<Rightarrow> st | Inr st' \<Rightarrow> st'))"

definition store_bus ::
  "(string \<Rightarrow> string) \<Rightarrow> (nat \<Rightarrow> 'z store_scheme \<Rightarrow> 'z store_scheme) \<Rightarrow> 'z store_scheme bus" where
  "store_bus sha env = subscribe_all (store_handler sha env) empty_bus"

record event_query =
  eq_org :: "string option"
  eq_type :: "string option"
  eq_work_item :: "string option"
  eq_from :: "time option"
  eq_to :: "time option"
  eq_limit :: int

definition opt_is :: "string option \<Rightarrow> string option \<Rightarrow> bool" where
  "opt_is want have \<longleftrightarrow> (case or_null want of None \<Rightarrow> True | Some s \<Rightarrow> have = Some s)"

definition clamp :: "int \<Rightarrow> int \<Rightarrow> int \<Rightarrow> int" where
  "clamp lo hi n = min (max n lo) hi"

definition query_events :: "event_query \<Rightarrow> 'z store_scheme \<Rightarrow> domain_event list" where
  "query_events q st =
     take (nat (clamp 1 1000 (if eq_limit q = 0 then 200 else eq_limit q)))
       (sort_key (\<lambda>d. - de_occurred_at d)
         (filter (\<lambda>d. opt_is (eq_org q) (de_org_id d) \<and> opt_is (eq_type q) (Some (de_event_type d)) \<and>
             opt_is (eq_work_item q) (de_work_item_id d) \<and>
             (case eq_from q of None \<Rightarrow> True | Some a \<Rightarrow> a \<le> de_occurred_at d) \<and>
             (case eq_to q of None \<Rightarrow> True | Some b \<Rightarrow> de_occurred_at d \<le> b)) (domain_events st)))"

subsection \<open>The outbox\<close>

record outbox_input =
  oi_event_type :: string
  oi_work_item_id :: string
  oi_org_id :: string
  oi_actor_type :: string
  oi_actor_id :: string
  oi_payload :: jsval
  oi_schema_version :: "int option"
  oi_event_id :: "string option"
  oi_timestamp :: "time option"

definition outbox_envelope :: "uuid \<Rightarrow> time \<Rightarrow> outbox_input \<Rightarrow> envelope" where
  "outbox_envelope fresh now i =
     \<lparr>ev_id = (case or_null (oi_event_id i) of None \<Rightarrow> fresh | Some e \<Rightarrow> e),
      ev_type = oi_event_type i,
      ev_schema_version = (case oi_schema_version i of None \<Rightarrow> 1 | Some v \<Rightarrow> if v = 0 then 1 else v),
      ev_timestamp = (case oi_timestamp i of None \<Rightarrow> now | Some t \<Rightarrow> t),
      ev_actor_type = oi_actor_type i, ev_actor_id = oi_actor_id i,
      ev_work_item_id = oi_work_item_id i, ev_payload = oi_payload i\<rparr>"

definition pending_row :: "envelope \<Rightarrow> outbox_row" where
  "pending_row ev = \<lparr>ob_event_id = ev_id ev, ob_status = ''pending'', ob_attempts = 0, ob_last_error = None,
     ob_created_at = ev_timestamp ev, ob_last_attempt_at = None, ob_dispatched_at = None\<rparr>"

definition enqueue ::
  "(string \<Rightarrow> string) \<Rightarrow> (nat \<Rightarrow> 'z store_scheme \<Rightarrow> 'z store_scheme) \<Rightarrow> uuid \<Rightarrow> time \<Rightarrow> outbox_input
   \<Rightarrow> 'z store_scheme \<Rightarrow> db_error + envelope \<times> 'z store_scheme" where
  "enqueue sha env fresh now i st =
     (let ev = outbox_envelope fresh now i
      in if has_event st (ev_id ev) then Inl (UniqueViolation ''domain_events_pkey'')
         else and_then
           (append_audit_entry sha Transaction env (event_input (oi_org_id i) (Some (ev_work_item_id ev)) ev)
             (st\<lparr>domain_events := domain_events st @ [event_row (Some (oi_org_id i)) (Some (ev_work_item_id ev)) ev]\<rparr>))
           (\<lambda>st2. if \<exists>o' \<in> set (outbox st2). ob_event_id o' = ev_id ev
                   then Inl (UniqueViolation ''event_outbox_pkey'')
                   else Inr (ev, st2\<lparr>outbox := outbox st2 @ [pending_row ev]\<rparr>)))"

definition mark_dispatched :: "time \<Rightarrow> outbox_row \<Rightarrow> outbox_row" where
  "mark_dispatched now o' = o'\<lparr>ob_status := ''dispatched'', ob_attempts := ob_attempts o' + 1,
     ob_last_error := None, ob_last_attempt_at := Some now, ob_dispatched_at := Some now\<rparr>"

definition mark_undelivered :: "time \<Rightarrow> string \<Rightarrow> outbox_row \<Rightarrow> outbox_row" where
  "mark_undelivered now err o' = o'\<lparr>ob_status := ''pending'', ob_attempts := ob_attempts o' + 1,
     ob_last_error := Some err, ob_last_attempt_at := Some now\<rparr>"

definition dispatch_envelope ::
  "'z store_scheme handler \<Rightarrow> time \<Rightarrow> envelope \<Rightarrow> 'z store_scheme \<Rightarrow> bool \<times> 'z store_scheme" where
  "dispatch_envelope pub now ev st =
     (case pub ev st of
        (None, st1) \<Rightarrow>
          (True, st1\<lparr>outbox := update_where (\<lambda>o'. ob_event_id o' = ev_id ev) (mark_dispatched now) (outbox st1)\<rparr>)
      | (Some err, st1) \<Rightarrow>
          (False, st1\<lparr>outbox := update_where (\<lambda>o'. ob_event_id o' = ev_id ev) (mark_undelivered now err) (outbox st1)\<rparr>))"

definition map_envelope :: "domain_event \<Rightarrow> envelope" where
  "map_envelope d =
     \<lparr>ev_id = de_event_id d, ev_type = de_event_type d, ev_schema_version = de_schema_version d,
      ev_timestamp = de_occurred_at d, ev_actor_type = de_actor_type d, ev_actor_id = de_actor_id d,
      ev_work_item_id = (case de_work_item_id d of None \<Rightarrow> [] | Some w \<Rightarrow> w),
      ev_payload = or_empty_obj (de_payload d)\<rparr>"

definition pending_envelopes :: "'z store_scheme \<Rightarrow> envelope list" where
  "pending_envelopes st =
     List.map_filter (\<lambda>o'. map_option map_envelope (find (\<lambda>d. de_event_id d = ob_event_id o') (domain_events st)))
       (sort_key ob_created_at (filter (\<lambda>o'. ob_status o' = ''pending'') (outbox st)))"

fun dispatch_all ::
  "'z store_scheme handler \<Rightarrow> time \<Rightarrow> envelope list \<Rightarrow> 'z store_scheme \<Rightarrow> nat \<times> 'z store_scheme" where
  "dispatch_all pub now [] st = (0, st)"
| "dispatch_all pub now (ev # evs) st =
     (let (ok, st1) = dispatch_envelope pub now ev st; (n, st2) = dispatch_all pub now evs st1
      in ((if ok then Suc n else n), st2))"

definition recover_pending ::
  "'z store_scheme handler \<Rightarrow> time \<Rightarrow> int \<Rightarrow> 'z store_scheme \<Rightarrow> nat \<times> 'z store_scheme" where
  "recover_pending pub now limit st =
     dispatch_all pub now (take (nat (clamp 1 10000 limit)) (pending_envelopes st)) st"

subsection \<open>Lemmas\<close>

lemma or_empty_clone [simp]: "or_empty_obj (json_clone (or_empty_obj p)) = json_clone (or_empty_obj p)"
  by (cases p) (auto simp: or_empty_obj_def js_truthy_def)

lemma or_empty_idem [simp]: "or_empty_obj (or_empty_obj p) = or_empty_obj p"
  by (auto simp: or_empty_obj_def js_truthy_def)

lemma canonical_event_row:
  assumes "or_null wid = wid'"
  shows "canonical_audit_event (domain_input (event_row (Some org) wid ev)) = canonical_audit_event (event_input org wid' ev)"
  using assms by (simp add: canonical_audit_event_def domain_input_def event_row_def event_input_def)

lemma has_event_find: "\<not> has_event st e \<longleftrightarrow> find (\<lambda>d. de_event_id d = e) (domain_events st) = None"
  by (auto simp: has_event_def find_None_iff)

lemma audit_row_input_cong: "work_items st' = work_items st \<Longrightarrow> audit_row_input st' = audit_row_input st"
  by (simp add: audit_row_input_def item_org_def fun_eq_iff)

lemma current_of_cong:
  "domain_events st' = domain_events st \<Longrightarrow> audit_events st' = audit_events st \<Longrightarrow>
   work_items st' = work_items st \<Longrightarrow> current_of st' = current_of st"
  using audit_row_input_cong [of st' st] by (intro ext) (simp add: current_of_def)

lemma current_of_add_event:
  assumes "\<not> has_event st (de_event_id row)"
  shows "current_of (st\<lparr>domain_events := domain_events st @ [row]\<rparr>) s e =
    (if s = ''domain_events'' \<and> e = de_event_id row then Some (domain_input row) else current_of st s e)"
proof -
  have [simp]: "audit_row_input (st\<lparr>domain_events := ds\<rparr>) = audit_row_input st" for ds
    by (rule audit_row_input_cong) simp
  show ?thesis
    using assms by (auto simp: current_of_def find_append has_event_find split: option.splits)
qed

lemma verified_sourced:
  assumes "seqs_ok st" "chain_ok sha st org" "x \<in> set (org_rows st org)"
  shows "current_input st x \<noteq> None"
proof -
  obtain xs ys where "org_rows st org = xs @ x # ys" using assms(3) by (meson split_list)
  then have "row_valid sha st (head_of xs) x" using chain_ok_nth assms(1,2) by blast
  then show ?thesis by (auto simp: row_valid_def split: option.splits)
qed

text \<open>A chain stays verified when source rows are only added.\<close>

lemma chain_state_sources:
  assumes "chain_state sha st" "integrity st' = integrity st" "integrity_seq st' = integrity_seq st"
    and "\<And>s e. current_of st s e \<noteq> None \<Longrightarrow> current_of st' s e = current_of st s e"
  shows "chain_state sha st'"
proof -
  have rows: "org_rows st' org = org_rows st org" for org using assms(2) by (simp add: org_rows_def)
  have seqs: "seqs_ok st" "seqs_ok st'" using assms(1-3) by (auto simp: chain_state_def seqs_ok_def)
  have "chain_ok sha st' org" for org
  proof -
    have "current_input st' x = current_input st x" if "x \<in> set (org_rows st org)" for x
      using verified_sourced [OF seqs(1) _ that, of sha] assms(1,4) by (simp add: chain_state_def)
    then show ?thesis using chain_ok_cong [OF seqs rows [of org], of sha] assms(1) by (simp add: chain_state_def)
  qed
  then show ?thesis using assms(1,2) seqs rows by (simp add: chain_state_def)
qed

lemma chain_state_add_event:
  assumes "chain_state sha st" "\<not> has_event st (de_event_id row)"
  shows "chain_state sha (st\<lparr>domain_events := domain_events st @ [row]\<rparr>)"
proof (rule chain_state_sources [OF assms(1)])
  fix s e
  assume "current_of st s e \<noteq> None"
  with assms(2) show "current_of (st\<lparr>domain_events := domain_events st @ [row]\<rparr>) s e = current_of st s e"
    by (auto simp: current_of_add_event) (auto simp: current_of_def has_event_find)
qed simp_all

lemma chain_state_outbox [simp]: "chain_state sha (st\<lparr>outbox := x\<rparr>) = chain_state sha st"
proof -
  have [simp]: "current_of (st\<lparr>outbox := x\<rparr>) = current_of st"
    by (rule current_of_cong) simp_all
  show ?thesis
    using chain_state_sources [of sha st "st\<lparr>outbox := x\<rparr>"] chain_state_sources [of sha "st\<lparr>outbox := x\<rparr>" st]
    by auto
qed

definition logged :: "'z store_scheme \<Rightarrow> uuid \<Rightarrow> bool" where
  "logged st e \<longleftrightarrow> (\<exists>x \<in> set (integrity st). ie_source x = ''domain_events'' \<and> ie_event_id x = e)"

lemma enqueue_Inr:
  "enqueue sha env fresh now i st = Inr (ev, st') \<longleftrightarrow>
     ev = outbox_envelope fresh now i \<and> \<not> has_event st (ev_id ev) \<and>
     (\<exists>st2. append_audit_entry sha Transaction env (event_input (oi_org_id i) (Some (ev_work_item_id ev)) ev)
         (st\<lparr>domain_events := domain_events st @ [event_row (Some (oi_org_id i)) (Some (ev_work_item_id ev)) ev]\<rparr>) = Inr st2 \<and>
       (\<forall>o' \<in> set (outbox st2). ob_event_id o' \<noteq> ev_id ev) \<and>
       st' = st2\<lparr>outbox := outbox st2 @ [pending_row ev]\<rparr>)"
  by (auto simp: enqueue_def Let_def and_then_Inr)


lemma append_existing:
  "logged st (ai_event_id i) \<Longrightarrow> ai_source i = ''domain_events'' \<Longrightarrow> append_audit_entry sha q env i st = Inr st"
  by (auto simp: append_audit_entry_def logged_def)

lemma enqueue_facts:
  assumes "digest sha" "honest sha env" "chain_state sha st" "oi_work_item_id i \<noteq> []"
    and "enqueue sha env fresh now i st = Inr (ev, st')"
  shows "chain_state sha st'" "logged st' (ev_id ev)" "pending_row ev \<in> set (outbox st')"
    "find (\<lambda>d. de_event_id d = ev_id ev) (domain_events st') =
       Some (event_row (Some (oi_org_id i)) (Some (ev_work_item_id ev)) ev)"
    "ev = outbox_envelope fresh now i"
proof -
  let ?row = "event_row (Some (oi_org_id i)) (Some (ev_work_item_id ev)) ev"
  let ?st1 = "st\<lparr>domain_events := domain_events st @ [?row]\<rparr>"
  let ?in = "event_input (oi_org_id i) (Some (ev_work_item_id ev)) ev"
  obtain st2 where ev: "ev = outbox_envelope fresh now i" and new: "\<not> has_event st (ev_id ev)"
    and app: "append_audit_entry sha Transaction env ?in ?st1 = Inr st2"
    and st': "st' = st2\<lparr>outbox := outbox st2 @ [pending_row ev]\<rparr>"
    using assms(5) by (auto simp: enqueue_Inr)
  have wid: "or_null (Some (ev_work_item_id ev)) = Some (ev_work_item_id ev)"
    using assms(4) by (simp add: ev outbox_envelope_def or_null_def)
  have id: "de_event_id ?row = ev_id ev" by (simp add: event_row_def)
  have new': "\<not> has_event st (de_event_id ?row)" using new id by simp
  have src: "sourced ?st1 ?in"
    using current_of_add_event [OF new'] canonical_event_row [OF wid] id
    by (simp add: sourced_def event_input_def)
  have chain: "chain_state sha ?st1" by (rule chain_state_add_event [OF assms(3) new'])
  obtain evs where evs: "domain_events st2 = (domain_events st @ [?row]) @ evs"
    using append_extends_events [OF assms(1,2) chain src app] by auto
  note sound = append_sound [OF assms(1,2) chain src app]
  show "chain_state sha st'" using sound st' by simp
  show "logged st' (ev_id ev)" using sound st' by (auto simp: logged_def event_input_def)
  show "pending_row ev \<in> set (outbox st')" using st' by simp
  show "ev = outbox_envelope fresh now i" by (rule ev)
  show "find (\<lambda>d. de_event_id d = ev_id ev) (domain_events st') = Some ?row"
    using new id by (simp add: st' evs find_append has_event_find)
qed

lemma mark_dispatched_fields [simp]:
  "ob_status (mark_dispatched now r) = ''dispatched''" "ob_event_id (mark_dispatched now r) = ob_event_id r"
  by (simp_all add: mark_dispatched_def)

lemma mark_undelivered_fields [simp]:
  "ob_status (mark_undelivered now err r) = ''pending''" "ob_event_id (mark_undelivered now err r) = ob_event_id r"
  "ob_attempts (mark_undelivered now err r) = ob_attempts r + 1"
  by (simp_all add: mark_undelivered_def)

subsection \<open>Publishers\<close>

text \<open>
  What the outbox relies on when it hands an envelope to the bus: the delivery returns, the
  envelope joins the emitted log, and neither outbox markers nor stored events are rewritten.
\<close>

locale publisher =
  fixes pub :: "'z store_scheme handler"
  assumes returns: "fst (pub ev st) = None"
    and keeps_outbox: "outbox (snd (pub ev st)) = outbox st"
    and emits: "\<exists>l. emitted (snd (pub ev st)) = emitted st @ ev # l"
begin

lemma dispatch_ok:
  "dispatch_envelope pub now ev st =
     (True, (snd (pub ev st))\<lparr>outbox := update_where (\<lambda>o'. ob_event_id o' = ev_id ev) (mark_dispatched now) (outbox st)\<rparr>)"
  using returns [of ev st] keeps_outbox [of ev st]
  by (cases "pub ev st") (simp add: dispatch_envelope_def)

lemma dispatch_all_count: "fst (dispatch_all pub now evs st) = length evs"
  by (induction evs arbitrary: st) (simp_all add: dispatch_ok Let_def case_prod_beta)

lemma dispatch_all_emits:
  "set (emitted (snd (dispatch_all pub now evs st))) \<supseteq> set (emitted st) \<union> set evs"
proof (induction evs arbitrary: st)
  case (Cons ev evs)
  let ?st1 = "snd (dispatch_envelope pub now ev st)"
  have "set (emitted ?st1) \<supseteq> insert ev (set (emitted st))"
    using emits [of ev st] by (auto simp: dispatch_ok)
  then show ?case using Cons [of ?st1] by (auto simp: case_prod_beta Let_def)
qed simp

lemma dispatch_all_rows:
  "o' \<in> set (outbox (snd (dispatch_all pub now evs st))) \<Longrightarrow>
   (if ob_event_id o' \<in> ev_id ` set evs then ob_status o' = ''dispatched'' else o' \<in> set (outbox st))"
proof (induction evs arbitrary: st o')
  case (Cons ev evs)
  let ?st1 = "snd (dispatch_envelope pub now ev st)"
  have "o' \<in> set (outbox (snd (dispatch_all pub now evs ?st1)))"
    using Cons.prems by (simp add: case_prod_beta Let_def)
  from Cons.IH [OF this] show ?case
    by (auto simp: dispatch_ok set_update_where split: if_splits) (metis mark_dispatched_fields(1))+
qed simp

lemma recovery_settles:
  assumes "int (length (pending_envelopes st)) \<le> clamp 1 10000 limit"
    and "\<And>o'. o' \<in> set (outbox st) \<Longrightarrow> has_event st (ob_event_id o')"
    and "recover_pending pub now limit st = (n, st')"
  shows "n = length (pending_envelopes st) \<and> set (pending_envelopes st) \<subseteq> set (emitted st') \<and>
    (\<forall>o' \<in> set (outbox st'). ob_status o' \<noteq> ''pending'')"
proof -
  let ?evs = "pending_envelopes st"
  have run: "dispatch_all pub now ?evs st = (n, st')"
    using assms(1,3) by (simp add: recover_pending_def)
  have "ob_status o' \<noteq> ''pending''" if o: "o' \<in> set (outbox st')" for o'
  proof
    assume pending: "ob_status o' = ''pending''"
    have row: "if ob_event_id o' \<in> ev_id ` set ?evs then ob_status o' = ''dispatched'' else o' \<in> set (outbox st)"
      using dispatch_all_rows [where o' = o' and now = now and evs = ?evs and st = st] o run by simp
    then have old: "o' \<in> set (outbox st)" "ob_event_id o' \<notin> ev_id ` set ?evs"
      using pending by (auto split: if_splits)
    obtain d where d: "find (\<lambda>d. de_event_id d = ob_event_id o') (domain_events st) = Some d"
      using assms(2) [OF old(1)] has_event_find [of st "ob_event_id o'"] by (cases "find (\<lambda>d. de_event_id d = ob_event_id o') (domain_events st)") auto
    then have "map_envelope d \<in> set ?evs"
      using old(1) pending by (force simp: pending_envelopes_def List.map_filter_def image_iff)
    moreover have "ev_id (map_envelope d) = ob_event_id o'"
      using find_SomeD [OF d] by (simp add: map_envelope_def)
    ultimately show False using old(2) by (metis imageI)
  qed
  then show ?thesis
    using dispatch_all_count [where now = now and evs = ?evs and st = st]
      dispatch_all_emits [where now = now and evs = ?evs and st = st] run by auto
qed

end

text \<open>The event store's subscription is such a publisher.\<close>

lemma insert_frame:
  "insert_integrity e st = (out, st') \<Longrightarrow>
   outbox st' = outbox st \<and> emitted st' = emitted st \<and> domain_events st' = domain_events st \<and>
   work_items st' = work_items st \<and> audit_events st' = audit_events st \<and> store.more st' = store.more st"
  by (auto simp: insert_integrity_def Let_def split: if_splits)

lemma attempts_frame:
  "append_attempts sha q quiet i org left k ab st = Inr st' \<Longrightarrow>
   outbox st' = outbox st \<and> emitted st' = emitted st \<and> domain_events st' = domain_events st \<and>
   work_items st' = work_items st \<and> audit_events st' = audit_events st \<and> store.more st' = store.more st"
proof (induction left arbitrary: k ab st)
  case (Suc left)
  obtain out st2 where ins: "insert_integrity (new_entry sha i org (chain_head st org)) st = (out, st2)" by fastforce
  then show ?case
    using Suc.prems Suc.IH [of "Suc k" "q = Transaction" st2] insert_frame [OF ins]
    by (cases out) (auto simp: Let_def quiet_def split: if_splits)
qed simp

lemma append_frame:
  assumes "append_audit_entry sha q quiet i st = Inr st'"
  shows "outbox st' = outbox st \<and> emitted st' = emitted st \<and> domain_events st' = domain_events st \<and>
   work_items st' = work_items st \<and> audit_events st' = audit_events st \<and> store.more st' = store.more st"
proof (cases "\<exists>x \<in> set (integrity st). ie_source x = ai_source i \<and> ie_event_id x = ai_event_id i")
  case True
  then show ?thesis using assms by (auto simp: append_audit_entry_def)
next
  case False
  obtain org where "append_attempts sha q quiet i org max_append_attempts 1 False st = Inr st'"
    using assms unfolding append_audit_entry_def if_not_P [OF False]
    by (cases "ai_org_id i") auto
  then show ?thesis by (rule attempts_frame)
qed

lemma record_frame:
  assumes "record_event sha quiet ev st = Inr st'"
  shows "outbox st' = outbox st \<and> emitted st' = emitted st \<and> work_items st' = work_items st \<and>
   audit_events st' = audit_events st \<and> store.more st' = store.more st"
proof -
  let ?st1 = "\<lambda>org. if has_event st (ev_id ev) then st
     else st\<lparr>domain_events := domain_events st @ [event_row org (or_null (Some (ev_work_item_id ev))) ev]\<rparr>"
  obtain org where *: "(case or_null org of None \<Rightarrow> Inr (?st1 org) | Some o' \<Rightarrow>
      (case append_audit_entry sha Transaction quiet (event_input o' (or_null (Some (ev_work_item_id ev))) ev) (?st1 org) of
         Inl e \<Rightarrow> Inl (show_db_error e) | Inr st2 \<Rightarrow> Inr st2)) = Inr st'"
    using assms by (auto simp: record_event_def and_then_Inr Let_def)
  show ?thesis
  proof (cases "or_null org")
    case None
    then show ?thesis using * by auto
  next
    case (Some o')
    then obtain st2 where "append_audit_entry sha Transaction quiet
        (event_input o' (or_null (Some (ev_work_item_id ev))) ev) (?st1 org) = Inr st2" "st' = st2"
      using * by (auto split: sum.splits)
    from append_frame [OF this(1)] this(2) show ?thesis by auto
  qed
qed

lemma store_publish:
  "publish_envelope (store_bus sha env) ev st = store_handler sha env ev (st\<lparr>emitted := emitted st @ [ev]\<rparr>)"
  by (simp add: publish_envelope_def store_bus_def subscribe_all_def empty_bus_def store_handler_def)

lemma store_emits:
  "emitted (snd (publish_envelope (store_bus sha quiet) ev st)) = emitted st @ [ev] \<and>
   outbox (snd (publish_envelope (store_bus sha quiet) ev st)) = outbox st"
proof -
  let ?st = "st\<lparr>emitted := emitted st @ [ev]\<rparr>"
  show ?thesis
  proof (cases "record_event sha quiet ev ?st")
    case (Inr st')
    then show ?thesis using record_frame [OF Inr] by (simp add: store_publish store_handler_def)
  qed (simp add: store_publish store_handler_def)
qed

interpretation sb: publisher "publish_envelope (store_bus sha quiet)" for sha
proof
  show "fst (publish_envelope (store_bus sha quiet) ev st) = None" for ev and st :: "'a store_scheme"
    by (simp add: store_publish store_handler_def)
qed (use store_emits in \<open>force+\<close>)


lemma bus_tables:
  "work_items (snd (publish_envelope (store_bus sha quiet) ev st)) = work_items st \<and>
   store.more (snd (publish_envelope (store_bus sha quiet) ev st)) = store.more st"
proof -
  let ?st = "st\<lparr>emitted := emitted st @ [ev]\<rparr>"
  show ?thesis
  proof (cases "record_event sha quiet ev ?st")
    case (Inr st')
    then show ?thesis using record_frame [OF Inr] by (simp add: store_publish store_handler_def)
  qed (simp add: store_publish store_handler_def)
qed

lemma record_again:
  assumes "has_event st (ev_id ev)" "logged st (ev_id ev)"
  shows "store_handler sha env ev st = (None, st)"
proof -
  have "append_audit_entry sha Transaction env (event_input o' wid ev) st = Inr st" for o' wid
    using append_existing [of st "event_input o' wid ev"] assms(2) by (simp add: event_input_def)
  then have "record_event sha env ev st = Inr st \<or> (\<exists>e. record_event sha env ev st = Inl e)"
    using assms(1)
    by (cases "resolve_event_org_id st ev") (auto simp: record_event_def Let_def split: option.splits)
  then show ?thesis by (auto simp: store_handler_def)
qed

subsection \<open>Properties\<close>

text \<open>A successful enqueue leaves the event row, its verified audit link and a pending outbox
  marker together; the caller's transaction makes them one commit with the business write.\<close>

lemma enqueue_all_or_nothing:
  assumes "digest sha" "honest sha env" "chain_state sha st" "oi_work_item_id i \<noteq> []"
    and "enqueue sha env fresh now i st = Inr (ev, st')"
  shows "chain_state sha st' \<and> logged st' (ev_id ev) \<and> pending_row ev \<in> set (outbox st') \<and>
    find (\<lambda>d. de_event_id d = ev_id ev) (domain_events st') =
      Some (event_row (Some (oi_org_id i)) (Some (ev_work_item_id ev)) ev)"
  using enqueue_facts [OF assms] by blast

definition sample_input :: outbox_input where
  "sample_input = \<lparr>oi_event_type = ''t'', oi_work_item_id = ''w1'', oi_org_id = ''o1'',
     oi_actor_type = ''user'', oi_actor_id = ''u1'', oi_payload = JObj [], oi_schema_version = None,
     oi_event_id = None, oi_timestamp = None\<rparr>"

lemma sample_enqueue:
  "\<exists>st'. enqueue sample_sha quiet ''e1'' 5 sample_input empty_store = Inr (outbox_envelope ''e1'' 5 sample_input, st')"
  by (simp add: enqueue_def sample_input_def empty_store_def has_event_def outbox_envelope_def or_null_def
      append_audit_entry_def max_append_attempts_def numeral_eq_Suc insert_integrity_def quiet_def Let_def
      event_input_def)

lemma empty_chain: "chain_state sha empty_store"
  by (simp add: chain_state_no_links empty_store_def)

text \<open>Delivering an enqueued event to the bus adds nothing to the history it already has: the
  event store's subscription finds both the row and the link, and only the emitted log grows.\<close>

lemma delivery_adds_no_history:
  assumes "digest sha" "honest sha env" "chain_state sha st" "oi_work_item_id i \<noteq> []"
    and "enqueue sha env fresh now i st = Inr (ev, st')"
  shows "publish_envelope (store_bus sha env') ev st' = (None, st'\<lparr>emitted := emitted st' @ [ev]\<rparr>)"
proof -
  note facts = enqueue_facts [OF assms]
  have "has_event st' (ev_id ev)" using facts(4) has_event_find [of st' "ev_id ev"] by auto
  then show ?thesis
    using facts(2) record_again [of "st'\<lparr>emitted := emitted st' @ [ev]\<rparr>" ev sha env']
    by (simp add: store_publish has_event_def logged_def)
qed

text \<open>A crash between commit and delivery loses nothing: the recovery scan of the committed
  store redelivers the event with the identity, actor and time it was enqueued with, and with the
  payload as the JSON column kept it.\<close>

lemma crash_recovery_redelivers_event:
  assumes "digest sha" "honest sha env" "chain_state sha st" "oi_work_item_id i \<noteq> []"
    and "enqueue sha env fresh now i st = Inr (ev, st')"
  shows "ev\<lparr>ev_payload := json_clone (or_empty_obj (oi_payload i))\<rparr> \<in> set (pending_envelopes st')"
proof -
  note facts = enqueue_facts [OF assms]
  let ?row = "event_row (Some (oi_org_id i)) (Some (ev_work_item_id ev)) ev"
  have "map_envelope ?row = ev\<lparr>ev_payload := json_clone (or_empty_obj (oi_payload i))\<rparr>"
    using facts(5) by (simp add: map_envelope_def event_row_def outbox_envelope_def)
  moreover have "map_envelope ?row \<in> set (pending_envelopes st')"
    using facts(3,4)
    by (force simp: pending_envelopes_def List.map_filter_def image_iff pending_row_def
        intro!: bexI [of _ "pending_row ev"])
  ultimately show ?thesis by simp
qed

text \<open>C5. Bootstrap recovery with the event store subscribed settles everything it scanned: every
  pending envelope is emitted, each counts as dispatched, and no pending marker is left.\<close>

theorem recovery_settles_outbox:
  assumes "int (length (pending_envelopes st)) \<le> clamp 1 10000 limit"
    and "\<forall>o' \<in> set (outbox st). has_event st (ob_event_id o')"
    and "recover_pending (publish_envelope (store_bus sha quiet)) now limit st = (n, st')"
  shows "n = length (pending_envelopes st) \<and> set (pending_envelopes st) \<subseteq> set (emitted st') \<and>
    (\<forall>o' \<in> set (outbox st'). ob_status o' \<noteq> ''pending'')"
  using assms(2) by (intro sb.recovery_settles [OF assms(1) _ assms(3)]) blast

definition pending_store :: store where
  "pending_store = sample_store\<lparr>outbox := [pending_row (map_envelope sample_event)]\<rparr>"

lemma recovery_settles_outbox_witness:
  "fst (recover_pending (publish_envelope (store_bus sample_sha quiet)) 9 1000 pending_store) = 1"
proof -
  have ev: "pending_envelopes pending_store = [map_envelope sample_event]"
    by (simp add: pending_envelopes_def pending_store_def pending_row_def sample_store_def map_envelope_def
        sample_event_def List.map_filter_def)
  have "fst (recover_pending (publish_envelope (store_bus sample_sha quiet)) 9 1000 pending_store) =
      length (pending_envelopes pending_store)"
  proof (rule recovery_settles_outbox [THEN conjunct1, OF _ _ prod.collapse [symmetric]])
    show "int (length (pending_envelopes pending_store)) \<le> clamp 1 10000 1000" by (simp add: ev clamp_def)
    show "\<forall>o' \<in> set (outbox pending_store). has_event pending_store (ob_event_id o')"
      by (simp add: pending_store_def pending_row_def has_event_def sample_store_def map_envelope_def)
  qed
  then show ?thesis by (simp add: ev)
qed

text \<open>A publication that throws reports failure, counts the attempt and keeps the event in the
  set the next recovery scan delivers.\<close>

lemma failed_dispatch_stays_pending:
  assumes "pub ev st = (Some err, st1)" "r \<in> set (outbox st1)" "ob_event_id r = ev_id ev"
    and "find (\<lambda>d. de_event_id d = ev_id ev) (domain_events st1) = Some d"
    and "dispatch_envelope pub now ev st = (ok, st')"
  shows "\<not> ok \<and> map_envelope d \<in> set (pending_envelopes st') \<and>
    (\<exists>r' \<in> set (outbox st'). ob_event_id r' = ev_id ev \<and> ob_attempts r' = ob_attempts r + 1 \<and> ob_last_error r' = Some err)"
proof -
  let ?r = "mark_undelivered now err r"
  have st': "\<not> ok" "st' = st1\<lparr>outbox := update_where (\<lambda>o'. ob_event_id o' = ev_id ev) (mark_undelivered now err) (outbox st1)\<rparr>"
    using assms(1,5) by (auto simp: dispatch_envelope_def)
  have row: "?r \<in> set (outbox st')" using assms(2,3) by (force simp: st' set_update_where)
  then have "map_envelope d \<in> set (pending_envelopes st')"
    using assms(3,4)
    by (force simp: pending_envelopes_def List.map_filter_def st'(2) image_iff intro!: bexI [of _ ?r])
  with st'(1) row assms(3) show ?thesis by (auto simp: mark_undelivered_def intro!: bexI [of _ ?r])
qed

subsection \<open>A fresh event is always accepted\<close>

text \<open>
  When nothing interferes, an enqueue under an unused id succeeds. The digest is one whose values
  outgrow what they digest, so that a hash never repeats within a chain.
\<close>

definition growing :: "(string \<Rightarrow> string) \<Rightarrow> bool" where
  "growing sha \<longleftrightarrow> (\<forall>x. length x < length (sha x))"

definition used :: "'z store_scheme \<Rightarrow> uuid \<Rightarrow> bool" where
  "used st e \<longleftrightarrow> has_event st e \<or> logged st e \<or> (\<exists>o' \<in> set (outbox st). ob_event_id o' = e)"

lemma growing_digest: "growing sha \<Longrightarrow> digest sha"
  by (metis growing_def digest_def less_nat_zero_code list.size(3))

lemma growing_sample: "growing sample_sha"
  by (simp add: growing_def sample_sha_def)

lemma chain_hashes_grow:
  assumes "growing sha" "seqs_ok st" "chain_ok sha st org" "x \<in> set (org_rows st org)"
  shows "length (ie_event_hash x) \<le> length (ie_event_hash (last (org_rows st org)))"
proof -
  let ?rows = "org_rows st org"
  have step: "length (ie_event_hash (?rows ! n)) < length (ie_event_hash (?rows ! Suc n))" if "Suc n < length ?rows" for n
  proof -
    have "row_valid sha st (head_of (take (Suc n) ?rows)) (?rows ! Suc n)"
      using verified_nth [of sha st ?rows "Suc n"] assms(2,3) that by (simp add: chain_ok_rows)
    moreover have "head_of (take (Suc n) ?rows) = Some (ie_event_hash (?rows ! n))"
      using that by (simp add: head_of_def take_Suc_conv_app_nth)
    ultimately have prev: "or_null (ie_previous_hash (?rows ! Suc n)) = Some (ie_event_hash (?rows ! n))"
      and hash: "ie_event_hash (?rows ! Suc n) = sha (hash_text (ie_previous_hash (?rows ! Suc n)) (ie_canonical (?rows ! Suc n)))"
      by (auto simp: row_valid_def calculate_audit_hash_def)
    have "hash_text (ie_previous_hash (?rows ! Suc n)) ev = hash_text (Some (ie_event_hash (?rows ! n))) ev" for ev
      using prev by (metis hash_text_or_null)
    moreover have "ie_event_hash (?rows ! n) \<noteq> []" using prev by (auto simp: or_null_def split: option.splits if_splits)
    ultimately have "length (ie_event_hash (?rows ! n)) < length (hash_text (ie_previous_hash (?rows ! Suc n)) (ie_canonical (?rows ! Suc n)))"
      by (simp add: hash_text_def or_null_def)
    also have "\<dots> < length (ie_event_hash (?rows ! Suc n))" using assms(1) hash by (simp add: growing_def)
    finally show ?thesis .
  qed
  obtain n where n: "n < length ?rows" "?rows ! n = x" using assms(4) by (auto simp: in_set_conv_nth)
  have "m < length ?rows \<Longrightarrow> n \<le> m \<Longrightarrow> length (ie_event_hash (?rows ! n)) \<le> length (ie_event_hash (?rows ! m))" for m
  proof (induction m)
    case (Suc m)
    then show ?case using step [of m] by (cases "n = Suc m") auto
  qed simp
  from this [of "length ?rows - 1"] n have "length (ie_event_hash x) \<le> length (ie_event_hash (?rows ! (length ?rows - 1)))"
    by auto
  moreover have "last ?rows = ?rows ! (length ?rows - 1)" by (rule last_conv_nth) (use n in auto)
  ultimately show ?thesis by argo
qed

lemma append_total:
  assumes "growing sha" "chain_state sha st" "ai_source i = ''domain_events''" "\<not> logged st (ai_event_id i)" "ai_org_id i = Some org"
  shows "append_audit_entry sha q quiet i st = Inr (st\<lparr>integrity_seq := integrity_seq st + 1,
    integrity := integrity st @ [(new_entry sha i org (chain_head st org))\<lparr>ie_sequence := integrity_seq st\<rparr>]\<rparr>)"
proof -
  let ?e = "new_entry sha i org (chain_head st org)"
  have st: "seqs_ok st" "chain_ok sha st org" using assms(2) by (auto simp: chain_state_def)
  have prev: "chain_head st org = head_of (org_rows st org)"
    using chain_head_eq [of st org] valid_rows_nonempty_hash [of sha st org] growing_digest [OF assms(1)] st by simp
  have "length (ie_event_hash x) < length (ie_event_hash ?e)" if x: "x \<in> set (org_rows st org)" for x
  proof -
    have "length (ie_event_hash x) \<le> length (ie_event_hash (last (org_rows st org)))"
      using chain_hashes_grow assms(1) st x by blast
    also have "\<dots> < length (ie_event_hash ?e)"
    proof -
      have ne: "org_rows st org \<noteq> []" using x by auto
      let ?h = "ie_event_hash (last (org_rows st org))" and ?ev = "canonical_audit_event i"
      have "length ?h \<le> length (hash_text (Some ?h) ?ev)" by (simp add: hash_text_def or_null_def)
      also have "\<dots> < length (sha (hash_text (Some ?h) ?ev))" using assms(1) unfolding growing_def by blast
      finally show ?thesis using prev ne by (simp add: head_of_def new_entry_def calculate_audit_hash_def)
    qed
    finally show ?thesis .
  qed
  then have hash: "\<forall>x \<in> set (org_rows st org). ie_event_hash x \<noteq> ie_event_hash ?e" by fastforce
  have link: "\<forall>x \<in> set (org_rows st org). ie_previous_hash x \<noteq> chain_head st org"
    using head_unclaimed [of sha st] growing_digest [OF assms(1)] assms(2) by blast
  obtain out st' where ins: "insert_integrity ?e st = (out, st')" by fastforce
  have fields: "ie_org_id ?e = org" "ie_previous_hash ?e = chain_head st org" "ie_source ?e = ''domain_events''" "ie_event_id ?e = ai_event_id i"
    by (simp_all add: new_entry_def assms(3))
  have new: "\<not> (\<exists>x \<in> set (integrity st). ie_source x = ''domain_events'' \<and> ie_event_id x = ai_event_id i)"
    using assms(4) by (auto simp: logged_def)
  have "insert_integrity ?e st = (Inserted, st\<lparr>integrity_seq := integrity_seq st + 1,
      integrity := integrity st @ [?e\<lparr>ie_sequence := integrity_seq st\<rparr>]\<rparr>)"
    using hash link new fields unfolding insert_integrity_def org_rows_def by (auto simp: Let_def)
  then show ?thesis
    using new assms(3,5)
    unfolding append_audit_entry_def assms(3) if_not_P [OF new]
    by (simp add: max_append_attempts_def numeral_eq_Suc quiet_def Let_def)
qed

lemma chain_state_base:
  assumes "integrity st' = integrity st" "integrity_seq st' = integrity_seq st" "domain_events st' = domain_events st"
    "audit_events st' = audit_events st" "work_items st' = work_items st"
  shows "chain_state sha st' = chain_state sha st"
proof -
  have "current_of st' = current_of st" by (rule current_of_cong) (simp_all add: assms)
  then show ?thesis
    using chain_state_sources [of sha st st'] chain_state_sources [of sha st' st] assms by auto
qed

lemma used_base:
  "integrity st' = integrity st \<Longrightarrow> domain_events st' = domain_events st \<Longrightarrow> outbox st' = outbox st \<Longrightarrow> used st' = used st"
  by (simp add: used_def has_event_def logged_def fun_eq_iff)

lemma chain_state_emitted [simp]: "chain_state sha (st\<lparr>emitted := x\<rparr>) = chain_state sha st"
  by (rule chain_state_base) simp_all

lemma dispatch_enqueued:
  assumes "has_event st (ev_id ev)" "logged st (ev_id ev)"
  shows "snd (dispatch_envelope (publish_envelope (store_bus sha env)) now ev st) =
    st\<lparr>emitted := emitted st @ [ev],
       outbox := update_where (\<lambda>o'. ob_event_id o' = ev_id ev) (mark_dispatched now) (outbox st)\<rparr>"
  using assms record_again [of "st\<lparr>emitted := emitted st @ [ev]\<rparr>" ev sha env]
  by (simp add: dispatch_envelope_def store_publish has_event_def logged_def)

lemma enqueue_dispatch_total:
  assumes "growing sha" "chain_state sha st" "\<not> used st fresh" "oi_event_id i = None" "oi_work_item_id i \<noteq> []"
  shows "\<exists>ev st'. enqueue sha quiet fresh now i st = Inr (ev, st') \<and>
    (let st2 = snd (dispatch_envelope (publish_envelope (store_bus sha quiet)) now' ev st')
     in chain_state sha st2 \<and> (\<forall>e. used st2 e = (e = fresh \<or> used st e)))"
proof -
  let ?ev = "outbox_envelope fresh now i"
  let ?st1 = "st\<lparr>domain_events := domain_events st @ [event_row (Some (oi_org_id i)) (Some (ev_work_item_id ?ev)) ?ev]\<rparr>"
  let ?in = "event_input (oi_org_id i) (Some (ev_work_item_id ?ev)) ?ev"
  have id: "ev_id ?ev = fresh" using assms(4) by (simp add: outbox_envelope_def or_null_def)
  have chain1: "chain_state sha ?st1"
    by (rule chain_state_add_event) (use assms(2,3) id in \<open>auto simp: used_def event_row_def\<close>)
  have "append_audit_entry sha Transaction quiet ?in ?st1 = Inr (?st1\<lparr>integrity_seq := integrity_seq ?st1 + 1,
      integrity := integrity ?st1 @ [(new_entry sha ?in (oi_org_id i) (chain_head ?st1 (oi_org_id i)))\<lparr>ie_sequence := integrity_seq ?st1\<rparr>]\<rparr>)"
    by (rule append_total [OF assms(1) chain1]) (use assms(3) id in \<open>auto simp: event_input_def used_def logged_def\<close>)
  then obtain st' where enq: "enqueue sha quiet fresh now i st = Inr (?ev, st')"
    and st': "domain_events st' = domain_events ?st1" "outbox st' = outbox st @ [pending_row ?ev]"
      "integrity st' = integrity st @ [(new_entry sha ?in (oi_org_id i) (chain_head ?st1 (oi_org_id i)))\<lparr>ie_sequence := integrity_seq st\<rparr>]"
    using assms(3) id by (auto simp: enqueue_Inr used_def)
  note facts = enqueue_facts [OF growing_digest [OF assms(1)] honest_quiet assms(2,5) enq]
  have has: "has_event st' e \<longleftrightarrow> e = fresh \<or> has_event st e" for e
    using st'(1) id by (auto simp: has_event_def event_row_def)
  have log: "logged st' e \<longleftrightarrow> e = fresh \<or> logged st e" for e
    using st'(3) id by (auto simp: logged_def new_entry_def event_input_def)
  have disp: "snd (dispatch_envelope (publish_envelope (store_bus sha quiet)) now' ?ev st') =
      st'\<lparr>emitted := emitted st' @ [?ev],
         outbox := update_where (\<lambda>o'. ob_event_id o' = fresh) (mark_dispatched now') (outbox st')\<rparr>"
    using dispatch_enqueued [of st' ?ev] has log id by simp
  have "used (snd (dispatch_envelope (publish_envelope (store_bus sha quiet)) now' ?ev st')) e = (e = fresh \<or> used st e)" for e
    unfolding disp using has [of e] log [of e] st'(2) id
    by (auto simp: used_def has_event_def logged_def update_where_def mark_dispatched_def pending_row_def split: if_splits)
  then show ?thesis using enq facts(1) disp by (auto simp: Let_def)
qed

end
