(* ===== verification/SlaClock.thy ===== *)
theory SlaClock
  imports Prelude JsDate
begin

text \<open>
  The SLA clock of \<^verbatim>\<open>src/modules/sla/sla-calculator.service.ts\<close> and the flow clock
  \<open>businessMs\<close> of \<^verbatim>\<open>src/modules/flow/flow-profile.ts\<close>, which is meant to apply the same calendar
  by walking days where the former walks minutes. The lemmas measure both by one sum over days and
  so prove them equal for every pair of instants.
\<close>

datatype calendar = Cal5x8 | Cal24x7

subsection \<open>The minute walk\<close>

definition is_weekday :: "time \<Rightarrow> bool" where
  "is_weekday t \<longleftrightarrow> 1 \<le> utc_day t \<and> utc_day t \<le> 5"

definition in_work_hours :: "time \<Rightarrow> bool" where
  "in_work_hours t \<longleftrightarrow> 9 \<le> utc_hours t \<and> utc_hours t < 17"

definition next_minute :: "time \<Rightarrow> time" where
  "next_minute t = (t + minute_ms) - (t + minute_ms) mod minute_ms"

definition workday_end :: "time \<Rightarrow> time" where
  "workday_end t = utc_midnight t + 17 * hour_ms"

definition next_work_time :: "time \<Rightarrow> time" where
  "next_work_time t =
     (if is_weekday t \<and> utc_hours t < 9 then utc_midnight t + 9 * hour_ms
      else utc_midnight t + day_ms + 9 * hour_ms)"

lemma next_work_time_gt: "t < next_work_time t"
  using utc_midnight_gt [of t] utc_hours_iff [of t 9] by (auto simp: next_work_time_def date_units)

function minute_walk :: "time \<Rightarrow> time \<Rightarrow> int \<Rightarrow> int" where
  "minute_walk now cur acc =
     (if cur < now then
        if is_weekday cur \<and> in_work_hours cur then
          (let boundary = min now (min (next_minute cur) (workday_end cur)); chunk = boundary - cur
           in if chunk > 0 then minute_walk now boundary (acc + chunk)
              else minute_walk now (cur + minute_ms) acc)
        else if next_work_time cur > now then acc
        else minute_walk now (next_work_time cur) acc
      else acc)"
  by pat_completeness auto
termination
  by (relation "measure (\<lambda>(now, cur, acc). nat (now - cur))")
    (auto simp: Let_def minute_ms_def next_work_time_gt not_less)

declare minute_walk.simps [simp del]

definition calculate_elapsed_minutes :: "time \<Rightarrow> time \<Rightarrow> calendar \<Rightarrow> int" where
  "calculate_elapsed_minutes entered now cal =
     (if now \<le> entered then 0
      else case cal of
        Cal24x7 \<Rightarrow> (now - entered) div minute_ms
      | Cal5x8 \<Rightarrow> minute_walk now entered 0 div minute_ms)"

subsection \<open>The day walk\<close>

definition day_open :: "time \<Rightarrow> time \<Rightarrow> time \<Rightarrow> int" where
  "day_open from_t to_t day =
     (if utc_day day = 0 \<or> utc_day day = 6 then 0
      else (let opens = max (day + 9 * hour_ms) from_t; closes = min (day + 17 * hour_ms) to_t
            in if closes > opens then closes - opens else 0))"

function day_walk :: "time \<Rightarrow> time \<Rightarrow> time \<Rightarrow> int \<Rightarrow> int" where
  "day_walk from_t to_t day tot =
     (if day < to_t then day_walk from_t to_t (day + day_ms) (tot + day_open from_t to_t day) else tot)"
  by pat_completeness auto
termination
  by (relation "measure (\<lambda>(from_t, to_t, day, tot). nat (to_t - day))") (auto simp: day_ms_def)

declare day_walk.simps [simp del]

definition business_ms :: "time \<Rightarrow> time \<Rightarrow> calendar \<Rightarrow> int" where
  "business_ms from_t to_t cal =
     (if to_t \<le> from_t then 0
      else case cal of
        Cal24x7 \<Rightarrow> to_t - from_t
      | Cal5x8 \<Rightarrow> day_walk from_t to_t (utc_midnight from_t) 0)"

subsection \<open>Both walks as a sum over days\<close>

text \<open>The open time of day number \<open>d\<close> that falls inside an interval.\<close>

definition open_time :: "time \<Rightarrow> time \<Rightarrow> int \<Rightarrow> int" where
  "open_time a b d =
     (if weekday_of d = 0 \<or> weekday_of d = 6 then 0
      else max 0 (min (d * day_ms + 17 * hour_ms) b - max (d * day_ms + 9 * hour_ms) a))"

lemma day_open_eq: "day_open a b (d * day_ms) = open_time a b d"
  by (auto simp: day_open_def open_time_def utc_day_def Let_def)

lemma overlap_split:
  "(l :: int) \<le> u \<Longrightarrow> a \<le> b \<Longrightarrow> b \<le> c \<Longrightarrow>
   max 0 (min u c - max l a) = max 0 (min u b - max l a) + max 0 (min u c - max l b)"
  by (auto simp: min_def max_def)

lemma open_time_split: "a \<le> b \<Longrightarrow> b \<le> c \<Longrightarrow> open_time a c d = open_time a b d + open_time b c d"
  unfolding open_time_def
  using overlap_split [of "d * day_ms + 9 * hour_ms" "d * day_ms + 17 * hour_ms" a b c] by simp

lemma open_time_before: "(d + 1) * day_ms \<le> a \<Longrightarrow> open_time a b d = 0"
  by (auto simp: open_time_def date_units)

lemma open_time_after: "b \<le> d * day_ms \<Longrightarrow> open_time a b d = 0"
  by (auto simp: open_time_def date_units)

lemma day_walk_sum:
  "b \<le> hi * day_ms \<Longrightarrow> day_walk a b (d * day_ms) tot = tot + (\<Sum>k \<in> {d..<hi}. open_time a b k)"
proof (induction "nat (hi - d)" arbitrary: d tot)
  case 0
  then have "hi \<le> d" by simp
  with 0 have "\<not> d * day_ms < b" "{d..<hi} = {}"
    using mult_right_mono [of hi d day_ms] by (auto simp: not_less intro: order_trans)
  then show ?case by (simp add: day_walk.simps)
next
  case (Suc n)
  then have lt: "d < hi" and n: "n = nat (hi - (d + 1))" by auto
  have split: "{d..<hi} = insert d {d + 1..<hi}" using lt by auto
  show ?case
  proof (cases "d * day_ms < b")
    case True
    then have "day_walk a b (d * day_ms) tot = day_walk a b ((d + 1) * day_ms) (tot + open_time a b d)"
      by (subst day_walk.simps) (simp add: day_open_eq distrib_right)
    also have "\<dots> = tot + open_time a b d + (\<Sum>k \<in> {d + 1..<hi}. open_time a b k)"
      using Suc.hyps(1) [OF n] Suc.prems by simp
    finally show ?thesis unfolding split by simp
  next
    case False
    have "open_time a b k = 0" if "k \<in> {d..<hi}" for k
    proof (rule open_time_after)
      have "d * day_ms \<le> k * day_ms" using that by (intro mult_right_mono) auto
      with False show "b \<le> k * day_ms" by linarith
    qed
    then show ?thesis using False by (subst day_walk.simps) simp
  qed
qed

lemma business_sum:
  assumes "a \<le> b" "lo * day_ms \<le> a" "b \<le> hi * day_ms"
  shows "business_ms a b Cal5x8 = (\<Sum>k \<in> {lo..<hi}. open_time a b k)"
proof (cases "a = b")
  case True
  then have "open_time a b k = 0" for k by (auto simp: open_time_def)
  with True show ?thesis by (simp add: business_ms_def)
next
  case False
  let ?d = "utc_day_number a"
  have lo: "lo \<le> ?d"
    using assms(2) le_int_div_iff [OF day_ms_pos] by (simp add: utc_day_number_def)
  have "business_ms a b Cal5x8 = (\<Sum>k \<in> {?d..<hi}. open_time a b k)"
    using False assms day_walk_sum [OF assms(3), of a ?d 0] by (simp add: business_ms_def utc_midnight_def)
  also have "\<dots> = (\<Sum>k \<in> {lo..<hi}. open_time a b k)"
  proof (rule sum.mono_neutral_left)
    show "\<forall>k \<in> {lo..<hi} - {?d..<hi}. open_time a b k = 0"
    proof
      fix k
      assume "k \<in> {lo..<hi} - {?d..<hi}"
      then have "k + 1 \<le> ?d" by auto
      then have "(k + 1) * day_ms \<le> ?d * day_ms" by (intro mult_right_mono) auto
      also have "\<dots> \<le> a" using utc_midnight_le [of a] by (simp add: utc_midnight_def)
      finally show "open_time a b k = 0" by (rule open_time_before)
    qed
  qed (use lo in auto)
  finally show ?thesis .
qed

text \<open>The flow clock is additive: splitting an interval loses and gains nothing.\<close>

lemma business_additive:
  assumes "a \<le> b" "b \<le> c"
  shows "business_ms a c Cal5x8 = business_ms a b Cal5x8 + business_ms b c Cal5x8"
proof -
  let ?lo = "utc_day_number a" and ?hi = "utc_day_number c + 1"
  have lo: "?lo * day_ms \<le> a" using utc_midnight_le [of a] by (simp add: utc_midnight_def)
  have hi: "c \<le> ?hi * day_ms"
    using utc_midnight_gt [of c] by (simp add: utc_midnight_def distrib_right)
  have "business_ms a c Cal5x8 = (\<Sum>k \<in> {?lo..<?hi}. open_time a b k + open_time b c k)"
    using business_sum [of a c ?lo ?hi] lo hi assms open_time_split [OF assms] by simp
  also have "\<dots> = business_ms a b Cal5x8 + business_ms b c Cal5x8"
    using business_sum [of a b ?lo ?hi] business_sum [of b c ?lo ?hi] lo hi assms
    by (simp add: sum.distrib)
  finally show ?thesis .
qed

lemma business_in_day:
  assumes "d * day_ms \<le> a" "a \<le> b" "b \<le> (d + 1) * day_ms"
  shows "business_ms a b Cal5x8 = open_time a b d"
proof -
  have "{d..<d + 1} = {d}" by auto
  then show ?thesis using business_sum [OF assms(2,1,3)] by simp
qed

lemma day_hi: "t < (utc_day_number t + 1) * day_ms" and day_lo: "utc_day_number t * day_ms \<le> t"
  using utc_midnight_gt [of t] utc_midnight_le [of t] by (simp_all add: utc_midnight_def distrib_right)

lemma weekday_cases: "is_weekday t \<longleftrightarrow> weekday_of (utc_day_number t) \<noteq> 0 \<and> weekday_of (utc_day_number t) \<noteq> 6"
  using weekday_range [of "utc_day_number t"] by (auto simp: is_weekday_def utc_day_def)

lemma work_hours_iff:
  "in_work_hours t \<longleftrightarrow> utc_midnight t + 9 * hour_ms \<le> t \<and> t < utc_midnight t + 17 * hour_ms"
  using utc_hours_iff [of t 9] utc_hours_iff [of t 17] by (auto simp: in_work_hours_def)

lemma business_open:
  assumes "is_weekday a" "in_work_hours a" "a \<le> b" "b \<le> workday_end a"
  shows "business_ms a b Cal5x8 = b - a"
proof -
  let ?d = "utc_day_number a"
  have "b \<le> (?d + 1) * day_ms"
    using assms(4) by (simp add: workday_end_def utc_midnight_def distrib_right date_units)
  then have "business_ms a b Cal5x8 = open_time a b ?d"
    using business_in_day [OF day_lo assms(3)] by simp
  also have "\<dots> = b - a"
    using assms weekday_cases work_hours_iff
    by (auto simp: open_time_def workday_end_def utc_midnight_def)
  finally show ?thesis .
qed

lemma business_closed:
  assumes "\<not> (is_weekday a \<and> in_work_hours a)" "a \<le> b" "b \<le> next_work_time a"
  shows "business_ms a b Cal5x8 = 0"
proof -
  let ?d = "utc_day_number a"
  have here: "business_ms a c Cal5x8 = 0"
    if "a \<le> c" "c \<le> (?d + 1) * day_ms" "c \<le> next_work_time a" for c
  proof -
    have "business_ms a c Cal5x8 = open_time a c ?d" using business_in_day [OF day_lo that(1,2)] .
    also have "\<dots> = 0"
      using assms(1) weekday_cases work_hours_iff [of a] utc_hours_iff [of a 9] that
      by (auto simp: open_time_def next_work_time_def utc_midnight_def split: if_splits)
    finally show ?thesis .
  qed
  show ?thesis
  proof (cases "b \<le> (?d + 1) * day_ms")
    case True
    then show ?thesis using here assms by simp
  next
    case False
    let ?m = "(?d + 1) * day_ms"
    have nw: "next_work_time a = ?m + 9 * hour_ms"
      using False assms(3)
      by (auto simp: next_work_time_def utc_midnight_def distrib_right date_units split: if_splits)
    have "business_ms a b Cal5x8 = business_ms a ?m Cal5x8 + business_ms ?m b Cal5x8"
      using business_additive [of a ?m b] False day_hi [of a] by simp
    also have "business_ms a ?m Cal5x8 = 0"
      using here [of ?m] day_hi [of a] nw by (simp add: date_units)
    also have "business_ms ?m b Cal5x8 = open_time ?m b (?d + 1)"
      using False assms(3) nw by (intro business_in_day) (auto simp: distrib_right date_units)
    also have "\<dots> = 0" using assms(3) nw by (auto simp: open_time_def)
    finally show ?thesis by simp
  qed
qed

lemma minute_walk_business:
  "cur \<le> now \<Longrightarrow> minute_walk now cur acc = acc + business_ms cur now Cal5x8"
proof (induction now cur acc rule: minute_walk.induct)
  case (1 now cur acc)
  show ?case
  proof (cases "cur < now")
    case False
    then show ?thesis by (simp add: minute_walk.simps business_ms_def)
  next
    case lt: True
    show ?thesis
    proof (cases "is_weekday cur \<and> in_work_hours cur")
      case True
      let ?b = "min now (min (next_minute cur) (workday_end cur))"
      have "cur < next_minute cur"
        using pos_mod_bound [OF minute_ms_pos, of "cur + minute_ms"] by (simp add: next_minute_def)
      moreover have "cur < workday_end cur" using True work_hours_iff by (simp add: workday_end_def)
      ultimately have b: "cur < ?b" "?b \<le> now" using lt by auto
      have "minute_walk now cur acc = minute_walk now ?b (acc + (?b - cur))"
        using lt True b by (subst minute_walk.simps) (simp add: Let_def)
      also have "\<dots> = acc + (?b - cur) + business_ms ?b now Cal5x8"
        using 1(1) [OF lt True refl refl] b by simp
      also have "?b - cur = business_ms cur ?b Cal5x8"
        using business_open [of cur ?b] True b by simp
      finally show ?thesis using business_additive [of cur ?b now] b by simp
    next
      case closed: False
      show ?thesis
      proof (cases "next_work_time cur > now")
        case True
        then show ?thesis using lt closed business_closed [OF closed, of now] by (subst minute_walk.simps) auto
      next
        case False
        have "minute_walk now cur acc = minute_walk now (next_work_time cur) acc"
          using lt closed False by (subst minute_walk.simps) auto
        also have "\<dots> = acc + business_ms (next_work_time cur) now Cal5x8"
          using 1(3) [OF lt closed False] False by simp
        finally show ?thesis
          using business_additive [of cur "next_work_time cur" now] False next_work_time_gt [of cur]
            business_closed [OF closed, of "next_work_time cur"] by simp
      qed
    qed
  qed
qed


subsection \<open>Aging\<close>

datatype aging_bucket = Green | Amber | Red

instantiation aging_bucket :: linorder
begin

definition bucket_rank :: "aging_bucket \<Rightarrow> nat" where
  "bucket_rank b = (case b of Green \<Rightarrow> 0 | Amber \<Rightarrow> 1 | Red \<Rightarrow> 2)"

definition less_eq_aging_bucket :: "aging_bucket \<Rightarrow> aging_bucket \<Rightarrow> bool" where
  "less_eq_aging_bucket a b \<longleftrightarrow> bucket_rank a \<le> bucket_rank b"

definition less_aging_bucket :: "aging_bucket \<Rightarrow> aging_bucket \<Rightarrow> bool" where
  "less_aging_bucket a b \<longleftrightarrow> bucket_rank a < bucket_rank b"

instance
  by standard
    (auto simp: less_eq_aging_bucket_def less_aging_bucket_def bucket_rank_def split: aging_bucket.splits)

end

definition show_bucket :: "aging_bucket \<Rightarrow> string" where
  "show_bucket b = (case b of Green \<Rightarrow> ''green'' | Amber \<Rightarrow> ''amber'' | Red \<Rightarrow> ''red'')"

record aging_result =
  ar_elapsed :: int
  ar_score :: rat
  ar_bucket :: aging_bucket

definition raw_score :: "int \<Rightarrow> int \<Rightarrow> rat" where
  "raw_score elapsed threshold = (if threshold > 0 then of_int elapsed / of_int threshold * 100 else 0)"

definition compute_aging_from_elapsed :: "int \<Rightarrow> int \<Rightarrow> aging_result" where
  "compute_aging_from_elapsed elapsed threshold =
     (let score = raw_score elapsed threshold
      in \<lparr>ar_elapsed = elapsed, ar_score = of_int (js_round (score * 100)) / 100,
          ar_bucket = (if score > 100 then Red else if score \<ge> 75 then Amber else Green)\<rparr>)"

definition compute_aging :: "time \<Rightarrow> time \<Rightarrow> int \<Rightarrow> calendar \<Rightarrow> aging_result" where
  "compute_aging entered now threshold cal =
     compute_aging_from_elapsed (calculate_elapsed_minutes entered now cal) threshold"

lemma raw_score_mono: "e \<le> e' \<Longrightarrow> raw_score e t \<le> raw_score e' t"
  by (auto simp: raw_score_def intro!: divide_right_mono mult_right_mono)

lemma business_nonneg: "0 \<le> business_ms a b cal"
proof (cases "a \<le> b")
  case True
  have "0 \<le> (\<Sum>k \<in> {utc_day_number a..<utc_day_number b + 1}. open_time a b k)"
    by (intro sum_nonneg) (simp add: open_time_def)
  then show ?thesis
    using True business_sum [OF True day_lo, of "utc_day_number b + 1"] day_hi [of b]
    by (cases cal) (simp_all add: business_ms_def split: if_splits)
qed (simp add: business_ms_def)

lemma business_mono:
  assumes "b \<le> c"
  shows "business_ms a b cal \<le> business_ms a c cal"
proof (cases "a \<le> b")
  case True
  then show ?thesis
    using assms business_additive [OF True assms] business_nonneg [of b c Cal5x8]
    by (cases cal) (auto simp: business_ms_def)
next
  case False
  then show ?thesis using business_nonneg [of a c cal] by (simp add: business_ms_def)
qed

lemma elapsed_business: "calculate_elapsed_minutes a b cal = business_ms a b cal div minute_ms"
  using minute_walk_business [of a b 0]
  by (cases cal) (auto simp: calculate_elapsed_minutes_def business_ms_def)

lemma elapsed_mono: "b \<le> c \<Longrightarrow> calculate_elapsed_minutes a b cal \<le> calculate_elapsed_minutes a c cal"
  unfolding elapsed_business by (intro zdiv_mono1 business_mono) simp_all

subsection \<open>Properties\<close>

text \<open>C7. The minute walk of the SLA calculator and the day walk of the flow clock agree on every
  pair of instants and both calendars, down to the rounding to whole minutes, and the flow clock is
  additive over any split of an interval.\<close>

theorem minute_walk_is_day_walk:
  "calculate_elapsed_minutes a b cal = business_ms a b cal div minute_ms \<and>
   business_ms a (max a (max b c)) cal = business_ms a (max a b) cal + business_ms (max a b) (max a (max b c)) cal"
proof (cases cal)
  case Cal5x8
  then show ?thesis
    using elapsed_business [of a b cal] business_additive [of a "max a b" "max a (max b c)"] by simp
next
  case Cal24x7
  then show ?thesis using elapsed_business [of a b cal] by (auto simp: business_ms_def)
qed

text \<open>Aging only moves forward: for the same entry into a state, a later clock never shows fewer
  elapsed minutes, a lower score or a better bucket, whatever the calendar.\<close>

lemma aging_never_improves:
  assumes "now \<le> later"
  shows "ar_elapsed (compute_aging entered now threshold cal) \<le> ar_elapsed (compute_aging entered later threshold cal) \<and>
    ar_score (compute_aging entered now threshold cal) \<le> ar_score (compute_aging entered later threshold cal) \<and>
    ar_bucket (compute_aging entered now threshold cal) \<le> ar_bucket (compute_aging entered later threshold cal)"
proof -
  let ?e = "calculate_elapsed_minutes entered now cal" and ?l = "calculate_elapsed_minutes entered later cal"
  have le: "?e \<le> ?l" using elapsed_mono [OF assms] .
  have raw: "raw_score ?e threshold \<le> raw_score ?l threshold" by (rule raw_score_mono [OF le])
  then have "js_round (raw_score ?e threshold * 100) \<le> js_round (raw_score ?l threshold * 100)"
    by (intro js_round_mono) simp
  then have "(of_int (js_round (raw_score ?e threshold * 100)) :: rat) / 100 \<le>
      of_int (js_round (raw_score ?l threshold * 100)) / 100"
    by (simp add: divide_right_mono)
  with le raw show ?thesis
    by (auto simp: compute_aging_def compute_aging_from_elapsed_def Let_def less_eq_aging_bucket_def bucket_rank_def)
qed

end
