(* ===== verification/AgingEngine.thy ===== *)
theory AgingEngine
  imports EventOutbox SlaClock
begin

text \<open>
  The aging engine of \<^verbatim>\<open>src/modules/sla/aging-engine.service.ts\<close>: the claim that makes each SLA
  event fire once per state entry, the suspension and resumption of an item's clock, and the
  recomputation pass over the work items of one tenant or of all.

  \<open>pub\<close> is the event bus, \<open>fresh n\<close> the id \<open>randomUUID()\<close> gives the \<open>n\<close>-th emitted event, \<open>wall\<close> the
  database clock; \<open>now\<close> is the instant the pass computes for. A publication that throws ends the
  pass and leaves what it has written.
\<close>

record sla_policy =
  sp_org_id :: string
  sp_item_type :: string
  sp_state :: string
  sp_threshold :: int
  sp_calendar :: calendar
  sp_suspend :: bool

datatype emission_kind = Warning | Breach | Escalation

record emission =
  em_item :: uuid
  em_state :: string
  em_entered :: time
  em_kind :: emission_kind

record person =
  pe_id :: uuid
  pe_team :: string
  pe_role :: string

record sla_store = store +
  sla_policies :: "sla_policy list"
  sla_emissions :: "emission list"
  escalation_settings :: "(string \<times> int) list"
  people :: "person list"
  escalation_targets :: "(string \<times> string \<times> string option) list"

record recompute_summary =
  rs_processed :: nat
  rs_updated :: nat
  rs_warnings :: nat
  rs_breaches :: nat
  rs_escalations :: nat

definition claim_emission :: "emission \<Rightarrow> 'z sla_store_scheme \<Rightarrow> bool \<times> 'z sla_store_scheme" where
  "claim_emission e st =
     (if e \<in> set (sla_emissions st) then (False, st)
      else (True, st\<lparr>sla_emissions := sla_emissions st @ [e]\<rparr>))"

subsection \<open>The clock of one item\<close>

definition policy_key :: "string \<Rightarrow> string \<Rightarrow> string \<Rightarrow> string" where
  "policy_key org ty state = org @ '':'' @ ty @ '':'' @ state"

definition policy_map :: "sla_policy list \<Rightarrow> string \<Rightarrow> sla_policy option" where
  "policy_map ps key = find (\<lambda>p. policy_key (sp_org_id p) (sp_item_type p) (sp_state p) = key) (rev ps)"

definition entered_at :: "work_item \<Rightarrow> time" where
  "entered_at w = (case wi_entered_state_at w of None \<Rightarrow> wi_created_at w | Some t \<Rightarrow> t)"

definition clock_from :: "work_item \<Rightarrow> time option \<Rightarrow> time" where
  "clock_from w clock = (case clock of None \<Rightarrow> entered_at w | Some t \<Rightarrow> t)"

record clock_state =
  cs_elapsed :: int
  cs_suspended :: bool
  cs_clock :: "time option"

definition stored_clock :: "work_item \<Rightarrow> clock_state" where
  "stored_clock w = \<lparr>cs_elapsed = wi_sla_elapsed_minutes w, cs_suspended = wi_sla_suspended w,
     cs_clock = wi_sla_clock_started_at w\<rparr>"

definition adjust_clock :: "time \<Rightarrow> sla_policy \<Rightarrow> work_item \<Rightarrow> clock_state \<Rightarrow> clock_state" where
  "adjust_clock now p w c =
     (if sp_suspend p \<and> \<not> cs_suspended c then
        \<lparr>cs_elapsed = cs_elapsed c + calculate_elapsed_minutes (clock_from w (cs_clock c)) now (sp_calendar p),
         cs_suspended = True, cs_clock = None\<rparr>
      else if \<not> sp_suspend p \<and> cs_suspended c then c\<lparr>cs_suspended := False, cs_clock := Some now\<rparr>
      else c)"

definition age_item :: "time \<Rightarrow> sla_policy option \<Rightarrow> work_item \<Rightarrow> rat \<times> aging_bucket \<times> clock_state" where
  "age_item now policy w =
     (case policy of
        None \<Rightarrow> (0, Green, stored_clock w)
      | Some p \<Rightarrow>
          (let c = adjust_clock now p w (stored_clock w);
               minutes = cs_elapsed c + (if cs_suspended c then 0
                 else calculate_elapsed_minutes (clock_from w (cs_clock c)) now (sp_calendar p));
               r = compute_aging_from_elapsed minutes (sp_threshold p)
           in (ar_score r, ar_bucket r, c)))"

subsection \<open>The events\<close>

text \<open>The text JavaScript prints for a number of hundredths.\<close>

definition show_hundredths :: "int \<Rightarrow> string" where
  "show_hundredths k =
     (if k mod 100 = 0 then show_int (k div 100)
      else (if k < 0 then ''-'' else []) @ show_nat (nat \<bar>k\<bar> div 100) @ ''.'' @
        (if k mod 10 = 0 then show_nat (nat \<bar>k\<bar> mod 100 div 10) else pad 2 (\<bar>k\<bar> mod 100)))"

definition jscore :: "rat \<Rightarrow> jsval" where
  "jscore s = JNum (show_hundredths (js_round (s * 100)))"

definition truthy_strings :: "string option list \<Rightarrow> jsval list" where
  "truthy_strings xs = map JStr (remdups_adj (List.map_filter or_null xs))"

definition policy_threshold :: "sla_policy option \<Rightarrow> int" where
  "policy_threshold p = (case p of None \<Rightarrow> 0 | Some p \<Rightarrow> sp_threshold p)"

definition item_payload :: "work_item \<Rightarrow> rat \<Rightarrow> jsobj" where
  "item_payload w score =
     [(''work_item_id'', JStr (wi_id w)), (''type'', JStr (wi_type w)), (''status'', JStr (wi_status w)),
      (''aging_score'', jscore score)]"

definition warning_payload :: "sla_policy option \<Rightarrow> work_item \<Rightarrow> rat \<Rightarrow> jsval" where
  "warning_payload p w score = JObj (item_payload w score @
     [(''threshold_minutes'', JInt (policy_threshold p)), (''owner_id'', jopt (wi_owner_id w)),
      (''team_id'', JStr (wi_team_id w)), (''org_id'', JStr (wi_org_id w)),
      (''recipients'', JArr (truthy_strings [wi_owner_id w]))])"

definition team_lead :: "'z sla_store_scheme \<Rightarrow> string \<Rightarrow> string option" where
  "team_lead st team = (if team = [] then None
     else map_option pe_id (find (\<lambda>p. pe_team p = team \<and> pe_role p = ''team_lead'') (people st)))"

definition breach_payload :: "'z sla_store_scheme \<Rightarrow> sla_policy option \<Rightarrow> work_item \<Rightarrow> rat \<Rightarrow> jsval" where
  "breach_payload st p w score = (let lead = team_lead st (wi_team_id w) in JObj (item_payload w score @
     [(''threshold_minutes'', JInt (policy_threshold p)), (''owner_id'', jopt (wi_owner_id w)),
      (''team_lead_id'', jopt lead), (''team_id'', JStr (wi_team_id w)), (''org_id'', JStr (wi_org_id w)),
      (''recipients'', JArr (truthy_strings [wi_owner_id w, lead]))]))"

definition escalation_person :: "'z sla_store_scheme \<Rightarrow> work_item \<Rightarrow> string option" where
  "escalation_person st w =
     (case find (\<lambda>(team, org, _). team = wi_team_id w \<and> org = wi_org_id w) (escalation_targets st) of
        None \<Rightarrow> None | Some (_, _, who) \<Rightarrow> or_null who)"

definition escalation_payload :: "'z sla_store_scheme \<Rightarrow> int \<Rightarrow> sla_policy option \<Rightarrow> work_item \<Rightarrow> rat \<Rightarrow> jsval" where
  "escalation_payload st percent p w score = JObj (item_payload w score @
     [(''escalation_threshold_percent'', JInt percent), (''threshold_minutes'', JInt (policy_threshold p)),
      (''owner_id'', jopt (wi_owner_id w)), (''team_id'', JStr (wi_team_id w)), (''org_id'', JStr (wi_org_id w)),
      (''escalation_person_id'', jopt (escalation_person st w))])"

definition sla_event :: "(nat \<Rightarrow> uuid) \<Rightarrow> time \<Rightarrow> string \<Rightarrow> work_item \<Rightarrow> jsval \<Rightarrow> 'z sla_store_scheme \<Rightarrow> envelope" where
  "sla_event fresh wall ty w payload st =
     \<lparr>ev_id = fresh (length (emitted st)), ev_type = ty, ev_schema_version = 1, ev_timestamp = wall,
      ev_actor_type = ''system'', ev_actor_id = ''aging-engine'', ev_work_item_id = wi_id w, ev_payload = payload\<rparr>"

definition emit_once ::
  "'z sla_store_scheme handler \<Rightarrow> bool \<Rightarrow> emission \<Rightarrow> ('z sla_store_scheme \<Rightarrow> envelope)
   \<Rightarrow> 'z sla_store_scheme \<Rightarrow> string option \<times> bool \<times> 'z sla_store_scheme" where
  "emit_once pub due key event st =
     (if \<not> due then (None, False, st)
      else case claim_emission key st of
        (False, st1) \<Rightarrow> (None, False, st1)
      | (True, st1) \<Rightarrow> (let (err, st2) = pub (event st1) st1 in (err, True, st2)))"

subsection \<open>The pass\<close>

definition item_emission :: "work_item \<Rightarrow> emission_kind \<Rightarrow> emission" where
  "item_emission w k = \<lparr>em_item = wi_id w, em_state = wi_status w, em_entered = entered_at w, em_kind = k\<rparr>"

definition aged_row :: "time \<Rightarrow> rat \<times> aging_bucket \<times> clock_state \<Rightarrow> work_item \<Rightarrow> work_item" where
  "aged_row wall a w = (case a of (score, bucket, c) \<Rightarrow>
     w\<lparr>wi_aging_bucket := show_bucket bucket, wi_aging_score := score, wi_sla_elapsed_minutes := cs_elapsed c,
       wi_sla_clock_started_at := cs_clock c, wi_sla_suspended := cs_suspended c, wi_updated_at := wall\<rparr>)"

definition row_stale :: "rat \<times> aging_bucket \<times> clock_state \<Rightarrow> work_item \<Rightarrow> bool" where
  "row_stale a w = (case a of (score, bucket, c) \<Rightarrow>
     wi_aging_bucket w \<noteq> show_bucket bucket \<or> wi_aging_score w \<noteq> score \<or> stored_clock w \<noteq> c)"

definition write_item :: "time \<Rightarrow> rat \<times> aging_bucket \<times> clock_state \<Rightarrow> work_item \<Rightarrow> 'z sla_store_scheme \<Rightarrow> 'z sla_store_scheme" where
  "write_item wall a w st =
     (if row_stale a w
      then st\<lparr>work_items := update_where (\<lambda>r. wi_id r = wi_id w) (aged_row wall a) (work_items st)\<rparr> else st)"

definition process_item ::
  "'z sla_store_scheme handler \<Rightarrow> (nat \<Rightarrow> uuid) \<Rightarrow> time \<Rightarrow> time \<Rightarrow> sla_policy list \<Rightarrow> (string \<Rightarrow> int option)
   \<Rightarrow> work_item \<Rightarrow> recompute_summary \<Rightarrow> 'z sla_store_scheme
   \<Rightarrow> string option \<times> recompute_summary \<times> 'z sla_store_scheme" where
  "process_item pub fresh wall now policies esc w sm st =
     (let policy = policy_map policies (policy_key (wi_org_id w) (wi_type w) (wi_status w));
          a = age_item now policy w; score = fst a;
          percent = (case esc (wi_org_id w) of None \<Rightarrow> 150 | Some n \<Rightarrow> n);
          sm0 = sm\<lparr>rs_processed := rs_processed sm + 1\<rparr>
      in case emit_once pub (score \<ge> 75) (item_emission w Warning)
             (sla_event fresh wall ''SLAWarning'' w (warning_payload policy w score)) st of
           (Some err, _, st1) \<Rightarrow> (Some err, sm0, st1)
         | (None, won1, st1) \<Rightarrow>
      case emit_once pub (score > 100) (item_emission w Breach)
             (\<lambda>s. sla_event fresh wall ''SLABreached'' w (breach_payload s policy w score) s) st1 of
           (Some err, _, st2) \<Rightarrow> (Some err, sm0, st2)
         | (None, won2, st2) \<Rightarrow>
      case emit_once pub (policy \<noteq> None \<and> score \<ge> of_int percent) (item_emission w Escalation)
             (\<lambda>s. sla_event fresh wall ''SLAEscalated'' w (escalation_payload s percent policy w score) s) st2 of
           (Some err, _, st3) \<Rightarrow> (Some err, sm0, st3)
         | (None, won3, st3) \<Rightarrow>
             (None,
              sm0\<lparr>rs_warnings := rs_warnings sm0 + of_bool won1, rs_breaches := rs_breaches sm0 + of_bool won2,
                  rs_escalations := rs_escalations sm0 + of_bool won3,
                  rs_updated := rs_updated sm0 + of_bool (row_stale a w)\<rparr>,
              write_item wall a w st3))"

fun process_items ::
  "'z sla_store_scheme handler \<Rightarrow> (nat \<Rightarrow> uuid) \<Rightarrow> time \<Rightarrow> time \<Rightarrow> sla_policy list \<Rightarrow> (string \<Rightarrow> int option)
   \<Rightarrow> work_item list \<Rightarrow> recompute_summary \<Rightarrow> 'z sla_store_scheme
   \<Rightarrow> string option \<times> recompute_summary \<times> 'z sla_store_scheme" where
  "process_items pub fresh wall now ps esc [] sm st = (None, sm, st)"
| "process_items pub fresh wall now ps esc (w # ws) sm st =
     (case process_item pub fresh wall now ps esc w sm st of
        (Some err, sm', st') \<Rightarrow> (Some err, sm', st')
      | (None, sm', st') \<Rightarrow> process_items pub fresh wall now ps esc ws sm' st')"

definition in_scope :: "string option \<Rightarrow> string \<Rightarrow> bool" where
  "in_scope org x \<longleftrightarrow> (case or_null org of None \<Rightarrow> True | Some s \<Rightarrow> x = s)"

definition zero_summary :: recompute_summary where
  "zero_summary = \<lparr>rs_processed = 0, rs_updated = 0, rs_warnings = 0, rs_breaches = 0, rs_escalations = 0\<rparr>"

definition recompute_aging_for_org ::
  "'z sla_store_scheme handler \<Rightarrow> (nat \<Rightarrow> uuid) \<Rightarrow> time \<Rightarrow> string option \<Rightarrow> time \<Rightarrow> 'z sla_store_scheme
   \<Rightarrow> string option \<times> recompute_summary \<times> 'z sla_store_scheme" where
  "recompute_aging_for_org pub fresh wall org now st =
     process_items pub fresh wall now (filter (\<lambda>p. in_scope org (sp_org_id p)) (sla_policies st))
       (map_of (rev (filter (\<lambda>(o', _). in_scope org o') (escalation_settings st))))
       (filter (\<lambda>w. in_scope org (wi_org_id w)) (work_items st)) zero_summary st"

definition recompute_all_active_items ::
  "'z sla_store_scheme handler \<Rightarrow> (nat \<Rightarrow> uuid) \<Rightarrow> time \<Rightarrow> time \<Rightarrow> 'z sla_store_scheme
   \<Rightarrow> string option \<times> recompute_summary \<times> 'z sla_store_scheme" where
  "recompute_all_active_items pub fresh wall now st = recompute_aging_for_org pub fresh wall None now st"

subsection \<open>Lemmas\<close>

lemma stored_clock_aged [simp]: "stored_clock (aged_row wall (s, b, c) w) = c"
  by (simp add: stored_clock_def aged_row_def)

lemma aged_row_fields [simp]:
  "wi_id (aged_row wall a w) = wi_id w" "wi_org_id (aged_row wall a w) = wi_org_id w"
  "wi_type (aged_row wall a w) = wi_type w" "wi_status (aged_row wall a w) = wi_status w"
  "entered_at (aged_row wall a w) = entered_at w" "clock_from (aged_row wall a w) c = clock_from w c"
  by (cases a; cases c; simp add: aged_row_def entered_at_def clock_from_def split: option.splits)+

lemma adjust_clock_idem: "adjust_clock now p w' (adjust_clock now p w c) = adjust_clock now p w c"
  by (auto simp: adjust_clock_def)

lemma elapsed_now [simp]: "calculate_elapsed_minutes t t cal = 0"
  by (simp add: calculate_elapsed_minutes_def)

lemma age_item_same_clock:
  "stored_clock w' = adjust_clock now q w (stored_clock w) \<Longrightarrow> clock_from w' = clock_from w \<Longrightarrow>
   age_item now (Some q) w' = age_item now (Some q) w"
  by (simp add: age_item_def Let_def adjust_clock_idem)

lemma age_item_again: "age_item now p (aged_row wall (age_item now p w) w) = age_item now p w"
proof (cases p)
  case (Some q)
  obtain s b where a: "age_item now (Some q) w = (s, b, adjust_clock now q w (stored_clock w))"
    by (simp add: age_item_def Let_def)
  show ?thesis
    unfolding Some by (rule age_item_same_clock) (simp_all add: a fun_eq_iff)
qed (simp add: age_item_def)

lemma not_stale_aged: "\<not> row_stale a (aged_row wall a w)"
  by (cases a) (simp add: row_stale_def aged_row_def stored_clock_def)

definition settled_row :: "time \<Rightarrow> time \<Rightarrow> sla_policy list \<Rightarrow> work_item \<Rightarrow> work_item" where
  "settled_row wall now ps w =
     (let a = age_item now (policy_map ps (policy_key (wi_org_id w) (wi_type w) (wi_status w))) w
      in if row_stale a w then aged_row wall a w else w)"

definition item_age :: "time \<Rightarrow> sla_policy list \<Rightarrow> work_item \<Rightarrow> rat \<times> aging_bucket \<times> clock_state" where
  "item_age now ps w = age_item now (policy_map ps (policy_key (wi_org_id w) (wi_type w) (wi_status w))) w"

definition due_keys :: "time \<Rightarrow> sla_policy list \<Rightarrow> (string \<Rightarrow> int option) \<Rightarrow> work_item \<Rightarrow> emission list" where
  "due_keys now ps esc w =
     (let score = fst (item_age now ps w);
          percent = (case esc (wi_org_id w) of None \<Rightarrow> 150 | Some n \<Rightarrow> n)
      in (if score \<ge> 75 then [item_emission w Warning] else []) @
         (if score > 100 then [item_emission w Breach] else []) @
         (if policy_map ps (policy_key (wi_org_id w) (wi_type w) (wi_status w)) \<noteq> None \<and> score \<ge> of_int percent
          then [item_emission w Escalation] else []))"

lemma settled_fields [simp]:
  "wi_id (settled_row wall now ps w) = wi_id w" "wi_org_id (settled_row wall now ps w) = wi_org_id w"
  "wi_type (settled_row wall now ps w) = wi_type w" "wi_status (settled_row wall now ps w) = wi_status w"
  "entered_at (settled_row wall now ps w) = entered_at w"
  by (simp_all add: settled_row_def Let_def)

lemma settled_age [simp]: "item_age now ps (settled_row wall now ps w) = item_age now ps w"
  by (simp add: item_age_def settled_row_def Let_def age_item_again)

lemma settled_not_stale [simp]: "\<not> row_stale (item_age now ps (settled_row wall now ps w)) (settled_row wall now ps w)"
  by (simp only: settled_age) (simp add: item_age_def settled_row_def Let_def not_stale_aged)

lemma settled_due [simp]: "due_keys now ps esc (settled_row wall now ps w) = due_keys now ps esc w"
proof -
  have "item_emission (settled_row wall now ps w) k = item_emission w k" for k
    by (simp add: item_emission_def)
  then show ?thesis by (simp add: due_keys_def Let_def)
qed

subsection \<open>Buses the engine may publish on\<close>

locale sla_publisher = publisher pub for pub :: "'z sla_store_scheme handler" +
  assumes keeps_items: "work_items (snd (pub ev st)) = work_items st"
    and keeps_tables: "store.more (snd (pub ev st)) = store.more st"
begin

lemma keeps_sla:
  "sla_emissions (snd (pub ev st)) = sla_emissions st \<and> sla_policies (snd (pub ev st)) = sla_policies st \<and>
   escalation_settings (snd (pub ev st)) = escalation_settings st"
  using keeps_tables [of ev st] by (cases "snd (pub ev st)"; cases st) auto

lemma emit_once_result:
  "\<exists>st'. emit_once pub due key event st = (None, due \<and> key \<notin> set (sla_emissions st), st') \<and>
     sla_emissions st' = sla_emissions st @ (if due \<and> key \<notin> set (sla_emissions st) then [key] else []) \<and>
     work_items st' = work_items st \<and> sla_policies st' = sla_policies st \<and>
     escalation_settings st' = escalation_settings st \<and>
     (\<not> (due \<and> key \<notin> set (sla_emissions st)) \<longrightarrow> st' = st)"
proof (cases "due \<and> key \<notin> set (sla_emissions st)")
  case True
  let ?st1 = "st\<lparr>sla_emissions := sla_emissions st @ [key]\<rparr>"
  have "emit_once pub due key event st = (None, True, snd (pub (event ?st1) ?st1))"
    using True returns [of "event ?st1" ?st1]
    by (cases "pub (event ?st1) ?st1") (simp add: emit_once_def claim_emission_def)
  then show ?thesis using True keeps_sla [of "event ?st1" ?st1] keeps_items [of "event ?st1" ?st1] by simp
qed (auto simp: emit_once_def claim_emission_def)

lemma process_item_result:
  "\<exists>sm' st'. process_item pub fresh wall now ps esc w sm st = (None, sm', st') \<and>
     sla_emissions st' = sla_emissions st @ filter (\<lambda>k. k \<notin> set (sla_emissions st)) (due_keys now ps esc w) \<and>
     work_items st' = (if row_stale (item_age now ps w) w
       then update_where (\<lambda>r. wi_id r = wi_id w) (aged_row wall (item_age now ps w)) (work_items st) else work_items st) \<and>
     sla_policies st' = sla_policies st \<and> escalation_settings st' = escalation_settings st \<and>
     rs_warnings sm' + rs_breaches sm' + rs_escalations sm' =
       rs_warnings sm + rs_breaches sm + rs_escalations sm +
       length (filter (\<lambda>k. k \<notin> set (sla_emissions st)) (due_keys now ps esc w)) \<and>
     (\<not> row_stale (item_age now ps w) w \<and> set (due_keys now ps esc w) \<subseteq> set (sla_emissions st) \<longrightarrow>
        st' = st \<and> sm' = sm\<lparr>rs_processed := rs_processed sm + 1\<rparr>)"
proof -
  let ?policy = "policy_map ps (policy_key (wi_org_id w) (wi_type w) (wi_status w))"
  let ?score = "fst (item_age now ps w)"
  let ?percent = "case esc (wi_org_id w) of None \<Rightarrow> 150 | Some n \<Rightarrow> n"
  let ?k = "item_emission w"
  obtain st1 where e1: "emit_once pub (?score \<ge> 75) (?k Warning)
       (sla_event fresh wall ''SLAWarning'' w (warning_payload ?policy w ?score)) st =
       (None, ?score \<ge> 75 \<and> ?k Warning \<notin> set (sla_emissions st), st1)"
    and f1: "sla_emissions st1 = sla_emissions st @ (if ?score \<ge> 75 \<and> ?k Warning \<notin> set (sla_emissions st) then [?k Warning] else [])"
      "work_items st1 = work_items st" "sla_policies st1 = sla_policies st" "escalation_settings st1 = escalation_settings st"
      "\<not> (?score \<ge> 75 \<and> ?k Warning \<notin> set (sla_emissions st)) \<longrightarrow> st1 = st"
    using emit_once_result by blast
  obtain st2 where e2: "emit_once pub (?score > 100) (?k Breach)
       (\<lambda>s. sla_event fresh wall ''SLABreached'' w (breach_payload s ?policy w ?score) s) st1 =
       (None, ?score > 100 \<and> ?k Breach \<notin> set (sla_emissions st1), st2)"
    and f2: "sla_emissions st2 = sla_emissions st1 @ (if ?score > 100 \<and> ?k Breach \<notin> set (sla_emissions st1) then [?k Breach] else [])"
      "work_items st2 = work_items st1" "sla_policies st2 = sla_policies st1" "escalation_settings st2 = escalation_settings st1"
      "\<not> (?score > 100 \<and> ?k Breach \<notin> set (sla_emissions st1)) \<longrightarrow> st2 = st1"
    using emit_once_result by blast
  let ?due3 = "?policy \<noteq> None \<and> ?score \<ge> of_int ?percent"
  obtain st3 where e3: "emit_once pub ?due3 (?k Escalation)
       (\<lambda>s. sla_event fresh wall ''SLAEscalated'' w (escalation_payload s ?percent ?policy w ?score) s) st2 =
       (None, ?due3 \<and> ?k Escalation \<notin> set (sla_emissions st2), st3)"
    and f3: "sla_emissions st3 = sla_emissions st2 @ (if ?due3 \<and> ?k Escalation \<notin> set (sla_emissions st2) then [?k Escalation] else [])"
      "work_items st3 = work_items st2" "sla_policies st3 = sla_policies st2" "escalation_settings st3 = escalation_settings st2"
      "\<not> (?due3 \<and> ?k Escalation \<notin> set (sla_emissions st2)) \<longrightarrow> st3 = st2"
    using emit_once_result by blast
  have neq: "?k Warning \<noteq> ?k Breach" "?k Warning \<noteq> ?k Escalation" "?k Breach \<noteq> ?k Escalation"
    by (simp_all add: item_emission_def)
  have em: "sla_emissions st3 = sla_emissions st @ filter (\<lambda>k. k \<notin> set (sla_emissions st)) (due_keys now ps esc w)"
    using f1(1) f2(1) f3(1) neq by (auto simp: due_keys_def Let_def)
  have run: "process_item pub fresh wall now ps esc w sm st = (None,
      (sm\<lparr>rs_processed := rs_processed sm + 1\<rparr>)
        \<lparr>rs_warnings := rs_warnings sm + of_bool (?score \<ge> 75 \<and> ?k Warning \<notin> set (sla_emissions st)),
         rs_breaches := rs_breaches sm + of_bool (?score > 100 \<and> ?k Breach \<notin> set (sla_emissions st1)),
         rs_escalations := rs_escalations sm + of_bool (?due3 \<and> ?k Escalation \<notin> set (sla_emissions st2)),
         rs_updated := rs_updated sm + of_bool (row_stale (item_age now ps w) w)\<rparr>,
      write_item wall (item_age now ps w) w st3)"
    unfolding process_item_def Let_def item_age_def [symmetric] e1 e2 e3 prod.case option.case by simp
  have count: "length (filter (\<lambda>k. k \<notin> set (sla_emissions st)) (due_keys now ps esc w)) =
      of_bool (?score \<ge> 75 \<and> ?k Warning \<notin> set (sla_emissions st)) +
      of_bool (?score > 100 \<and> ?k Breach \<notin> set (sla_emissions st1)) +
      of_bool (?due3 \<and> ?k Escalation \<notin> set (sla_emissions st2))"
    using f1(1) f2(1) neq by (auto simp: due_keys_def Let_def)
  have idle: "st3 = st \<and> \<not> (?score \<ge> 75 \<and> ?k Warning \<notin> set (sla_emissions st)) \<and>
      \<not> (?score > 100 \<and> ?k Breach \<notin> set (sla_emissions st1)) \<and> \<not> (?due3 \<and> ?k Escalation \<notin> set (sla_emissions st2))"
    if "set (due_keys now ps esc w) \<subseteq> set (sla_emissions st)"
  proof -
    have due: "?score \<ge> 75 \<longrightarrow> ?k Warning \<in> set (due_keys now ps esc w)"
      "?score > 100 \<longrightarrow> ?k Breach \<in> set (due_keys now ps esc w)"
      "?due3 \<longrightarrow> ?k Escalation \<in> set (due_keys now ps esc w)"
      by (simp_all add: due_keys_def Let_def)
    have 1: "\<not> (?score \<ge> 75 \<and> ?k Warning \<notin> set (sla_emissions st))" using that due(1) by blast
    then have st1: "st1 = st" using f1(5) by blast
    have 2: "\<not> (?score > 100 \<and> ?k Breach \<notin> set (sla_emissions st1))" using that due(2) st1 by blast
    then have st2: "st2 = st1" using f2(5) by blast
    have 3: "\<not> (?due3 \<and> ?k Escalation \<notin> set (sla_emissions st2))" using that due(3) st1 st2 by blast
    then have "st3 = st2" using f3(5) by blast
    with 1 2 3 st1 st2 show ?thesis by simp
  qed
  show ?thesis
    unfolding run
    using em count idle f1(2-4) f2(2-4) f3(2-4) by (auto simp: write_item_def)
qed


lemma process_items_result:
  "\<exists>sm' st'. process_items pub fresh wall now ps esc ws sm st = (None, sm', st') \<and>
     set (sla_emissions st') = set (sla_emissions st) \<union> (\<Union>w \<in> set ws. set (due_keys now ps esc w)) \<and>
     (distinct (sla_emissions st) \<longrightarrow> distinct (sla_emissions st')) \<and>
     work_items st' = fold (\<lambda>w rows. if row_stale (item_age now ps w) w
       then update_where (\<lambda>r. wi_id r = wi_id w) (aged_row wall (item_age now ps w)) rows else rows) ws (work_items st) \<and>
     sla_policies st' = sla_policies st \<and> escalation_settings st' = escalation_settings st \<and>
     rs_warnings sm' + rs_breaches sm' + rs_escalations sm' + length (sla_emissions st) =
       rs_warnings sm + rs_breaches sm + rs_escalations sm + length (sla_emissions st')"
proof (induction ws arbitrary: sm st)
  case (Cons w ws)
  obtain sm1 st1 where one: "process_item pub fresh wall now ps esc w sm st = (None, sm1, st1)"
    and st1: "sla_emissions st1 = sla_emissions st @ filter (\<lambda>k. k \<notin> set (sla_emissions st)) (due_keys now ps esc w)"
     "work_items st1 = (if row_stale (item_age now ps w) w
       then update_where (\<lambda>r. wi_id r = wi_id w) (aged_row wall (item_age now ps w)) (work_items st) else work_items st)"
     "sla_policies st1 = sla_policies st" "escalation_settings st1 = escalation_settings st"
     "rs_warnings sm1 + rs_breaches sm1 + rs_escalations sm1 =
       rs_warnings sm + rs_breaches sm + rs_escalations sm +
       length (filter (\<lambda>k. k \<notin> set (sla_emissions st)) (due_keys now ps esc w))"
    using process_item_result by blast
  have dist: "distinct (due_keys now ps esc w)"
    by (auto simp: due_keys_def Let_def item_emission_def)
  obtain sm' st' where rest: "process_items pub fresh wall now ps esc ws sm1 st1 = (None, sm', st')"
    and st': "set (sla_emissions st') = set (sla_emissions st1) \<union> (\<Union>w \<in> set ws. set (due_keys now ps esc w))"
     "distinct (sla_emissions st1) \<longrightarrow> distinct (sla_emissions st')"
     "work_items st' = fold (\<lambda>w rows. if row_stale (item_age now ps w) w
       then update_where (\<lambda>r. wi_id r = wi_id w) (aged_row wall (item_age now ps w)) rows else rows) ws (work_items st1)"
     "sla_policies st' = sla_policies st1" "escalation_settings st' = escalation_settings st1"
     "rs_warnings sm' + rs_breaches sm' + rs_escalations sm' + length (sla_emissions st1) =
       rs_warnings sm1 + rs_breaches sm1 + rs_escalations sm1 + length (sla_emissions st')"
    using Cons.IH [of sm1 st1] by blast
  have "process_items pub fresh wall now ps esc (w # ws) sm st = (None, sm', st')"
    by (simp add: one rest)
  moreover have "set (sla_emissions st') = set (sla_emissions st) \<union> (\<Union>w' \<in> set (w # ws). set (due_keys now ps esc w'))"
    using st'(1) st1(1) by auto
  moreover have "distinct (sla_emissions st) \<longrightarrow> distinct (sla_emissions st')"
    using st'(2) st1(1) dist by auto
  ultimately show ?case using st' st1 by auto
qed simp

lemma process_items_idle:
  "\<forall>w \<in> set ws. \<not> row_stale (item_age now ps w) w \<and> set (due_keys now ps esc w) \<subseteq> set (sla_emissions st) \<Longrightarrow>
   process_items pub fresh wall now ps esc ws sm st = (None, sm\<lparr>rs_processed := rs_processed sm + length ws\<rparr>, st)"
proof (induction ws arbitrary: sm)
  case (Cons w ws)
  then have "process_item pub fresh wall now ps esc w sm st = (None, sm\<lparr>rs_processed := rs_processed sm + 1\<rparr>, st)"
    using process_item_result [of fresh wall now ps esc w sm st] by auto
  then show ?case using Cons by simp
qed simp

end

lemma fold_settle:
  assumes "distinct (map wi_id ws)" "\<And>w r. w \<in> set ws \<Longrightarrow> r \<in> set rows \<Longrightarrow> wi_id r = wi_id w \<Longrightarrow> r = w"
  shows "fold (\<lambda>w rows. if row_stale (item_age now ps w) w
       then update_where (\<lambda>r. wi_id r = wi_id w) (aged_row wall (item_age now ps w)) rows else rows) ws rows =
     map (\<lambda>r. if r \<in> set ws then settled_row wall now ps r else r) rows"
  using assms
proof (induction ws arbitrary: rows)
  case (Cons w ws)
  let ?rows1 = "map (\<lambda>r. if r = w then settled_row wall now ps r else r) rows"
  have first: "(if row_stale (item_age now ps w) w
      then update_where (\<lambda>r. wi_id r = wi_id w) (aged_row wall (item_age now ps w)) rows else rows) = ?rows1"
    using Cons.prems(2) [of w]
    by (auto simp: update_where_def settled_row_def item_age_def Let_def intro!: map_cong map_idI [symmetric])
  have fresh: "settled_row wall now ps w \<notin> set ws" "w \<notin> set ws"
    using Cons.prems(1) by (auto simp: image_iff dest!: bspec)
  have "fold (\<lambda>w rows. if row_stale (item_age now ps w) w
       then update_where (\<lambda>r. wi_id r = wi_id w) (aged_row wall (item_age now ps w)) rows else rows) ws ?rows1 =
     map (\<lambda>r. if r \<in> set ws then settled_row wall now ps r else r) ?rows1"
  proof (rule Cons.IH)
    show "distinct (map wi_id ws)" using Cons.prems(1) by simp
  next
    fix w' r
    assume *: "w' \<in> set ws" "r \<in> set ?rows1" "wi_id r = wi_id w'"
    have "wi_id w' \<noteq> wi_id w" using *(1) Cons.prems(1) by (metis distinct.simps(2) image_eqI list.set_map list.simps(9))
    then have "r \<in> set rows" using *(2,3) by (auto split: if_splits)
    then show "r = w'" using Cons.prems(2) *(1,3) by auto
  qed
  also have "\<dots> = map (\<lambda>r. if r \<in> set (w # ws) then settled_row wall now ps r else r) rows"
    using fresh by auto
  finally show ?case using first by simp
qed simp


interpretation slab: sla_publisher "publish_envelope (store_bus sha quiet)" for sha
  by unfold_locales (use bus_tables in auto)

subsection \<open>Properties\<close>


definition sample_item :: work_item where
  "sample_item = \<lparr>wi_id = ''w1'', wi_key = ''K-1'', wi_type = ''story'', wi_title = ''t'', wi_description = [],
     wi_status = ''In Progress'', wi_workflow_version = 1, wi_priority = ''P2'', wi_severity = None,
     wi_owner_id = Some ''u1'', wi_team_id = ''t1'', wi_org_id = ''o1'', wi_entered_state_at = Some 0,
     wi_aging_bucket = ''green'', wi_aging_score = 0, wi_sla_elapsed_minutes = 0, wi_sla_clock_started_at = None,
     wi_sla_suspended = False, wi_custom_fields = [], wi_tags = [], wi_created_at = 0, wi_updated_at = 0,
     wi_origin = ''native'', wi_source_twin_id = None, wi_source_system = None\<rparr>"

definition sample_sla :: sla_store where
  "sample_sla = \<lparr>work_items = [sample_item], domain_events = [], audit_events = [], integrity = [],
     integrity_seq = 1, outbox = [], emitted = [],
     sla_policies = [\<lparr>sp_org_id = ''o1'', sp_item_type = ''story'', sp_state = ''In Progress'', sp_threshold = 60,
       sp_calendar = Cal24x7, sp_suspend = False\<rparr>],
     sla_emissions = [], escalation_settings = [], people = [], escalation_targets = []\<rparr>"

abbreviation sample_pass :: "sla_store \<Rightarrow> string option \<times> recompute_summary \<times> sla_store" where
  "sample_pass \<equiv> recompute_aging_for_org (publish_envelope (store_bus sample_sha quiet)) (\<lambda>_. ''e'') 0 None 7200000"


text \<open>The pass is idempotent: run again at the same instant it announces nothing, updates
  nothing and leaves the database as it is, so a clock that was suspended or resumed by the first
  run is not counted a second time.\<close>

lemma recompute_is_idempotent:
  assumes "distinct (map wi_id (work_items st))"
    and "recompute_aging_for_org (publish_envelope (store_bus sha quiet)) fresh wall org now st = (err, sm, st')"
    and "recompute_aging_for_org (publish_envelope (store_bus sha quiet)) fresh' wall' org now st' = (err2, sm2, st2)"
  shows "st2 = st' \<and> rs_updated sm2 = 0 \<and> rs_warnings sm2 + rs_breaches sm2 + rs_escalations sm2 = 0"
proof -
  let ?pub = "publish_envelope (store_bus sha quiet)"
  let ?ps = "filter (\<lambda>p. in_scope org (sp_org_id p)) (sla_policies st)"
  let ?esc = "map_of (rev (filter (\<lambda>(o', _). in_scope org o') (escalation_settings st)))"
  let ?ws = "filter (\<lambda>w. in_scope org (wi_org_id w)) (work_items st)"
  have one: "process_items ?pub fresh wall now ?ps ?esc ?ws zero_summary st = (err, sm, st')"
    using assms(2) by (simp add: recompute_aging_for_org_def)
  then have st': "(\<Union>w \<in> set ?ws. set (due_keys now ?ps ?esc w)) \<subseteq> set (sla_emissions st')"
    "sla_policies st' = sla_policies st" "escalation_settings st' = escalation_settings st"
    "work_items st' = fold (\<lambda>w rows. if row_stale (item_age now ?ps w) w
       then update_where (\<lambda>r. wi_id r = wi_id w) (aged_row wall (item_age now ?ps w)) rows else rows) ?ws (work_items st)"
    using slab.process_items_result [of sha fresh wall now ?ps ?esc ?ws zero_summary st] by auto
  have same: "r = w" if "w \<in> set ?ws" "r \<in> set (work_items st)" "wi_id r = wi_id w" for w r
    using that assms(1) by (auto simp: distinct_map dest: inj_onD)
  have rows: "work_items st' = map (\<lambda>r. if r \<in> set ?ws then settled_row wall now ?ps r else r) (work_items st)"
    unfolding st'(4) by (rule fold_settle [OF _ same]) (use assms(1) in \<open>auto simp: distinct_map_filter\<close>)
  have "\<not> row_stale (item_age now ?ps w) w \<and> set (due_keys now ?ps ?esc w) \<subseteq> set (sla_emissions st')"
    if "w \<in> set (filter (\<lambda>w. in_scope org (wi_org_id w)) (work_items st'))" for w
  proof -
    have scope: "in_scope org (wi_org_id w)" and "w \<in> set (work_items st')" using that by simp_all
    then have "w \<in> (\<lambda>r. if r \<in> set ?ws then settled_row wall now ?ps r else r) ` set (work_items st)"
      unfolding rows set_map by blast
    then obtain r where "r \<in> set (work_items st)" "w = (if r \<in> set ?ws then settled_row wall now ?ps r else r)"
      by blast
    then have r: "r \<in> set ?ws" "w = settled_row wall now ?ps r" using scope by (auto split: if_splits)
    then show ?thesis using st'(1) settled_not_stale [of now ?ps wall r] settled_due [of now ?ps ?esc wall r]
      by auto
  qed
  then have "process_items ?pub fresh' wall' now ?ps ?esc (filter (\<lambda>w. in_scope org (wi_org_id w)) (work_items st')) zero_summary st' =
      (None, zero_summary\<lparr>rs_processed := rs_processed zero_summary + length (filter (\<lambda>w. in_scope org (wi_org_id w)) (work_items st'))\<rparr>, st')"
    by (intro slab.process_items_idle) blast
  then show ?thesis
    using assms(3) st'(2,3) by (auto simp: recompute_aging_for_org_def zero_summary_def)
qed

text \<open>The bucket is taken from the unrounded score and the announcements from the rounded one,
  so they can disagree at both limits: an item may be shown red with no breach announced, or green
  with a warning announced.\<close>

lemma bucket_and_announcement_disagree:
  "ar_bucket (compute_aging_from_elapsed 25001 25000) = Red \<and> \<not> ar_score (compute_aging_from_elapsed 25001 25000) > 100 \<and>
   ar_bucket (compute_aging_from_elapsed 29999 40000) = Green \<and> ar_score (compute_aging_from_elapsed 29999 40000) \<ge> 75"
  by (simp add: compute_aging_from_elapsed_def raw_score_def js_round_def Let_def)

end
