(* ===== verification/Workflow.thy ===== *)
theory Workflow
  imports AgingEngine
begin

text \<open>
  The workflow engine of \<^verbatim>\<open>src/modules/workflow/workflow.service.ts\<close>: workflow definitions and their
  validation, versioned publication, role guards, and the transition of a work item with its SLA
  clock, audit record and outbox event in one transaction.

  An absent optional list or string of a definition is the empty one; the code treats them alike.
  A transition reads the item, its workflow and its policies before it opens the transaction, so
  \<open>race\<close> is what other requests commit in between.
\<close>

subsection \<open>Definitions\<close>

datatype guard =
    GuardText string
  | GuardRoles "string option" "string list option" "string list"

record wf_rule =
  wr_from :: string
  wr_to :: string
  wr_guard :: "guard option"
  wr_requires :: "string list"

record wf_definition =
  wd_type :: string
  wd_states :: "string list"
  wd_initial :: string
  wd_terminal :: "string list"
  wd_transitions :: "wf_rule list"

record published_workflow =
  pw_id :: string
  pw_type :: string
  pw_version :: int
  pw_definition :: wf_definition
  pw_created_at :: time

record wf_store = sla_store +
  workflow_rows :: "published_workflow list"

definition plain_rule :: "string \<Rightarrow> string \<Rightarrow> wf_rule" where
  "plain_rule a b = \<lparr>wr_from = a, wr_to = b, wr_guard = None, wr_requires = []\<rparr>"

definition delivery_workflow :: "string \<Rightarrow> wf_definition" where
  "delivery_workflow ty =
     \<lparr>wd_type = ty,
      wd_states = [''Proposed'', ''Planned'', ''In Progress'', ''In Review'', ''Blocked'', ''Done'', ''Verified'', ''Closed'', ''Reopened''],
      wd_initial = ''Proposed'', wd_terminal = [''Closed''],
      wd_transitions =
        [plain_rule ''Proposed'' ''Planned'', plain_rule ''Planned'' ''In Progress'',
         plain_rule ''In Progress'' ''In Review'', plain_rule ''In Review'' ''Blocked'',
         plain_rule ''Blocked'' ''In Progress'', plain_rule ''In Review'' ''Done'',
         plain_rule ''Done'' ''Verified'', plain_rule ''Verified'' ''Closed'',
         plain_rule ''Closed'' ''Reopened'', plain_rule ''Reopened'' ''In Progress'']\<rparr>"

definition incident_workflow :: wf_definition where
  "incident_workflow =
     \<lparr>wd_type = ''incident'',
      wd_states = [''Triaged'', ''Investigating'', ''Mitigated'', ''Resolved'', ''Post-incident Review'', ''Closed''],
      wd_initial = ''Triaged'', wd_terminal = [''Closed''],
      wd_transitions =
        [(plain_rule ''Triaged'' ''Investigating'')\<lparr>wr_guard := Some (GuardText ''actor.role in [on_call, incident_commander]'')\<rparr>,
         (plain_rule ''Investigating'' ''Mitigated'')\<lparr>wr_requires := [''mitigation_summary'']\<rparr>,
         (plain_rule ''Mitigated'' ''Resolved'')\<lparr>wr_guard := Some (GuardText ''incident_commander'')\<rparr>,
         plain_rule ''Resolved'' ''Post-incident Review'', plain_rule ''Post-incident Review'' ''Closed'']\<rparr>"

definition release_workflow :: wf_definition where
  "release_workflow =
     \<lparr>wd_type = ''release'', wd_states = [''Draft'', ''Ready'', ''Deployed'', ''Closed''],
      wd_initial = ''Draft'', wd_terminal = [''Closed''],
      wd_transitions = [plain_rule ''Draft'' ''Ready'', plain_rule ''Ready'' ''Deployed'', plain_rule ''Deployed'' ''Closed'']\<rparr>"

definition built_in_workflows :: "string \<Rightarrow> wf_definition option" where
  "built_in_workflows = map_of
     [(''epic'', delivery_workflow ''epic''), (''story'', delivery_workflow ''story''),
      (''incident'', incident_workflow), (''release'', release_workflow)]"

subsection \<open>Validation\<close>

definition declaration_errors :: "wf_definition \<Rightarrow> string list" where
  "declaration_errors d =
     (if wd_states d = [] then [''workflow must define at least one state in states array''] else []) @
     (if wd_initial d = [] then [''missing initial_state'']
      else if wd_initial d \<notin> set (wd_states d)
        then [''initial_state '' @ quoted (wd_initial d) @ '' is not declared in states list''] else []) @
     (if wd_terminal d = [] then [''missing terminal state'']
      else map (\<lambda>t. ''terminal state '' @ quoted t @ '' is not declared in states list'')
             (filter (\<lambda>t. t \<notin> set (wd_states d)) (wd_terminal d)))"

definition transition_errors :: "wf_definition \<Rightarrow> string list" where
  "transition_errors d = concat (map (\<lambda>tr.
     (if wr_from tr \<notin> set (wd_states d)
      then [''transition source state '' @ quoted (wr_from tr) @ '' is not in declared states''] else []) @
     (if wr_to tr \<notin> set (wd_states d)
      then [''transition target state '' @ quoted (wr_to tr) @ '' is not in declared states''] else []))
     (wd_transitions d))"

text \<open>\<open>adjMap\<close>: only declared states have an entry.\<close>

definition adjacent :: "wf_definition \<Rightarrow> string \<Rightarrow> string list" where
  "adjacent d s = (if s \<in> set (wd_states d)
     then map wr_to (filter (\<lambda>tr. wr_from tr = s) (wd_transitions d)) else [])"

fun unseen :: "string list \<Rightarrow> string list \<Rightarrow> string list" where
  "unseen seen [] = []"
| "unseen seen (x # xs) = (if x \<in> set seen then unseen seen xs else x # unseen (seen @ [x]) xs)"

lemma unseen_set [simp]: "set (unseen seen xs) = set xs - set seen"
  by (induction xs arbitrary: seen) auto

lemma unseen_distinct: "distinct (unseen seen xs)"
  by (induction xs arbitrary: seen) auto

definition unvisited :: "wf_definition \<Rightarrow> string list \<Rightarrow> nat" where
  "unvisited d seen = card (wr_to ` set (wd_transitions d) - set seen)"

lemma adjacent_sub: "set (adjacent d s) \<subseteq> wr_to ` set (wd_transitions d)"
  by (auto simp: adjacent_def)

lemma unvisited_step:
  "unvisited d (seen @ unseen seen (adjacent d s)) + length (unseen seen (adjacent d s)) = unvisited d seen"
proof -
  let ?new = "set (unseen seen (adjacent d s))" and ?all = "wr_to ` set (wd_transitions d)"
  have len: "length (unseen seen (adjacent d s)) = card ?new"
    by (simp add: distinct_card unseen_distinct del: unseen_set)
  have "?all - set (seen @ unseen seen (adjacent d s)) = (?all - set seen) - ?new" by auto
  moreover have "?new \<subseteq> ?all - set seen" using adjacent_sub [of d s] by auto
  ultimately have "unvisited d (seen @ unseen seen (adjacent d s)) = unvisited d seen - card ?new"
    unfolding unvisited_def by (simp add: card_Diff_subset del: unseen_set)
  moreover have "card ?new \<le> unvisited d seen"
    unfolding unvisited_def using \<open>?new \<subseteq> ?all - set seen\<close> by (intro card_mono) auto
  ultimately show ?thesis using len by simp
qed

function reach_loop :: "wf_definition \<Rightarrow> string list \<Rightarrow> string list \<Rightarrow> string list" where
  "reach_loop d seen [] = seen"
| "reach_loop d seen (c # q) =
     (let new = unseen seen (adjacent d c) in reach_loop d (seen @ new) (q @ new))"
  by pat_completeness auto
termination
proof (relation "measure (\<lambda>(d, seen, q). length q + unvisited d seen)")
  fix d seen c q new
  assume "new = unseen seen (adjacent d c)"
  then show "((d, seen @ new, q @ new), (d, seen, c # q)) \<in> measure (\<lambda>(d, seen, q). length q + unvisited d seen)"
    using unvisited_step [of d seen c] by simp
qed simp

function can_reach_terminal :: "wf_definition \<Rightarrow> string list \<Rightarrow> string list \<Rightarrow> bool" where
  "can_reach_terminal d seen [] = False"
| "can_reach_terminal d seen (c # q) =
     (if c \<in> set (wd_terminal d) then True
      else (let new = unseen seen (adjacent d c) in can_reach_terminal d (seen @ new) (q @ new)))"
  by pat_completeness auto
termination
proof (relation "measure (\<lambda>(d, seen, q). length q + unvisited d seen)")
  fix d seen c q new
  assume "new = unseen seen (adjacent d c)"
  then show "((d, seen @ new, q @ new), (d, seen, c # q)) \<in> measure (\<lambda>(d, seen, q). length q + unvisited d seen)"
    using unvisited_step [of d seen c] by simp
qed simp

definition reachability_errors :: "wf_definition \<Rightarrow> string list" where
  "reachability_errors d =
     (let reached = reach_loop d [wd_initial d] [wd_initial d];
          lost = filter (\<lambda>s. s \<notin> set reached) (wd_states d)
      in if lost \<noteq> [] then [''unreachable state(s) detected: '' @ join '', '' lost] else [])"

definition dead_end_errors :: "wf_definition \<Rightarrow> string list" where
  "dead_end_errors d =
     map (\<lambda>s. ''state '' @ quoted s @ '' cannot reach any terminal state'')
       (filter (\<lambda>s. s \<notin> set (wd_terminal d) \<and> \<not> can_reach_terminal d [s] [s]) (wd_states d))"

definition validate_workflow_definition :: "wf_definition \<Rightarrow> bool \<times> string list" where
  "validate_workflow_definition d =
     (if declaration_errors d \<noteq> [] then (False, declaration_errors d)
      else (let errors = transition_errors d @ reachability_errors d @ dead_end_errors d in (errors = [], errors)))"

subsection \<open>Publication\<close>

datatype wf_error =
    InvalidWorkflowDefinition "string list"
  | InvalidTransition string
  | GuardFailed string string
  | MissingRequiredFields "string list"
  | ExternallyOwned uuid "string option" string "string list" string
  | DatabaseFailure db_error

definition max_version :: "string \<Rightarrow> published_workflow list \<Rightarrow> int" where
  "max_version ty rows =
     (case max_by pw_version (filter (\<lambda>r. pw_type r = ty) rows) of None \<Rightarrow> 0 | Some r \<Rightarrow> pw_version r)"

text \<open>The read of the highest version and the insert are two statements; \<open>race\<close> lies between them.\<close>

definition publish_workflow ::
  "('z wf_store_scheme \<Rightarrow> 'z wf_store_scheme) \<Rightarrow> uuid \<Rightarrow> time \<Rightarrow> wf_definition \<Rightarrow> 'z wf_store_scheme
   \<Rightarrow> wf_error + published_workflow \<times> 'z wf_store_scheme" where
  "publish_workflow race fresh now d st =
     (case validate_workflow_definition d of
        (False, errors) \<Rightarrow> Inl (InvalidWorkflowDefinition errors)
      | (True, _) \<Rightarrow>
          (let row = \<lparr>pw_id = fresh, pw_type = wd_type d,
                      pw_version = max_version (wd_type d) (workflow_rows st) + 1,
                      pw_definition = d, pw_created_at = now\<rparr>;
               st1 = race st
           in Inr (row, st1\<lparr>workflow_rows := workflow_rows st1 @ [row]\<rparr>)))"

definition get_workflow_definition :: "string \<Rightarrow> int \<Rightarrow> 'z wf_store_scheme \<Rightarrow> published_workflow option" where
  "get_workflow_definition ty version st =
     (let stored = (if version \<noteq> 0 then find (\<lambda>r. pw_type r = ty \<and> pw_version r = version) (workflow_rows st)
                    else max_by pw_version (filter (\<lambda>r. pw_type r = ty) (workflow_rows st)))
      in case stored of
           Some r \<Rightarrow> Some r
         | None \<Rightarrow>
             (case built_in_workflows ty of
                None \<Rightarrow> None
              | Some d \<Rightarrow> if version = 0 \<or> version = 1
                  then Some \<lparr>pw_id = ''built-in:'' @ ty, pw_type = ty, pw_version = 1, pw_definition = d,
                             pw_created_at = 1789689600000\<rparr>
                  else None))"

subsection \<open>Role guards\<close>

fun until_bracket :: "string \<Rightarrow> string option" where
  "until_bracket [] = None"
| "until_bracket (c # cs) =
     (if c = CHR '']'' then Some []
      else if c = CHR 0x0A \<or> c = CHR 0x0D then None
      else map_option (Cons c) (until_bracket cs))"

text \<open>\<open>/in\s*\[(.*?)\]/\<close> at the start of a text, and its leftmost match.\<close>

definition in_list_here :: "string \<Rightarrow> string option" where
  "in_list_here s =
     (if take 2 s = ''in'' then
        (case dropWhile is_ws (drop 2 s) of
           [] \<Rightarrow> None
         | c # r \<Rightarrow> if c = CHR ''['' then until_bracket r else None)
      else None)"

fun match_in_list :: "string \<Rightarrow> string option" where
  "match_in_list [] = None"
| "match_in_list (c # cs) =
     (case in_list_here (c # cs) of Some x \<Rightarrow> Some x | None \<Rightarrow> match_in_list cs)"

definition allowed_roles :: "guard \<Rightarrow> string list \<times> string" where
  "allowed_roles g =
     (case g of
        GuardText t \<Rightarrow>
          (if includes_text ''in ['' t then
             (case match_in_list t of
                Some (c # cs) \<Rightarrow> (let roles = map trim (split_on CHR '','' (c # cs)) in (roles, join '' or '' roles))
              | _ \<Rightarrow> ([], ''qualified_role''))
           else if includes_text '':'' t then
             (let role = trim (split_on CHR '':'' t ! 1) in ([role], role))
           else ([t], t))
      | GuardRoles role roles _ \<Rightarrow>
          (case or_null role of
             Some r \<Rightarrow> ([r], r)
           | None \<Rightarrow>
               (case roles of
                  Some rs \<Rightarrow> (rs, join '' or '' rs)
                | None \<Rightarrow> ([], ''qualified_role''))))"

definition evaluate_role_guard :: "guard \<Rightarrow> string \<Rightarrow> wf_error option" where
  "evaluate_role_guard g role =
     (let (allowed, name) = allowed_roles g
      in if allowed \<noteq> [] \<and> role \<notin> set allowed
           then Some (GuardFailed name (''actor lacks role '' @ quoted name)) else None)"

subsection \<open>Ownership of twin-backed items\<close>

definition source_name :: "string option \<Rightarrow> string" where
  "source_name system =
     (case or_null system of
        None \<Rightarrow> ''its source system''
      | Some s \<Rightarrow> if s = ''jira'' then ''Jira'' else if s = ''servicenow'' then ''ServiceNow'' else s)"

definition externally_owned :: "work_item \<Rightarrow> string list \<Rightarrow> wf_error" where
  "externally_owned w fs =
     (let owner = source_name (wi_source_system w)
      in ExternallyOwned (wi_id w) (or_null (wi_source_twin_id w))
           (case or_null (wi_source_system w) of None \<Rightarrow> ''external'' | Some s \<Rightarrow> s) fs
           ((if wi_key w \<noteq> [] then wi_key w else wi_id w) @ '' is owned by '' @ owner @ ''; '' @ join '', '' fs @
            '' cannot be changed locally. Change it in '' @ owner @
            '', or request a governed write-back through the synchronized twin.''))"

subsection \<open>Committing a state change\<close>

definition clone_obj :: "jsobj \<Rightarrow> jsobj" where
  "clone_obj m = (case json_clone (JObj m) of JObj k \<Rightarrow> k | _ \<Rightarrow> [])"

record state_change =
  sc_item :: work_item
  sc_org_id :: string
  sc_to_state :: string
  sc_at :: time
  sc_actor_id :: string
  sc_actor_type :: string
  sc_supplied :: jsobj
  sc_merged :: jsobj
  sc_extra :: jsobj

definition state_policy :: "'z wf_store_scheme \<Rightarrow> string \<Rightarrow> string \<Rightarrow> string \<Rightarrow> sla_policy option" where
  "state_policy st org ty state =
     find (\<lambda>p. sp_org_id p = org \<and> sp_item_type p = ty \<and> sp_state p = state) (rev (sla_policies st))"

text \<open>Elapsed minutes and suspension after the change; every branch clears the separate clock start.\<close>

definition clock_after :: "'z wf_store_scheme \<Rightarrow> state_change \<Rightarrow> int \<times> bool" where
  "clock_after st p =
     (let w = sc_item p;
          from_policy = state_policy st (sc_org_id p) (wi_type w) (wi_status w);
          target_policy = state_policy st (sc_org_id p) (wi_type w) (sc_to_state p)
      in if (case target_policy of None \<Rightarrow> False | Some q \<Rightarrow> sp_suspend q) then
           (wi_sla_elapsed_minutes w +
              (if \<not> wi_sla_suspended w then
                 (case from_policy of
                    None \<Rightarrow> 0
                  | Some q \<Rightarrow> calculate_elapsed_minutes (clock_from w (wi_sla_clock_started_at w)) (sc_at p) (sp_calendar q))
               else 0), True)
         else if wi_sla_suspended w then (wi_sla_elapsed_minutes w, False)
         else (0, False))"

definition before_fields :: "state_change \<Rightarrow> jsobj" where
  "before_fields p = (if sc_supplied p = [] then [] else
     [(''custom_fields'', JObj (map (\<lambda>(k, _). (k, nullish_or (jget (wi_custom_fields (sc_item p)) k) JNull)) (sc_supplied p)))])"

definition after_fields :: "state_change \<Rightarrow> jsobj" where
  "after_fields p = (if sc_supplied p = [] then [] else
     [(''custom_fields'', JObj (map (\<lambda>(k, _). (k, jget (sc_merged p) k)) (sc_supplied p)))])"

definition change_payload :: "state_change \<Rightarrow> jsobj" where
  "change_payload p =
     [(''from_state'', JStr (wi_status (sc_item p))), (''to_state'', JStr (sc_to_state p)),
      (''fields'', JObj (sc_supplied p)),
      (''before'', JObj ((''status'', JStr (wi_status (sc_item p))) # before_fields p)),
      (''after'', JObj ((''status'', JStr (sc_to_state p)) # after_fields p))]"

definition audit_payload :: "state_change \<Rightarrow> jsval" where
  "audit_payload p = JObj (jspread (change_payload p) (sc_extra p))"

definition event_payload :: "state_change \<Rightarrow> jsval" where
  "event_payload p = JObj (jspread (change_payload p @
     [(''org_id'', JStr (sc_org_id p)), (''item_type'', JStr (wi_type (sc_item p)))]) (sc_extra p))"

definition or_user :: "string \<Rightarrow> string" where
  "or_user s = (if s = [] then ''user'' else s)"

definition changed_row :: "state_change \<Rightarrow> int \<times> bool \<Rightarrow> work_item \<Rightarrow> work_item" where
  "changed_row p clock w =
     w\<lparr>wi_status := sc_to_state p, wi_entered_state_at := Some (sc_at p), wi_custom_fields := clone_obj (sc_merged p),
       wi_updated_at := sc_at p, wi_sla_elapsed_minutes := fst clock, wi_sla_clock_started_at := None,
       wi_sla_suspended := snd clock\<rparr>"

definition change_audit_event :: "uuid \<Rightarrow> state_change \<Rightarrow> audit_event" where
  "change_audit_event aid p =
     \<lparr>ae_id = aid, ae_event_type = ''WorkItemStateChanged'', ae_work_item_id = wi_id (sc_item p),
      ae_actor_type = or_user (sc_actor_type p), ae_actor_id = sc_actor_id p,
      ae_payload = json_clone (audit_payload p), ae_timestamp = sc_at p\<rparr>"

definition change_audit_input :: "uuid \<Rightarrow> state_change \<Rightarrow> audit_input" where
  "change_audit_input aid p =
     \<lparr>ai_source = ''audit_events'', ai_event_id = aid, ai_org_id = Some (sc_org_id p),
      ai_work_item_id = Some (wi_id (sc_item p)), ai_event_type = ''WorkItemStateChanged'',
      ai_actor_type = or_user (sc_actor_type p), ai_actor_id = sc_actor_id p,
      ai_payload = audit_payload p, ai_occurred_at = sc_at p\<rparr>"

definition change_outbox_input :: "state_change \<Rightarrow> outbox_input" where
  "change_outbox_input p =
     \<lparr>oi_event_type = ''WorkItemStateChanged'', oi_work_item_id = wi_id (sc_item p), oi_org_id = sc_org_id p,
      oi_actor_type = or_user (sc_actor_type p), oi_actor_id = sc_actor_id p, oi_payload = event_payload p,
      oi_schema_version = None, oi_event_id = None, oi_timestamp = Some (sc_at p)\<rparr>"

definition lift_db :: "db_error + 'a \<Rightarrow> wf_error + 'a" where
  "lift_db r = (case r of Inl e \<Rightarrow> Inl (DatabaseFailure e) | Inr a \<Rightarrow> Inr a)"

text \<open>The transaction, on the state it finds when it begins.\<close>

definition commit_tx ::
  "(string \<Rightarrow> string) \<Rightarrow> (nat \<Rightarrow> 'z wf_store_scheme \<Rightarrow> 'z wf_store_scheme) \<Rightarrow> uuid \<Rightarrow> uuid \<Rightarrow> state_change
   \<Rightarrow> int \<times> bool \<Rightarrow> 'z wf_store_scheme \<Rightarrow> wf_error + envelope \<times> 'z wf_store_scheme" where
  "commit_tx sha env aid eid p clock st =
     (let hit = (\<lambda>w. wi_id w = wi_id (sc_item p) \<and> wi_org_id w = sc_org_id p \<and> wi_status w = wi_status (sc_item p))
      in if \<not> (\<exists>w \<in> set (work_items st). hit w)
           then Inl (InvalidTransition ''Work item changed before this transition could commit; retry against its current state'')
         else if \<exists>a \<in> set (audit_events st). ae_id a = aid
           then Inl (DatabaseFailure (UniqueViolation ''audit_events_pkey''))
         else and_then
           (lift_db (append_audit_entry sha Transaction env (change_audit_input aid p)
              (st\<lparr>work_items := update_where hit (changed_row p clock) (work_items st),
                 audit_events := audit_events st @ [change_audit_event aid p]\<rparr>)))
           (\<lambda>st2. lift_db (enqueue sha env eid (sc_at p) (change_outbox_input p) st2)))"

definition commit_state_change ::
  "(string \<Rightarrow> string) \<Rightarrow> (nat \<Rightarrow> 'z wf_store_scheme \<Rightarrow> 'z wf_store_scheme) \<Rightarrow> ('z wf_store_scheme \<Rightarrow> 'z wf_store_scheme)
   \<Rightarrow> uuid \<Rightarrow> uuid \<Rightarrow> state_change \<Rightarrow> 'z wf_store_scheme \<Rightarrow> wf_error + envelope \<times> 'z wf_store_scheme" where
  "commit_state_change sha env race aid eid p st = commit_tx sha env aid eid p (clock_after st p) (race st)"

subsection \<open>Transitions\<close>

record transition_context =
  tc_work_item_id :: uuid
  tc_org_id :: string
  tc_to_state :: string
  tc_actor_id :: string
  tc_actor_role :: string
  tc_actor_type :: "string option"
  tc_fields :: jsobj
  tc_wait_reason :: "jsval option"

record transition_result =
  tr_id :: uuid
  tr_from_state :: string
  tr_to_state :: string
  tr_custom_fields :: jsobj
  tr_updated_at :: time

definition item_of :: "'z store_scheme \<Rightarrow> uuid \<Rightarrow> string \<Rightarrow> work_item option" where
  "item_of st wid org = find (\<lambda>w. wi_id w = wid \<and> wi_org_id w = org) (work_items st)"

definition rules_for :: "'z wf_store_scheme \<Rightarrow> work_item \<Rightarrow> wf_rule list" where
  "rules_for st w =
     (case get_workflow_definition (wi_type w) (wi_workflow_version w) st of
        None \<Rightarrow> [] | Some r \<Rightarrow> wd_transitions (pw_definition r))"

definition field_missing :: "jsobj \<Rightarrow> string \<Rightarrow> bool" where
  "field_missing m k \<longleftrightarrow> jget m k \<in> {JUndef, JNull, JStr []}"

definition guard_error :: "wf_rule \<Rightarrow> string \<Rightarrow> wf_error option" where
  "guard_error r role =
     (case wr_guard r of
        None \<Rightarrow> None
      | Some g \<Rightarrow> if g = GuardText [] then None else evaluate_role_guard g role)"

text \<open>Steps 1 to 4: everything checked before the commit.\<close>

definition plan_transition ::
  "time \<Rightarrow> transition_context \<Rightarrow> 'z wf_store_scheme \<Rightarrow> wf_error + state_change" where
  "plan_transition now ctx st =
     (case item_of st (tc_work_item_id ctx) (tc_org_id ctx) of
        None \<Rightarrow> Inl (InvalidTransition (''Work item '' @ quoted (tc_work_item_id ctx) @ '' not found''))
      | Some w \<Rightarrow>
          if wi_origin w = ''connector'' then Inl (externally_owned w [''status''])
          else (let merged = jspread (wi_custom_fields w) (tc_fields ctx) in
            case find (\<lambda>r. wr_from r = wi_status w \<and> wr_to r = tc_to_state ctx) (rules_for st w) of
              None \<Rightarrow> Inl (InvalidTransition (''Transition from '' @ quoted (wi_status w) @ '' to '' @
                 quoted (tc_to_state ctx) @ '' is not allowed for type '' @ quoted (wi_type w) @ '' v'' @
                 show_int (wi_workflow_version w)))
            | Some r \<Rightarrow>
                (case guard_error r (tc_actor_role ctx) of
                   Some e \<Rightarrow> Inl e
                 | None \<Rightarrow>
                     (let missing = filter (field_missing merged) (wr_requires r)
                      in if missing \<noteq> [] then Inl (MissingRequiredFields missing)
                         else Inr \<lparr>sc_item = w, sc_org_id = tc_org_id ctx, sc_to_state = tc_to_state ctx, sc_at = now,
                                   sc_actor_id = tc_actor_id ctx,
                                   sc_actor_type = (case or_null (tc_actor_type ctx) of None \<Rightarrow> ''user'' | Some t \<Rightarrow> t),
                                   sc_supplied = tc_fields ctx, sc_merged = merged,
                                   sc_extra = (case tc_wait_reason ctx of
                                      None \<Rightarrow> [] | Some v \<Rightarrow> [(''wait_reason'', v)])\<rparr>))))"

definition transition_work_item ::
  "(string \<Rightarrow> string) \<Rightarrow> (nat \<Rightarrow> 'z wf_store_scheme \<Rightarrow> 'z wf_store_scheme) \<Rightarrow> ('z wf_store_scheme \<Rightarrow> 'z wf_store_scheme)
   \<Rightarrow> 'z wf_store_scheme handler \<Rightarrow> uuid \<Rightarrow> uuid \<Rightarrow> time \<Rightarrow> transition_context \<Rightarrow> 'z wf_store_scheme
   \<Rightarrow> wf_error + transition_result \<times> 'z wf_store_scheme" where
  "transition_work_item sha env race pub aid eid now ctx st =
     and_then (plan_transition now ctx st) (\<lambda>p.
       and_then (commit_state_change sha env race aid eid p st) (\<lambda>(ev, st1).
         Inr (\<lparr>tr_id = tc_work_item_id ctx, tr_from_state = wi_status (sc_item p), tr_to_state = tc_to_state ctx,
               tr_custom_fields = sc_merged p, tr_updated_at = now\<rparr>,
              snd (dispatch_envelope pub now ev st1))))"

text \<open>A native change reported by a connector: no local rules or guards apply.\<close>

definition apply_source_state_change ::
  "(string \<Rightarrow> string) \<Rightarrow> (nat \<Rightarrow> 'z wf_store_scheme \<Rightarrow> 'z wf_store_scheme) \<Rightarrow> ('z wf_store_scheme \<Rightarrow> 'z wf_store_scheme)
   \<Rightarrow> 'z wf_store_scheme handler \<Rightarrow> uuid \<Rightarrow> uuid \<Rightarrow> uuid \<Rightarrow> string \<Rightarrow> string \<Rightarrow> time \<Rightarrow> string \<Rightarrow> jsval \<Rightarrow> 'z wf_store_scheme
   \<Rightarrow> wf_error + (string \<times> string) option \<times> 'z wf_store_scheme" where
  "apply_source_state_change sha env race pub aid eid wid org to_state now actor source st =
     (case find (\<lambda>w. wi_id w = wid \<and> wi_org_id w = org \<and> wi_origin w = ''connector'') (work_items st) of
        None \<Rightarrow> Inl (InvalidTransition (''Twin-backed work item '' @ quoted wid @ '' not found''))
      | Some w \<Rightarrow>
          if wi_status w = to_state then Inr (None, st)
          else and_then
            (commit_state_change sha env race aid eid
               \<lparr>sc_item = w, sc_org_id = org, sc_to_state = to_state, sc_at = now, sc_actor_id = actor,
                sc_actor_type = ''integration'', sc_supplied = [], sc_merged = wi_custom_fields w,
                sc_extra = [(''source'', source)]\<rparr> st)
            (\<lambda>(ev, st1). Inr (Some (wi_status w, to_state), snd (dispatch_envelope pub now ev st1))))"

definition get_available_transitions ::
  "uuid \<Rightarrow> string \<Rightarrow> 'z wf_store_scheme \<Rightarrow> wf_error + string \<times> (string \<times> string list \<times> guard option) list" where
  "get_available_transitions wid org st =
     (case item_of st wid org of
        None \<Rightarrow> Inl (InvalidTransition (''Work item '' @ quoted wid @ '' not found''))
      | Some w \<Rightarrow> Inr (wi_status w,
          map (\<lambda>r. (wr_to r, wr_requires r, wr_guard r)) (filter (\<lambda>r. wr_from r = wi_status w) (rules_for st w))))"

subsection \<open>The searches decide reachability\<close>

definition edges :: "wf_definition \<Rightarrow> (string \<times> string) set" where
  "edges d = {(a, b). b \<in> set (adjacent d a)}"

definition frontier_ok :: "wf_definition \<Rightarrow> string list \<Rightarrow> string list \<Rightarrow> bool" where
  "frontier_ok d seen q \<longleftrightarrow> set q \<subseteq> set seen \<and> (\<forall>x \<in> set seen - set q. set (adjacent d x) \<subseteq> set seen)"

lemma frontier_step:
  "frontier_ok d seen (c # q) \<Longrightarrow>
   frontier_ok d (seen @ unseen seen (adjacent d c)) (q @ unseen seen (adjacent d c))"
  by (auto simp: frontier_ok_def)

lemma reach_step:
  assumes "c \<in> set seen"
  shows "(edges d)\<^sup>* `` set (seen @ unseen seen (adjacent d c)) = (edges d)\<^sup>* `` set seen"
proof -
  have "y \<in> (edges d)\<^sup>* `` set seen" if "x \<in> set (adjacent d c)" "(x, y) \<in> (edges d)\<^sup>*" for x y
    using that assms by (auto simp: edges_def intro: converse_rtrancl_into_rtrancl)
  then show ?thesis by auto
qed

lemma frontier_closed: "frontier_ok d seen [] \<Longrightarrow> (edges d)\<^sup>* `` set seen = set seen"
  by (rule Image_closed_trancl) (auto simp: frontier_ok_def edges_def)

lemma reach_loop_set:
  "frontier_ok d seen q \<Longrightarrow> set (reach_loop d seen q) = (edges d)\<^sup>* `` set seen"
proof (induction d seen q rule: reach_loop.induct)
  case (1 d seen)
  then show ?case using frontier_closed by simp
next
  case (2 d seen c q)
  have "c \<in> set seen" using "2.prems" by (simp add: frontier_ok_def)
  then show ?case
    using "2.IH" [OF refl frontier_step [OF "2.prems"]] reach_step [of c seen d] by (simp add: Let_def)
qed

lemma can_reach_terminal_iff:
  "frontier_ok d seen q \<Longrightarrow> set (wd_terminal d) \<inter> (set seen - set q) = {} \<Longrightarrow>
   can_reach_terminal d seen q \<longleftrightarrow> (edges d)\<^sup>* `` set seen \<inter> set (wd_terminal d) \<noteq> {}"
proof (induction d seen q rule: can_reach_terminal.induct)
  case (1 d seen)
  then show ?case using frontier_closed [OF "1.prems"(1)] by auto
next
  case (2 d seen c q)
  have c: "c \<in> set seen" using "2.prems"(1) by (simp add: frontier_ok_def)
  show ?case
  proof (cases "c \<in> set (wd_terminal d)")
    case True
    then show ?thesis using c by auto
  next
    case False
    let ?new = "unseen seen (adjacent d c)"
    have "set (wd_terminal d) \<inter> (set (seen @ ?new) - set (q @ ?new)) = {}"
      using "2.prems"(2) False by auto
    then show ?thesis
      using "2.IH" [OF False refl frontier_step [OF "2.prems"(1)]] reach_step [OF c, of d] False
      by (simp add: Let_def)
  qed
qed

lemma frontier_start: "frontier_ok d [s] [s]"
  by (simp add: frontier_ok_def)

text \<open>What a publishable definition promises.\<close>

definition well_formed_workflow :: "wf_definition \<Rightarrow> bool" where
  "well_formed_workflow d \<longleftrightarrow>
     wd_states d \<noteq> [] \<and> wd_initial d \<noteq> [] \<and> wd_initial d \<in> set (wd_states d) \<and>
     wd_terminal d \<noteq> [] \<and> set (wd_terminal d) \<subseteq> set (wd_states d) \<and>
     (\<forall>tr \<in> set (wd_transitions d). wr_from tr \<in> set (wd_states d) \<and> wr_to tr \<in> set (wd_states d)) \<and>
     (\<forall>s \<in> set (wd_states d). (wd_initial d, s) \<in> (edges d)\<^sup>*) \<and>
     (\<forall>s \<in> set (wd_states d). \<exists>t \<in> set (wd_terminal d). (s, t) \<in> (edges d)\<^sup>*)"

lemma declaration_errors_Nil:
  "declaration_errors d = [] \<longleftrightarrow> wd_states d \<noteq> [] \<and> wd_initial d \<noteq> [] \<and> wd_initial d \<in> set (wd_states d) \<and>
     wd_terminal d \<noteq> [] \<and> set (wd_terminal d) \<subseteq> set (wd_states d)"
  by (auto simp: declaration_errors_def filter_empty_conv)

lemma transition_errors_Nil:
  "transition_errors d = [] \<longleftrightarrow>
     (\<forall>tr \<in> set (wd_transitions d). wr_from tr \<in> set (wd_states d) \<and> wr_to tr \<in> set (wd_states d))"
  by (auto simp: transition_errors_def)

lemma reachability_errors_Nil:
  "reachability_errors d = [] \<longleftrightarrow> (\<forall>s \<in> set (wd_states d). (wd_initial d, s) \<in> (edges d)\<^sup>*)"
  using reach_loop_set [OF frontier_start, of d "wd_initial d"]
  by (auto simp: reachability_errors_def Let_def filter_empty_conv)

lemma dead_end_errors_Nil:
  "dead_end_errors d = [] \<longleftrightarrow> (\<forall>s \<in> set (wd_states d). \<exists>t \<in> set (wd_terminal d). (s, t) \<in> (edges d)\<^sup>*)"
proof -
  have "can_reach_terminal d [s] [s] \<longleftrightarrow> (\<exists>t \<in> set (wd_terminal d). (s, t) \<in> (edges d)\<^sup>*)" for s
    using can_reach_terminal_iff [OF frontier_start, of d s] by auto
  then show ?thesis by (auto simp: dead_end_errors_def filter_empty_conv)
qed

lemma validate_iff: "fst (validate_workflow_definition d) \<longleftrightarrow> well_formed_workflow d"
  using declaration_errors_Nil [of d] transition_errors_Nil [of d] reachability_errors_Nil [of d] dead_end_errors_Nil [of d]
  by (auto simp: validate_workflow_definition_def well_formed_workflow_def Let_def)

subsection \<open>What a committed change leaves\<close>

lemma enqueue_quiet:
  assumes "enqueue sha quiet fresh now i st = Inr (ev, st')"
  shows "domain_events st' = domain_events st @ [event_row (Some (oi_org_id i)) (Some (ev_work_item_id ev)) ev] \<and>
    outbox st' = outbox st @ [pending_row ev] \<and> emitted st' = emitted st \<and> work_items st' = work_items st \<and>
    audit_events st' = audit_events st \<and> store.more st' = store.more st \<and>
    (\<forall>o' \<in> set (outbox st). ob_event_id o' \<noteq> ev_id ev) \<and> ev = outbox_envelope fresh now i"
proof -
  let ?st1 = "st\<lparr>domain_events := domain_events st @ [event_row (Some (oi_org_id i)) (Some (ev_work_item_id ev)) ev]\<rparr>"
  obtain st2 where ev: "ev = outbox_envelope fresh now i"
    and app: "append_audit_entry sha Transaction quiet (event_input (oi_org_id i) (Some (ev_work_item_id ev)) ev) ?st1 = Inr st2"
    and new: "\<forall>o' \<in> set (outbox st2). ob_event_id o' \<noteq> ev_id ev"
    and st': "st' = st2\<lparr>outbox := outbox st2 @ [pending_row ev]\<rparr>"
    using assms by (auto simp: enqueue_Inr)
  show ?thesis using append_frame [OF app] ev new st' by simp
qed

lemma current_of_add_audit:
  assumes "\<forall>a \<in> set (audit_events st). ae_id a \<noteq> ae_id row"
    and "\<And>w. item_org (st\<lparr>work_items := ws\<rparr>) w = item_org st w"
  shows "current_of (st\<lparr>work_items := ws, audit_events := audit_events st @ [row]\<rparr>) s e =
    (if s = ''audit_events'' \<and> e = ae_id row then Some (audit_row_input st row) else current_of st s e)"
proof -
  have 1: "audit_row_input (st\<lparr>work_items := ws, audit_events := aes\<rparr>) = audit_row_input st" for aes
    using assms(2) by (simp add: audit_row_input_def item_org_def fun_eq_iff)
  have 2: "find (\<lambda>a. ae_id a = ae_id row) (audit_events st) = None"
    using assms(1) by (simp add: find_None_iff_all)
  show ?thesis
    using 2 by (auto simp: current_of_def find_append 1 split: option.splits)
qed

lemma item_org_update:
  assumes "\<And>w. wi_id (f w) = wi_id w" "\<And>w. wi_org_id (f w) = wi_org_id w"
  shows "item_org (st\<lparr>work_items := update_where P f (work_items st)\<rparr>) x = item_org st x"
proof -
  have "find (\<lambda>w. wi_id w = x) (update_where P f rows) = map_option (\<lambda>r. if P r then f r else r) (find (\<lambda>w. wi_id w = x) rows)"
    for rows using assms by (intro find_update_where) simp
  then show ?thesis using assms by (cases "find (\<lambda>w. wi_id w = x) (work_items st)") (simp_all add: item_org_def)
qed

lemma changed_row_fields [simp]:
  "wi_id (changed_row p c w) = wi_id w" "wi_org_id (changed_row p c w) = wi_org_id w"
  "wi_type (changed_row p c w) = wi_type w" "wi_origin (changed_row p c w) = wi_origin w"
  "wi_workflow_version (changed_row p c w) = wi_workflow_version w"
  by (simp_all add: changed_row_def)

lemma commit_tx_Inr:
  assumes "commit_tx sha env aid eid p c st = Inr (ev, st')"
  shows "(\<exists>w \<in> set (work_items st). wi_id w = wi_id (sc_item p) \<and> wi_org_id w = sc_org_id p \<and> wi_status w = wi_status (sc_item p)) \<and>
    (\<forall>a \<in> set (audit_events st). ae_id a \<noteq> aid) \<and>
    (\<exists>st2. append_audit_entry sha Transaction env (change_audit_input aid p)
       (st\<lparr>work_items := update_where (\<lambda>w. wi_id w = wi_id (sc_item p) \<and> wi_org_id w = sc_org_id p \<and>
            wi_status w = wi_status (sc_item p)) (changed_row p c) (work_items st),
          audit_events := audit_events st @ [change_audit_event aid p]\<rparr>) = Inr st2 \<and>
      enqueue sha env eid (sc_at p) (change_outbox_input p) st2 = Inr (ev, st'))"
  using assms unfolding commit_tx_def Let_def
  by (auto simp: lift_db_def and_then_Inr split: if_splits sum.splits)

lemma commit_tx_effect:
  assumes "digest sha" "chain_state sha st" "distinct (map wi_id (work_items st))" "wi_id (sc_item p) \<noteq> []"
    and "commit_tx sha quiet aid eid p c st = Inr (ev, st')"
  shows "chain_state sha st'"
    "work_items st' = update_where (\<lambda>w. wi_id w = wi_id (sc_item p) \<and> wi_org_id w = sc_org_id p \<and>
        wi_status w = wi_status (sc_item p)) (changed_row p c) (work_items st)"
    "audit_events st' = audit_events st @ [change_audit_event aid p]"
    "domain_events st' = domain_events st @ [event_row (Some (sc_org_id p)) (Some (wi_id (sc_item p))) ev]"
    "outbox st' = outbox st @ [pending_row ev]" "emitted st' = emitted st" "store.more st' = store.more st"
    "ev = outbox_envelope eid (sc_at p) (change_outbox_input p)"
    "\<forall>o' \<in> set (outbox st). ob_event_id o' \<noteq> ev_id ev"
    "has_event st' (ev_id ev)" "logged st' (ev_id ev)"
proof -
  let ?hit = "\<lambda>w. wi_id w = wi_id (sc_item p) \<and> wi_org_id w = sc_org_id p \<and> wi_status w = wi_status (sc_item p)"
  let ?ws = "update_where ?hit (changed_row p c) (work_items st)"
  let ?row = "change_audit_event aid p"
  let ?st1 = "st\<lparr>work_items := ?ws, audit_events := audit_events st @ [?row]\<rparr>"
  obtain w st2 where w: "w \<in> set (work_items st)" "?hit w"
    and fresh: "\<forall>a \<in> set (audit_events st). ae_id a \<noteq> aid"
    and app: "append_audit_entry sha Transaction quiet (change_audit_input aid p) ?st1 = Inr st2"
    and enq: "enqueue sha quiet eid (sc_at p) (change_outbox_input p) st2 = Inr (ev, st')"
    using commit_tx_Inr [OF assms(5)] by blast
  have org: "item_org (st\<lparr>work_items := ?ws\<rparr>) x = item_org st x" for x
    by (rule item_org_update) simp_all
  have id: "ae_id ?row = aid" by (simp add: change_audit_event_def)
  have fresh': "\<forall>a \<in> set (audit_events st). ae_id a \<noteq> ae_id ?row" using fresh id by simp
  note cur = current_of_add_audit [OF fresh' org]
  have "chain_state sha ?st1"
  proof (rule chain_state_sources [OF assms(2)])
    fix s e
    assume "current_of st s e \<noteq> None"
    with fresh' show "current_of ?st1 s e = current_of st s e"
      by (auto simp: cur) (auto simp: current_of_def find_None_iff_all [symmetric])
  qed simp_all
  moreover have "sourced ?st1 (change_audit_input aid p)"
  proof -
    have "find (\<lambda>x. wi_id x = wi_id (sc_item p)) (work_items st) = Some w"
      using find_distinct_key [OF assms(3) w(1)] w(2) by simp
    then have "item_org st (wi_id (sc_item p)) = Some (sc_org_id p)" using w(2) by (simp add: item_org_def)
    then have "canonical_audit_event (audit_row_input st ?row) = canonical_audit_event (change_audit_input aid p)"
      by (simp add: canonical_audit_event_def audit_row_input_def change_audit_event_def change_audit_input_def
          audit_payload_def or_empty_obj_def js_truthy_def)
    then show ?thesis using id by (simp add: sourced_def change_audit_input_def cur)
  qed
  ultimately have chain2: "chain_state sha st2"
    using append_sound [OF assms(1) honest_quiet _ _ app] by blast
  note frame = append_frame [OF app] and enqs = enqueue_quiet [OF enq]
  have oi: "oi_work_item_id (change_outbox_input p) = wi_id (sc_item p)" "oi_org_id (change_outbox_input p) = sc_org_id p"
    by (simp_all add: change_outbox_input_def)
  then have ne: "oi_work_item_id (change_outbox_input p) \<noteq> []" using assms(4) by simp
  note facts = enqueue_facts [OF assms(1) honest_quiet chain2 ne enq]
  show "chain_state sha st'" by (rule facts(1))
  show "logged st' (ev_id ev)" by (rule facts(2))
  show "has_event st' (ev_id ev)" using facts(4) has_event_find [of st' "ev_id ev"] by auto
  show "ev = outbox_envelope eid (sc_at p) (change_outbox_input p)" by (rule facts(5))
  then have "ev_work_item_id ev = wi_id (sc_item p)" using oi by (simp add: outbox_envelope_def)
  then show "domain_events st' = domain_events st @ [event_row (Some (sc_org_id p)) (Some (wi_id (sc_item p))) ev]"
    using frame enqs oi by simp
  show "work_items st' = ?ws" "audit_events st' = audit_events st @ [?row]"
    "outbox st' = outbox st @ [pending_row ev]" "emitted st' = emitted st" "store.more st' = store.more st"
    using frame enqs by simp_all
  have "outbox st2 = outbox st" using frame by simp
  moreover have "\<forall>o' \<in> set (outbox st2). ob_event_id o' \<noteq> ev_id ev" using enqs by blast
  ultimately show "\<forall>o' \<in> set (outbox st). ob_event_id o' \<noteq> ev_id ev" by simp
qed

text \<open>Publication of the committed event through the event store's bus.\<close>

lemma dispatch_committed:
  assumes "has_event st (ev_id ev)" "logged st (ev_id ev)"
  shows "dispatch_envelope (publish_envelope (store_bus sha quiet)) now ev st =
    (True, st\<lparr>emitted := emitted st @ [ev],
       outbox := update_where (\<lambda>o'. ob_event_id o' = ev_id ev) (mark_dispatched now) (outbox st)\<rparr>)"
proof -
  let ?st = "st\<lparr>emitted := emitted st @ [ev]\<rparr>"
  have "store_handler sha quiet ev ?st = (None, ?st)"
    using record_again [of ?st ev] assms by (simp add: has_event_def logged_def)
  then show ?thesis by (simp add: dispatch_envelope_def store_publish)
qed

lemma transition_Inr:
  "transition_work_item sha env race pub aid eid now ctx st = Inr (res, st') \<longleftrightarrow>
   (\<exists>p ev st1. plan_transition now ctx st = Inr p \<and> commit_tx sha env aid eid p (clock_after st p) (race st) = Inr (ev, st1) \<and>
      res = \<lparr>tr_id = tc_work_item_id ctx, tr_from_state = wi_status (sc_item p), tr_to_state = tc_to_state ctx,
             tr_custom_fields = sc_merged p, tr_updated_at = now\<rparr> \<and>
      st' = snd (dispatch_envelope pub now ev st1))"
  by (auto simp: transition_work_item_def and_then_Inr commit_state_change_def)

lemma plan_Inr:
  assumes "plan_transition now ctx st = Inr p"
  shows "item_of st (tc_work_item_id ctx) (tc_org_id ctx) = Some (sc_item p) \<and> wi_origin (sc_item p) \<noteq> ''connector'' \<and>
    sc_org_id p = tc_org_id ctx \<and> sc_to_state p = tc_to_state ctx \<and> sc_at p = now \<and> sc_actor_id p = tc_actor_id ctx \<and>
    sc_merged p = jspread (wi_custom_fields (sc_item p)) (tc_fields ctx) \<and>
    (\<exists>r \<in> set (rules_for st (sc_item p)). wr_from r = wi_status (sc_item p) \<and> wr_to r = tc_to_state ctx \<and>
       guard_error r (tc_actor_role ctx) = None \<and> (\<forall>k \<in> set (wr_requires r). \<not> field_missing (sc_merged p) k))"
  using assms unfolding plan_transition_def Let_def
  by (auto simp: filter_empty_conv dest!: find_SomeD split: option.splits if_splits)

subsection \<open>Properties\<close>

text \<open>C9. Validation accepts a definition exactly when its states, initial state and terminal states
  are declared, its transitions join declared states, every state can be reached from the initial
  one and every state can reach a terminal one.\<close>

theorem validation_sound_and_complete:
  "fst (validate_workflow_definition d) \<longleftrightarrow> well_formed_workflow d"
  by (rule validate_iff)

lemma delivery_valid: "fst (validate_workflow_definition (delivery_workflow ty))"
  by (simp add: validate_workflow_definition_def declaration_errors_def transition_errors_def
      reachability_errors_def dead_end_errors_def delivery_workflow_def plain_rule_def adjacent_def Let_def)

lemma incident_valid: "fst (validate_workflow_definition incident_workflow)"
  by (simp add: validate_workflow_definition_def declaration_errors_def transition_errors_def
      reachability_errors_def dead_end_errors_def incident_workflow_def plain_rule_def adjacent_def Let_def)

lemma release_valid: "fst (validate_workflow_definition release_workflow)"
  by (simp add: validate_workflow_definition_def declaration_errors_def transition_errors_def
      reachability_errors_def dead_end_errors_def release_workflow_def plain_rule_def adjacent_def Let_def)


text \<open>C11. A transition that succeeds was permitted: the item existed in the caller's tenant, was not
  owned by a connector, and a rule of the workflow version it is pinned to leads from its state to
  the target, with the guard met and every required field present. And nobody had moved the item
  when it committed.\<close>

theorem transition_only_if_permitted:
  assumes "transition_work_item sha env race pub aid eid now ctx st = Inr (res, st')"
  shows "\<exists>w r. item_of st (tc_work_item_id ctx) (tc_org_id ctx) = Some w \<and> wi_origin w \<noteq> ''connector'' \<and>
    r \<in> set (rules_for st w) \<and> wr_from r = wi_status w \<and> wr_to r = tc_to_state ctx \<and>
    guard_error r (tc_actor_role ctx) = None \<and>
    (\<forall>k \<in> set (wr_requires r). \<not> field_missing (jspread (wi_custom_fields w) (tc_fields ctx)) k) \<and>
    (\<exists>w' \<in> set (work_items (race st)). wi_id w' = wi_id w \<and> wi_org_id w' = tc_org_id ctx \<and> wi_status w' = wi_status w) \<and>
    tr_from_state res = wi_status w"
proof -
  obtain p ev st1 where p: "plan_transition now ctx st = Inr p"
    and tx: "commit_tx sha env aid eid p (clock_after st p) (race st) = Inr (ev, st1)"
    and res: "tr_from_state res = wi_status (sc_item p)"
    using assms by (auto simp: transition_Inr)
  obtain r where r: "r \<in> set (rules_for st (sc_item p))" "wr_from r = wi_status (sc_item p)"
    "wr_to r = tc_to_state ctx" "guard_error r (tc_actor_role ctx) = None"
    "\<forall>k \<in> set (wr_requires r). \<not> field_missing (sc_merged p) k"
    using plan_Inr [OF p] by blast
  show ?thesis
    using plan_Inr [OF p] commit_tx_Inr [OF tx] res r
    by (intro exI [of _ "sc_item p"] exI [of _ r]) simp
qed

definition sample_wf :: wf_store where
  "sample_wf = \<lparr>work_items = [sample_item], domain_events = [], audit_events = [], integrity = [],
     integrity_seq = 1, outbox = [], emitted = [], sla_policies = [], sla_emissions = [],
     escalation_settings = [], people = [], escalation_targets = [], workflow_rows = []\<rparr>"

definition sample_ctx :: transition_context where
  "sample_ctx = \<lparr>tc_work_item_id = ''w1'', tc_org_id = ''o1'', tc_to_state = ''In Review'', tc_actor_id = ''u1'',
     tc_actor_role = ''developer'', tc_actor_type = None, tc_fields = [], tc_wait_reason = None\<rparr>"

abbreviation sample_transition :: "wf_error + transition_result \<times> wf_store" where
  "sample_transition \<equiv> transition_work_item sample_sha quiet (\<lambda>s. s) (publish_envelope (store_bus sample_sha quiet))
     ''a1'' ''e1'' 60000 sample_ctx sample_wf"

lemma sample_rules:
  "rules_for sample_wf sample_item = wd_transitions (delivery_workflow ''story'')"
  by (simp add: rules_for_def sample_wf_def sample_item_def get_workflow_definition_def built_in_workflows_def)

lemma sample_plan:
  "\<exists>p. plan_transition 60000 sample_ctx sample_wf = Inr p \<and> sc_item p = sample_item \<and> sc_org_id p = ''o1'' \<and>
     sc_at p = 60000 \<and> sc_merged p = [] \<and> sc_to_state p = ''In Review''"
proof -
  have "item_of sample_wf ''w1'' ''o1'' = Some sample_item"
    by (simp add: item_of_def sample_wf_def sample_item_def)
  then show ?thesis
    using sample_rules
    by (simp add: plan_transition_def sample_ctx_def Let_def delivery_workflow_def plain_rule_def guard_error_def)
      (simp add: sample_item_def)
qed

lemma sample_transition_ok: "\<exists>res st'. sample_transition = Inr (res, st')"
proof -
  obtain p where p: "plan_transition 60000 sample_ctx sample_wf = Inr p" "sc_item p = sample_item"
    "sc_org_id p = ''o1''" "sc_at p = 60000" using sample_plan by blast
  have "\<exists>ev st1. commit_tx sample_sha quiet ''a1'' ''e1'' p c sample_wf = Inr (ev, st1)" for c
    using p
    by (simp add: commit_tx_def sample_wf_def sample_item_def Let_def append_audit_entry_def change_audit_input_def
        max_append_attempts_def numeral_eq_Suc insert_integrity_def quiet_def lift_db_def enqueue_def has_event_def
        outbox_envelope_def or_null_def change_outbox_input_def event_input_def new_entry_def chain_head_def
        calculate_audit_hash_def sample_sha_def hash_text_def)
  then show ?thesis using p by (simp add: transition_Inr)
qed


lemma transition_only_if_permitted_witness:
  "\<exists>res st' w. sample_transition = Inr (res, st') \<and> item_of sample_wf ''w1'' ''o1'' = Some w \<and> tr_from_state res = wi_status w"
proof -
  obtain res st' where run: "sample_transition = Inr (res, st')" using sample_transition_ok by blast
  from transition_only_if_permitted [OF run] run show ?thesis by (auto simp: sample_ctx_def)
qed

lemma transition_effect:
  assumes "digest sha" "chain_state sha (race st)" "distinct (map wi_id (work_items (race st)))"
    and "tc_work_item_id ctx \<noteq> []"
    and "transition_work_item sha quiet race (publish_envelope (store_bus sha quiet)) aid eid now ctx st = Inr (res, st')"
  shows "\<exists>p ev. plan_transition now ctx st = Inr p \<and> ev = outbox_envelope eid now (change_outbox_input p) \<and>
    chain_state sha st' \<and> logged st' (ev_id ev) \<and>
    work_items st' = update_where (\<lambda>w. wi_id w = tc_work_item_id ctx \<and> wi_org_id w = tc_org_id ctx \<and>
        wi_status w = tr_from_state res) (changed_row p (clock_after st p)) (work_items (race st)) \<and>
    audit_events st' = audit_events (race st) @ [change_audit_event aid p] \<and>
    domain_events st' = domain_events (race st) @ [event_row (Some (tc_org_id ctx)) (Some (tc_work_item_id ctx)) ev] \<and>
    emitted st' = emitted (race st) @ [ev] \<and>
    outbox st' = outbox (race st) @ [mark_dispatched now (pending_row ev)]"
proof -
  obtain p ev st1 where p: "plan_transition now ctx st = Inr p"
    and tx: "commit_tx sha quiet aid eid p (clock_after st p) (race st) = Inr (ev, st1)"
    and res: "tr_from_state res = wi_status (sc_item p)"
    and st': "st' = snd (dispatch_envelope (publish_envelope (store_bus sha quiet)) now ev st1)"
    using assms(5) by (auto simp: transition_Inr)
  note pf = plan_Inr [OF p]
  have wid: "wi_id (sc_item p) = tc_work_item_id ctx"
    using pf by (auto simp: item_of_def dest!: find_SomeD)
  then have ne: "wi_id (sc_item p) \<noteq> []" using assms(4) by simp
  note eff = commit_tx_effect [OF assms(1-3) ne tx]
  have "update_where (\<lambda>o'. ob_event_id o' = ev_id ev) (mark_dispatched now) (outbox (race st)) = outbox (race st)"
    using eff(9) by (intro update_where_none) blast
  then have box: "outbox st' = outbox (race st) @ [mark_dispatched now (pending_row ev)]"
    using dispatch_committed [OF eff(10,11)] eff(5) by (simp add: st' pending_row_def)
  have "st' = st1\<lparr>emitted := emitted st1 @ [ev],
      outbox := update_where (\<lambda>o'. ob_event_id o' = ev_id ev) (mark_dispatched now) (outbox st1)\<rparr>"
    using dispatch_committed [OF eff(10,11)] by (simp add: st')
  then have "chain_state sha st'" "logged st' (ev_id ev)" "work_items st' = work_items st1"
    "audit_events st' = audit_events st1" "domain_events st' = domain_events st1" "emitted st' = emitted st1 @ [ev]"
    using eff(1,11) by (simp_all add: logged_def)
  then show ?thesis
    using p box eff pf wid res by (intro exI [of _ p] exI [of _ ev]) simp
qed


lemma sample_wf_ok: "chain_state sample_sha sample_wf" "distinct (map wi_id (work_items sample_wf))"
  by (simp_all add: chain_state_no_links sample_wf_def)


text \<open>Versioning protects items in flight: whatever is published meanwhile, an item pinned to a
  stored version keeps that version's definition.\<close>

lemma pinned_version_is_stable:
  assumes "v \<noteq> 0" "find (\<lambda>r. pw_type r = ty \<and> pw_version r = v) (workflow_rows st) = Some r"
    and "\<exists>added. workflow_rows (race st) = workflow_rows st @ added"
    and "publish_workflow race fresh now d st = Inr (row, st')"
  shows "get_workflow_definition ty v st' = Some r"
  using assms
  by (auto simp: publish_workflow_def get_workflow_definition_def Let_def find_append split: prod.splits bool.splits)

definition tightened :: wf_definition where
  "tightened = \<lparr>wd_type = ''story'', wd_states = [''In Progress'', ''Closed''], wd_initial = ''In Progress'',
     wd_terminal = [''Closed''], wd_transitions = [plain_rule ''In Progress'' ''Closed'']\<rparr>"

lemma tightened_valid: "validate_workflow_definition tightened = (True, [])"
  by (simp add: validate_workflow_definition_def declaration_errors_def transition_errors_def
      reachability_errors_def dead_end_errors_def tightened_def plain_rule_def adjacent_def Let_def)

text \<open>The first definition published for a built-in type takes version 1, the version the
  built-in itself has, so items in flight under the built-in rules are moved to the new ones.\<close>

lemma first_publication_replaces_built_in:
  assumes "\<forall>r \<in> set (workflow_rows st). pw_type r \<noteq> wd_type d"
    and "publish_workflow (\<lambda>s. s) fresh now d st = Inr (row, st')"
    and "built_in_workflows (wd_type d) = Some b"
  shows "map_option pw_definition (get_workflow_definition (wd_type d) 1 st) = Some b \<and>
    map_option pw_definition (get_workflow_definition (wd_type d) 1 st') = Some d"
proof -
  have none: "filter (\<lambda>r. pw_type r = wd_type d) (workflow_rows st) = []"
    "find (\<lambda>r. pw_type r = wd_type d \<and> pw_version r = 1) (workflow_rows st) = None"
    using assms(1) by (auto simp: filter_empty_conv find_None_iff_all)
  then show ?thesis
    using assms(2,3)
    by (auto simp: publish_workflow_def max_version_def get_workflow_definition_def Let_def find_append
        split: prod.splits bool.splits)
qed

text \<open>The commit checks that the state is unchanged but writes back all custom fields as they
  were read before it: whatever other requests committed to the item's fields in between is
  overwritten by the earlier values.\<close>

lemma transition_drops_concurrent_edit:
  assumes "digest sha" "chain_state sha (race st)" "distinct (map wi_id (work_items (race st)))"
    and "tc_work_item_id ctx \<noteq> []"
    and "transition_work_item sha quiet race (publish_envelope (store_bus sha quiet)) aid eid now ctx st = Inr (res, st')"
  shows "\<exists>w \<in> set (work_items st'). wi_id w = tc_work_item_id ctx \<and> wi_status w = tc_to_state ctx \<and>
    (\<exists>old. item_of st (tc_work_item_id ctx) (tc_org_id ctx) = Some old \<and>
       wi_custom_fields w = clone_obj (jspread (wi_custom_fields old) (tc_fields ctx)))"
proof -
  obtain p where p: "plan_transition now ctx st = Inr p"
    and ws: "work_items st' = update_where (\<lambda>w. wi_id w = tc_work_item_id ctx \<and> wi_org_id w = tc_org_id ctx \<and>
        wi_status w = tr_from_state res) (changed_row p (clock_after st p)) (work_items (race st))"
    using transition_effect [OF assms] by blast
  obtain p' ev st1 where "plan_transition now ctx st = Inr p'" "tr_from_state res = wi_status (sc_item p')"
    "commit_tx sha quiet aid eid p' (clock_after st p') (race st) = Inr (ev, st1)"
    using assms(5) by (auto simp: transition_Inr)
  then obtain w where w: "w \<in> set (work_items (race st))" "wi_id w = wi_id (sc_item p)" "wi_org_id w = sc_org_id p"
      "wi_status w = tr_from_state res"
    using p commit_tx_Inr by fastforce
  note pf = plan_Inr [OF p]
  have "wi_id (sc_item p) = tc_work_item_id ctx" using pf by (auto simp: item_of_def dest!: find_SomeD)
  then have "changed_row p (clock_after st p) w \<in> set (work_items st')"
    using w pf unfolding ws by (auto simp: set_update_where intro!: bexI [of _ w])
  then show ?thesis
    using w(2) pf \<open>wi_id (sc_item p) = tc_work_item_id ctx\<close>
    by (intro bexI [of _ "changed_row p (clock_after st p) w"]) (auto simp: changed_row_def)
qed

lemma suspended_minutes:
  "sp_suspend q \<Longrightarrow> wi_sla_suspended w \<Longrightarrow>
   age_item now (Some q) w = (let r = compute_aging_from_elapsed (wi_sla_elapsed_minutes w) (sp_threshold q)
     in (ar_score r, ar_bucket r, stored_clock w))"
  by (simp add: age_item_def adjust_clock_def stored_clock_def Let_def)

lemma running_minutes:
  "\<not> sp_suspend q \<Longrightarrow> \<not> wi_sla_suspended w \<Longrightarrow>
   age_item now (Some q) w = (let r = compute_aging_from_elapsed
       (wi_sla_elapsed_minutes w + calculate_elapsed_minutes (clock_from w (wi_sla_clock_started_at w)) now (sp_calendar q))
       (sp_threshold q)
     in (ar_score r, ar_bucket r, stored_clock w))"
  by (simp add: age_item_def adjust_clock_def stored_clock_def Let_def)

text \<open>C13. Time in a hold state never counts against the SLA: entering the state banks what was
  consumed and freezes the aging of the item however long it stays, and leaving it resumes from the
  banked minutes, counting only from the instant of leaving.\<close>

theorem hold_time_never_counts:
  assumes "state_policy st (sc_org_id p) (wi_type (sc_item p)) (sc_to_state p) = Some q" "sp_suspend q"
    and "held = changed_row p (clock_after st p) (sc_item p)"
    and "sc_item p' = held" "state_policy st' (sc_org_id p') (wi_type held) (sc_to_state p') = Some q'" "\<not> sp_suspend q'"
    and "resumed = changed_row p' (clock_after st' p') held"
  shows "age_item now (Some q) held = age_item later (Some q) held \<and>
    age_item later (Some q') resumed =
      (let r = compute_aging_from_elapsed
           (wi_sla_elapsed_minutes held + calculate_elapsed_minutes (sc_at p') later (sp_calendar q')) (sp_threshold q')
       in (ar_score r, ar_bucket r, stored_clock resumed))"
proof -
  have held: "wi_sla_suspended held"
    using assms(1-3) by (simp add: changed_row_def clock_after_def Let_def)
  have res: "\<not> wi_sla_suspended resumed" "wi_sla_elapsed_minutes resumed = wi_sla_elapsed_minutes held"
    "clock_from resumed (wi_sla_clock_started_at resumed) = sc_at p'"
    using held assms(4-7) by (simp_all add: changed_row_def clock_after_def Let_def clock_from_def entered_at_def)
  show ?thesis
    using suspended_minutes [OF assms(2) held] running_minutes [OF assms(6) res(1), of later] res(2,3) by simp
qed

definition hold_store :: wf_store where
  "hold_store = sample_wf\<lparr>sla_policies :=
     [\<lparr>sp_org_id = ''o1'', sp_item_type = ''story'', sp_state = ''In Progress'', sp_threshold = 60, sp_calendar = Cal24x7, sp_suspend = False\<rparr>,
      \<lparr>sp_org_id = ''o1'', sp_item_type = ''story'', sp_state = ''Blocked'', sp_threshold = 60, sp_calendar = Cal24x7, sp_suspend = True\<rparr>]\<rparr>"

definition hold_change :: "work_item \<Rightarrow> string \<Rightarrow> time \<Rightarrow> state_change" where
  "hold_change w to_state t = \<lparr>sc_item = w, sc_org_id = ''o1'', sc_to_state = to_state, sc_at = t, sc_actor_id = ''u1'',
     sc_actor_type = ''user'', sc_supplied = [], sc_merged = [], sc_extra = []\<rparr>"

lemma hold_time_never_counts_witness:
  "let p = hold_change sample_item ''Blocked'' 1800000;
       held = changed_row p (clock_after hold_store p) sample_item
   in wi_sla_elapsed_minutes held = 30 \<and>
      age_item 1800000 (Some (sla_policies hold_store ! 1)) held = age_item 99999999 (Some (sla_policies hold_store ! 1)) held"
proof -
  let ?p = "hold_change sample_item ''Blocked'' 1800000"
  let ?held = "changed_row ?p (clock_after hold_store ?p) sample_item"
  have q: "state_policy hold_store ''o1'' ''story'' ''Blocked'' = Some (sla_policies hold_store ! 1)"
    "state_policy hold_store ''o1'' ''story'' ''In Progress'' = Some (sla_policies hold_store ! 0)"
    by (simp_all add: state_policy_def hold_store_def)
  have base: "wi_sla_elapsed_minutes ?held = 30"
    using q by (simp add: changed_row_def clock_after_def Let_def hold_change_def sample_item_def hold_store_def
        calculate_elapsed_minutes_def clock_from_def entered_at_def minute_ms_def)
  have "age_item 1800000 (Some (sla_policies hold_store ! 1)) ?held = age_item 99999999 (Some (sla_policies hold_store ! 1)) ?held"
    by (rule hold_time_never_counts [where st = hold_store and p = ?p and st' = hold_store and
          p' = "hold_change ?held ''In Progress'' 3600000" and q' = "sla_policies hold_store ! 0", THEN conjunct1])
      (use q in \<open>simp_all add: hold_change_def sample_item_def hold_store_def\<close>)
  with base show ?thesis by (simp add: Let_def)
qed

end
