(* ===== verification/Consumers.thy ===== *)
theory Consumers
  imports EventOutbox "HOL-Library.AList"
begin

text \<open>
  Reliable consumption of events: \<^verbatim>\<open>src/modules/events/consumer-registry.service.ts\<close> (claim, retry,
  dead letter, alert) and \<^verbatim>\<open>dead-letter.service.ts\<close> (list, depth, replay, discard). The claim and the
  two settlements are single SQL statements on the consumption table; the step relation at the end
  interleaves deliveries at that granularity.
\<close>

record consumption =
  cn_consumer :: string
  cn_event_id :: uuid
  cn_status :: string
  cn_attempts :: int
  cn_first_attempt_at :: time
  cn_last_attempt_at :: time

record dead_letter =
  dl_id :: uuid
  dl_consumer :: string
  dl_event_id :: uuid
  dl_org_id :: "string option"
  dl_event_type :: string
  dl_envelope :: envelope
  dl_attempts :: int
  dl_last_error :: "string option"
  dl_status :: string
  dl_created_at :: time
  dl_updated_at :: time
  dl_resolved_at :: "time option"

record consumer_store = store +
  consumptions :: "consumption list"
  dead_letters :: "dead_letter list"

record 's consumer =
  cd_name :: string
  cd_event_types :: "string list"
  cd_handle :: "'s handler"
  cd_max_attempts :: "int option"

text \<open>The static registry: consumers by name, the names already wired, and the bus subscriptions.\<close>

record 's registry =
  rg_consumers :: "(string \<times> 's consumer) list"
  rg_wired :: "string list"
  rg_subscriptions :: "(string \<times> string) list"

definition empty_registry :: "'s registry" where
  "empty_registry = \<lparr>rg_consumers = [], rg_wired = [], rg_subscriptions = []\<rparr>"

definition register :: "'s consumer \<Rightarrow> 's registry \<Rightarrow> 's registry" where
  "register d r =
     (let r1 = r\<lparr>rg_consumers := AList.update (cd_name d) d (rg_consumers r)\<rparr>
      in if cd_name d \<in> set (rg_wired r) then r1
         else r1\<lparr>rg_wired := rg_wired r @ [cd_name d],
                 rg_subscriptions := rg_subscriptions r @ map (\<lambda>ty. (ty, cd_name d)) (cd_event_types d)\<rparr>)"

definition registered :: "'s registry \<Rightarrow> string list" where
  "registered r = map fst (rg_consumers r)"

definition get_consumer :: "string \<Rightarrow> 's registry \<Rightarrow> 's consumer option" where
  "get_consumer name r = map_of (rg_consumers r) name"

subsection \<open>The consumption table\<close>

definition same_pair :: "string \<Rightarrow> uuid \<Rightarrow> consumption \<Rightarrow> bool" where
  "same_pair c e r \<longleftrightarrow> cn_consumer r = c \<and> cn_event_id r = e"

definition claim_rows :: "time \<Rightarrow> bool \<Rightarrow> string \<Rightarrow> uuid \<Rightarrow> consumption list \<Rightarrow> bool \<times> consumption list" where
  "claim_rows now force c e rows =
     (case find (same_pair c e) rows of
        None \<Rightarrow> (True, rows @ [\<lparr>cn_consumer = c, cn_event_id = e, cn_status = ''processing'', cn_attempts = 0,
                              cn_first_attempt_at = now, cn_last_attempt_at = now\<rparr>])
      | Some r \<Rightarrow>
          if force \<or> cn_status r = ''failed''
          then (True, update_where (same_pair c e) (\<lambda>r. r\<lparr>cn_status := ''processing'', cn_last_attempt_at := now\<rparr>) rows)
          else (False, rows))"

definition settle_rows :: "string \<Rightarrow> time \<Rightarrow> string \<Rightarrow> uuid \<Rightarrow> int \<Rightarrow> consumption list \<Rightarrow> consumption list" where
  "settle_rows status now c e n rows =
     (case find (same_pair c e) rows of
        None \<Rightarrow> rows @ [\<lparr>cn_consumer = c, cn_event_id = e, cn_status = status, cn_attempts = n,
                       cn_first_attempt_at = now, cn_last_attempt_at = now\<rparr>]
      | Some r \<Rightarrow> update_where (same_pair c e)
          (\<lambda>r. r\<lparr>cn_status := status, cn_attempts := n, cn_last_attempt_at := now\<rparr>) rows)"

definition abandon_rows :: "time \<Rightarrow> consumption list \<Rightarrow> consumption list" where
  "abandon_rows now = update_where (\<lambda>r. cn_status r = ''processing'')
     (\<lambda>r. r\<lparr>cn_status := ''failed'', cn_last_attempt_at := now\<rparr>)"

definition on_module_init :: "time \<Rightarrow> 'z consumer_store_scheme \<Rightarrow> 'z consumer_store_scheme" where
  "on_module_init now st = st\<lparr>consumptions := abandon_rows now (consumptions st)\<rparr>"

definition claim :: "time \<Rightarrow> bool \<Rightarrow> string \<Rightarrow> uuid \<Rightarrow> 'z consumer_store_scheme \<Rightarrow> bool \<times> 'z consumer_store_scheme" where
  "claim now force c e st = (let (won, rows) = claim_rows now force c e (consumptions st) in (won, st\<lparr>consumptions := rows\<rparr>))"

definition mark_processed :: "time \<Rightarrow> string \<Rightarrow> uuid \<Rightarrow> int \<Rightarrow> 'z consumer_store_scheme \<Rightarrow> 'z consumer_store_scheme" where
  "mark_processed now c e n st = st\<lparr>consumptions := settle_rows ''processed'' now c e n (consumptions st)\<rparr>"

definition mark_failed :: "time \<Rightarrow> string \<Rightarrow> uuid \<Rightarrow> int \<Rightarrow> 'z consumer_store_scheme \<Rightarrow> 'z consumer_store_scheme" where
  "mark_failed now c e n st = st\<lparr>consumptions := settle_rows ''failed'' now c e n (consumptions st)\<rparr>"

subsection \<open>Dead letters\<close>

definition dead_pair :: "string \<Rightarrow> uuid \<Rightarrow> dead_letter \<Rightarrow> bool" where
  "dead_pair c e r \<longleftrightarrow> dl_consumer r = c \<and> dl_event_id r = e"

definition resolve_letter :: "time \<Rightarrow> dead_letter \<Rightarrow> dead_letter" where
  "resolve_letter now r = r\<lparr>dl_status := ''replayed'', dl_resolved_at := Some now, dl_updated_at := now\<rparr>"

definition clear_dead_letter :: "time \<Rightarrow> string \<Rightarrow> uuid \<Rightarrow> 'z consumer_store_scheme \<Rightarrow> 'z consumer_store_scheme" where
  "clear_dead_letter now c e st =
     st\<lparr>dead_letters := update_where (\<lambda>r. dead_pair c e r \<and> dl_status r = ''dead'') (resolve_letter now) (dead_letters st)\<rparr>"

definition put_dead_letter ::
  "uuid \<Rightarrow> time \<Rightarrow> string \<Rightarrow> envelope \<Rightarrow> string option \<Rightarrow> int \<Rightarrow> string \<Rightarrow> dead_letter list \<Rightarrow> dead_letter list" where
  "put_dead_letter fresh now c ev org n err rows =
     (case find (dead_pair c (ev_id ev)) rows of
        None \<Rightarrow> rows @ [\<lparr>dl_id = fresh, dl_consumer = c, dl_event_id = ev_id ev, dl_org_id = org,
                       dl_event_type = ev_type ev, dl_envelope = ev\<lparr>ev_payload := json_clone (ev_payload ev)\<rparr>,
                       dl_attempts = n, dl_last_error = Some err, dl_status = ''dead'',
                       dl_created_at = now, dl_updated_at = now, dl_resolved_at = None\<rparr>]
      | Some r \<Rightarrow> update_where (dead_pair c (ev_id ev))
          (\<lambda>r. r\<lparr>dl_attempts := n, dl_last_error := Some err, dl_status := ''dead'', dl_resolved_at := None,
                dl_updated_at := now\<rparr>) rows)"

definition dead_depth :: "string \<Rightarrow> dead_letter list \<Rightarrow> int" where
  "dead_depth c rows = int (length (filter (\<lambda>r. dl_consumer r = c \<and> dl_status r = ''dead'') rows))"

definition alert_payload :: "string option \<Rightarrow> string \<Rightarrow> int \<Rightarrow> envelope \<Rightarrow> int \<Rightarrow> string \<Rightarrow> jsval" where
  "alert_payload org c depth ev n err = JObj
     [(''org_id'', jopt org), (''consumer'', JStr c), (''depth'', JInt depth), (''event_id'', JStr (ev_id ev)),
      (''event_type'', JStr (ev_type ev)), (''attempts'', JInt n), (''last_error'', JStr err)]"

text \<open>\<open>fresh 0\<close> names the dead-letter row, \<open>fresh 1\<close> the alert event. A thrown error leaves the state it found.\<close>

definition dead_letter_event ::
  "'z consumer_store_scheme handler \<Rightarrow> (nat \<Rightarrow> uuid) \<Rightarrow> time \<Rightarrow> string \<Rightarrow> envelope \<Rightarrow> int \<Rightarrow> string
   \<Rightarrow> 'z consumer_store_scheme \<Rightarrow> string option \<times> 'z consumer_store_scheme" where
  "dead_letter_event pub fresh now c ev n err st =
     (case resolve_event_org_id st ev of
        Inl e \<Rightarrow> (Some e, st)
      | Inr org \<Rightarrow>
          (let st1 = st\<lparr>dead_letters := put_dead_letter (fresh 0) now c ev org n err (dead_letters st)\<rparr>
           in pub \<lparr>ev_id = fresh 1, ev_type = ''DeadLetterQueueAlert'', ev_schema_version = 1, ev_timestamp = now,
                   ev_actor_type = ''system'', ev_actor_id = ''event-consumer-registry'',
                   ev_work_item_id = ev_work_item_id ev,
                   ev_payload = alert_payload org c (dead_depth c (dead_letters st1)) ev n err\<rparr> st1))"

subsection \<open>Dispatch\<close>

datatype dispatch_outcome = Processed | SkippedDuplicate | DeadLettered

record dispatch_result =
  dr_consumer :: string
  dr_event_id :: uuid
  dr_outcome :: dispatch_outcome
  dr_attempts :: int
  dr_error :: "string option"

fun run_attempts ::
  "'z consumer_store_scheme handler \<Rightarrow> time \<Rightarrow> string \<Rightarrow> envelope \<Rightarrow> nat \<Rightarrow> int \<Rightarrow> string \<Rightarrow> 'z consumer_store_scheme
   \<Rightarrow> int option \<times> string \<times> 'z consumer_store_scheme" where
  "run_attempts h now c ev 0 attempt err st = (None, err, st)"
| "run_attempts h now c ev (Suc left) attempt err st =
     (case h ev st of
        (None, st1) \<Rightarrow>
          (Some attempt, err, clear_dead_letter now c (ev_id ev) (mark_processed now c (ev_id ev) attempt st1))
      | (Some e, st1) \<Rightarrow> run_attempts h now c ev left (attempt + 1) e st1)"

definition max_attempts :: "'s consumer \<Rightarrow> int" where
  "max_attempts d = (case cd_max_attempts d of None \<Rightarrow> 3 | Some n \<Rightarrow> n)"

definition dispatch ::
  "'z consumer_store_scheme registry \<Rightarrow> 'z consumer_store_scheme handler \<Rightarrow> (nat \<Rightarrow> uuid) \<Rightarrow> time \<Rightarrow> bool \<Rightarrow> string \<Rightarrow> envelope
   \<Rightarrow> 'z consumer_store_scheme \<Rightarrow> (string + dispatch_result) \<times> 'z consumer_store_scheme" where
  "dispatch reg pub fresh now force c ev st =
     (case get_consumer c reg of
        None \<Rightarrow> (Inl (''No consumer registered under '' @ quoted c), st)
      | Some d \<Rightarrow>
          (case claim now force c (ev_id ev) st of
             (False, st1) \<Rightarrow> (Inr \<lparr>dr_consumer = c, dr_event_id = ev_id ev, dr_outcome = SkippedDuplicate,
                                 dr_attempts = 0, dr_error = None\<rparr>, st1)
           | (True, st1) \<Rightarrow>
               (case run_attempts (cd_handle d) now c ev (nat (max_attempts d)) 1 [] st1 of
                  (Some n, _, st2) \<Rightarrow> (Inr \<lparr>dr_consumer = c, dr_event_id = ev_id ev, dr_outcome = Processed,
                                         dr_attempts = n, dr_error = None\<rparr>, st2)
                | (None, err, st2) \<Rightarrow>
                    (case dead_letter_event pub fresh now c ev (max_attempts d) err
                            (mark_failed now c (ev_id ev) (max_attempts d) st2) of
                       (Some e, st3) \<Rightarrow> (Inl e, st3)
                     | (None, st3) \<Rightarrow> (Inr \<lparr>dr_consumer = c, dr_event_id = ev_id ev, dr_outcome = DeadLettered,
                                          dr_attempts = max_attempts d, dr_error = Some err\<rparr>, st3)))))"

text \<open>The subscriptions of \<open>register\<close>: whatever a dispatch throws is logged, never rethrown.\<close>

fun deliver_all ::
  "'z consumer_store_scheme registry \<Rightarrow> 'z consumer_store_scheme handler \<Rightarrow> (nat \<Rightarrow> uuid) \<Rightarrow> time \<Rightarrow> string list
   \<Rightarrow> 'z consumer_store_scheme handler" where
  "deliver_all reg pub fresh now [] ev st = (None, st)"
| "deliver_all reg pub fresh now (c # cs) ev st =
     deliver_all reg pub fresh now cs ev (snd (dispatch reg pub fresh now False c ev st))"

definition consumer_handler ::
  "'z consumer_store_scheme registry \<Rightarrow> 'z consumer_store_scheme handler \<Rightarrow> (nat \<Rightarrow> uuid) \<Rightarrow> time \<Rightarrow> 'z consumer_store_scheme handler" where
  "consumer_handler reg pub fresh now ev =
     deliver_all reg pub fresh now (map snd (filter (\<lambda>(ty, _). ty = ev_type ev) (rg_subscriptions reg))) ev"

subsection \<open>The operator's queue\<close>

datatype dead_letter_error =
    DeadLetterNotFound string
  | InvalidReplay string
  | ReplayThrew string

record dead_letter_filter =
  df_consumer :: "string option"
  df_status :: "string option"
  df_limit :: int

definition list_dead_letters :: "string \<Rightarrow> dead_letter_filter \<Rightarrow> 'z consumer_store_scheme \<Rightarrow> dead_letter list" where
  "list_dead_letters org f st =
     take (nat (clamp 1 500 (if df_limit f = 0 then 100 else df_limit f)))
       (sort_key (\<lambda>r. - dl_created_at r)
         (filter (\<lambda>r. dl_org_id r = Some org \<and> opt_is (df_consumer f) (Some (dl_consumer r)) \<and>
            opt_is (df_status f) (Some (dl_status r))) (dead_letters st)))"

definition tenant_depth :: "string \<Rightarrow> 'z consumer_store_scheme \<Rightarrow> int \<times> (string \<times> int) list \<times> bool" where
  "tenant_depth org st =
     (let dead = filter (\<lambda>r. dl_status r = ''dead'' \<and> dl_org_id r = Some org) (dead_letters st);
          groups = map (\<lambda>c. (c, int (length (filter (\<lambda>r. dl_consumer r = c) dead)))) (remdups (map dl_consumer dead));
          n = sum_list (map snd groups)
      in (n, groups, n > 0))"

definition get_dead_letter :: "string \<Rightarrow> string \<Rightarrow> 'z consumer_store_scheme \<Rightarrow> dead_letter_error + dead_letter" where
  "get_dead_letter i org st =
     (case find (\<lambda>r. dl_id r = i \<and> dl_org_id r = Some org) (dead_letters st) of
        None \<Rightarrow> Inl (DeadLetterNotFound i) | Some r \<Rightarrow> Inr r)"

definition corrected :: "jsval option \<Rightarrow> dead_letter \<Rightarrow> envelope" where
  "corrected payload r = (case payload of None \<Rightarrow> dl_envelope r | Some p \<Rightarrow> (dl_envelope r)\<lparr>ev_payload := p\<rparr>)"

definition store_correction :: "time \<Rightarrow> string \<Rightarrow> jsval option \<Rightarrow> envelope \<Rightarrow> 'z consumer_store_scheme \<Rightarrow> 'z consumer_store_scheme" where
  "store_correction now i payload ev st =
     (case payload of None \<Rightarrow> st
      | Some _ \<Rightarrow> st\<lparr>dead_letters := update_where (\<lambda>r. dl_id r = i)
          (\<lambda>r. r\<lparr>dl_envelope := ev\<lparr>ev_payload := json_clone (ev_payload ev)\<rparr>, dl_updated_at := now\<rparr>) (dead_letters st)\<rparr>)"

definition settle_replay :: "time \<Rightarrow> string \<Rightarrow> dispatch_result \<Rightarrow> 'z consumer_store_scheme \<Rightarrow> 'z consumer_store_scheme" where
  "settle_replay now i res st = st\<lparr>dead_letters := update_where (\<lambda>r. dl_id r = i)
     (\<lambda>r. if dr_outcome res = Processed
          then r\<lparr>dl_status := ''replayed'', dl_resolved_at := Some now, dl_updated_at := now, dl_last_error := None\<rparr>
          else r\<lparr>dl_attempts := dr_attempts res,
                 dl_last_error := Some (case or_null (dr_error res) of None \<Rightarrow> ''Replay failed'' | Some e \<Rightarrow> e),
                 dl_status := ''dead'', dl_resolved_at := None, dl_updated_at := now\<rparr>) (dead_letters st)\<rparr>"

definition replay ::
  "'z consumer_store_scheme registry \<Rightarrow> 'z consumer_store_scheme handler \<Rightarrow> (nat \<Rightarrow> uuid) \<Rightarrow> time \<Rightarrow> string \<Rightarrow> string \<Rightarrow> jsval option
   \<Rightarrow> 'z consumer_store_scheme \<Rightarrow> (dead_letter_error + dead_letter \<times> dispatch_result) \<times> 'z consumer_store_scheme" where
  "replay reg pub fresh now i org payload st =
     (case get_dead_letter i org st of
        Inl e \<Rightarrow> (Inl e, st)
      | Inr entry \<Rightarrow>
          if dl_status entry = ''discarded''
            then (Inl (InvalidReplay (''Entry '' @ quoted i @ '' was discarded and cannot be replayed'')), st)
          else if get_consumer (dl_consumer entry) reg = None
            then (Inl (InvalidReplay (''Consumer '' @ quoted (dl_consumer entry) @ '' is not registered in this process, so its events cannot be replayed here'')), st)
          else if (case payload of None \<Rightarrow> False | Some JUndef \<Rightarrow> False | Some (JObj _) \<Rightarrow> False | Some _ \<Rightarrow> True)
            then (Inl (InvalidReplay ''payload must be a JSON object when supplied''), st)
          else
            (let given = (if payload = Some JUndef then None else payload);
                 ev = corrected given entry; st1 = store_correction now i given ev st
             in case dispatch reg pub fresh now True (dl_consumer entry) ev st1 of
                  (Inl e, st2) \<Rightarrow> (Inl (ReplayThrew e), st2)
                | (Inr res, st2) \<Rightarrow>
                    (let st3 = settle_replay now i res st2
                     in (case get_dead_letter i org st3 of Inl e \<Rightarrow> Inl e | Inr r \<Rightarrow> Inr (r, res), st3))))"

definition discard ::
  "time \<Rightarrow> string \<Rightarrow> string \<Rightarrow> string option \<Rightarrow> 'z consumer_store_scheme
   \<Rightarrow> (dead_letter_error + dead_letter) \<times> 'z consumer_store_scheme" where
  "discard now i org reason st =
     (case get_dead_letter i org st of
        Inl e \<Rightarrow> (Inl e, st)
      | Inr entry \<Rightarrow>
          (let st1 = st\<lparr>dead_letters := update_where (\<lambda>r. dl_id r = dl_id entry)
             (\<lambda>r. r\<lparr>dl_status := ''discarded'', dl_resolved_at := Some now, dl_updated_at := now,
                   dl_last_error := (case or_null reason of None \<Rightarrow> dl_last_error r | Some t \<Rightarrow> Some (''discarded: '' @ t))\<rparr>)
             (dead_letters st)\<rparr>
           in (get_dead_letter i org st1, st1)))"

subsection \<open>Deliveries interleaved\<close>

text \<open>
  Many deliveries at once, each a claim followed by its settlement; \<open>dv_done\<close> records which
  (consumer, event) pairs a handler completed. A restart drops what was running and returns the
  claims it held. Replays, which force the claim, are not deliveries.
\<close>

record deliveries =
  dv_rows :: "consumption list"
  dv_running :: "(string \<times> uuid) list"
  dv_done :: "(string \<times> uuid) list"

inductive delivery_step :: "deliveries \<Rightarrow> deliveries \<Rightarrow> bool" where
  claimed: "claim_rows now False c e (dv_rows s) = (True, rows) \<Longrightarrow>
    delivery_step s (s\<lparr>dv_rows := rows, dv_running := (c, e) # dv_running s\<rparr>)"
| lost: "claim_rows now False c e (dv_rows s) = (False, rows) \<Longrightarrow> delivery_step s (s\<lparr>dv_rows := rows\<rparr>)"
| completed: "(c, e) \<in> set (dv_running s) \<Longrightarrow>
    delivery_step s (s\<lparr>dv_rows := settle_rows ''processed'' now c e n (dv_rows s),
      dv_running := remove1 (c, e) (dv_running s), dv_done := (c, e) # dv_done s\<rparr>)"
| exhausted: "(c, e) \<in> set (dv_running s) \<Longrightarrow>
    delivery_step s (s\<lparr>dv_rows := settle_rows ''failed'' now c e n (dv_rows s),
      dv_running := remove1 (c, e) (dv_running s)\<rparr>)"
| restarted: "delivery_step s (s\<lparr>dv_rows := abandon_rows now (dv_rows s), dv_running := []\<rparr>)"

inductive_cases delivery_stepE: "delivery_step s t"

definition pair_status :: "consumption list \<Rightarrow> string \<times> uuid \<Rightarrow> string option" where
  "pair_status rows p = map_option cn_status (find (same_pair (fst p) (snd p)) rows)"

lemma same_pair_update [simp]:
  "same_pair c e (r\<lparr>cn_status := x\<rparr>) = same_pair c e r" "same_pair c e (r\<lparr>cn_attempts := n\<rparr>) = same_pair c e r"
  "same_pair c e (r\<lparr>cn_last_attempt_at := t\<rparr>) = same_pair c e r"
  by (simp_all add: same_pair_def)

lemma same_pair_other: "same_pair c e r \<Longrightarrow> p \<noteq> (c, e) \<Longrightarrow> \<not> same_pair (fst p) (snd p) r"
  by (cases p) (auto simp: same_pair_def)

lemma status_update:
  assumes "\<And>r. same_pair c e r \<Longrightarrow> same_pair c e (f r)"
  shows "pair_status (update_where (same_pair c e) f rows) p =
    (if p = (c, e) then map_option (\<lambda>r. cn_status (f r)) (find (same_pair c e) rows) else pair_status rows p)"
proof -
  have keep: "same_pair (fst p) (snd p) (f r) = same_pair (fst p) (snd p) r" if "same_pair c e r" for r
    using assms [OF that] that by (cases p) (auto simp: same_pair_def)
  have "find (same_pair (fst p) (snd p)) (update_where (same_pair c e) f rows) =
      map_option (\<lambda>r. if same_pair c e r then f r else r) (find (same_pair (fst p) (snd p)) rows)"
    by (rule find_update_where) (rule keep)
  then show ?thesis
    by (auto simp: pair_status_def option.map_comp o_def same_pair_other dest!: find_SomeD
        intro!: map_option_cong split: option.splits)
qed

lemma status_new:
  "pair_status (rows @ [r]) p = (case pair_status rows p of None \<Rightarrow>
     if p = (cn_consumer r, cn_event_id r) then Some (cn_status r) else None | Some x \<Rightarrow> Some x)"
  by (cases p) (auto simp: pair_status_def find_append same_pair_def split: option.splits)

lemma status_pair: "pair_status rows (c, e) = map_option cn_status (find (same_pair c e) rows)"
  by (simp add: pair_status_def)

lemma claim_status:
  assumes "claim_rows now force c e rows = (won, rows')"
  shows "(won \<longleftrightarrow> force \<or> pair_status rows (c, e) \<in> {None, Some ''failed''}) \<and>
    pair_status rows' p = (if won \<and> p = (c, e) then Some ''processing'' else pair_status rows p) \<and>
    (\<not> won \<longrightarrow> rows' = rows)"
  using assms status_pair [of rows c e]
  by (cases "find (same_pair c e) rows")
    (auto simp: claim_rows_def status_update status_new split: option.splits if_splits)

lemma settle_status:
  "pair_status (settle_rows status now c e n rows) p = (if p = (c, e) then Some status else pair_status rows p)"
  using status_pair [of rows c e]
  by (cases "find (same_pair c e) rows") (auto simp: settle_rows_def status_update status_new split: option.splits)

lemma abandon_status:
  "pair_status (abandon_rows now rows) p =
    (if pair_status rows p = Some ''processing'' then Some ''failed'' else pair_status rows p)"
proof -
  have "find (same_pair (fst p) (snd p)) (abandon_rows now rows) =
      map_option (\<lambda>r. if cn_status r = ''processing'' then r\<lparr>cn_status := ''failed'', cn_last_attempt_at := now\<rparr> else r)
        (find (same_pair (fst p) (snd p)) rows)"
    unfolding abandon_rows_def by (rule find_update_where) simp
  then show ?thesis by (cases "find (same_pair (fst p) (snd p)) rows") (auto simp: pair_status_def)
qed

definition once_inv :: "deliveries \<Rightarrow> bool" where
  "once_inv s \<longleftrightarrow> distinct (dv_running s) \<and> distinct (dv_done s) \<and>
     (\<forall>p \<in> set (dv_running s). pair_status (dv_rows s) p = Some ''processing'') \<and>
     (\<forall>p \<in> set (dv_done s). pair_status (dv_rows s) p = Some ''processed'')"

lemma once_step: "delivery_step s t \<Longrightarrow> once_inv s \<Longrightarrow> once_inv t"
proof (erule delivery_stepE)
  fix now c e rows
  assume inv: "once_inv s" and t: "t = s\<lparr>dv_rows := rows, dv_running := (c, e) # dv_running s\<rparr>"
    and cl: "claim_rows now False c e (dv_rows s) = (True, rows)"
  have "pair_status (dv_rows s) (c, e) \<in> {None, Some ''failed''}" using claim_status [OF cl] by simp
  then have "(c, e) \<notin> set (dv_running s)" "(c, e) \<notin> set (dv_done s)" using inv by (auto simp: once_inv_def)
  then show "once_inv t" using inv claim_status [OF cl] by (auto simp: once_inv_def t)
next
  fix now c e rows
  assume "once_inv s" "t = s\<lparr>dv_rows := rows\<rparr>" and cl: "claim_rows now False c e (dv_rows s) = (False, rows)"
  then show "once_inv t" using claim_status [OF cl] by (simp add: once_inv_def)
next
  fix c e now n
  assume "once_inv s" "(c, e) \<in> set (dv_running s)"
    "t = s\<lparr>dv_rows := settle_rows ''processed'' now c e n (dv_rows s),
      dv_running := remove1 (c, e) (dv_running s), dv_done := (c, e) # dv_done s\<rparr>"
  then show "once_inv t" by (auto simp: once_inv_def settle_status)
next
  fix c e now n
  assume "once_inv s" "(c, e) \<in> set (dv_running s)"
    "t = s\<lparr>dv_rows := settle_rows ''failed'' now c e n (dv_rows s), dv_running := remove1 (c, e) (dv_running s)\<rparr>"
  then show "once_inv t" by (auto simp: once_inv_def settle_status)
next
  fix now
  assume "once_inv s" "t = s\<lparr>dv_rows := abandon_rows now (dv_rows s), dv_running := []\<rparr>"
  then show "once_inv t" by (auto simp: once_inv_def abandon_status)
qed

interpretation delivery: step_invariant delivery_step once_inv
  by unfold_locales (rule once_step)




subsection \<open>What one dispatch leaves\<close>

lemma clear_no_dead:
  assumes "r \<in> set (dead_letters (clear_dead_letter now c e st))" "dead_pair c e r"
  shows "dl_status r \<noteq> ''dead''"
proof -
  obtain r' where r: "r = (if dead_pair c e r' \<and> dl_status r' = ''dead'' then resolve_letter now r' else r')"
    using assms(1) by (auto simp: clear_dead_letter_def set_update_where)
  show ?thesis
  proof (cases "dead_pair c e r' \<and> dl_status r' = ''dead''")
    case True
    then have "dl_status r = ''replayed''" using r by (simp add: resolve_letter_def)
    then show ?thesis by simp
  qed (use r assms(2) in auto)
qed

lemma cleared_status:
  "pair_status (consumptions (clear_dead_letter now c e (mark_processed now c e n st))) (c, e) = Some ''processed''"
  by (simp add: clear_dead_letter_def mark_processed_def settle_status)

lemma run_attempts_Some:
  "run_attempts h now c ev left a err st = (Some n, err', st') \<Longrightarrow>
   a \<le> n \<and> n < a + int left \<and> pair_status (consumptions st') (c, ev_id ev) = Some ''processed'' \<and>
   (\<forall>r \<in> set (dead_letters st'). dead_pair c (ev_id ev) r \<longrightarrow> dl_status r \<noteq> ''dead'')"
proof (induction left arbitrary: a err st)
  case (Suc left)
  obtain r st1 where h: "h ev st = (r, st1)" by fastforce
  show ?case
  proof (cases r)
    case None
    then have "n = a" "st' = clear_dead_letter now c (ev_id ev) (mark_processed now c (ev_id ev) a st1)"
      using Suc.prems h by auto
    then have "pair_status (consumptions st') (c, ev_id ev) = Some ''processed''"
      "\<forall>r \<in> set (dead_letters st'). dead_pair c (ev_id ev) r \<longrightarrow> dl_status r \<noteq> ''dead''"
      using cleared_status clear_no_dead by blast+
    then show ?thesis using \<open>n = a\<close> by simp
  next
    case (Some e)
    then show ?thesis using Suc.prems h Suc.IH [of "a + 1" e st1] by auto
  qed
qed simp

lemma run_attempts_None:
  "run_attempts h now c ev left a err st = (None, err', st') \<Longrightarrow> left = 0 \<and> err' = err \<or> (\<exists>s1 s2. h ev s1 = (Some err', s2))"
proof (induction left arbitrary: a err st)
  case (Suc left)
  obtain r st1 where h: "h ev st = (r, st1)" by fastforce
  then show ?case using Suc.prems Suc.IH [of "a + 1" _ st1] by (cases r) auto
qed simp

lemma put_dead_letter_row:
  "\<exists>r \<in> set (put_dead_letter fresh now c ev org n err rows).
     dead_pair c (ev_id ev) r \<and> dl_status r = ''dead'' \<and> dl_attempts r = n \<and> dl_last_error r = Some err"
proof (cases "find (dead_pair c (ev_id ev)) rows")
  case None
  then show ?thesis by (simp add: put_dead_letter_def dead_pair_def)
next
  case (Some r)
  then have "dead_pair c (ev_id ev) r" "r \<in> set rows" by (auto dest: find_SomeD)
  let ?r = "r\<lparr>dl_attempts := n, dl_last_error := Some err, dl_status := ''dead'', dl_resolved_at := None,
    dl_updated_at := now\<rparr>"
  have "?r \<in> set (put_dead_letter fresh now c ev org n err rows)"
    using Some \<open>dead_pair c (ev_id ev) r\<close> \<open>r \<in> set rows\<close>
    by (auto simp: put_dead_letter_def set_update_where intro!: bexI [of _ r])
  moreover have "dead_pair c (ev_id ev) ?r" using \<open>dead_pair c (ev_id ev) r\<close> by (simp add: dead_pair_def)
  ultimately show ?thesis by (intro bexI [of _ ?r]) simp_all
qed

lemma dead_depth_pos: "r \<in> set rows \<Longrightarrow> dl_consumer r = c \<Longrightarrow> dl_status r = ''dead'' \<Longrightarrow> 0 < dead_depth c rows"
  by (force simp: dead_depth_def filter_empty_conv)

lemma consumer_tables:
  "store.more st = store.more st' \<Longrightarrow> consumptions st = consumptions st' \<and> dead_letters st = dead_letters st'"
  by (cases st; cases st') simp

lemma dead_letter_event_effect:
  assumes "dead_letter_event (publish_envelope (store_bus sha quiet)) fresh now c ev n err st = (None, st')"
  shows "consumptions st' = consumptions st \<and>
    (\<exists>r \<in> set (dead_letters st'). dead_pair c (ev_id ev) r \<and> dl_status r = ''dead'' \<and> dl_attempts r = n \<and> dl_last_error r = Some err) \<and>
    (\<exists>a org d. emitted st' = emitted st @ [a] \<and> ev_type a = ''DeadLetterQueueAlert'' \<and> 0 < d \<and>
       ev_payload a = alert_payload org c d ev n err)"
proof -
  obtain org where org: "resolve_event_org_id st ev = Inr org"
    using assms by (cases "resolve_event_org_id st ev") (auto simp: dead_letter_event_def)
  let ?st1 = "st\<lparr>dead_letters := put_dead_letter (fresh 0) now c ev org n err (dead_letters st)\<rparr>"
  let ?a = "\<lparr>ev_id = fresh 1, ev_type = ''DeadLetterQueueAlert'', ev_schema_version = 1, ev_timestamp = now,
     ev_actor_type = ''system'', ev_actor_id = ''event-consumer-registry'', ev_work_item_id = ev_work_item_id ev,
     ev_payload = alert_payload org c (dead_depth c (dead_letters ?st1)) ev n err\<rparr>"
  have st': "st' = snd (publish_envelope (store_bus sha quiet) ?a ?st1)"
    using assms org by (simp add: dead_letter_event_def Let_def)
  have tables: "consumptions st' = consumptions st" "dead_letters st' = dead_letters ?st1"
    using bus_tables [of sha ?a ?st1] consumer_tables [of st' ?st1] st' by auto
  obtain r where r: "r \<in> set (dead_letters ?st1)" "dead_pair c (ev_id ev) r" "dl_status r = ''dead''"
      "dl_attempts r = n" "dl_last_error r = Some err"
    using put_dead_letter_row [of "fresh 0" now c ev org n err "dead_letters st"] by auto
  then have "0 < dead_depth c (dead_letters ?st1)"
    by (intro dead_depth_pos) (auto simp: dead_pair_def)
  moreover have "emitted st' = emitted st @ [?a]"
    using store_emits [of sha ?a ?st1] st' by simp
  ultimately show ?thesis using tables r by (intro conjI bexI [of _ r] exI [of _ ?a]) auto
qed

lemma dispatch_cases:
  assumes "dispatch reg (publish_envelope (store_bus sha quiet)) fresh now force c ev st = (Inr res, st')"
    and "get_consumer c reg = Some d"
  shows "case dr_outcome res of
      Processed \<Rightarrow> pair_status (consumptions st') (c, ev_id ev) = Some ''processed'' \<and>
        1 \<le> dr_attempts res \<and> dr_attempts res \<le> max_attempts d \<and>
        (\<forall>r \<in> set (dead_letters st'). dead_pair c (ev_id ev) r \<longrightarrow> dl_status r \<noteq> ''dead'')
    | SkippedDuplicate \<Rightarrow> \<not> force \<and> st' = st \<and>
        pair_status (consumptions st) (c, ev_id ev) \<notin> {None, Some ''failed''}
    | DeadLettered \<Rightarrow> pair_status (consumptions st') (c, ev_id ev) = Some ''failed'' \<and>
        (\<exists>r \<in> set (dead_letters st'). dead_pair c (ev_id ev) r \<and> dl_status r = ''dead'' \<and>
           dl_attempts r = max_attempts d \<and> dl_last_error r = dr_error res) \<and>
        ev_type (last (emitted st')) = ''DeadLetterQueueAlert''"
proof -
  obtain won st1 where cl: "claim now force c (ev_id ev) st = (won, st1)" by fastforce
  then obtain rows where rows: "claim_rows now force c (ev_id ev) (consumptions st) = (won, rows)"
    and st1: "st1 = st\<lparr>consumptions := rows\<rparr>"
    by (auto simp: claim_def split: prod.splits)
  show ?thesis
  proof (cases won)
    case False
    then have "res = \<lparr>dr_consumer = c, dr_event_id = ev_id ev, dr_outcome = SkippedDuplicate, dr_attempts = 0, dr_error = None\<rparr>"
      "st' = st1"
      using assms cl by (auto simp: dispatch_def)
    then show ?thesis using claim_status [OF rows] False st1 by simp
  next
    case True
    obtain k err st2 where run: "run_attempts (cd_handle d) now c ev (nat (max_attempts d)) 1 [] st1 = (k, err, st2)"
      by (metis prod_cases3)
    show ?thesis
    proof (cases k)
      case (Some n)
      then have "dr_outcome res = Processed" "dr_attempts res = n" "st' = st2"
        using assms cl True run by (auto simp: dispatch_def)
      then show ?thesis using run_attempts_Some [OF run [unfolded Some]]
        by (cases "0 \<le> max_attempts d") auto
    next
      case None
      let ?st3 = "mark_failed now c (ev_id ev) (max_attempts d) st2"
      obtain e st4 where dl: "dead_letter_event (publish_envelope (store_bus sha quiet)) fresh now c ev (max_attempts d) err ?st3 = (e, st4)"
        by fastforce
      have e: "e = None" and res: "dr_outcome res = DeadLettered" "dr_error res = Some err" "st' = st4"
        using assms cl True run None dl by (auto simp: dispatch_def split: option.splits)
      have "consumptions ?st3 = settle_rows ''failed'' now c (ev_id ev) (max_attempts d) (consumptions st2)"
        by (simp add: mark_failed_def)
      then show ?thesis using dead_letter_event_effect [OF dl [unfolded e]] res by (auto simp: settle_status)
    qed
  qed
qed

text \<open>No delivery loses an event: a dispatch that returns has settled it as processed within the
  allowed attempts with no live dead letter left, or has skipped a duplicate and changed nothing, or
  has marked it failed, queued a live dead letter with the handler's error and announced a depth
  above zero.\<close>

lemma dispatch_settles_event:
  assumes "dispatch reg (publish_envelope (store_bus sha quiet)) fresh now force c ev st = (Inr res, st')"
    and "get_consumer c reg = Some d"
  shows "case dr_outcome res of
      Processed \<Rightarrow> pair_status (consumptions st') (c, ev_id ev) = Some ''processed'' \<and>
        1 \<le> dr_attempts res \<and> dr_attempts res \<le> max_attempts d \<and>
        (\<forall>r \<in> set (dead_letters st'). dead_pair c (ev_id ev) r \<longrightarrow> dl_status r \<noteq> ''dead'')
    | SkippedDuplicate \<Rightarrow> \<not> force \<and> st' = st \<and>
        pair_status (consumptions st) (c, ev_id ev) \<notin> {None, Some ''failed''}
    | DeadLettered \<Rightarrow> pair_status (consumptions st') (c, ev_id ev) = Some ''failed'' \<and>
        (\<exists>r \<in> set (dead_letters st'). dead_pair c (ev_id ev) r \<and> dl_status r = ''dead'' \<and>
           dl_attempts r = max_attempts d \<and> dl_last_error r = dr_error res) \<and>
        ev_type (last (emitted st')) = ''DeadLetterQueueAlert''"
  by (rule dispatch_cases [OF assms])


definition failing :: "consumer_store consumer" where
  "failing = \<lparr>cd_name = ''c'', cd_event_types = [''t''], cd_handle = (\<lambda>ev st. (Some ''boom'', st)), cd_max_attempts = None\<rparr>"

definition sample_consumers :: consumer_store where
  "sample_consumers = \<lparr>work_items = [], domain_events = [], audit_events = [], integrity = [], integrity_seq = 1,
     outbox = [], emitted = [], consumptions = [], dead_letters = []\<rparr>"

definition failed_dispatch :: "(string + dispatch_result) \<times> consumer_store" where
  "failed_dispatch = dispatch (register failing empty_registry) (publish_envelope (store_bus sample_sha quiet))
     (\<lambda>n. if n = 0 then ''d1'' else ''e9'') 7 False ''c'' (map_envelope sample_event) sample_consumers"

lemma failed_dispatch_result:
  "\<exists>st'. failed_dispatch = (Inr \<lparr>dr_consumer = ''c'', dr_event_id = ''e1'', dr_outcome = DeadLettered,
     dr_attempts = 3, dr_error = Some ''boom''\<rparr>, st')"
  by (simp add: failed_dispatch_def dispatch_def register_def empty_registry_def get_consumer_def failing_def
      claim_def claim_rows_def sample_consumers_def max_attempts_def numeral_eq_Suc dead_letter_event_def
      resolve_event_org_id_def org_id_from_payload_def map_envelope_def sample_event_def or_empty_obj_def js_truthy_def
      jprop_def jget_def nullish_or_def or_null_def mark_failed_def settle_rows_def same_pair_def Let_def
      store_publish store_handler_def)

subsection \<open>Replay and discard\<close>

lemma get_dead_letter_Inr:
  "get_dead_letter i org st = Inr r \<Longrightarrow> r \<in> set (dead_letters st) \<and> dl_id r = i \<and> dl_org_id r = Some org"
  by (auto simp: get_dead_letter_def dest!: find_SomeD split: option.splits)

text \<open>Operators never reach another tenant's failures: an entry that is not the tenant's is
  reported as not found by every operation, is never listed or counted, and nothing changes.\<close>

lemma dead_letters_are_tenant_scoped:
  assumes "\<forall>r \<in> set (dead_letters st). dl_org_id r = Some org \<longrightarrow> dl_id r \<noteq> i"
  shows "get_dead_letter i org st = Inl (DeadLetterNotFound i) \<and>
    replay reg pub fresh now i org payload st = (Inl (DeadLetterNotFound i), st) \<and>
    discard now i org reason st = (Inl (DeadLetterNotFound i), st) \<and>
    (\<forall>r \<in> set (list_dead_letters org f st). dl_id r \<noteq> i)"
proof -
  have none: "get_dead_letter i org st = Inl (DeadLetterNotFound i)"
    using assms by (auto simp: get_dead_letter_def find_None_iff_all split: option.splits dest!: find_SomeD)
  then show ?thesis
    using assms by (auto simp: replay_def discard_def list_dead_letters_def dest!: in_set_takeD)
qed

definition sample_letter :: dead_letter where
  "sample_letter = \<lparr>dl_id = ''d1'', dl_consumer = ''c'', dl_event_id = ''e1'', dl_org_id = Some ''o1'', dl_event_type = ''t'',
     dl_envelope = map_envelope sample_event, dl_attempts = 3, dl_last_error = Some ''boom'', dl_status = ''dead'',
     dl_created_at = 7, dl_updated_at = 7, dl_resolved_at = None\<rparr>"

definition letter_store :: consumer_store where
  "letter_store = sample_consumers\<lparr>dead_letters := [sample_letter]\<rparr>"

lemma settle_replay_rows:
  assumes "get_dead_letter i org (settle_replay now i res st) = Inr r"
  shows "if dr_outcome res = Processed then dl_status r = ''replayed'' \<and> dl_last_error r = None
    else dl_status r = ''dead'' \<and> dl_attempts r = dr_attempts res"
proof -
  have "r \<in> set (dead_letters (settle_replay now i res st))" "dl_id r = i"
    using get_dead_letter_Inr [OF assms] by auto
  then obtain r' where "r = (if dl_id r' = i then
      (if dr_outcome res = Processed
       then r'\<lparr>dl_status := ''replayed'', dl_resolved_at := Some now, dl_updated_at := now, dl_last_error := None\<rparr>
       else r'\<lparr>dl_attempts := dr_attempts res,
              dl_last_error := Some (case or_null (dr_error res) of None \<Rightarrow> ''Replay failed'' | Some e \<Rightarrow> e),
              dl_status := ''dead'', dl_resolved_at := None, dl_updated_at := now\<rparr>) else r')"
    by (auto simp: settle_replay_def set_update_where)
  then show ?thesis using \<open>dl_id r = i\<close> by (cases "dl_id r' = i") (auto split: if_splits)
qed

text \<open>A replay either processes the entry or leaves it live: processed, the entry is resolved and
  a later redelivery of the same event is skipped; failed again, it stays in the dead queue with the
  new attempt count. A discarded entry is never replayed.\<close>

lemma replay_settles_entry:
  assumes "get_dead_letter i org st = Inr entry"
    and "replay reg (publish_envelope (store_bus sha quiet)) fresh now i org payload st = (Inr (r, res), st')"
  shows "dl_status entry \<noteq> ''discarded'' \<and> dl_id r = i \<and> dl_org_id r = Some org \<and>
    (if dr_outcome res = Processed
     then dl_status r = ''replayed'' \<and>
       (\<forall>ev fresh' now'. ev_id ev = ev_id (dl_envelope entry) \<longrightarrow>
          dispatch reg (publish_envelope (store_bus sha quiet)) fresh' now' False (dl_consumer entry) ev st' =
            (Inr \<lparr>dr_consumer = dl_consumer entry, dr_event_id = ev_id ev, dr_outcome = SkippedDuplicate,
                  dr_attempts = 0, dr_error = None\<rparr>, st'))
     else dl_status r = ''dead'' \<and> dl_attempts r = dr_attempts res)"
proof -
  let ?pub = "publish_envelope (store_bus sha quiet)" and ?c = "dl_consumer entry"
  let ?given = "if payload = Some JUndef then None else payload"
  let ?ev = "corrected ?given entry"
  obtain d where d: "get_consumer ?c reg = Some d"
    using assms by (cases "get_consumer ?c reg") (auto simp: replay_def split: if_splits)
  have live: "dl_status entry \<noteq> ''discarded''"
    using assms by (auto simp: replay_def split: if_splits)
  obtain st2 where run: "dispatch reg ?pub fresh now True ?c ?ev (store_correction now i ?given ?ev st) = (Inr res, st2)"
    and r: "get_dead_letter i org (settle_replay now i res st2) = Inr r" and st': "st' = settle_replay now i res st2"
  proof -
    obtain x st2 where x: "dispatch reg ?pub fresh now True ?c ?ev (store_correction now i ?given ?ev st) = (x, st2)"
      by fastforce
    show thesis
    proof (cases x)
      case (Inl e)
      then show ?thesis using assms d live x by (simp add: replay_def Let_def split: if_splits)
    next
      case (Inr res')
      then have "(case get_dead_letter i org (settle_replay now i res' st2) of Inl e \<Rightarrow> Inl e | Inr r \<Rightarrow> Inr (r, res')) = Inr (r, res)"
        "st' = settle_replay now i res' st2"
        using assms d live x by (simp_all add: replay_def Let_def split: if_splits)
      then show ?thesis using that x Inr by (cases "get_dead_letter i org (settle_replay now i res' st2)") auto
    qed
  qed
  have id: "ev_id ?ev = ev_id (dl_envelope entry)" by (auto simp: corrected_def split: option.splits)
  note cases = dispatch_cases [OF run d]
  have again: "dispatch reg ?pub fresh' now' False ?c ev st' =
      (Inr \<lparr>dr_consumer = ?c, dr_event_id = ev_id ev, dr_outcome = SkippedDuplicate, dr_attempts = 0, dr_error = None\<rparr>, st')"
    if "dr_outcome res = Processed" "ev_id ev = ev_id (dl_envelope entry)" for ev fresh' now'
  proof -
    have status: "pair_status (consumptions st') (?c, ev_id ev) = Some ''processed''"
      using cases that id by (simp add: st' settle_replay_def)
    obtain won rows where cl: "claim_rows now' False ?c (ev_id ev) (consumptions st') = (won, rows)" by fastforce
    then have "\<not> won" "rows = consumptions st'" using claim_status [OF cl] status by auto
    then have "claim now' False ?c (ev_id ev) st' = (False, st')" using cl by (simp add: claim_def)
    then show ?thesis using d by (simp add: dispatch_def)
  qed
  show ?thesis
    using settle_replay_rows [OF r] get_dead_letter_Inr [OF r] live again by auto
qed

definition mended :: "consumer_store consumer" where
  "mended = failing\<lparr>cd_handle := (\<lambda>ev st. (None, st))\<rparr>"

end
