(* ===== verification/RateGovernor.thy ===== *)
theory RateGovernor
  imports EventOutbox
begin

text \<open>
  The rate governor of \<^verbatim>\<open>src/modules/connectors/rate-governor.ts\<close>: validation and merging of
  policies, the in-process concurrency gate, the durable quota window, load shedding with its
  recovery probe, and the metrics read from the durable row.

  \<open>sha\<close> is the digest of Node's crypto and \<open>origin_of\<close> the platform's URL parser (protocol and host
  of a base URL, \<open>None\<close> when it throws). The database row coordinates all workers, each admission
  being one transaction under a row lock, so admissions are atomic steps. The gate is modelled at
  the granularity of JavaScript's event loop: a resolved waiter runs later than the release that
  woke it.
\<close>

subsection \<open>Policies\<close>

record policy =
  rp_per_minute :: int
  rp_headroom :: int
  rp_max_concurrent :: int
  rp_base_backoff :: int
  rp_max_backoff :: int
  rp_jitter :: rat
  rp_shed_after :: int

definition default_rate_governance :: policy where
  "default_rate_governance = \<lparr>rp_per_minute = 600, rp_headroom = 90, rp_max_concurrent = 4,
     rp_base_backoff = 1000, rp_max_backoff = 60000, rp_jitter = 2 / 10, rp_shed_after = 2\<rparr>"

definition governance_keys :: "string list" where
  "governance_keys = [''requestsPerMinute'', ''headroomPercentage'', ''maxConcurrent'', ''baseBackoffMs'',
     ''maxBackoffMs'', ''jitterRatio'', ''shedAfterPressureResponses'']"

definition whole_number :: "jsobj \<Rightarrow> string \<Rightarrow> int \<Rightarrow> int \<Rightarrow> int \<Rightarrow> string + int" where
  "whole_number obj key fallback lo hi =
     (let v = jget obj key;
          bad = Inl (''rateGovernance.'' @ key @ '' must be a whole number between '' @ show_int lo @ '' and '' @ show_int hi)
      in if v = JUndef then Inr fallback
         else case v of
           JNum t \<Rightarrow> (case js_number v of
                Some r \<Rightarrow> if r = of_int \<lfloor>r\<rfloor> \<and> lo \<le> \<lfloor>r\<rfloor> \<and> \<lfloor>r\<rfloor> \<le> hi then Inr \<lfloor>r\<rfloor> else bad
              | None \<Rightarrow> bad)
         | _ \<Rightarrow> bad)"

definition validate_rate_governance :: "jsval \<Rightarrow> string + policy" where
  "validate_rate_governance input =
     (case input of
        JUndef \<Rightarrow> Inr default_rate_governance
      | JNull \<Rightarrow> Inr default_rate_governance
      | JObj obj \<Rightarrow>
          (let unknown = filter (\<lambda>k. k \<notin> set governance_keys) (map fst obj);
               d = default_rate_governance;
               jitter = (if jget obj ''jitterRatio'' = JUndef then Some (rp_jitter d) else js_number (jget obj ''jitterRatio''))
           in if unknown \<noteq> [] then Inl (''rateGovernance does not support '' @ join '', '' unknown)
              else case jitter of
                None \<Rightarrow> Inl ''rateGovernance.jitterRatio must be between 0 and 1''
              | Some j \<Rightarrow>
                  if j < 0 \<or> j > 1 then Inl ''rateGovernance.jitterRatio must be between 0 and 1''
                  else and_then (whole_number obj ''requestsPerMinute'' (rp_per_minute d) 1 60000) (\<lambda>a.
                    and_then (whole_number obj ''headroomPercentage'' (rp_headroom d) 1 100) (\<lambda>b.
                    and_then (whole_number obj ''maxConcurrent'' (rp_max_concurrent d) 1 100) (\<lambda>c.
                    and_then (whole_number obj ''baseBackoffMs'' (rp_base_backoff d) 1 60000) (\<lambda>e.
                    and_then (whole_number obj ''maxBackoffMs'' (rp_max_backoff d) 1 3600000) (\<lambda>f.
                    and_then (whole_number obj ''shedAfterPressureResponses'' (rp_shed_after d) 1 20) (\<lambda>g.
                      if f < e then Inl ''rateGovernance.maxBackoffMs must be at least baseBackoffMs''
                      else Inr \<lparr>rp_per_minute = a, rp_headroom = b, rp_max_concurrent = c, rp_base_backoff = e,
                                rp_max_backoff = f, rp_jitter = j, rp_shed_after = g\<rparr>)))))))
      | _ \<Rightarrow> Inl ''rateGovernance must be an object'')"

definition safer_policy :: "policy \<Rightarrow> policy \<Rightarrow> policy" where
  "safer_policy a b =
     \<lparr>rp_per_minute = min (rp_per_minute a) (rp_per_minute b), rp_headroom = min (rp_headroom a) (rp_headroom b),
      rp_max_concurrent = min (rp_max_concurrent a) (rp_max_concurrent b),
      rp_base_backoff = max (rp_base_backoff a) (rp_base_backoff b),
      rp_max_backoff = max (rp_max_backoff a) (rp_max_backoff b),
      rp_jitter = min (rp_jitter a) (rp_jitter b), rp_shed_after = min (rp_shed_after a) (rp_shed_after b)\<rparr>"

definition effective_limit :: "int \<Rightarrow> int \<Rightarrow> int" where
  "effective_limit per_minute headroom = max 1 (per_minute * headroom div 100)"

subsection \<open>The durable row\<close>

record governance_row =
  gr_org_id :: string
  gr_target_key :: string
  gr_target_origin :: string
  gr_per_minute :: int
  gr_headroom :: int
  gr_max_concurrent :: int
  gr_window_started_at :: time
  gr_used :: int
  gr_retry_not_before :: "time option"
  gr_failures :: int
  gr_last_delay :: int
  gr_throttle_events :: int
  gr_pressure_events :: int
  gr_retry_events :: int
  gr_total :: int
  gr_succeeded :: int
  gr_failed :: int
  gr_shaped_wait :: int
  gr_last_status :: "int option"
  gr_shedding_since :: "time option"
  gr_shed_until :: "time option"
  gr_shed_reason :: "string option"
  gr_shed_episodes :: int
  gr_shed_requests :: int
  gr_probe_owner :: "string option"
  gr_probe_expires_at :: "time option"
  gr_pressure_streak :: int

record connector =
  co_id :: uuid
  co_org_id :: string
  co_provider :: string
  co_base_url :: string
  co_rate_governance :: jsval

record governor_store = store +
  governance_rows :: "governance_row list"
  org_connectors :: "connector list"

record target =
  tg_key :: string
  tg_origin :: string
  tg_policy :: policy

definition describe :: "(string \<Rightarrow> string) \<Rightarrow> (string \<Rightarrow> string option) \<Rightarrow> connector \<Rightarrow> string + target" where
  "describe sha origin_of c =
     (case origin_of (co_base_url c) of
        None \<Rightarrow> Inl ''Rate governance requires a valid connector baseUrl''
      | Some o' \<Rightarrow> and_then (validate_rate_governance (co_rate_governance c))
          (\<lambda>p. Inr \<lparr>tg_key = sha (lower o'), tg_origin = lower o', tg_policy = p\<rparr>))"

definition fresh_row :: "string \<Rightarrow> target \<Rightarrow> time \<Rightarrow> governance_row" where
  "fresh_row org t now =
     \<lparr>gr_org_id = org, gr_target_key = tg_key t, gr_target_origin = tg_origin t,
      gr_per_minute = rp_per_minute (tg_policy t), gr_headroom = rp_headroom (tg_policy t),
      gr_max_concurrent = rp_max_concurrent (tg_policy t), gr_window_started_at = now, gr_used = 0,
      gr_retry_not_before = None, gr_failures = 0, gr_last_delay = 0, gr_throttle_events = 0,
      gr_pressure_events = 0, gr_retry_events = 0, gr_total = 0, gr_succeeded = 0, gr_failed = 0,
      gr_shaped_wait = 0, gr_last_status = None, gr_shedding_since = None, gr_shed_until = None,
      gr_shed_reason = None, gr_shed_episodes = 0, gr_shed_requests = 0, gr_probe_owner = None,
      gr_probe_expires_at = None, gr_pressure_streak = 0\<rparr>"

definition row_of :: "string \<Rightarrow> string \<Rightarrow> governance_row \<Rightarrow> bool" where
  "row_of org key r \<longleftrightarrow> gr_org_id r = org \<and> gr_target_key r = key"

definition merged_policy ::
  "(string \<Rightarrow> string) \<Rightarrow> (string \<Rightarrow> string option) \<Rightarrow> target \<Rightarrow> connector list \<Rightarrow> policy" where
  "merged_policy sha origin_of t cs =
     foldl safer_policy (tg_policy t)
       (List.map_filter (\<lambda>c. case describe sha origin_of c of
          Inl _ \<Rightarrow> None
        | Inr u \<Rightarrow> if tg_key u = tg_key t then Some (tg_policy u) else None) cs)"

text \<open>The process-wide \<open>policies\<close> map is the association list \<open>known\<close>.\<close>

definition register_policy ::
  "(string \<Rightarrow> string) \<Rightarrow> (string \<Rightarrow> string option) \<Rightarrow> time \<Rightarrow> connector \<Rightarrow> (string \<times> policy) list \<Rightarrow> 'z governor_store_scheme
   \<Rightarrow> string + (string \<times> policy) list \<times> 'z governor_store_scheme" where
  "register_policy sha origin_of now c known st =
     and_then (describe sha origin_of c) (\<lambda>t.
       let merged = merged_policy sha origin_of t (filter (\<lambda>x. co_org_id x = co_org_id c) (org_connectors st));
           t' = t\<lparr>tg_policy := merged\<rparr>;
           rows = governance_rows st;
           upd = (\<lambda>r. r\<lparr>gr_target_origin := tg_origin t, gr_per_minute := rp_per_minute merged,
                       gr_headroom := rp_headroom merged, gr_max_concurrent := rp_max_concurrent merged\<rparr>)
       in Inr ((co_org_id c @ '':'' @ tg_key t, merged) # known,
               st\<lparr>governance_rows :=
                 (if find (row_of (co_org_id c) (tg_key t)) rows = None then rows @ [fresh_row (co_org_id c) t' now]
                  else update_where (row_of (co_org_id c) (tg_key t)) upd rows)\<rparr>))"

definition governed_target ::
  "(string \<Rightarrow> string) \<Rightarrow> (string \<Rightarrow> string option) \<Rightarrow> (string \<times> policy) list \<Rightarrow> connector \<Rightarrow> string + target" where
  "governed_target sha origin_of known c =
     and_then (describe sha origin_of c) (\<lambda>t. Inr
       (case map_of known (co_org_id c @ '':'' @ tg_key t) of None \<Rightarrow> t | Some p \<Rightarrow> t\<lparr>tg_policy := p\<rparr>))"

subsection \<open>Admission\<close>

datatype shedding_state = Normal | Shedding | Probing

definition shedding_state :: "time \<Rightarrow> governance_row \<Rightarrow> shedding_state" where
  "shedding_state now r =
     (if gr_shedding_since r = None then Normal
      else case gr_shed_until r of Some u \<Rightarrow> if u > now then Shedding else Probing | None \<Rightarrow> Probing)"

datatype admission =
    Admitted "uuid option"
  | Wait int
  | Shed time "string option"

definition window_ms :: int where "window_ms = 60000"
definition probe_lease_ms :: int where "probe_lease_ms = 30000"

definition probe_held :: "time \<Rightarrow> governance_row \<Rightarrow> bool" where
  "probe_held now r \<longleftrightarrow> or_null (gr_probe_owner r) \<noteq> None \<and> (case gr_probe_expires_at r of None \<Rightarrow> False | Some e \<Rightarrow> e > now)"

definition admit_row :: "uuid \<Rightarrow> time \<Rightarrow> target \<Rightarrow> governance_row \<Rightarrow> admission \<times> governance_row" where
  "admit_row fresh now t r =
     (let shed = shedding_state now r; p = tg_policy t in
      if shed = Shedding \<or> (shed = Probing \<and> probe_held now r) then
        (Shed (if shed = Shedding then the (gr_shed_until r)
               else min (the (gr_probe_expires_at r)) (now + rp_base_backoff p)) (or_null (gr_shed_reason r)),
         r\<lparr>gr_shed_requests := gr_shed_requests r + 1\<rparr>)
      else
        (let expired = now \<ge> gr_window_started_at r + window_ms;
             used = (if expired then 0 else gr_used r);
             start = (if expired then now else gr_window_started_at r);
             effective = effective_limit (min (gr_per_minute r) (rp_per_minute p)) (min (gr_headroom r) (rp_headroom p));
             wait = (if used \<ge> effective then max 1 (start + window_ms - now) else 0);
             r1 = r\<lparr>gr_target_origin := tg_origin t, gr_per_minute := min (gr_per_minute r) (rp_per_minute p),
                   gr_headroom := min (gr_headroom r) (rp_headroom p),
                   gr_max_concurrent := min (gr_max_concurrent r) (rp_max_concurrent p),
                   gr_window_started_at := start, gr_used := (if wait \<noteq> 0 then used else used + 1),
                   gr_shaped_wait := gr_shaped_wait r + wait\<rparr>;
             r2 = (if wait = 0 then r1\<lparr>gr_total := gr_total r + 1\<rparr> else r1)
         in if wait = 0 \<and> shed = Probing
            then (Admitted (Some fresh), r2\<lparr>gr_probe_owner := Some fresh, gr_probe_expires_at := Some (now + probe_lease_ms)\<rparr>)
            else if wait = 0 then (Admitted None, r2) else (Wait wait, r2)))"

definition admit ::
  "uuid \<Rightarrow> time \<Rightarrow> string \<Rightarrow> target \<Rightarrow> 'z governor_store_scheme \<Rightarrow> admission \<times> 'z governor_store_scheme" where
  "admit fresh now org t st =
     (case find (row_of org (tg_key t)) (governance_rows st) of
        None \<Rightarrow> (let (a, r) = admit_row fresh now t (fresh_row org t now)
                 in (a, st\<lparr>governance_rows := governance_rows st @ [r]\<rparr>))
      | Some r \<Rightarrow> (let (a, r') = admit_row fresh now t r
                   in (a, st\<lparr>governance_rows := update_where (row_of org (tg_key t)) (\<lambda>_. r') (governance_rows st)\<rparr>)))"

text \<open>
  The loop of \<open>acquireQuota\<close>: \<open>clock k\<close> is the time of its \<open>k\<close>-th pass (after the sleep), \<open>others k\<close>
  what other workers do to the database during it; \<open>fuel\<close> bounds the passes.
\<close>

fun acquire_quota ::
  "(nat \<Rightarrow> uuid) \<Rightarrow> (nat \<Rightarrow> time) \<Rightarrow> (nat \<Rightarrow> 'z governor_store_scheme \<Rightarrow> 'z governor_store_scheme) \<Rightarrow> string \<Rightarrow> target \<Rightarrow> nat \<Rightarrow> nat
   \<Rightarrow> 'z governor_store_scheme \<Rightarrow> ((time \<times> string option) + uuid option) option \<times> 'z governor_store_scheme" where
  "acquire_quota fresh clock others org t 0 k st = (None, st)"
| "acquire_quota fresh clock others org t (Suc fuel) k st =
     (case admit (fresh k) (clock k) org t st of
        (Shed u why, st1) \<Rightarrow> (Some (Inl (u, why)), st1)
      | (Admitted probe, st1) \<Rightarrow> (Some (Inr probe), st1)
      | (Wait w, st1) \<Rightarrow> acquire_quota fresh clock others org t fuel (Suc k) (others k st1))"

subsection \<open>Outcomes\<close>

record remote_error =
  re_message :: string
  re_status :: "int option"
  re_retryable :: bool
  re_retry_after :: "rat option"

definition is_pressure :: "remote_error option \<Rightarrow> bool" where
  "is_pressure e =
     (case e of None \<Rightarrow> False
      | Some r \<Rightarrow> re_status r = Some 503 \<or>
          (let m = lower (re_message r) in includes_text ''semaphore'' m \<or> includes_text ''too many requests'' m \<or>
             includes_text ''temporarily unavailable'' m))"

definition retryable :: "remote_error option \<Rightarrow> bool" where
  "retryable e = (case e of None \<Rightarrow> False | Some r \<Rightarrow> re_retryable r)"

definition retry_after :: "remote_error option \<Rightarrow> rat option" where
  "retry_after e = (case e of None \<Rightarrow> None
     | Some r \<Rightarrow> (case re_retry_after r of None \<Rightarrow> None | Some s \<Rightarrow> if s = 0 then None else Some s))"

definition backoff_delay :: "policy \<Rightarrow> rat \<Rightarrow> int \<Rightarrow> int" where
  "backoff_delay p random failures =
     (let exponential = min (rp_max_backoff p) (rp_base_backoff p * 2 ^ nat (failures - 1));
          factor = 1 + (random * 2 - 1) * rp_jitter p
      in max 1 (min (rp_max_backoff p) (js_round (of_int exponential * factor))))"

definition failure_delay :: "policy \<Rightarrow> rat \<Rightarrow> remote_error option \<Rightarrow> int \<Rightarrow> int" where
  "failure_delay p random e failures =
     (if retryable e then (case retry_after e of Some s \<Rightarrow> \<lceil>s * 1000\<rceil> | None \<Rightarrow> backoff_delay p random failures) else 0)"

definition shedding_event ::
  "connector \<Rightarrow> target \<Rightarrow> string \<Rightarrow> jsobj \<Rightarrow> outbox_input" where
  "shedding_event c t ty payload =
     \<lparr>oi_event_type = ty, oi_work_item_id = co_id c, oi_org_id = co_org_id c, oi_actor_type = ''system'',
      oi_actor_id = ''rate-governor'',
      oi_payload = JObj ([(''connector_id'', JStr (co_id c)), (''provider'', JStr (co_provider c)),
        (''target_origin'', JStr (tg_origin t))] @ payload),
      oi_schema_version = None, oi_event_id = None, oi_timestamp = None\<rparr>"

definition success_row :: "time \<Rightarrow> governance_row \<Rightarrow> governance_row" where
  "success_row now r = r\<lparr>gr_succeeded := gr_succeeded r + 1, gr_failures := 0, gr_pressure_streak := 0,
     gr_retry_not_before := (case gr_retry_not_before r of Some b \<Rightarrow> if b \<le> now then None else Some b | None \<Rightarrow> None),
     gr_last_status := Some 200\<rparr>"

definition recovered_row :: "governance_row \<Rightarrow> governance_row" where
  "recovered_row r = r\<lparr>gr_shedding_since := None, gr_shed_until := None, gr_shed_reason := None,
     gr_probe_owner := None, gr_probe_expires_at := None\<rparr>"

definition ended_payload :: "time \<Rightarrow> governance_row \<Rightarrow> jsobj" where
  "ended_payload now r =
     [(''shedding_since'', JStr (iso_string (the (gr_shedding_since r)))), (''recovered_at'', JStr (iso_string now)),
      (''duration_ms'', JInt (max 0 (now - the (gr_shedding_since r)))), (''shed_requests_total'', JInt (gr_shed_requests r))]"

text \<open>The event to dispatch after the commit, if shedding ended.\<close>

definition record_success ::
  "(string \<Rightarrow> string) \<Rightarrow> uuid \<Rightarrow> time \<Rightarrow> connector \<Rightarrow> target \<Rightarrow> uuid option \<Rightarrow> 'z governor_store_scheme
   \<Rightarrow> db_error + envelope option \<times> 'z governor_store_scheme" where
  "record_success sha fresh now c t probe st =
     (let here = row_of (co_org_id c) (tg_key t);
          st1 = st\<lparr>governance_rows := update_where here (success_row now) (governance_rows st)\<rparr>
      in case or_null probe of
           None \<Rightarrow> Inr (None, st1)
         | Some tok \<Rightarrow>
             (case find (\<lambda>r. here r \<and> gr_probe_owner r = Some tok) (governance_rows st1) of
                None \<Rightarrow> Inr (None, st1)
              | Some r \<Rightarrow>
                  if gr_shedding_since r = None then Inr (None, st1)
                  else and_then
                    (enqueue sha quiet fresh now (shedding_event c t ''ConnectorLoadSheddingEnded'' (ended_payload now r))
                      (st1\<lparr>governance_rows := update_where here recovered_row (governance_rows st1)\<rparr>))
                    (\<lambda>(ev, st2). Inr (Some ev, st2))))"

definition failed_row :: "time \<Rightarrow> int \<Rightarrow> int \<Rightarrow> remote_error option \<Rightarrow> int \<Rightarrow> governance_row \<Rightarrow> governance_row" where
  "failed_row now failures delay e streak r =
     r\<lparr>gr_failed := gr_failed r + 1, gr_failures := failures,
       gr_retry_not_before := (if delay = 0 then gr_retry_not_before r
         else case gr_retry_not_before r of
           None \<Rightarrow> Some (now + delay) | Some b \<Rightarrow> Some (max b (now + delay))),
       gr_last_delay := delay,
       gr_throttle_events := gr_throttle_events r + (case e of Some x \<Rightarrow> if re_status x = Some 429 then 1 else 0 | None \<Rightarrow> 0),
       gr_pressure_events := gr_pressure_events r + (if is_pressure e then 1 else 0),
       gr_retry_events := gr_retry_events r + (if retryable e then 1 else 0),
       gr_last_status := (case e of None \<Rightarrow> None | Some x \<Rightarrow> re_status x),
       gr_pressure_streak := streak\<rparr>"

definition shed_row :: "time \<Rightarrow> int \<Rightarrow> string \<Rightarrow> governance_row \<Rightarrow> governance_row" where
  "shed_row now delay reason r =
     r\<lparr>gr_shedding_since := Some (case gr_shedding_since r of None \<Rightarrow> now | Some s \<Rightarrow> s),
       gr_shed_until := Some (case gr_shed_until r of None \<Rightarrow> now + delay | Some u \<Rightarrow> max u (now + delay)),
       gr_shed_reason := Some reason,
       gr_shed_episodes := gr_shed_episodes r + (if gr_shedding_since r = None then 1 else 0),
       gr_probe_owner := None, gr_probe_expires_at := None\<rparr>"

definition release_probe :: "uuid option \<Rightarrow> governance_row \<Rightarrow> governance_row" where
  "release_probe probe r = (if or_null probe \<noteq> None \<and> gr_probe_owner r = probe
     then r\<lparr>gr_probe_owner := None, gr_probe_expires_at := None\<rparr> else r)"

definition shed_reason :: "remote_error option \<Rightarrow> string" where
  "shed_reason e = take 300 (case e of Some x \<Rightarrow> if re_message x = [] then ''semaphore pressure'' else re_message x
     | None \<Rightarrow> ''semaphore pressure'')"

definition started_payload :: "time \<Rightarrow> int \<Rightarrow> remote_error option \<Rightarrow> int \<Rightarrow> jsobj" where
  "started_payload now delay e streak =
     [(''shedding_until'', JStr (iso_string (now + delay))),
      (''status'', (case e of Some x \<Rightarrow> (case re_status x of Some s \<Rightarrow> JInt s | None \<Rightarrow> JNull) | None \<Rightarrow> JNull)),
      (''consecutive_pressure_responses'', JInt streak), (''reason'', JStr (shed_reason e))]"

text \<open>The row after a failure, and whether it opened shedding.\<close>

definition failure_row ::
  "time \<Rightarrow> policy \<Rightarrow> rat \<Rightarrow> remote_error option \<Rightarrow> uuid option \<Rightarrow> governance_row \<Rightarrow> bool \<times> governance_row" where
  "failure_row now p random e probe r =
     (let failures = gr_failures r + 1;
          delay = failure_delay p random e failures;
          under = is_pressure e \<and> retryable e \<and> delay \<noteq> 0;
          streak = (if under then gr_pressure_streak r + 1 else 0);
          r1 = failed_row now failures delay e streak r
      in if \<not> under \<or> (gr_shedding_since r = None \<and> streak < rp_shed_after p) then (False, release_probe probe r1)
         else (gr_shedding_since r = None, shed_row now delay (shed_reason e) r1))"

definition record_failure ::
  "(string \<Rightarrow> string) \<Rightarrow> uuid \<Rightarrow> time \<Rightarrow> rat \<Rightarrow> connector \<Rightarrow> target \<Rightarrow> remote_error option \<Rightarrow> uuid option \<Rightarrow> 'z governor_store_scheme
   \<Rightarrow> db_error + envelope option \<times> 'z governor_store_scheme" where
  "record_failure sha fresh now random c t e probe st =
     (let here = row_of (co_org_id c) (tg_key t);
          r = (case find here (governance_rows st) of None \<Rightarrow> fresh_row (co_org_id c) t now | Some r \<Rightarrow> r);
          (opened, r') = failure_row now (tg_policy t) random e probe r;
          st1 = st\<lparr>governance_rows := update_where here (\<lambda>_. r') (governance_rows st)\<rparr>
      in if \<not> opened then Inr (None, st1)
         else and_then
           (enqueue sha quiet fresh now (shedding_event c t ''ConnectorLoadSheddingStarted''
              (started_payload now (gr_last_delay r') e (gr_pressure_streak r'))) st1)
           (\<lambda>(ev, st2). Inr (Some ev, st2)))"

text \<open>What the caller is given to rethrow.\<close>

definition rethrown :: "policy \<Rightarrow> rat \<Rightarrow> governance_row \<Rightarrow> remote_error option \<Rightarrow> remote_error option" where
  "rethrown p random r e =
     (case e of
        None \<Rightarrow> None
      | Some x \<Rightarrow> if re_retryable x \<and> retry_after e = None
          then Some (x\<lparr>re_retry_after := Some (of_int (failure_delay p random e (gr_failures r + 1)) / 1000)\<rparr>) else Some x)"


subsection \<open>The concurrency gate\<close>

text \<open>
  \<open>gt_waiting\<close> counts promises in \<open>waiters\<close>, \<open>gt_woken\<close> those resolved whose continuation has not
  run yet (the two together are \<open>queued\<close>).
\<close>

record gate =
  gt_in_flight :: nat
  gt_limit :: nat
  gt_waiting :: nat
  gt_woken :: nat

definition gate_queued :: "gate \<Rightarrow> nat" where
  "gate_queued g = gt_waiting g + gt_woken g"

definition new_gate :: "nat \<Rightarrow> gate" where
  "new_gate limit = \<lparr>gt_in_flight = 0, gt_limit = limit, gt_waiting = 0, gt_woken = 0\<rparr>"

definition gate_enter :: "nat \<Rightarrow> gate \<Rightarrow> gate" where
  "gate_enter limit g =
     (let g1 = g\<lparr>gt_limit := min (gt_limit g) limit\<rparr>
      in if gt_in_flight g1 \<ge> gt_limit g1 then g1\<lparr>gt_waiting := gt_waiting g1 + 1\<rparr>
         else g1\<lparr>gt_in_flight := gt_in_flight g1 + 1\<rparr>)"

definition gate_resume :: "gate \<Rightarrow> gate" where
  "gate_resume g = g\<lparr>gt_woken := gt_woken g - 1, gt_in_flight := gt_in_flight g + 1\<rparr>"

definition gate_release :: "gate \<Rightarrow> gate" where
  "gate_release g =
     (let g1 = g\<lparr>gt_in_flight := gt_in_flight g - 1\<rparr>
      in if gt_in_flight g1 < gt_limit g1 \<and> 0 < gt_waiting g1
         then g1\<lparr>gt_waiting := gt_waiting g1 - 1, gt_woken := gt_woken g1 + 1\<rparr> else g1)"

inductive gate_step :: "nat \<Rightarrow> gate \<Rightarrow> gate \<Rightarrow> bool" for limit where
  enter: "gate_step limit g (gate_enter limit g)"
| resume: "0 < gt_woken g \<Longrightarrow> gate_step limit g (gate_resume g)"
| release: "0 < gt_in_flight g \<Longrightarrow> gate_step limit g (gate_release g)"

text \<open>The schedule in which a woken waiter runs before anything else.\<close>

inductive prompt_step :: "nat \<Rightarrow> gate \<Rightarrow> gate \<Rightarrow> bool" for limit where
  prompt_enter: "gt_woken g = 0 \<Longrightarrow> prompt_step limit g (gate_enter limit g)"
| prompt_resume: "0 < gt_woken g \<Longrightarrow> prompt_step limit g (gate_resume g)"
| prompt_release: "gt_woken g = 0 \<Longrightarrow> 0 < gt_in_flight g \<Longrightarrow> prompt_step limit g (gate_release g)"

subsection \<open>Metrics\<close>

record shedding_report =
  sr_state :: shedding_state
  sr_since :: "time option"
  sr_until :: "time option"
  sr_reason :: "string option"

definition shedding_report :: "time \<Rightarrow> governance_row option \<Rightarrow> shedding_report" where
  "shedding_report now row =
     (case row of
        None \<Rightarrow> \<lparr>sr_state = Normal, sr_since = None, sr_until = None, sr_reason = None\<rparr>
      | Some r \<Rightarrow>
          (let s = shedding_state now r in
           if s = Normal then \<lparr>sr_state = s, sr_since = None, sr_until = None, sr_reason = None\<rparr>
           else \<lparr>sr_state = s, sr_since = gr_shedding_since r, sr_until = gr_shed_until r, sr_reason = or_null (gr_shed_reason r)\<rparr>))"

definition shedding_status ::
  "(string \<Rightarrow> string) \<Rightarrow> (string \<Rightarrow> string option) \<Rightarrow> time \<Rightarrow> connector \<Rightarrow> 'z governor_store_scheme \<Rightarrow> string + shedding_report" where
  "shedding_status sha origin_of now c st =
     and_then (describe sha origin_of c) (\<lambda>t.
       Inr (shedding_report now (find (row_of (co_org_id c) (tg_key t)) (governance_rows st))))"

record quota_report =
  qr_limit :: int
  qr_used :: int
  qr_remaining :: int
  qr_window_started_at :: "time option"
  qr_resets_at :: "time option"

definition live_concurrency :: "gate option \<Rightarrow> nat \<Rightarrow> nat \<times> nat \<times> nat" where
  "live_concurrency g fallback =
     (case g of None \<Rightarrow> (fallback, 0, 0)
      | Some g \<Rightarrow> (if gt_limit g = 0 then fallback else gt_limit g, gt_in_flight g, gate_queued g))"

definition stored_metric :: "time \<Rightarrow> gate option \<Rightarrow> governance_row \<Rightarrow> quota_report \<times> (nat \<times> nat \<times> nat) \<times> shedding_report" where
  "stored_metric now g r =
     (let eff = effective_limit (gr_per_minute r) (gr_headroom r)
      in (\<lparr>qr_limit = eff, qr_used = gr_used r, qr_remaining = max 0 (eff - gr_used r),
          qr_window_started_at = Some (gr_window_started_at r), qr_resets_at = Some (gr_window_started_at r + window_ms)\<rparr>,
          live_concurrency g (nat (gr_max_concurrent r)), shedding_report now (Some r)))"

definition empty_metric :: "gate option \<Rightarrow> policy \<Rightarrow> quota_report \<times> (nat \<times> nat \<times> nat) \<times> shedding_report" where
  "empty_metric g p =
     (let eff = effective_limit (rp_per_minute p) (rp_headroom p)
      in (\<lparr>qr_limit = eff, qr_used = 0, qr_remaining = eff, qr_window_started_at = None, qr_resets_at = None\<rparr>,
          live_concurrency g (nat (rp_max_concurrent p)), shedding_report 0 None))"

subsection \<open>One governed call\<close>

text \<open>The part of \<open>execute\<close> between admission and release of the gate.\<close>

definition run_admitted ::
  "(string \<Rightarrow> string) \<Rightarrow> uuid \<Rightarrow> time \<Rightarrow> rat \<Rightarrow> connector \<Rightarrow> target \<Rightarrow> uuid option
   \<Rightarrow> ('z governor_store_scheme \<Rightarrow> (remote_error option + 'a) \<times> 'z governor_store_scheme) \<Rightarrow> 'z governor_store_scheme
   \<Rightarrow> db_error + (remote_error option + 'a) \<times> envelope option \<times> 'z governor_store_scheme" where
  "run_admitted sha fresh now random c t probe op st =
     (case op st of
        (Inr a, st1) \<Rightarrow> and_then (record_success sha fresh now c t probe st1) (\<lambda>(ev, st2). Inr (Inr a, ev, st2))
      | (Inl e, st1) \<Rightarrow>
          (let r = (case find (row_of (co_org_id c) (tg_key t)) (governance_rows st1) of
                      None \<Rightarrow> fresh_row (co_org_id c) t now | Some r \<Rightarrow> r)
           in and_then (record_failure sha fresh now random c t e probe st1)
                (\<lambda>(ev, st2). Inr (Inl (rethrown (tg_policy t) random r e), ev, st2))))"

subsection \<open>Lemmas\<close>

definition row_limit :: "target \<Rightarrow> governance_row \<Rightarrow> int" where
  "row_limit t r = effective_limit (min (gr_per_minute r) (rp_per_minute (tg_policy t)))
     (min (gr_headroom r) (rp_headroom (tg_policy t)))"

fun is_admitted :: "admission \<Rightarrow> bool" where
  "is_admitted (Admitted _) = True"
| "is_admitted _ = False"

text \<open>Calls by any number of workers, in the order in which they take the row lock.\<close>

fun admit_many :: "target \<Rightarrow> (uuid \<times> time) list \<Rightarrow> governance_row \<Rightarrow> nat \<times> governance_row" where
  "admit_many t [] r = (0, r)"
| "admit_many t ((i, now) # calls) r =
     (let (a, r1) = admit_row i now t r; (n, r2) = admit_many t calls r1
      in ((if is_admitted a then Suc n else n), r2))"

lemma effective_pos: "1 \<le> effective_limit a b"
  by (simp add: effective_limit_def)

lemma admit_row_limit: "row_limit t (snd (admit_row i now t r)) = row_limit t r"
  by (auto simp: admit_row_def row_limit_def Let_def)

lemma admit_row_fresh_window:
  assumes "now < gr_window_started_at r + window_ms"
  shows "gr_window_started_at (snd (admit_row i now t r)) = gr_window_started_at r"
    "gr_used (snd (admit_row i now t r)) = gr_used r + (if is_admitted (fst (admit_row i now t r)) then 1 else 0)"
    "is_admitted (fst (admit_row i now t r)) \<Longrightarrow> gr_used r < row_limit t r"
  using assms by (auto simp: admit_row_def row_limit_def Let_def split: if_splits)

lemma admit_many_window:
  "\<forall>(i, now) \<in> set calls. now < gr_window_started_at r + window_ms \<Longrightarrow>
   int (fst (admit_many t calls r)) \<le> max 0 (row_limit t r - gr_used r)"
proof (induction calls arbitrary: r)
  case (Cons c calls)
  obtain i now where c: "c = (i, now)" by fastforce
  let ?r1 = "snd (admit_row i now t r)" and ?a = "fst (admit_row i now t r)"
  have now: "now < gr_window_started_at r + window_ms" using Cons.prems c by simp
  note step = admit_row_fresh_window [OF now, of i t]
  have "int (fst (admit_many t calls ?r1)) \<le> max 0 (row_limit t ?r1 - gr_used ?r1)"
    using Cons.prems c step(1) by (intro Cons.IH) auto
  moreover have "fst (admit_many t (c # calls) r) = (if is_admitted ?a then Suc (fst (admit_many t calls ?r1)) else fst (admit_many t calls ?r1))"
    by (simp add: c case_prod_beta Let_def)
  ultimately show ?case using step(2,3) admit_row_limit [of t i now r] by (auto split: if_splits)
qed simp

lemma first_call_window:
  assumes "0 \<le> gr_used r"
  shows "is_admitted (fst (admit_row i now t r)) \<Longrightarrow> gr_used (snd (admit_row i now t r)) \<ge> 1"
    and "0 \<le> gr_used (snd (admit_row i now t r))"
  using assms by (auto simp: admit_row_def Let_def split: if_splits)

text \<open>C14. However many workers compete, the calls admitted inside one quota window, from the call that
  opens it on, never exceed the effective limit: the tightest rate among connector and row, less the
  headroom, and at least one.\<close>

theorem quota_window_bound:
  assumes "0 \<le> gr_used r"
    and "\<forall>(i', now') \<in> set calls. now' < gr_window_started_at (snd (admit_row i now t r)) + window_ms"
  shows "int (fst (admit_many t ((i, now) # calls) r)) \<le> row_limit t r"
proof -
  let ?r1 = "snd (admit_row i now t r)" and ?a = "fst (admit_row i now t r)"
  have "int (fst (admit_many t calls ?r1)) \<le> max 0 (row_limit t ?r1 - gr_used ?r1)"
    using admit_many_window [OF assms(2)] .
  then have "int (fst (admit_many t calls ?r1)) \<le> max 0 (row_limit t r - gr_used ?r1)"
    by (simp add: admit_row_limit)
  moreover have "1 \<le> row_limit t r" by (simp add: row_limit_def effective_pos)
  moreover have "is_admitted ?a \<Longrightarrow> gr_used ?r1 \<ge> 1" "0 \<le> gr_used ?r1" using first_call_window assms(1) by auto
  ultimately show ?thesis by (auto simp: case_prod_beta Let_def)
qed


definition sample_target :: target where
  "sample_target = \<lparr>tg_key = ''k'', tg_origin = ''https://x'', tg_policy = default_rate_governance\<lparr>rp_per_minute := 2, rp_headroom := 100\<rparr>\<rparr>"

lemma quota_window_bound_witness:
  "fst (admit_many sample_target [(''a'', 0), (''b'', 1), (''c'', 2)] (fresh_row ''o1'' sample_target 0)) = 2 \<and>
   int (fst (admit_many sample_target [(''a'', 0), (''b'', 1), (''c'', 2)] (fresh_row ''o1'' sample_target 0))) \<le>
     row_limit sample_target (fresh_row ''o1'' sample_target 0)"
proof
  show "int (fst (admit_many sample_target [(''a'', 0), (''b'', 1), (''c'', 2)] (fresh_row ''o1'' sample_target 0))) \<le>
     row_limit sample_target (fresh_row ''o1'' sample_target 0)"
    by (rule quota_window_bound)
      (simp_all add: fresh_row_def admit_row_def shedding_state_def sample_target_def window_ms_def Let_def
        default_rate_governance_def effective_limit_def)
qed (simp add: fresh_row_def admit_row_def shedding_state_def sample_target_def window_ms_def Let_def
    default_rate_governance_def effective_limit_def)

lemma shed_row_stays:
  assumes "shedding_state now r = Shedding \<or> shedding_state now r = Probing \<and> probe_held now r"
  shows "\<exists>u why. admit_row i now t r = (Shed u why, r\<lparr>gr_shed_requests := gr_shed_requests r + 1\<rparr>)"
  using assms by (auto simp: admit_row_def Let_def)

lemma none_admitted:
  "\<forall>(i, now) \<in> set calls. shedding_state now r = Shedding \<or> shedding_state now r = Probing \<and> probe_held now r \<Longrightarrow>
   fst (admit_many t calls r) = 0"
proof (induction calls arbitrary: r)
  case (Cons c calls)
  obtain i now where c: "c = (i, now)" by fastforce
  let ?r1 = "r\<lparr>gr_shed_requests := gr_shed_requests r + 1\<rparr>"
  obtain u why where "admit_row i now t r = (Shed u why, ?r1)"
    using shed_row_stays [of now r i t] Cons.prems c by auto
  moreover have "shedding_state n ?r1 = shedding_state n r" "probe_held n ?r1 = probe_held n r" for n
    by (simp_all add: shedding_state_def probe_held_def)
  then have "fst (admit_many t calls ?r1) = 0" using Cons.prems by (intro Cons.IH) auto
  ultimately show ?case by (simp add: c case_prod_beta Let_def)
qed simp

text \<open>C15. Under shedding the target is left alone: until the shedding instant no call is admitted, and
  after it the first admitted call is the one recovery probe, with every other call refused while
  the probe's lease lasts, however many workers ask.\<close>

theorem shedding_admits_one_probe:
  assumes "gr_shedding_since r = Some s" "gr_shed_until r = Some u"
  shows "(\<forall>calls. (\<forall>(i, now) \<in> set calls. now < u) \<longrightarrow> fst (admit_many t calls r) = 0) \<and>
    (\<forall>i now p r' calls. i \<noteq> [] \<and> u \<le> now \<and> admit_row i now t r = (Admitted p, r') \<and>
       (\<forall>(i', now') \<in> set calls. now \<le> now' \<and> now' < now + probe_lease_ms) \<longrightarrow>
       p = Some i \<and> fst (admit_many t calls r') = 0)"
proof (intro conjI allI impI)
  fix calls :: "(uuid \<times> time) list"
  assume "\<forall>(i, now) \<in> set calls. now < u"
  then show "fst (admit_many t calls r) = 0"
    using assms by (intro none_admitted) (auto simp: shedding_state_def)
next
  fix i now p r' and calls :: "(uuid \<times> time) list"
  assume *: "i \<noteq> [] \<and> u \<le> now \<and> admit_row i now t r = (Admitted p, r') \<and>
       (\<forall>(i', now') \<in> set calls. now \<le> now' \<and> now' < now + probe_lease_ms)"
  have "shedding_state now r = Probing" using assms * by (simp add: shedding_state_def)
  then have r': "p = Some i" "gr_shedding_since r' = Some s" "gr_shed_until r' = Some u" "gr_probe_owner r' = Some i"
    "gr_probe_expires_at r' = Some (now + probe_lease_ms)"
    using * assms by (auto simp: admit_row_def Let_def split: if_splits)
  then show "p = Some i" "fst (admit_many t calls r') = 0"
    using * by (auto simp: shedding_state_def probe_held_def or_null_def intro!: none_admitted)
qed

lemma shedding_admits_one_probe_witness:
  "let r = (fresh_row ''o1'' sample_target 0)\<lparr>gr_shedding_since := Some 0, gr_shed_until := Some 100\<rparr>
   in fst (admit_many sample_target [(''a'', 50)] r) = 0 \<and>
      fst (admit_many sample_target [(''a'', 100), (''b'', 101)] r) = 1"
proof -
  let ?r = "(fresh_row ''o1'' sample_target 0)\<lparr>gr_shedding_since := Some 0, gr_shed_until := Some 100\<rparr>"
  have row: "gr_shedding_since ?r = Some 0" "gr_shed_until ?r = Some 100" by simp_all
  obtain r' where first: "admit_row ''a'' 100 sample_target ?r = (Admitted (Some ''a''), r')"
    by (simp add: fresh_row_def admit_row_def shedding_state_def probe_held_def or_null_def sample_target_def window_ms_def Let_def
        default_rate_governance_def effective_limit_def)
  have "fst (admit_many sample_target [(''b'', 101)] r') = 0"
    using shedding_admits_one_probe [OF row, THEN conjunct2, rule_format, of "''a''" 100 sample_target "Some ''a''" r' "[(''b'', 101)]"]
      first by (simp del: admit_many.simps add: probe_lease_ms_def)
  moreover have "fst (admit_many sample_target [(''a'', 50)] ?r) = 0"
    using shedding_admits_one_probe [OF row, THEN conjunct1, rule_format, of "[(''a'', 50)]" sample_target]
    by (simp del: admit_many.simps)
  moreover have "fst (admit_many sample_target [(''a'', 100), (''b'', 101)] ?r) =
      Suc (fst (admit_many sample_target [(''b'', 101)] r'))"
    by (simp only: admit_many.simps(2) [of _ "''a''"] first) (simp add: case_prod_beta Let_def)
  ultimately show ?thesis by (simp del: admit_many.simps add: Let_def)
qed

definition prompt_inv :: "nat \<Rightarrow> gate \<Rightarrow> bool" where
  "prompt_inv limit g \<longleftrightarrow> gt_limit g = limit \<and> gt_in_flight g + gt_woken g \<le> limit"

lemma prompt_keeps: "prompt_step limit g h \<Longrightarrow> prompt_inv limit g \<Longrightarrow> prompt_inv limit h"
  by (induction rule: prompt_step.induct)
    (auto simp: prompt_inv_def gate_enter_def gate_resume_def gate_release_def Let_def)

interpretation gate_run: step_invariant "prompt_step limit" "prompt_inv limit" for limit
  by unfold_locales (rule prompt_keeps)

lemma gate_fill: "(gate_step 1)\<^sup>*\<^sup>* (new_gate 1) \<lparr>gt_in_flight = 1, gt_limit = 1, gt_waiting = n, gt_woken = 0\<rparr>"
proof (induction n)
  case 0
  have "gate_step 1 (new_gate 1) \<lparr>gt_in_flight = 1, gt_limit = 1, gt_waiting = 0, gt_woken = 0\<rparr>"
    using gate_step.enter [of 1 "new_gate 1"] by (simp add: gate_enter_def new_gate_def Let_def)
  then show ?case by (rule r_into_rtranclp)
next
  case (Suc n)
  have "gate_step 1 \<lparr>gt_in_flight = 1, gt_limit = 1, gt_waiting = n, gt_woken = 0\<rparr>
      \<lparr>gt_in_flight = 1, gt_limit = 1, gt_waiting = Suc n, gt_woken = 0\<rparr>"
    using gate_step.enter [of 1 "\<lparr>gt_in_flight = 1, gt_limit = 1, gt_waiting = n, gt_woken = 0\<rparr>"]
    by (simp add: gate_enter_def Let_def)
  with Suc show ?case by (rule rtranclp.rtrancl_into_rtrancl)
qed

lemma gate_steal:
  "(gate_step 1)\<^sup>*\<^sup>* \<lparr>gt_in_flight = 1, gt_limit = 1, gt_waiting = n, gt_woken = k\<rparr>
     \<lparr>gt_in_flight = 1, gt_limit = 1, gt_waiting = 0, gt_woken = n + k\<rparr>"
proof (induction n arbitrary: k)
  case (Suc n)
  let ?g = "\<lparr>gt_in_flight = 1, gt_limit = 1, gt_waiting = Suc n, gt_woken = k\<rparr>"
  let ?h = "\<lparr>gt_in_flight = 0, gt_limit = 1, gt_waiting = n, gt_woken = Suc k\<rparr>"
  have "gate_step 1 ?g ?h"
    using gate_step.release [of ?g 1] by (simp add: gate_release_def Let_def)
  moreover have "gate_step 1 ?h \<lparr>gt_in_flight = 1, gt_limit = 1, gt_waiting = n, gt_woken = Suc k\<rparr>"
    using gate_step.enter [of 1 ?h] by (simp add: gate_enter_def Let_def)
  ultimately show ?case
    using Suc.IH [of "Suc k"] by (simp add: converse_rtranclp_into_rtranclp)
qed simp

lemma gate_drain:
  "(gate_step 1)\<^sup>*\<^sup>* \<lparr>gt_in_flight = m, gt_limit = 1, gt_waiting = 0, gt_woken = k\<rparr>
     \<lparr>gt_in_flight = m + k, gt_limit = 1, gt_waiting = 0, gt_woken = 0\<rparr>"
proof (induction k arbitrary: m)
  case (Suc k)
  have "gate_step 1 \<lparr>gt_in_flight = m, gt_limit = 1, gt_waiting = 0, gt_woken = Suc k\<rparr>
      \<lparr>gt_in_flight = Suc m, gt_limit = 1, gt_waiting = 0, gt_woken = k\<rparr>"
    using gate_step.resume [of "\<lparr>gt_in_flight = m, gt_limit = 1, gt_waiting = 0, gt_woken = Suc k\<rparr>" 1]
    by (simp add: gate_resume_def)
  then show ?case using Suc.IH [of "Suc m"] by (simp add: converse_rtranclp_into_rtranclp)
qed simp

text \<open>The gate bounds calls in flight only if a woken waiter runs before any other caller enters:
  under that schedule the limit holds, but when callers may enter between a release and the
  waiter it woke, a gate of limit one can have any number of calls in flight.\<close>

lemma gate_bound_needs_prompt_waiters:
  "(\<forall>limit g. (prompt_step limit)\<^sup>*\<^sup>* (new_gate limit) g \<longrightarrow> gt_in_flight g \<le> limit) \<and>
   (\<forall>n. \<exists>g. (gate_step 1)\<^sup>*\<^sup>* (new_gate 1) g \<and> gt_in_flight g = n + 1)"
proof (intro conjI allI impI)
  fix limit g
  assume "(prompt_step limit)\<^sup>*\<^sup>* (new_gate limit) g"
  then have "prompt_inv limit g" by (rule gate_run.run_keeps) (simp add: prompt_inv_def new_gate_def)
  then show "gt_in_flight g \<le> limit" by (simp add: prompt_inv_def)
next
  fix n
  have "(gate_step 1)\<^sup>*\<^sup>* (new_gate 1) \<lparr>gt_in_flight = 1 + n, gt_limit = 1, gt_waiting = 0, gt_woken = 0\<rparr>"
    using gate_fill [of n] gate_steal [of n 0] gate_drain [of 1 n] by (auto intro: rtranclp_trans)
  then show "\<exists>g. (gate_step 1)\<^sup>*\<^sup>* (new_gate 1) g \<and> gt_in_flight g = n + 1" by (auto intro: exI)
qed


end
