(* ===== verification/FlowProfile.thy ===== *)
theory FlowProfile
  imports Workflow
begin

text \<open>
  Worked and waiting time of \<^verbatim>\<open>src/modules/flow\<close>: the wait reasons of \<^verbatim>\<open>wait-reason.ts\<close>, the pure
  interval arithmetic of \<^verbatim>\<open>flow-profile.ts\<close>, the versioned state classifications of
  \<^verbatim>\<open>flow-classification.service.ts\<close>, and the scoring, profile and wait reports of
  \<^verbatim>\<open>flow.service.ts\<close>.

  Nothing of a profile is stored: it is computed from the recorded state changes. A map whose key is
  built as \<open>a|b\<close> keeps that key as text. Minutes and shares are exact rationals.
\<close>

subsection \<open>Wait reasons\<close>

datatype wait_category = Customer | ThirdParty | Dependency | Approval | Capacity | OtherReason

record wait_reason =
  wn_category :: wait_category
  wn_note :: "string option"

definition wait_reason_categories :: "(string \<times> wait_category) list" where
  "wait_reason_categories =
     [(''customer'', Customer), (''third_party'', ThirdParty), (''dependency'', Dependency),
      (''approval'', Approval), (''capacity'', Capacity), (''other'', OtherReason)]"

definition wait_reason_category :: "jsval \<Rightarrow> wait_category option" where
  "wait_reason_category v = (case v of JStr s \<Rightarrow> map_of wait_reason_categories s | _ \<Rightarrow> None)"

definition parse_wait_reason :: "jsval \<Rightarrow> string + wait_reason option" where
  "parse_wait_reason input =
     (if input = JUndef \<or> input = JNull then Inr None
      else case wait_reason_category (jprop input ''category'') of
        None \<Rightarrow> Inl (''wait_reason.category must be one of: '' @ join '', '' (map fst wait_reason_categories))
      | Some c \<Rightarrow>
          (case jprop input ''note'' of
             JUndef \<Rightarrow> Inr (Some \<lparr>wn_category = c, wn_note = None\<rparr>)
           | JNull \<Rightarrow> Inr (Some \<lparr>wn_category = c, wn_note = None\<rparr>)
           | JStr s \<Rightarrow>
               if length s > 500 then Inl ''wait_reason.note must be text of at most 500 characters''
               else Inr (Some \<lparr>wn_category = c, wn_note = or_null (Some (trim s))\<rparr>)
           | _ \<Rightarrow> Inl ''wait_reason.note must be text of at most 500 characters''))"

subsection \<open>Intervals\<close>

datatype flow_bucket = FActive | FWaiting | FBlocked | FUnclassified

definition flow_buckets :: "flow_bucket list" where
  "flow_buckets = [FActive, FWaiting, FBlocked, FUnclassified]"

record state_change =
  sc_at :: time
  sc_from :: "string option"
  sc_to :: string
  sc_reason :: "wait_reason option"

record state_interval =
  si_state :: string
  si_start :: time
  si_end :: time
  si_open :: bool
  si_reason :: "wait_reason option"

text \<open>The local variables of the loop of \<open>buildIntervals\<close>.\<close>

record walk =
  wk_intervals :: "state_interval list"
  wk_anomalies :: nat
  wk_cursor :: time
  wk_state :: string
  wk_reason :: "wait_reason option"

definition close_interval :: "string list \<Rightarrow> time \<Rightarrow> bool \<Rightarrow> walk \<Rightarrow> walk" where
  "close_interval terminal t is_open k =
     (if t > wk_cursor k \<and> wk_state k \<notin> set terminal
      then k\<lparr>wk_intervals := wk_intervals k @
        [\<lparr>si_state = wk_state k, si_start = wk_cursor k, si_end = t, si_open = is_open, si_reason = wk_reason k\<rparr>]\<rparr>
      else k)"

definition walk_event :: "string list \<Rightarrow> walk \<Rightarrow> state_change \<Rightarrow> walk" where
  "walk_event terminal k e =
     (let k1 = (case sc_from e of
                  None \<Rightarrow> k
                | Some s \<Rightarrow> if s \<noteq> wk_state k then k\<lparr>wk_anomalies := wk_anomalies k + 1\<rparr> else k)
      in if sc_at e < wk_cursor k1
         then k1\<lparr>wk_anomalies := wk_anomalies k1 + 1, wk_state := sc_to e, wk_reason := sc_reason e\<rparr>
         else (close_interval terminal (sc_at e) False k1)
                \<lparr>wk_cursor := sc_at e, wk_state := sc_to e, wk_reason := sc_reason e\<rparr>)"

definition start_walk :: "time \<Rightarrow> string \<Rightarrow> state_change list \<Rightarrow> walk" where
  "start_walk created current events =
     \<lparr>wk_intervals = [], wk_anomalies = 0, wk_cursor = created,
      wk_state = (case events of [] \<Rightarrow> current | e # _ \<Rightarrow> (case sc_from e of None \<Rightarrow> current | Some s \<Rightarrow> s)),
      wk_reason = None\<rparr>"

definition build_intervals ::
  "time \<Rightarrow> string \<Rightarrow> state_change list \<Rightarrow> time \<Rightarrow> string list \<Rightarrow> state_interval list \<times> nat" where
  "build_intervals created current events now terminal =
     (let es = sort_key sc_at events;
          k = close_interval terminal now True (foldl (walk_event terminal) (start_walk created current es) es)
      in (wk_intervals k, wk_anomalies k))"

definition clip_interval :: "time option \<Rightarrow> time option \<Rightarrow> state_interval \<Rightarrow> state_interval" where
  "clip_interval from_t to_t i =
     (let s = (case from_t of None \<Rightarrow> si_start i | Some f \<Rightarrow> if f > si_start i then f else si_start i);
          clipped = (case to_t of None \<Rightarrow> False | Some t \<Rightarrow> t < si_end i)
      in i\<lparr>si_start := s, si_end := (if clipped then the to_t else si_end i), si_open := (si_open i \<and> \<not> clipped)\<rparr>)"

definition clip_intervals :: "time option \<Rightarrow> time option \<Rightarrow> state_interval list \<Rightarrow> state_interval list" where
  "clip_intervals from_t to_t is =
     filter (\<lambda>i. si_end i > si_start i) (map (clip_interval from_t to_t) is)"

subsection \<open>Totals\<close>

type_synonym bucket_ms = "flow_bucket \<Rightarrow> int"

definition empty_bucket_ms :: bucket_ms where
  "empty_bucket_ms = (\<lambda>_. 0)"

definition add_bucket_ms :: "bucket_ms \<Rightarrow> bucket_ms \<Rightarrow> bucket_ms" where
  "add_bucket_ms target source = foldl (\<lambda>t b. t(b := t b + source b)) target flow_buckets"

definition to_minutes :: "int \<Rightarrow> rat" where
  "to_minutes ms = of_int (js_round (of_int ms / of_int minute_ms * 100)) / 100"

definition ratio :: "int \<Rightarrow> int \<Rightarrow> rat option" where
  "ratio part whole =
     (if whole > 0 then Some (of_int (js_round (of_int part / of_int whole * 10000)) / 10000) else None)"

record flow_totals =
  ft_active :: rat
  ft_waiting :: rat
  ft_blocked :: rat
  ft_unclassified :: rat
  ft_elapsed :: rat
  ft_efficiency :: "rat option"
  ft_unclassified_share :: "rat option"

definition totals_from :: "bucket_ms \<Rightarrow> flow_totals" where
  "totals_from ms =
     (let elapsed = ms FActive + ms FWaiting + ms FBlocked + ms FUnclassified
      in \<lparr>ft_active = to_minutes (ms FActive), ft_waiting = to_minutes (ms FWaiting),
          ft_blocked = to_minutes (ms FBlocked), ft_unclassified = to_minutes (ms FUnclassified),
          ft_elapsed = to_minutes elapsed, ft_efficiency = ratio (ms FActive) elapsed,
          ft_unclassified_share = ratio (ms FUnclassified) elapsed\<rparr>)"

subsection \<open>Classifications\<close>

record classification_row =
  cr_id :: uuid
  cr_org_id :: string
  cr_team_id :: "string option"
  cr_state :: string
  cr_classification :: flow_bucket
  cr_default_reason :: "wait_category option"
  cr_version :: int
  cr_changed_by :: string
  cr_created_at :: time

record item_link =
  il_id :: uuid
  il_source :: string
  il_target :: string
  il_type :: string
  il_created_at :: time

record flow_store = wf_store +
  flow_classifications :: "classification_row list"
  item_links :: "item_link list"
  teams :: "(string \<times> string \<times> string) list"

definition scope_rows :: "string \<Rightarrow> classification_row list \<Rightarrow> string option \<Rightarrow> string \<Rightarrow> classification_row list" where
  "scope_rows org rows team state =
     filter (\<lambda>r. cr_org_id r = org \<and> cr_team_id r = team \<and> cr_state r = state) rows"

definition nil_uuid :: string where
  "nil_uuid = ''00000000-0000-0000-0000-000000000000''"

definition scope_id :: "string option \<Rightarrow> string" where
  "scope_id team = (case team of None \<Rightarrow> nil_uuid | Some t \<Rightarrow> t)"

text \<open>
  The highest version of each scope and state. \<open>scope\<close> is \<open>None\<close> for every scope, \<open>Some None\<close> for the
  tenant default and \<open>Some (Some t)\<close> for team \<open>t\<close>.
\<close>

definition list_classifications ::
  "string \<Rightarrow> string option option \<Rightarrow> classification_row list \<Rightarrow> classification_row list" where
  "list_classifications org scope rows =
     (let mine = filter (\<lambda>r. cr_org_id r = org \<and> (case scope of None \<Rightarrow> True | Some t \<Rightarrow> cr_team_id r = t)) rows;
          keys = sort_key fst (sort_key snd (remdups (map (\<lambda>r. (scope_id (cr_team_id r), cr_state r)) mine)))
      in List.map_filter (\<lambda>k. max_by cr_version (filter (\<lambda>r. (scope_id (cr_team_id r), cr_state r) = k) mine)) keys)"

definition classification_history ::
  "string \<Rightarrow> string option option \<Rightarrow> string option \<Rightarrow> classification_row list \<Rightarrow> classification_row list" where
  "classification_history org scope state rows =
     sort_key (\<lambda>r. - cr_created_at r) (sort_key (\<lambda>r. - cr_version r) (sort_key cr_state
       (filter (\<lambda>r. cr_org_id r = org \<and> (case scope of None \<Rightarrow> True | Some t \<Rightarrow> cr_team_id r = t) \<and>
          opt_is state (Some (cr_state r))) rows)))"

record resolved =
  rv_classification :: flow_bucket
  rv_default_reason :: "wait_category option"
  rv_version :: "int option"

definition classification_key :: "string option \<Rightarrow> string \<Rightarrow> string" where
  "classification_key team state = (case team of None \<Rightarrow> [] | Some t \<Rightarrow> t) @ ''|'' @ state"

definition resolver :: "string \<Rightarrow> classification_row list \<Rightarrow> string option \<Rightarrow> string \<Rightarrow> resolved" where
  "resolver org rows team state =
     (let current = rev (list_classifications org None rows);
          at_key = (\<lambda>k. find (\<lambda>r. classification_key (cr_team_id r) (cr_state r) = k) current);
          hit = (case or_null team of None \<Rightarrow> None | Some t \<Rightarrow> at_key (classification_key (Some t) state))
      in case (case hit of None \<Rightarrow> at_key (classification_key None state) | Some r \<Rightarrow> Some r) of
           None \<Rightarrow> \<lparr>rv_classification = FUnclassified, rv_default_reason = None, rv_version = None\<rparr>
         | Some r \<Rightarrow> \<lparr>rv_classification = cr_classification r, rv_default_reason = cr_default_reason r,
                       rv_version = Some (cr_version r)\<rparr>)"

definition flow_bucket_names :: "(string \<times> flow_bucket) list" where
  "flow_bucket_names =
     [(''active'', FActive), (''waiting'', FWaiting), (''blocked'', FBlocked), (''unclassified'', FUnclassified)]"

definition show_flow_bucket :: "flow_bucket \<Rightarrow> string" where
  "show_flow_bucket b = (case b of FActive \<Rightarrow> ''active'' | FWaiting \<Rightarrow> ''waiting'' | FBlocked \<Rightarrow> ''blocked''
     | FUnclassified \<Rightarrow> ''unclassified'')"

definition show_category :: "wait_category \<Rightarrow> string" where
  "show_category c = (case c of Customer \<Rightarrow> ''customer'' | ThirdParty \<Rightarrow> ''third_party''
     | Dependency \<Rightarrow> ''dependency'' | Approval \<Rightarrow> ''approval'' | Capacity \<Rightarrow> ''capacity'' | OtherReason \<Rightarrow> ''other'')"

definition uuid_text :: "string \<Rightarrow> bool" where
  "uuid_text s \<longleftrightarrow> map length (split_on (CHR ''-'') s) = [8, 4, 4, 4, 12] \<and>
     (\<forall>c \<in> set s. hex_digit c \<or> c = CHR ''-'')"

datatype flow_error = InvalidClassification string | FlowDb db_error

text \<open>One parsed entry: the state, its class, and the default reason, \<open>None\<close> when it was left out.\<close>

type_synonym classification_entry = "string \<times> flow_bucket \<times> wait_category option option"

definition parse_entry :: "jsval \<Rightarrow> classification_entry list \<Rightarrow> flow_error + classification_entry" where
  "parse_entry entry seen =
     (let state = (case jprop entry ''state'' of JStr s \<Rightarrow> trim s | _ \<Rightarrow> []);
          cls = (case jprop entry ''classification'' of JStr s \<Rightarrow> map_of flow_bucket_names s | _ \<Rightarrow> None);
          reason = jprop entry ''default_reason''
      in if state = [] then Inl (InvalidClassification ''every entry needs a non-empty state'')
         else case cls of
           None \<Rightarrow> Inl (InvalidClassification (''classification for '' @ quoted state @ '' must be one of: '' @
                     join '', '' (map fst flow_bucket_names)))
         | Some c \<Rightarrow>
             if state \<in> fst ` set seen then Inl (InvalidClassification (''state '' @ quoted state @ '' is listed more than once''))
             else if reason = JNull then Inr (state, c, Some None)
             else if reason = JUndef then Inr (state, c, None)
             else case wait_reason_category reason of
               None \<Rightarrow> Inl (InvalidClassification (''default_reason for '' @ quoted state @ '' must be one of: '' @
                         join '', '' (map fst wait_reason_categories)))
             | Some w \<Rightarrow> Inr (state, c, Some (Some w)))"

fun parse_entries :: "jsval list \<Rightarrow> classification_entry list \<Rightarrow> flow_error + classification_entry list" where
  "parse_entries [] seen = Inr seen"
| "parse_entries (v # vs) seen = and_then (parse_entry v seen) (\<lambda>e. parse_entries vs (seen @ [e]))"

definition classification_json :: "flow_bucket \<Rightarrow> wait_category option \<Rightarrow> int \<Rightarrow> jsval" where
  "classification_json c w v = JObj [(''classification'', JStr (show_flow_bucket c)),
     (''default_reason'', jopt (map_option show_category w)), (''version'', JInt v)]"

definition classification_event ::
  "string \<Rightarrow> string \<Rightarrow> string option \<Rightarrow> classification_row option \<Rightarrow> classification_row \<Rightarrow> outbox_input" where
  "classification_event org actor team previous row =
     \<lparr>oi_event_type = ''FlowClassificationChanged'', oi_work_item_id = cr_id row, oi_org_id = org,
      oi_actor_type = ''user'', oi_actor_id = actor,
      oi_payload = JObj
        [(''org_id'', JStr org), (''team_id'', jopt team), (''state'', JStr (cr_state row)),
         (''before'', case previous of None \<Rightarrow> JNull
            | Some p \<Rightarrow> classification_json (cr_classification p) (cr_default_reason p) (cr_version p)),
         (''after'', classification_json (cr_classification row) (cr_default_reason row) (cr_version row))],
      oi_schema_version = None, oi_event_id = None, oi_timestamp = None\<rparr>"

definition insert_classification ::
  "classification_row \<Rightarrow> 'z flow_store_scheme \<Rightarrow> db_error + 'z flow_store_scheme" where
  "insert_classification row st =
     (if \<exists>r \<in> set (flow_classifications st). cr_org_id r = cr_org_id row \<and>
           scope_id (cr_team_id r) = scope_id (cr_team_id row) \<and> cr_state r = cr_state row \<and> cr_version r = cr_version row
      then Inl (UniqueViolation ''flow_state_classifications_version_idx'')
      else Inr (st\<lparr>flow_classifications := flow_classifications st @ [row]\<rparr>))"

text \<open>What an entry asks for, and whether the current row already says it.\<close>

definition wanted_reason :: "classification_row option \<Rightarrow> wait_category option option \<Rightarrow> wait_category option" where
  "wanted_reason previous reason = (case reason of
     None \<Rightarrow> (case previous of None \<Rightarrow> None | Some p \<Rightarrow> cr_default_reason p) | Some w \<Rightarrow> w)"

definition already_set :: "string option \<Rightarrow> classification_row option \<Rightarrow> flow_bucket \<Rightarrow> wait_category option \<Rightarrow> bool" where
  "already_set team previous c w = (case previous of
     Some p \<Rightarrow> cr_classification p = c \<and> cr_default_reason p = w
   | None \<Rightarrow> c = FUnclassified \<and> w = None \<and> team = None)"

record classify_run =
  cl_changed :: "classification_row list"
  cl_unchanged :: nat
  cl_events :: "envelope list"

fun classify_all ::
  "(string \<Rightarrow> string) \<Rightarrow> (nat \<Rightarrow> 'z flow_store_scheme \<Rightarrow> 'z flow_store_scheme) \<Rightarrow> (nat \<Rightarrow> uuid \<times> uuid) \<Rightarrow> time
   \<Rightarrow> string \<Rightarrow> string \<Rightarrow> string option \<Rightarrow> (string \<Rightarrow> classification_row option) \<Rightarrow> classification_entry list
   \<Rightarrow> classify_run \<Rightarrow> 'z flow_store_scheme \<Rightarrow> db_error + classify_run \<times> 'z flow_store_scheme" where
  "classify_all sha env fresh now org actor team current [] run st = Inr (run, st)"
| "classify_all sha env fresh now org actor team current ((state, c, reason) # es) run st =
     (let previous = current state; w = wanted_reason previous reason
      in if already_set team previous c w
         then classify_all sha env fresh now org actor team current es (run\<lparr>cl_unchanged := cl_unchanged run + 1\<rparr>) st
         else let (row_id, event_id) = fresh (length (cl_changed run));
                  row = \<lparr>cr_id = row_id, cr_org_id = org, cr_team_id = map_option lower team, cr_state = state,
                         cr_classification = c, cr_default_reason = w,
                         cr_version = (case previous of None \<Rightarrow> 0 | Some p \<Rightarrow> cr_version p) + 1,
                         cr_changed_by = actor, cr_created_at = now\<rparr>
              in and_then (insert_classification row st) (\<lambda>st1.
                 and_then (enqueue sha env event_id now (classification_event org actor team previous row) st1) (\<lambda>(ev, st2).
                   classify_all sha env fresh now org actor team current es
                     (run\<lparr>cl_changed := cl_changed run @ [row], cl_events := cl_events run @ [ev]\<rparr>) st2)))"

definition current_classifications ::
  "string \<Rightarrow> string option \<Rightarrow> classification_row list \<Rightarrow> string \<Rightarrow> classification_row option" where
  "current_classifications org team rows =
     map_of (rev (map (\<lambda>r. (cr_state r, r)) (list_classifications org (Some team) rows)))"

text \<open>
  A UUID column compares and returns \<open>team\<close> in lower case; the event carries it as it was given.
  The current versions are read before the transaction opens: \<open>race\<close> is what other requests commit
  between the read and the first insert. A failed insert rolls the whole request back.
\<close>

definition set_classifications ::
  "(string \<Rightarrow> string) \<Rightarrow> (nat \<Rightarrow> 'z flow_store_scheme \<Rightarrow> 'z flow_store_scheme) \<Rightarrow> 'z flow_store_scheme handler
   \<Rightarrow> ('z flow_store_scheme \<Rightarrow> 'z flow_store_scheme) \<Rightarrow> (nat \<Rightarrow> uuid \<times> uuid) \<Rightarrow> time \<Rightarrow> string \<Rightarrow> string
   \<Rightarrow> string option \<Rightarrow> jsval \<Rightarrow> 'z flow_store_scheme
   \<Rightarrow> flow_error + (classification_row list \<times> nat) \<times> 'z flow_store_scheme" where
  "set_classifications sha env pub race fresh now org actor team states st =
     (case states of
        JArr vs \<Rightarrow>
          if vs = [] then Inl (InvalidClassification ''states must be a non-empty array'')
          else if length vs > 200 then Inl (InvalidClassification ''at most 200 states can be classified per request'')
          else and_then (parse_entries vs []) (\<lambda>parsed.
            if (case team of None \<Rightarrow> False | Some t \<Rightarrow> \<not> uuid_text t)
            then Inl (InvalidClassification ''team_id must be a UUID'')
            else if (case team of None \<Rightarrow> False | Some t \<Rightarrow> \<forall>(i, o', _) \<in> set (teams st). \<not> (i = lower t \<and> o' = org))
            then Inl (InvalidClassification ''team_id does not belong to this organization'')
            else let current = current_classifications org (map_option lower team) (flow_classifications st)
                 in case classify_all sha env fresh now org actor team current parsed
                      \<lparr>cl_changed = [], cl_unchanged = 0, cl_events = []\<rparr> (race st) of
                      Inl e \<Rightarrow> Inl (FlowDb e)
                    | Inr (run, st1) \<Rightarrow>
                        Inr ((cl_changed run, cl_unchanged run), snd (dispatch_all pub now (cl_events run) st1)))
      | _ \<Rightarrow> Inl (InvalidClassification ''states must be a non-empty array''))"

subsection \<open>What a report reads\<close>

definition flow_key :: "string \<Rightarrow> string \<Rightarrow> string" where
  "flow_key a b = a @ ''|'' @ b"

definition load_calendars :: "string \<Rightarrow> 'z flow_store_scheme \<Rightarrow> string \<Rightarrow> calendar option" where
  "load_calendars org st key = map_option sp_calendar
     (find (\<lambda>p. flow_key (sp_item_type p) (sp_state p) = key) (rev (filter (\<lambda>p. sp_org_id p = org) (sla_policies st))))"

definition terminal_of :: "'z flow_store_scheme \<Rightarrow> string \<Rightarrow> string list" where
  "terminal_of st ty = (case get_workflow_definition ty 0 st of None \<Rightarrow> [] | Some r \<Rightarrow> wd_terminal (pw_definition r))"

definition terminal_states :: "string list \<Rightarrow> 'z flow_store_scheme \<Rightarrow> (string \<times> string list) list" where
  "terminal_states types st = map (\<lambda>ty. (ty, terminal_of st ty)) (remdups types)"

definition state_change_of :: "audit_event \<Rightarrow> state_change option" where
  "state_change_of a = (case jprop (ae_payload a) ''to_state'' of
     JStr to_state \<Rightarrow>
       (let reason = jprop (ae_payload a) ''wait_reason''
        in Some \<lparr>sc_at = ae_timestamp a,
             sc_from = (case jprop (ae_payload a) ''from_state'' of JStr s \<Rightarrow> Some s | _ \<Rightarrow> None),
             sc_to = to_state,
             sc_reason = map_option (\<lambda>c. \<lparr>wn_category = c,
                 wn_note = (case jprop reason ''note'' of JStr n \<Rightarrow> Some n | _ \<Rightarrow> None)\<rparr>)
               (wait_reason_category (jprop reason ''category''))\<rparr>)
   | _ \<Rightarrow> None)"

definition load_events :: "string \<Rightarrow> string list \<Rightarrow> 'z flow_store_scheme \<Rightarrow> string \<Rightarrow> state_change list" where
  "load_events org ids st wid = List.map_filter state_change_of
     (sort_key ae_timestamp (sort_key ae_id (filter (\<lambda>a. ae_event_type a = ''WorkItemStateChanged'' \<and>
        ae_work_item_id a = wid \<and> wid \<in> set ids \<and> item_org st wid = Some org) (audit_events st))))"

record blocker =
  bl_id :: string
  bl_key :: string
  bl_team_id :: string
  bl_team_name :: "string option"
  bl_linked_at :: time
  bl_closed_at :: "time option"

definition team_names :: "string \<Rightarrow> 'z flow_store_scheme \<Rightarrow> string \<Rightarrow> string option" where
  "team_names org st = map_of (rev (map (\<lambda>(i, _, n). (i, n)) (filter (\<lambda>(_, o', _). o' = org) (teams st))))"

definition closing_time :: "string list \<Rightarrow> state_change list \<Rightarrow> work_item \<Rightarrow> time option" where
  "closing_time finals events w =
     (if wi_status w \<in> set finals
      then (let entries = filter (\<lambda>e. sc_to e \<in> set finals) events
            in Some (if entries = [] then wi_created_at w else sc_at (last entries)))
      else None)"

definition blocking_pairs :: "string list \<Rightarrow> item_link list \<Rightarrow> (string \<times> string \<times> time) list" where
  "blocking_pairs ids links =
     map (\<lambda>l. if il_type l = ''blocks'' then (il_target l, il_source l, il_created_at l)
               else (il_source l, il_target l, il_created_at l))
       (sort_key il_created_at (sort_key il_id (filter (\<lambda>l.
          (il_source l \<in> set ids \<and> il_type l \<in> {''blocked_by'', ''caused_by''}) \<or>
          (il_target l \<in> set ids \<and> il_type l = ''blocks'')) links)))"

definition load_blockers ::
  "string \<Rightarrow> string list \<Rightarrow> (string \<times> string list) list \<Rightarrow> 'z flow_store_scheme \<Rightarrow> string \<Rightarrow> blocker list" where
  "load_blockers org ids known st wid =
     (let pairs = blocking_pairs ids (item_links st); blocker_ids = remdups (map (fst \<circ> snd) pairs)
      in List.map_filter (\<lambda>(blocked, b, linked).
           if blocked \<noteq> wid then None
           else map_option (\<lambda>w.
             (let finals = (case map_of known (wi_type w) of None \<Rightarrow> terminal_of st (wi_type w) | Some fs \<Rightarrow> fs)
              in \<lparr>bl_id = wi_id w, bl_key = wi_key w, bl_team_id = wi_team_id w,
                  bl_team_name = team_names org st (wi_team_id w), bl_linked_at = linked,
                  bl_closed_at = closing_time finals (load_events org blocker_ids st (wi_id w)) w\<rparr>))
             (find (\<lambda>w. wi_id w = b \<and> wi_org_id w = org) (work_items st))) pairs)"

record flow_context =
  fc_resolver :: "string option \<Rightarrow> string \<Rightarrow> resolved"
  fc_calendars :: "string \<Rightarrow> calendar option"
  fc_terminal :: "string \<Rightarrow> string list option"
  fc_blockers :: "string \<Rightarrow> blocker list"
  fc_events :: "string \<Rightarrow> state_change list"

definition flow_context_of :: "string \<Rightarrow> work_item list \<Rightarrow> 'z flow_store_scheme \<Rightarrow> flow_context" where
  "flow_context_of org items st =
     (let ids = map wi_id items; terminal = terminal_states (map wi_type items) st
      in \<lparr>fc_resolver = resolver org (flow_classifications st), fc_calendars = load_calendars org st,
          fc_terminal = map_of terminal, fc_blockers = load_blockers org ids terminal st,
          fc_events = load_events org ids st\<rparr>)"

subsection \<open>Scoring an item\<close>

datatype reason_source = FromTransition | FromBlockingLink | FromStateDefault | NoSource

text \<open>The reason of a wait; \<open>None\<close> is \<open>unattributed\<close>.\<close>

record wait_info =
  wt_reason :: "wait_category option"
  wt_source :: reason_source
  wt_note :: "string option"
  wt_blocker :: "blocker option"
  wt_ambiguous :: nat

record scored =
  sd_state :: string
  sd_class :: flow_bucket
  sd_version :: "int option"
  sd_calendar :: calendar
  sd_start :: time
  sd_end :: time
  sd_open :: bool
  sd_ms :: int
  sd_wait :: "wait_info option"

definition entered_interval :: "state_interval list \<Rightarrow> state_interval \<Rightarrow> state_interval option" where
  "entered_interval built i =
     find (\<lambda>c. si_state c = si_state i \<and> si_start c \<le> si_start i \<and> si_end c \<ge> si_end i) built"

definition applicable_blockers :: "time \<Rightarrow> blocker list \<Rightarrow> blocker list" where
  "applicable_blockers t =
     filter (\<lambda>b. bl_linked_at b \<le> t \<and> (case bl_closed_at b of None \<Rightarrow> True | Some c \<Rightarrow> c > t))"

definition attribute_wait :: "wait_reason option \<Rightarrow> wait_category option \<Rightarrow> blocker list \<Rightarrow> wait_info" where
  "attribute_wait explicit default_reason applicable =
     (let b = (case applicable of [] \<Rightarrow> None | b # _ \<Rightarrow> Some b);
          (reason, source) =
            (case explicit of
               Some e \<Rightarrow> (Some (wn_category e), FromTransition)
             | None \<Rightarrow> if b \<noteq> None then (Some Dependency, FromBlockingLink)
                 else if default_reason \<noteq> None then (default_reason, FromStateDefault)
                 else (None, NoSource))
      in \<lparr>wt_reason = reason, wt_source = source,
          wt_note = (case explicit of None \<Rightarrow> None | Some e \<Rightarrow> wn_note e),
          wt_blocker = b, wt_ambiguous = length applicable - 1\<rparr>)"

definition score_interval :: "flow_context \<Rightarrow> work_item \<Rightarrow> state_interval list \<Rightarrow> state_interval \<Rightarrow> scored" where
  "score_interval ctx w built i =
     (let rv = fc_resolver ctx (Some (wi_team_id w)) (si_state i);
          cal = (case fc_calendars ctx (flow_key (wi_type w) (si_state i)) of None \<Rightarrow> Cal24x7 | Some c \<Rightarrow> c);
          entered = (case entered_interval built i of None \<Rightarrow> si_start i | Some c \<Rightarrow> si_start c)
      in \<lparr>sd_state = si_state i, sd_class = rv_classification rv, sd_version = rv_version rv, sd_calendar = cal,
          sd_start = si_start i, sd_end = si_end i, sd_open = si_open i,
          sd_ms = business_ms (si_start i) (si_end i) cal,
          sd_wait = (if rv_classification rv \<in> {FWaiting, FBlocked}
            then Some (attribute_wait (si_reason i) (rv_default_reason rv)
                   (applicable_blockers entered (fc_blockers ctx (wi_id w))))
            else None)\<rparr>)"

definition item_history :: "flow_context \<Rightarrow> time \<Rightarrow> work_item \<Rightarrow> state_interval list \<times> nat" where
  "item_history ctx now w = build_intervals (wi_created_at w) (wi_status w) (fc_events ctx (wi_id w)) now
     (case fc_terminal ctx (wi_type w) of None \<Rightarrow> [] | Some ts \<Rightarrow> ts)"

definition score_item ::
  "flow_context \<Rightarrow> time option \<Rightarrow> time option \<Rightarrow> time \<Rightarrow> work_item \<Rightarrow> scored list \<times> nat" where
  "score_item ctx from_t to_t now w =
     (let (built, anomalies) = item_history ctx now w
      in (map (score_interval ctx w built) (clip_intervals from_t to_t built), anomalies))"

subsection \<open>Profile and reports\<close>

text \<open>A JavaScript \<^verbatim>\<open>Map\<close> that is filled with \<open>get(k) ?? init\<close> and \<open>set\<close>: keys keep their first position.\<close>

fun upsert :: "'k \<Rightarrow> 'v \<Rightarrow> ('v \<Rightarrow> 'v) \<Rightarrow> ('k \<times> 'v) list \<Rightarrow> ('k \<times> 'v) list" where
  "upsert k d f [] = [(k, f d)]"
| "upsert k d f ((k', v) # m) = (if k' = k then (k', f v) # m else (k', v) # upsert k d f m)"

definition parse_range ::
  "time option \<Rightarrow> time option \<Rightarrow> bool \<Rightarrow> time \<Rightarrow> string + time option \<times> time option" where
  "parse_range from_t to_t defaults now =
     (let to_t' = (if defaults then Some (case to_t of None \<Rightarrow> now | Some t \<Rightarrow> t) else to_t);
          from_t' = (if defaults then Some (case from_t of None \<Rightarrow> the to_t' - 30 * day_ms | Some f \<Rightarrow> f) else from_t)
      in case (from_t', to_t') of
           (Some f, Some t) \<Rightarrow> if f \<ge> t then Inl ''from must be earlier than to'' else Inr (from_t', to_t')
         | _ \<Rightarrow> Inr (from_t', to_t'))"

record item_filter =
  if_team :: "string option"
  if_type :: "string option"
  if_item :: "string option"

definition load_items :: "string \<Rightarrow> time \<Rightarrow> item_filter \<Rightarrow> 'z flow_store_scheme \<Rightarrow> work_item list \<times> bool" where
  "load_items org to_t f st =
     (let rows = sort_key wi_created_at (sort_key wi_id (filter (\<lambda>w. wi_org_id w = org \<and> wi_created_at w < to_t \<and>
            opt_is (if_team f) (Some (wi_team_id w)) \<and> opt_is (if_type f) (Some (wi_type w)) \<and>
            opt_is (if_item f) (Some (wi_id w))) (work_items st)))
      in (take 10000 rows, length rows > 10000))"

definition bucket_sums :: "scored list \<Rightarrow> bucket_ms" where
  "bucket_sums is = foldl (\<lambda>ms i. ms(sd_class i := ms (sd_class i) + sd_ms i)) empty_bucket_ms is"

definition state_sums :: "scored list \<Rightarrow> ((string \<times> flow_bucket) \<times> int) list" where
  "state_sums is = foldl (\<lambda>m i. upsert (sd_state i, sd_class i) 0 (\<lambda>v. v + sd_ms i) m) [] is"

record flow_profile =
  fp_totals :: flow_totals
  fp_unclassified :: "string list"
  fp_by_state :: "((string \<times> flow_bucket) \<times> rat) list"
  fp_intervals :: "scored list"
  fp_anomalies :: nat

definition uniq :: "'a list \<Rightarrow> 'a list" where
  "uniq xs = rev (remdups (rev xs))"

datatype flow_failure = FlowNotFound string | InvalidFlowRange string

definition profile_item ::
  "string \<Rightarrow> string \<Rightarrow> time option \<Rightarrow> time option \<Rightarrow> time \<Rightarrow> 'z flow_store_scheme \<Rightarrow> flow_failure + flow_profile" where
  "profile_item org wid from_t to_t now st =
     (case find (\<lambda>w. wi_id w = wid \<and> wi_org_id w = org) (work_items st) of
        None \<Rightarrow> Inl (FlowNotFound (''Work item '' @ quoted wid @ '' not found''))
      | Some w \<Rightarrow>
          (case parse_range from_t to_t False now of
             Inl e \<Rightarrow> Inl (InvalidFlowRange e)
           | Inr (f, t) \<Rightarrow>
               (let (is, anomalies) = score_item (flow_context_of org [w] st) f t now w
                in Inr \<lparr>fp_totals = totals_from (bucket_sums is),
                        fp_unclassified = uniq (map sd_state (filter (\<lambda>i. sd_class i = FUnclassified) is)),
                        fp_by_state = map (\<lambda>(k, v). (k, to_minutes v)) (state_sums is),
                        fp_intervals = is, fp_anomalies = anomalies\<rparr>)))"

text \<open>The accumulators of \<open>report\<close>: overall, by team, by item type and by state.\<close>

record report_acc =
  ra_overall :: bucket_ms
  ra_by_team :: "(string \<times> bucket_ms \<times> nat) list"
  ra_by_type :: "(string \<times> bucket_ms \<times> nat) list"
  ra_by_state :: "((string \<times> flow_bucket) \<times> int \<times> string list) list"
  ra_anomalies :: nat
  ra_counted :: nat

definition empty_report :: report_acc where
  "empty_report = \<lparr>ra_overall = empty_bucket_ms, ra_by_team = [], ra_by_type = [], ra_by_state = [],
     ra_anomalies = 0, ra_counted = 0\<rparr>"

definition add_group :: "string \<Rightarrow> bucket_ms \<Rightarrow> (string \<times> bucket_ms \<times> nat) list \<Rightarrow> (string \<times> bucket_ms \<times> nat) list" where
  "add_group k ms m = upsert k (empty_bucket_ms, 0) (\<lambda>(t, n). (add_bucket_ms t ms, n + 1)) m"

definition report_item :: "(work_item \<Rightarrow> scored list \<times> nat) \<Rightarrow> report_acc \<Rightarrow> work_item \<Rightarrow> report_acc" where
  "report_item score acc w =
     (let (is, anomalies) = score w; acc1 = acc\<lparr>ra_anomalies := ra_anomalies acc + anomalies\<rparr>; ms = bucket_sums is
      in if is = [] then acc1
         else acc1\<lparr>ra_counted := ra_counted acc1 + 1,
                   ra_overall := add_bucket_ms (ra_overall acc1) ms,
                   ra_by_team := add_group (wi_team_id w) ms (ra_by_team acc1),
                   ra_by_type := add_group (wi_type w) ms (ra_by_type acc1),
                   ra_by_state := foldl (\<lambda>m i. upsert (sd_state i, sd_class i) (0, [])
                       (\<lambda>(v, ids). (v + sd_ms i, if wi_id w \<in> set ids then ids else ids @ [wi_id w])) m)
                     (ra_by_state acc1) is\<rparr>)"

record flow_report =
  fr_considered :: nat
  fr_with_time :: nat
  fr_truncated :: bool
  fr_totals :: flow_totals
  fr_by_team :: "(string \<times> string option \<times> nat \<times> flow_totals) list"
  fr_by_type :: "(string \<times> nat \<times> flow_totals) list"
  fr_by_state :: "((string \<times> flow_bucket) \<times> nat \<times> rat) list"
  fr_unclassified :: "string list"
  fr_anomalies :: nat

definition flow_report_of ::
  "string \<Rightarrow> time option \<Rightarrow> time option \<Rightarrow> item_filter \<Rightarrow> time \<Rightarrow> 'z flow_store_scheme \<Rightarrow> flow_failure + flow_report" where
  "flow_report_of org from_t to_t f now st =
     (case parse_range from_t to_t True now of
        Inl e \<Rightarrow> Inl (InvalidFlowRange e)
      | Inr (from_t', to_t') \<Rightarrow>
          (let (items, truncated) = load_items org (the to_t') f st;
               ctx = flow_context_of org items st;
               acc = foldl (report_item (score_item ctx from_t' to_t' now)) empty_report items
           in Inr \<lparr>fr_considered = length items, fr_with_time = ra_counted acc, fr_truncated = truncated,
                fr_totals = totals_from (ra_overall acc),
                fr_by_team = sort_key (\<lambda>(_, _, _, t). - ft_elapsed t)
                  (map (\<lambda>(k, ms, n). (k, team_names org st k, n, totals_from ms)) (ra_by_team acc)),
                fr_by_type = sort_key (\<lambda>(_, _, t). - ft_elapsed t)
                  (map (\<lambda>(k, ms, n). (k, n, totals_from ms)) (ra_by_type acc)),
                fr_by_state = sort_key (\<lambda>(_, _, m). - m)
                  (map (\<lambda>(k, ms, ids). (k, length ids, to_minutes ms)) (ra_by_state acc)),
                fr_unclassified = sort (remdups (map (fst \<circ> fst) (filter (\<lambda>(k, _). snd k = FUnclassified) (ra_by_state acc)))),
                fr_anomalies = ra_anomalies acc\<rparr>))"

text \<open>The waits behind the wait-reason report; a row keeps its item and its scored interval.\<close>

record wait_row =
  wa_item :: work_item
  wa_team_name :: "string option"
  wa_scored :: scored
  wa_wait :: wait_info

definition item_waits :: "(string \<Rightarrow> string option) \<Rightarrow> work_item \<Rightarrow> scored list \<Rightarrow> wait_row list" where
  "item_waits names w is = List.map_filter (\<lambda>i. case sd_wait i of
     None \<Rightarrow> None
   | Some wt \<Rightarrow> if sd_ms i \<le> 0 then None
       else Some \<lparr>wa_item = w, wa_team_name = names (wi_team_id w), wa_scored = i, wa_wait = wt\<rparr>) is"

record waits =
  ws_rows :: "wait_row list"
  ws_total :: int
  ws_unclassified :: int
  ws_truncated :: bool
  ws_considered :: nat

definition collect_waits ::
  "string \<Rightarrow> time option \<Rightarrow> time option \<Rightarrow> item_filter \<Rightarrow> time \<Rightarrow> 'z flow_store_scheme \<Rightarrow> flow_failure + waits" where
  "collect_waits org from_t to_t f now st =
     (case parse_range from_t to_t True now of
        Inl e \<Rightarrow> Inl (InvalidFlowRange e)
      | Inr (from_t', to_t') \<Rightarrow>
          (let (items, truncated) = load_items org (the to_t') f st;
               ctx = flow_context_of org items st;
               all = map (\<lambda>w. (w, fst (score_item ctx from_t' to_t' now w))) items;
               rows = concat (map (\<lambda>(w, is). item_waits (team_names org st) w is) all)
           in Inr \<lparr>ws_rows = rows, ws_total = sum_list (map (sd_ms \<circ> wa_scored) rows),
                ws_unclassified = sum_list (map sd_ms (filter (\<lambda>i. sd_class i = FUnclassified) (concat (map snd all)))),
                ws_truncated = truncated, ws_considered = length items\<rparr>))"

record wait_group =
  wg_ms :: int
  wg_intervals :: nat
  wg_items :: "string list"
  wg_first :: wait_row

definition add_wait :: "wait_row \<Rightarrow> wait_group \<Rightarrow> wait_group" where
  "add_wait r g = \<lparr>wg_ms = wg_ms g + sd_ms (wa_scored r), wg_intervals = wg_intervals g + 1,
     wg_items = (if wi_id (wa_item r) \<in> set (wg_items g) then wg_items g else wg_items g @ [wi_id (wa_item r)]),
     wg_first = wg_first g\<rparr>"

definition group_waits :: "(wait_row \<Rightarrow> 'k option) \<Rightarrow> wait_row list \<Rightarrow> ('k \<times> wait_group) list" where
  "group_waits key rows =
     sort_key (\<lambda>(_, g). - wg_ms g)
       (foldl (\<lambda>m r. case key r of None \<Rightarrow> m
           | Some k \<Rightarrow> upsert k \<lparr>wg_ms = 0, wg_intervals = 0, wg_items = [], wg_first = r\<rparr> (add_wait r) m) [] rows)"

record wait_report =
  wp_waits :: waits
  wp_unattributed_share :: "rat option"
  wp_blocked_minutes :: rat
  wp_by_reason :: "(wait_category option \<times> wait_group) list"
  wp_by_team :: "(string \<times> wait_group) list"
  wp_by_blocker :: "(string \<times> wait_group) list"
  wp_by_blocking_team :: "(string \<times> wait_group) list"

definition wait_reasons ::
  "string \<Rightarrow> time option \<Rightarrow> time option \<Rightarrow> item_filter \<Rightarrow> time \<Rightarrow> 'z flow_store_scheme \<Rightarrow> flow_failure + wait_report" where
  "wait_reasons org from_t to_t f now st =
     and_then (collect_waits org from_t to_t f now st) (\<lambda>ws.
       let ms = (\<lambda>P. sum_list (map (sd_ms \<circ> wa_scored) (filter P (ws_rows ws))))
       in Inr \<lparr>wp_waits = ws,
            wp_unattributed_share = ratio (ms (\<lambda>r. wt_reason (wa_wait r) = None)) (ws_total ws),
            wp_blocked_minutes = to_minutes (ms (\<lambda>r. wt_blocker (wa_wait r) \<noteq> None)),
            wp_by_reason = group_waits (\<lambda>r. Some (wt_reason (wa_wait r))) (ws_rows ws),
            wp_by_team = group_waits (\<lambda>r. Some (wi_team_id (wa_item r))) (ws_rows ws),
            wp_by_blocker = group_waits (\<lambda>r. map_option bl_id (wt_blocker (wa_wait r))) (ws_rows ws),
            wp_by_blocking_team = group_waits (\<lambda>r. map_option bl_team_id (wt_blocker (wa_wait r))) (ws_rows ws)\<rparr>)"

text \<open>\<open>waitIntervals\<close>: the rows behind a figure, longest first, at most 1000 of them.\<close>

definition wait_intervals ::
  "string \<Rightarrow> time option \<Rightarrow> time option \<Rightarrow> item_filter \<Rightarrow> string option \<Rightarrow> string option \<Rightarrow> string option
   \<Rightarrow> time \<Rightarrow> 'z flow_store_scheme \<Rightarrow> flow_failure + wait_row list \<times> nat \<times> bool \<times> rat" where
  "wait_intervals org from_t to_t f reason blocking_item blocking_team now st =
     (let reason_text = (\<lambda>r. case wt_reason (wa_wait r) of None \<Rightarrow> ''unattributed'' | Some c \<Rightarrow> show_category c)
      in if (case or_null reason of None \<Rightarrow> False
               | Some s \<Rightarrow> s \<noteq> ''unattributed'' \<and> map_of wait_reason_categories s = None)
         then Inl (InvalidFlowRange (''reason '' @ quoted (case reason of None \<Rightarrow> [] | Some s \<Rightarrow> s) @ '' is not a known reason category''))
         else and_then (collect_waits org from_t to_t f now st) (\<lambda>ws.
           let matching = sort_key (\<lambda>r. - sd_ms (wa_scored r)) (filter (\<lambda>r. opt_is reason (Some (reason_text r)) \<and>
                 opt_is blocking_item (map_option bl_id (wt_blocker (wa_wait r))) \<and>
                 opt_is blocking_team (map_option bl_team_id (wt_blocker (wa_wait r)))) (ws_rows ws))
           in Inr (take 1000 matching, length matching, ws_truncated ws \<or> length matching > 1000,
                to_minutes (sum_list (map (sd_ms \<circ> wa_scored) matching)))))"

definition score_org :: "string \<Rightarrow> time \<Rightarrow> 'z flow_store_scheme \<Rightarrow> (work_item \<times> scored list \<times> nat) list \<times> bool" where
  "score_org org now st =
     (let (items, truncated) = load_items org now \<lparr>if_team = None, if_type = None, if_item = None\<rparr> st;
          ctx = flow_context_of org items st
      in (map (\<lambda>w. (w, score_item ctx None None now w)) items, truncated))"

subsection \<open>The history tiles the item's life\<close>

lemma business_empty [simp]: "b \<le> a \<Longrightarrow> business_ms a b cal = 0"
  by (simp add: business_ms_def)

lemma business_splits: "a \<le> b \<Longrightarrow> b \<le> c \<Longrightarrow> business_ms a c cal = business_ms a b cal + business_ms b c cal"
  using business_additive [of a b c] by (cases cal) (auto simp: business_ms_def)

definition tiled :: "state_interval list \<Rightarrow> time \<Rightarrow> bool" where
  "tiled is t \<longleftrightarrow> sorted_wrt (\<lambda>i j. si_end i \<le> si_start j) is \<and>
     (\<forall>i \<in> set is. si_start i < si_end i \<and> si_end i \<le> t)"

lemma tiled_close:
  "tiled (wk_intervals k) (wk_cursor k) \<Longrightarrow> wk_cursor k \<le> t \<Longrightarrow>
   tiled (wk_intervals (close_interval terminal t op k)) t"
  by (auto simp: tiled_def close_interval_def sorted_wrt_append)

lemma tiled_walk:
  assumes "tiled (wk_intervals k) (wk_cursor k)"
  shows "tiled (wk_intervals (walk_event terminal k e)) (wk_cursor (walk_event terminal k e))"
proof -
  obtain k1 where k1: "k1 = (case sc_from e of None \<Rightarrow> k
      | Some s \<Rightarrow> if s \<noteq> wk_state k then k\<lparr>wk_anomalies := wk_anomalies k + 1\<rparr> else k)" by simp
  then have t: "tiled (wk_intervals k1) (wk_cursor k1)"
    using assms by (auto split: option.splits)
  show ?thesis
    using t tiled_close [OF t, of "sc_at e" terminal False]
    by (simp add: walk_event_def Let_def flip: k1)
qed

lemma tiled_walks:
  "tiled (wk_intervals k) (wk_cursor k) \<Longrightarrow>
   tiled (wk_intervals (foldl (walk_event terminal) k es)) (wk_cursor (foldl (walk_event terminal) k es))"
  by (induction es arbitrary: k) (simp_all add: tiled_walk)

lemma close_shape:
  "wk_intervals (close_interval terminal t op k) = wk_intervals k \<or>
   wk_cursor k < t"
  by (simp add: close_interval_def)

lemma build_tiled: "\<exists>t. tiled (fst (build_intervals created current events now terminal)) t"
proof -
  let ?k = "foldl (walk_event terminal) (start_walk created current (sort_key sc_at events)) (sort_key sc_at events)"
  have t: "tiled (wk_intervals ?k) (wk_cursor ?k)"
    by (rule tiled_walks) (simp add: start_walk_def tiled_def)
  show ?thesis
    using t tiled_close [OF t, of now terminal True] close_shape [of terminal now True ?k]
    by (auto simp: build_intervals_def Let_def)
qed

subsection \<open>Windows\<close>

lemma clip_interval_fields [simp]:
  "si_state (clip_interval f t i) = si_state i" "si_reason (clip_interval f t i) = si_reason i"
  by (simp_all add: clip_interval_def Let_def)

lemma clip_start: "si_start (clip_interval (Some f) t i) = max f (si_start i)"
  by (simp add: clip_interval_def Let_def max_def)

lemma clip_end: "si_end (clip_interval f (Some t) i) = min t (si_end i)"
  by (simp add: clip_interval_def Let_def min_def)

lemma clip_inside: "si_start i \<le> si_start (clip_interval f t i) \<and> si_end (clip_interval f t i) \<le> si_end i"
  by (auto simp: clip_interval_def Let_def split: option.splits)

lemma clip_none [simp]: "clip_interval None None i = i"
  by (simp add: clip_interval_def)

lemma entered_of_clip:
  assumes "tiled built u" "i \<in> set built"
    and "si_state j = si_state i" "si_start i \<le> si_start j" "si_end j \<le> si_end i" "si_start j < si_end j"
  shows "entered_interval built j = Some i"
proof -
  have disj: "c = i" if "c \<in> set built" "si_start c \<le> si_start j" "si_end j \<le> si_end c" for c
  proof (rule ccontr)
    assume "c \<noteq> i"
    with assms(1,2) that(1) have "si_end c \<le> si_start i \<or> si_end i \<le> si_start c"
      by (auto simp: tiled_def sorted_wrt_iff_nth_less in_set_conv_nth) (metis linorder_neqE_nat)
    with that assms(4-6) show False by linarith
  qed
  show ?thesis
  proof (cases "entered_interval built j")
    case None
    with assms show ?thesis by (auto simp: entered_interval_def find_None_iff)
  next
    case (Some c)
    then show ?thesis
      using disj find_SomeD [of _ built c] by (auto simp: entered_interval_def)
  qed
qed

lemma bucket_sums_list: "bucket_sums is b = sum_list (map sd_ms (filter (\<lambda>i. sd_class i = b) is))"
proof -
  have "foldl (\<lambda>ms i. ms(sd_class i := ms (sd_class i) + sd_ms i)) z is b =
      z b + sum_list (map sd_ms (filter (\<lambda>i. sd_class i = b) is))" for z
    by (induction "is" arbitrary: z) auto
  from this [of empty_bucket_ms] show ?thesis by (simp add: bucket_sums_def empty_bucket_ms_def)
qed

lemma sum_filtered: "sum_list (map g (filter P xs)) = (\<Sum>x \<leftarrow> xs. if P x then g x else (0 :: int))"
  by (induction xs) auto

lemma scored_fields [simp]:
  "sd_class (score_interval ctx w built i) = rv_classification (fc_resolver ctx (Some (wi_team_id w)) (si_state i))"
  "sd_ms (score_interval ctx w built i) = business_ms (si_start i) (si_end i)
     (case fc_calendars ctx (flow_key (wi_type w) (si_state i)) of None \<Rightarrow> Cal24x7 | Some c \<Rightarrow> c)"
  by (simp_all add: score_interval_def Let_def)

lemma window_sum:
  "bucket_sums (fst (score_item ctx f t now w)) b =
    (\<Sum>i \<leftarrow> fst (item_history ctx now w).
       if rv_classification (fc_resolver ctx (Some (wi_team_id w)) (si_state i)) = b
       then business_ms (si_start (clip_interval f t i)) (si_end (clip_interval f t i))
         (case fc_calendars ctx (flow_key (wi_type w) (si_state i)) of None \<Rightarrow> Cal24x7 | Some c \<Rightarrow> c) else 0)"
proof -
  have "sum_list (map sd_ms (filter (\<lambda>i. sd_class i = b) (map (score_interval ctx w built)
        (filter (\<lambda>i. si_end i > si_start i) (map (clip_interval f t) is))))) =
     (\<Sum>i \<leftarrow> is. if rv_classification (fc_resolver ctx (Some (wi_team_id w)) (si_state i)) = b
       then business_ms (si_start (clip_interval f t i)) (si_end (clip_interval f t i))
         (case fc_calendars ctx (flow_key (wi_type w) (si_state i)) of None \<Rightarrow> Cal24x7 | Some c \<Rightarrow> c) else 0)" for built "is"
    by (induction "is") (auto simp: not_less)
  then show ?thesis
    by (simp add: bucket_sums_list score_item_def clip_intervals_def case_prod_beta)
qed

lemma clipped_split:
  assumes "f \<le> m" "m \<le> t" "s < e"
  shows "business_ms (max f s) (min m e) cal + business_ms (max m s) (min t e) cal = business_ms (max f s) (min t e) cal"
proof -
  consider "e \<le> m" | "m \<le> s" | "s < m" "m < e" by linarith
  then show ?thesis
  proof cases
    case 3
    then have "business_ms (max f s) (min t e) cal = business_ms (max f s) m cal + business_ms m (min t e) cal"
      using assms by (intro business_splits) auto
    with 3 show ?thesis by (simp add: min_def max_def)
  qed (use assms in \<open>auto simp: min_def max_def\<close>)
qed

lemma window_tile:
  assumes "i \<in> set (fst (item_history ctx now w))" "f \<le> m" "m \<le> t"
  shows "business_ms (si_start (clip_interval (Some f) (Some m) i)) (si_end (clip_interval (Some f) (Some m) i)) cal +
    business_ms (si_start (clip_interval (Some m) (Some t) i)) (si_end (clip_interval (Some m) (Some t) i)) cal =
    business_ms (si_start (clip_interval (Some f) (Some t) i)) (si_end (clip_interval (Some f) (Some t) i)) cal"
proof -
  have "si_start i < si_end i"
    using assms(1) build_tiled by (fastforce simp: item_history_def tiled_def)
  then show ?thesis
    using clipped_split [OF assms(2,3)] by (simp add: clip_start clip_end)
qed

text \<open>Reports over adjacent windows add up: the time of every bucket in the window from f to
  m and in the window from m to t is together the time in the window from f to t, for every
  item, history, classification and calendar assignment.\<close>

lemma flow_windows_add_up:
  assumes "f \<le> m" "m \<le> t"
  shows "bucket_sums (fst (score_item ctx (Some f) (Some m) now w)) b +
     bucket_sums (fst (score_item ctx (Some m) (Some t) now w)) b =
     bucket_sums (fst (score_item ctx (Some f) (Some t) now w)) b"
  unfolding window_sum sum_list_addf [symmetric]
  using window_tile [OF _ assms] by (intro arg_cong [where f = sum_list] map_cong) auto

definition sample_flow :: flow_context where
  "sample_flow = \<lparr>fc_resolver = \<lambda>team s. if s = ''In Review''
       then \<lparr>rv_classification = FWaiting, rv_default_reason = Some Approval, rv_version = Some 1\<rparr>
       else \<lparr>rv_classification = FActive, rv_default_reason = None, rv_version = Some 1\<rparr>,
     fc_calendars = (\<lambda>k. None), fc_terminal = (\<lambda>ty. Some [''Closed'']),
     fc_blockers = (\<lambda>i. [\<lparr>bl_id = ''b1'', bl_key = ''B-1'', bl_team_id = ''t2'', bl_team_name = None,
        bl_linked_at = 500, bl_closed_at = None\<rparr>]),
     fc_events = (\<lambda>i. [\<lparr>sc_at = 400, sc_from = Some ''In Progress'', sc_to = ''In Review'', sc_reason = None\<rparr>,
        \<lparr>sc_at = 900, sc_from = Some ''In Review'', sc_to = ''Closed'', sc_reason = None\<rparr>])\<rparr>"

definition sample_flow_item :: work_item where
  "sample_flow_item = sample_item\<lparr>wi_created_at := 100, wi_status := ''Closed''\<rparr>"

lemmas flow_eval = score_item_def item_history_def build_intervals_def start_walk_def walk_event_def
  close_interval_def clip_intervals_def clip_interval_def sample_flow_def sample_flow_item_def score_interval_def
  attribute_wait_def applicable_blockers_def entered_interval_def business_ms_def Let_def

lemma sample_scores:
  "bucket_sums (fst (score_item sample_flow (Some 0) (Some 600) 2000 sample_flow_item)) FWaiting = 200"
  "bucket_sums (fst (score_item sample_flow (Some 600) (Some 1500) 2000 sample_flow_item)) FWaiting = 300"
  by (simp_all add: bucket_sums_list flow_eval)

text \<open>A report window never changes why an item waited: every scored interval of a window lies
  inside one interval of the unrestricted profile, with the same state, class, calendar, reason,
  source and blocking item.\<close>

lemma window_keeps_attribution:
  assumes "i \<in> set (fst (score_item ctx f t now w))"
  shows "\<exists>j \<in> set (fst (score_item ctx None None now w)).
     sd_start j \<le> sd_start i \<and> sd_end i \<le> sd_end j \<and> sd_state i = sd_state j \<and> sd_class i = sd_class j \<and>
     sd_calendar i = sd_calendar j \<and> sd_wait i = sd_wait j"
proof -
  let ?built = "fst (item_history ctx now w)"
  obtain u where u: "tiled ?built u"
    using build_tiled unfolding item_history_def by blast
  obtain c where c: "c \<in> set ?built" and i: "i = score_interval ctx w ?built (clip_interval f t c)"
      and ne: "si_start (clip_interval f t c) < si_end (clip_interval f t c)"
    using assms by (auto simp: score_item_def clip_intervals_def case_prod_beta)
  have pos: "si_start c < si_end c" using u c by (simp add: tiled_def)
  have "entered_interval ?built (clip_interval f t c) = Some c"
    using clip_inside [of c f t] ne by (intro entered_of_clip [OF u c]) auto
  moreover have "entered_interval ?built c = Some c"
    using pos by (intro entered_of_clip [OF u c]) auto
  ultimately have "sd_wait i = sd_wait (score_interval ctx w ?built c)" "sd_calendar i = sd_calendar (score_interval ctx w ?built c)"
    by (simp_all add: i score_interval_def Let_def)
  moreover have "score_interval ctx w ?built c \<in> set (fst (score_item ctx None None now w))"
    using c pos by (auto simp: score_item_def clip_intervals_def case_prod_beta)
  ultimately show ?thesis
    using clip_inside [of c f t] by (intro bexI) (auto simp: i score_interval_def Let_def)
qed

text \<open>
  The terminal states of a profile are those of the highest published version, not of the version the
  item is pinned to: a publication restates the history of items that still follow the old one.
\<close>

lemma publication_restates_terminal:
  assumes "publish_workflow (\<lambda>s. s) fresh now d st = Inr (row, st')"
  shows "terminal_of st' (wd_type d) = wd_terminal d"
proof -
  have "\<forall>r \<in> set (filter (\<lambda>r. pw_type r = wd_type d) (workflow_rows st)). pw_version r < max_version (wd_type d) (workflow_rows st) + 1"
    by (auto simp: max_version_def filter_empty_conv split: option.splits dest: max_by_Some)
  moreover have row: "workflow_rows st' = workflow_rows st @ [row]" "pw_type row = wd_type d" "pw_definition row = d"
      "pw_version row = max_version (wd_type d) (workflow_rows st) + 1"
    using assms by (auto simp: publish_workflow_def Let_def split: prod.splits bool.splits)
  ultimately have "max_by pw_version (filter (\<lambda>r. pw_type r = wd_type d) (workflow_rows st')) = Some row"
    by (force intro: max_by_snoc)
  then show ?thesis by (simp add: terminal_of_def get_workflow_definition_def row)
qed

subsection \<open>The report\<close>

lemma sum_upsert:
  assumes "\<And>v. g (k, h v) = g (k, v) + (c :: int)" "g (k, d) = 0"
  shows "sum_list (map g (upsert k d h m)) = sum_list (map g m) + c"
  using assms by (induction m) (auto simp: ac_simps)

lemma add_bucket: "add_bucket_ms t s b = t b + s b"
  by (cases b) (simp_all add: add_bucket_ms_def flow_buckets_def)

definition group_ms :: "(string \<times> bucket_ms \<times> nat) list \<Rightarrow> bucket_ms" where
  "group_ms m b = sum_list (map (\<lambda>e. fst (snd e) b) m)"

definition group_items :: "(string \<times> bucket_ms \<times> nat) list \<Rightarrow> int" where
  "group_items m = sum_list (map (\<lambda>e. int (snd (snd e))) m)"

definition state_ms :: "((string \<times> flow_bucket) \<times> int \<times> string list) list \<Rightarrow> bucket_ms" where
  "state_ms m b = sum_list (map (\<lambda>e. if snd (fst e) = b then fst (snd e) else 0) m)"

lemma add_group_ms: "group_ms (add_group k ms m) b = group_ms m b + ms b"
  unfolding group_ms_def add_group_def
  by (intro sum_upsert) (auto simp: add_bucket empty_bucket_ms_def)

lemma add_group_items: "group_items (add_group k ms m) = group_items m + 1"
  unfolding group_items_def add_group_def by (intro sum_upsert) auto

lemma state_fold_ms:
  "state_ms (foldl (\<lambda>m i. upsert (sd_state i, sd_class i) (0, []) (\<lambda>(v, ids). (v + sd_ms i, g ids)) m) m is) b =
   state_ms m b + bucket_sums is b"
proof (induction "is" arbitrary: m)
  case Nil
  then show ?case by (simp add: bucket_sums_list)
next
  case (Cons i "is")
  have "state_ms (upsert (sd_state i, sd_class i) (0, []) (\<lambda>(v, ids). (v + sd_ms i, g ids)) m) b =
      state_ms m b + (if sd_class i = b then sd_ms i else 0)"
    unfolding state_ms_def by (intro sum_upsert) auto
  with Cons show ?case by (simp add: bucket_sums_list)
qed

definition report_balanced :: "report_acc \<Rightarrow> bool" where
  "report_balanced acc \<longleftrightarrow>
     group_ms (ra_by_team acc) = ra_overall acc \<and> group_ms (ra_by_type acc) = ra_overall acc \<and>
     state_ms (ra_by_state acc) = ra_overall acc \<and>
     group_items (ra_by_team acc) = int (ra_counted acc) \<and> group_items (ra_by_type acc) = int (ra_counted acc)"

lemma report_item_balanced:
  assumes "report_balanced acc"
  shows "report_balanced (report_item score acc w)"
proof -
  obtain is' n where "score w = (is', n)" by (cases "score w")
  with assms show ?thesis
    by (simp add: report_balanced_def report_item_def Let_def fun_eq_iff add_group_ms add_group_items
        add_bucket state_fold_ms)
qed

lemma report_items_balanced: "report_balanced acc \<Longrightarrow> report_balanced (foldl (report_item score) acc items)"
  by (induction items arbitrary: acc) (simp_all add: report_item_balanced)

text \<open>Every breakdown of the flow report accounts for all of its time: by team, by item type and by
  state the times of each bucket sum to the overall figure, and the teams and the types each count
  every item with time exactly once.\<close>

lemma flow_report_adds_up:
  "let acc = foldl (report_item (score_item ctx f t now)) empty_report items
   in group_ms (ra_by_team acc) = ra_overall acc \<and> group_ms (ra_by_type acc) = ra_overall acc \<and>
      state_ms (ra_by_state acc) = ra_overall acc \<and>
      group_items (ra_by_team acc) = int (ra_counted acc) \<and> group_items (ra_by_type acc) = int (ra_counted acc)"
proof -
  have "report_balanced (foldl (report_item (score_item ctx f t now)) empty_report items)"
    by (rule report_items_balanced)
      (simp add: report_balanced_def empty_report_def group_ms_def group_items_def state_ms_def empty_bucket_ms_def fun_eq_iff)
  then show ?thesis by (simp add: report_balanced_def Let_def)
qed

subsection \<open>Classifications take effect once\<close>

lemma distinct_map_filter:
  assumes "distinct xs" "\<And>x y. x \<in> set xs \<Longrightarrow> f x = Some y \<Longrightarrow> h y = g x" "inj_on g (set xs)"
  shows "distinct (map h (List.map_filter f xs))"
  using assms
proof (induction xs)
  case (Cons x xs)
  then have IH: "distinct (map h (List.map_filter f xs))" by (auto simp: inj_on_def)
  show ?case
  proof (cases "f x")
    case (Some y)
    have "h z \<noteq> h y" if z: "z \<in> set (List.map_filter f xs)" for z
    proof -
      obtain x' where x': "x' \<in> set xs" "f x' = Some z" using z by (auto simp: set_map_filter)
      then have "h z = g x'" "h y = g x" using Cons.prems(2) Some by auto
      moreover have "g x' \<noteq> g x" using Cons.prems(1,3) x' by (auto simp: inj_on_def)
      ultimately show ?thesis by simp
    qed
    then show ?thesis using IH Some by (force simp: List.map_filter_def)
  qed (use IH in \<open>simp add: List.map_filter_def\<close>)
qed (simp add: List.map_filter_def)

lemma scope_row_max:
  "max_by cr_version (scope_rows org rows team state) = Some r \<Longrightarrow>
   r \<in> set rows \<and> cr_org_id r = org \<and> cr_team_id r = team \<and> cr_state r = state"
  using max_by_Some [of cr_version "scope_rows org rows team state" r] by (simp add: scope_rows_def)

text \<open>For one scope the list holds the highest version of each state.\<close>

lemma list_scope:
  "r \<in> set (list_classifications org (Some team) rows) \<longleftrightarrow>
     max_by cr_version (scope_rows org rows team (cr_state r)) = Some r"
  "distinct (map cr_state (list_classifications org (Some team) rows))"
proof -
  let ?mine = "filter (\<lambda>r. cr_org_id r = org \<and> cr_team_id r = team) rows"
  let ?pick = "\<lambda>k. max_by cr_version (filter (\<lambda>r. (scope_id (cr_team_id r), cr_state r) = k) ?mine)"
  let ?keys = "sort_key fst (sort_key snd (remdups (map (\<lambda>r. (scope_id (cr_team_id r), cr_state r)) ?mine)))"
  have list: "list_classifications org (Some team) rows = List.map_filter ?pick ?keys"
    by (simp add: list_classifications_def)
  have "filter (\<lambda>r. (scope_id (cr_team_id r), cr_state r) = (scope_id team, state)) ?mine = scope_rows org rows team state" for state
    by (induction rows) (auto simp: scope_rows_def)
  then have pick: "?pick (scope_id team, state) = max_by cr_version (scope_rows org rows team state)" for state by simp
  have keys: "set ?keys = (\<lambda>r. (scope_id team, cr_state r)) ` set ?mine" by (auto simp: image_iff)
  show "r \<in> set (list_classifications org (Some team) rows) \<longleftrightarrow>
      max_by cr_version (scope_rows org rows team (cr_state r)) = Some r"
  proof
    assume "r \<in> set (list_classifications org (Some team) rows)"
    then obtain state where "max_by cr_version (scope_rows org rows team state) = Some r"
      unfolding list set_map_filter keys using pick by auto
    moreover from scope_row_max [OF this] have "state = cr_state r" by simp
    ultimately show "max_by cr_version (scope_rows org rows team (cr_state r)) = Some r" by simp
  next
    assume r: "max_by cr_version (scope_rows org rows team (cr_state r)) = Some r"
    show "r \<in> set (list_classifications org (Some team) rows)"
      unfolding list set_map_filter keys using pick [of "cr_state r"] r scope_row_max [OF r] by auto
  qed
  have "cr_state r = snd k" if "k \<in> set ?keys" "?pick k = Some r" for k r
    using that scope_row_max pick unfolding keys by fastforce
  moreover have "inj_on snd (set ?keys)" unfolding keys by (auto simp: inj_on_def)
  moreover have "distinct ?keys" by simp
  ultimately show "distinct (map cr_state (list_classifications org (Some team) rows))"
    unfolding list by (intro distinct_map_filter)
qed

lemma current_is_max:
  "current_classifications org team rows state = max_by cr_version (scope_rows org rows team state)"
proof -
  let ?L = "list_classifications org (Some team) rows"
  have map_of: "current_classifications org team rows state = Some r \<longleftrightarrow> r \<in> set ?L \<and> cr_state r = state" for r
  proof -
    have "distinct (map fst (rev (map (\<lambda>r. (cr_state r, r)) ?L)))"
      using list_scope(2) [of org team rows] by (simp add: rev_map [symmetric] o_def)
    then show ?thesis
      by (auto simp: current_classifications_def map_of_eq_Some_iff)
  qed
  show ?thesis
  proof (cases "max_by cr_version (scope_rows org rows team state)")
    case None
    have "current_classifications org team rows state \<noteq> Some r" for r
      using None map_of [of r] list_scope(1) [of r] by auto
    with None show ?thesis by auto
  next
    case (Some r)
    then show ?thesis using map_of [of r] list_scope(1) [of r] scope_row_max [OF Some] by auto
  qed
qed

lemma scope_rows_append:
  "scope_rows org (rows @ [r]) team s =
     scope_rows org rows team s @ (if cr_org_id r = org \<and> cr_team_id r = team \<and> cr_state r = s then [r] else [])"
  by (simp add: scope_rows_def)

lemma next_version_is_current:
  assumes "current_classifications org team rows s = previous" "cr_org_id r = org" "cr_team_id r = team" "cr_state r = s"
    and "cr_version r = (case previous of None \<Rightarrow> 0 | Some p \<Rightarrow> cr_version p) + 1"
  shows "current_classifications org team (rows @ [r]) s = Some r"
proof -
  have "cr_version x < cr_version r" if "x \<in> set (scope_rows org rows team s)" for x
    using that assms(1,5) max_by_Some [of cr_version "scope_rows org rows team s"]
    unfolding current_is_max by (cases "max_by cr_version (scope_rows org rows team s)") auto
  then show ?thesis using assms(2-4) by (simp add: current_is_max scope_rows_append max_by_snoc)
qed

lemma other_state_current:
  "cr_state r \<noteq> s \<Longrightarrow> current_classifications org team (rows @ [r]) s = current_classifications org team rows s"
  by (simp add: current_is_max scope_rows_append)

lemma enqueue_flow_tables:
  assumes "enqueue sha quiet fresh now i st = Inr (ev, st')"
  shows "store.more st' = store.more st"
  using assms append_frame by (fastforce simp: enqueue_Inr)

lemma insert_classification_Inr:
  "insert_classification row st = Inr st' \<Longrightarrow> st' = st\<lparr>flow_classifications := flow_classifications st @ [row]\<rparr>"
  by (auto simp: insert_classification_def split: if_splits)

lemma flow_tables_cong:
  "store.more st' = store.more (st :: 'z flow_store_scheme) \<Longrightarrow>
   flow_classifications st' = flow_classifications st \<and> teams st' = teams st"
  by (cases st; cases st') auto

definition entry_holds ::
  "string option \<Rightarrow> (string \<Rightarrow> classification_row option) \<Rightarrow> (string \<Rightarrow> classification_row option) \<Rightarrow> classification_entry \<Rightarrow> bool" where
  "entry_holds team previous present e \<longleftrightarrow>
     already_set team (present (fst e)) (fst (snd e)) (wanted_reason (previous (fst e)) (snd (snd e)))"

lemma classify_all_effect:
  assumes "classify_all sha quiet fresh now org actor team current es run st = Inr (run', st')"
    and "distinct (map fst es)"
    and "\<And>s. s \<in> fst ` set es \<Longrightarrow>
      current s = current_classifications org (map_option lower team) (flow_classifications st) s"
  shows "teams st' = teams st \<and> (\<exists>new. flow_classifications st' = flow_classifications st @ new) \<and>
    (\<forall>s. s \<notin> fst ` set es \<longrightarrow>
       current_classifications org (map_option lower team) (flow_classifications st') s =
       current_classifications org (map_option lower team) (flow_classifications st) s) \<and>
    (\<forall>e \<in> set es. entry_holds team current
       (current_classifications org (map_option lower team) (flow_classifications st')) e)"
  using assms
proof (induction es arbitrary: run st)
  case (Cons e es)
  obtain s c reason where e: "e = (s, c, reason)" by (cases e) auto
  let ?cur = "\<lambda>st. current_classifications org (map_option lower team) (flow_classifications st)"
  let ?w = "wanted_reason (current s) reason"
  have s: "s \<notin> fst ` set es" "current s = ?cur st s" using Cons.prems(2,3) e by force+
  show ?case
  proof (cases "already_set team (current s) c ?w")
    case True
    with Cons.prems(1) e have "classify_all sha quiet fresh now org actor team current es
        (run\<lparr>cl_unchanged := cl_unchanged run + 1\<rparr>) st = Inr (run', st')" by simp
    from Cons.IH [OF this] Cons.prems(2,3) e
    have IH: "teams st' = teams st \<and> (\<exists>new. flow_classifications st' = flow_classifications st @ new) \<and>
        (\<forall>s. s \<notin> fst ` set es \<longrightarrow> ?cur st' s = ?cur st s) \<and> (\<forall>e \<in> set es. entry_holds team current (?cur st') e)"
      by auto
    then show ?thesis using True s e by (auto simp: entry_holds_def)
  next
    case False
    obtain rid eid where ids: "fresh (length (cl_changed run)) = (rid, eid)" by fastforce
    define row where "row = \<lparr>cr_id = rid, cr_org_id = org, cr_team_id = map_option lower team, cr_state = s,
       cr_classification = c, cr_default_reason = ?w,
       cr_version = (case current s of None \<Rightarrow> 0 | Some p \<Rightarrow> cr_version p) + 1,
       cr_changed_by = actor, cr_created_at = now\<rparr>"
    obtain st1 ev st2 where st1: "insert_classification row st = Inr st1"
        and st2: "enqueue sha quiet eid now (classification_event org actor team (current s) row) st1 = Inr (ev, st2)"
        and rest: "classify_all sha quiet fresh now org actor team current es
          (run\<lparr>cl_changed := cl_changed run @ [row], cl_events := cl_events run @ [ev]\<rparr>) st2 = Inr (run', st')"
      using Cons.prems(1) False e ids by (auto simp: and_then_Inr Let_def row_def)
    have tables: "flow_classifications st2 = flow_classifications st @ [row]" "teams st2 = teams st"
      using flow_tables_cong [OF enqueue_flow_tables [OF st2]] insert_classification_Inr [OF st1] by simp_all
    have cur: "?cur st2 s = Some row"
      unfolding tables using s(2) by (intro next_version_is_current) (auto simp: row_def)
    have other: "?cur st2 x = ?cur st x" if "x \<noteq> s" for x
      unfolding tables using that by (intro other_state_current) (simp add: row_def)
    have same: "current x = ?cur st2 x" if x: "x \<in> fst ` set es" for x
    proof -
      have "x \<noteq> s" using s(1) x by auto
      then show ?thesis using other [of x] Cons.prems(3) [of x] x by auto
    qed
    from Cons.IH [OF rest _ same] Cons.prems(2)
    have IH: "teams st' = teams st2 \<and> (\<exists>new. flow_classifications st' = flow_classifications st2 @ new) \<and>
        (\<forall>s. s \<notin> fst ` set es \<longrightarrow> ?cur st' s = ?cur st2 s) \<and> (\<forall>e \<in> set es. entry_holds team current (?cur st') e)"
      by simp
    moreover have "already_set team (Some row) c ?w" by (simp add: already_set_def row_def)
    ultimately show ?thesis using s cur other e by (auto simp: tables entry_holds_def)
  qed
qed simp

lemma classify_all_silent:
  assumes "\<And>e. e \<in> set es \<Longrightarrow> already_set team (current (fst e)) (fst (snd e)) (wanted_reason (current (fst e)) (snd (snd e)))"
  shows "classify_all sha env fresh now org actor team current es run st =
    Inr (run\<lparr>cl_unchanged := cl_unchanged run + length es\<rparr>, st)"
  using assms
proof (induction es arbitrary: run)
  case (Cons e es)
  obtain s c reason where "e = (s, c, reason)" by (cases e) auto
  with Cons.prems(1) [of e] Cons.IH Cons.prems show ?case by simp
qed simp

lemma entry_holds_again:
  "entry_holds team previous present e \<Longrightarrow>
   already_set team (present (fst e)) (fst (snd e)) (wanted_reason (present (fst e)) (snd (snd e)))"
  by (auto simp: entry_holds_def already_set_def wanted_reason_def split: option.splits)

lemma parse_entry_state: "parse_entry v seen = Inr e \<Longrightarrow> fst e \<notin> fst ` set seen"
  unfolding parse_entry_def Let_def
  by (simp split: if_splits option.splits) (metis fst_conv)+

lemma parse_entries_shape:
  "parse_entries vs seen = Inr es \<Longrightarrow> distinct (map fst seen) \<Longrightarrow>
   distinct (map fst es) \<and> length es = length seen + length vs"
proof (induction vs seen rule: parse_entries.induct)
  case (2 v vs seen)
  then obtain e where e: "parse_entry v seen = Inr e" "parse_entries vs (seen @ [e]) = Inr es"
    by (auto simp: and_then_Inr)
  with 2 parse_entry_state [OF e(1)] show ?case by fastforce
qed simp

lemma dispatch_flow_tables:
  "store.more (snd (dispatch_all (publish_envelope (store_bus sha quiet)) now evs st)) = store.more st"
proof (induction evs arbitrary: st)
  case (Cons ev evs)
  have "store.more (snd (dispatch_envelope (publish_envelope (store_bus sha quiet)) now ev st)) = store.more st"
    by (simp add: sb.dispatch_ok bus_tables)
  with Cons show ?case by (simp add: Let_def case_prod_beta)
qed simp

abbreviation save_classifications ::
  "(string \<Rightarrow> string) \<Rightarrow> (nat \<Rightarrow> uuid \<times> uuid) \<Rightarrow> time \<Rightarrow> string \<Rightarrow> string \<Rightarrow> string option \<Rightarrow> jsval
   \<Rightarrow> 'z flow_store_scheme \<Rightarrow> flow_error + (classification_row list \<times> nat) \<times> 'z flow_store_scheme" where
  "save_classifications sha \<equiv> set_classifications sha quiet (publish_envelope (store_bus sha quiet)) (\<lambda>st. st)"

text \<open>Classifications are an append-only history and saving is idempotent: a save keeps every earlier
  version, and sending the same entries again, by anyone and at any later time, changes no row,
  announces nothing and reports every entry as unchanged.\<close>

lemma classification_resave_is_silent:
  assumes "save_classifications sha fresh now org actor team (JArr vs) st = Inr ((changed, n), st')"
  shows "(\<exists>new. flow_classifications st' = flow_classifications st @ new) \<and>
    save_classifications sha fresh' now' org actor' team (JArr vs) st' = Inr (([], length vs), st')"
proof -
  let ?team = "map_option lower team"
  let ?none = "\<lparr>cl_changed = [], cl_unchanged = 0, cl_events = []\<rparr>"
  obtain es run st1 where es: "parse_entries vs [] = Inr es"
      and run: "classify_all sha quiet fresh now org actor team
        (current_classifications org ?team (flow_classifications st)) es ?none st = Inr (run, st1)"
      and st': "st' = snd (dispatch_all (publish_envelope (store_bus sha quiet)) now (cl_events run) st1)"
      and guards: "vs \<noteq> []" "length vs \<le> 200" "\<not> (case team of None \<Rightarrow> False | Some t \<Rightarrow> \<not> uuid_text t)"
        "\<not> (case team of None \<Rightarrow> False | Some t \<Rightarrow> \<forall>(i, o', _) \<in> set (teams st). \<not> (i = lower t \<and> o' = org))"
    using assms by (auto simp: set_classifications_def and_then_Inr Let_def split: if_splits sum.splits)
  have shape: "distinct (map fst es)" "length es = length vs" using parse_entries_shape [OF es] by auto
  have tables: "flow_classifications st' = flow_classifications st1" "teams st' = teams st1"
    using flow_tables_cong [OF dispatch_flow_tables] unfolding st' by auto
  have effect: "teams st' = teams st" "\<exists>new. flow_classifications st' = flow_classifications st @ new"
      "\<forall>e \<in> set es. entry_holds team (current_classifications org ?team (flow_classifications st))
         (current_classifications org ?team (flow_classifications st')) e"
    using classify_all_effect [OF run shape(1) refl] unfolding tables by auto
  have "classify_all sha quiet fresh' now' org actor' team
      (current_classifications org ?team (flow_classifications st')) es ?none st' =
      Inr (?none\<lparr>cl_unchanged := length es\<rparr>, st')"
    using classify_all_silent [of es team "current_classifications org ?team (flow_classifications st')"
        sha quiet fresh' now' org actor' ?none st'] effect(3) entry_holds_again by fastforce
  moreover note guards(4) [folded effect(1)]
  ultimately show ?thesis
    using es guards(1-3) shape(2) effect(2)
    by (simp add: set_classifications_def Let_def del: parse_entries.simps)
qed

definition sample_flow_store :: flow_store where
  "sample_flow_store = \<lparr>work_items = [sample_item], domain_events = [], audit_events = [], integrity = [],
     integrity_seq = 1, outbox = [], emitted = [], sla_policies = [], sla_emissions = [],
     escalation_settings = [], people = [], escalation_targets = [], workflow_rows = [],
     flow_classifications = [], item_links = [], teams = []\<rparr>"

end
