(* ===== verification/FlowRisk.thy ===== *)
theory FlowRisk
  imports FlowProfile
begin

text \<open>
  The risk of waiting too long and the cost of delay: \<^verbatim>\<open>src/modules/flow/flow-risk.ts\<close>,
  \<^verbatim>\<open>flow-risk.service.ts\<close> and the pure part of \<^verbatim>\<open>cost-of-delay.ts\<close>.

  Durations, percentiles and costs are exact rationals. The percentile threshold of a tenant is kept
  as the number text that was saved, which is also the text its events carry. \<open>fresh n\<close> is the id of
  the event of the \<open>n\<close>-th crossing of a pass, \<open>wall\<close> the database clock.
\<close>

subsection \<open>The empirical distribution\<close>

datatype probability_basis = ConditionalEmpirical | AlreadyPastTarget | NoSlaTarget | BeyondHistory

record risk_score =
  ks_percentile :: rat
  ks_probability :: "rat option"
  ks_basis :: probability_basis
  ks_sample_size :: nat
  ks_sample_items :: nat
  ks_min_sample :: int
  ks_current_wait :: rat
  ks_target :: "int option"

datatype risk_result =
    InsufficientHistory nat nat int string
  | ScoredRisk risk_score

definition round4 :: "rat \<Rightarrow> rat" where
  "round4 x = of_int (js_round (x * 10000)) / 10000"

definition round2 :: "rat \<Rightarrow> rat" where
  "round2 x = of_int (js_round (x * 100)) / 100"

definition count_if :: "('a \<Rightarrow> bool) \<Rightarrow> 'a list \<Rightarrow> nat" where
  "count_if P xs = length (filter P xs)"

definition percentile_of :: "rat list \<Rightarrow> rat \<Rightarrow> rat" where
  "percentile_of samples x =
     round4 ((of_nat (count_if (\<lambda>d. d < x) samples) + of_nat (count_if (\<lambda>d. d = x) samples) / 2) / of_nat (length samples))"

definition exceed_probability :: "rat list \<Rightarrow> rat \<Rightarrow> int option \<Rightarrow> rat option \<times> probability_basis" where
  "exceed_probability samples x target = (case target of
     None \<Rightarrow> (None, NoSlaTarget)
   | Some t \<Rightarrow>
       if x \<ge> of_int t then (Some 1, AlreadyPastTarget)
       else (let going = filter (\<lambda>d. d > x) samples
             in if going = [] then (None, BeyondHistory)
                else (Some (round4 (of_nat (count_if (\<lambda>d. d > of_int t) going) / of_nat (length going))), ConditionalEmpirical)))"

text \<open>With \<open>minSample\<close> at least 1 the sample of a scored wait is not empty.\<close>

definition assess_risk :: "rat list \<Rightarrow> nat \<Rightarrow> rat \<Rightarrow> int option \<Rightarrow> int \<Rightarrow> risk_result" where
  "assess_risk samples items x target min_sample =
     (if int items < min_sample
      then InsufficientHistory (length samples) items min_sample
        (''History is insufficient: '' @ show_nat items @ '' comparable item'' @ (if items = 1 then '' has'' else ''s have'') @
         '' completed this state and at least '' @ show_int min_sample @ '' are required, so no risk score is produced.'')
      else let (p, basis) = exceed_probability samples x target
           in ScoredRisk \<lparr>ks_percentile = percentile_of samples x, ks_probability = p, ks_basis = basis,
                ks_sample_size = length samples, ks_sample_items = items, ks_min_sample = min_sample,
                ks_current_wait = round2 x, ks_target = target\<rparr>)"

lemma js_round_numeral [simp]: "js_round (numeral n) = numeral n"
  using js_round_of_int [of "numeral n"] by simp

subsection \<open>Settings\<close>

record risk_settings =
  rk_org_id :: string
  rk_min_sample :: int
  rk_threshold :: string
  rk_lookback_days :: int

record wait_risk_row =
  kr_item :: string
  kr_state :: string
  kr_entered_at :: time
  kr_org_id :: string
  kr_team_id :: string
  kr_item_type :: string
  kr_result :: risk_result
  kr_threshold :: string
  kr_above :: bool
  kr_notified_count :: nat
  kr_last_notified_at :: "time option"
  kr_active :: bool
  kr_evaluated_at :: time

record risk_store = flow_store +
  risk_settings_rows :: "risk_settings list"
  wait_risks :: "wait_risk_row list"
  orgs :: "string list"

definition default_risk_settings :: "string \<Rightarrow> risk_settings" where
  "default_risk_settings org = \<lparr>rk_org_id = org, rk_min_sample = 10, rk_threshold = ''0.9'', rk_lookback_days = 180\<rparr>"

text \<open>The settings of a tenant, and whether they are the defaults.\<close>

definition get_risk_settings :: "string \<Rightarrow> 'z risk_store_scheme \<Rightarrow> risk_settings \<times> bool" where
  "get_risk_settings org st =
     (case find (\<lambda>r. rk_org_id r = org) (risk_settings_rows st) of
        None \<Rightarrow> (default_risk_settings org, True)
      | Some r \<Rightarrow> (r, False))"

definition number_text :: "jsval \<Rightarrow> rat option" where
  "number_text v = (case v of JNum t \<Rightarrow> read_decimal t | _ \<Rightarrow> None)"

definition whole_in :: "jsval \<Rightarrow> int \<Rightarrow> int \<Rightarrow> int option" where
  "whole_in v lo hi = (case number_text v of
     None \<Rightarrow> None
   | Some r \<Rightarrow> if r = of_int \<lfloor>r\<rfloor> \<and> lo \<le> \<lfloor>r\<rfloor> \<and> \<lfloor>r\<rfloor> \<le> hi then Some \<lfloor>r\<rfloor> else None)"

datatype risk_error = InvalidRiskSettings string | RiskDb db_error

definition next_settings :: "jsobj \<Rightarrow> risk_settings \<Rightarrow> risk_error + risk_settings" where
  "next_settings dto cur_set =
     (let m = jget dto ''min_sample''; p = jget dto ''percentile_threshold''; l = jget dto ''lookback_days''
      in and_then (if m = JUndef then Inr cur_set else case whole_in m 3 1000 of
             None \<Rightarrow> Inl (InvalidRiskSettings ''min_sample must be a whole number from 3 to 1000'')
           | Some n \<Rightarrow> Inr (cur_set\<lparr>rk_min_sample := n\<rparr>)) (\<lambda>s1.
         and_then (if p = JUndef then Inr s1 else case p of
             JNum t \<Rightarrow> (case read_decimal t of
                 Some r \<Rightarrow> if 1 / 2 \<le> r \<and> r \<le> 999 / 1000 then Inr (s1\<lparr>rk_threshold := t\<rparr>)
                   else Inl (InvalidRiskSettings ''percentile_threshold must be a number from 0.5 to 0.999'')
               | None \<Rightarrow> Inl (InvalidRiskSettings ''percentile_threshold must be a number from 0.5 to 0.999''))
           | _ \<Rightarrow> Inl (InvalidRiskSettings ''percentile_threshold must be a number from 0.5 to 0.999'')) (\<lambda>s2.
         if l = JUndef then Inr s2 else case whole_in l 7 730 of
             None \<Rightarrow> Inl (InvalidRiskSettings ''lookback_days must be a whole number from 7 to 730'')
           | Some n \<Rightarrow> Inr (s2\<lparr>rk_lookback_days := n\<rparr>))))"

definition settings_json :: "risk_settings \<Rightarrow> jsval" where
  "settings_json s = JObj [(''min_sample'', JInt (rk_min_sample s)), (''percentile_threshold'', JNum (rk_threshold s)),
     (''lookback_days'', JInt (rk_lookback_days s))]"

definition settings_event :: "string \<Rightarrow> string \<Rightarrow> risk_settings \<times> bool \<Rightarrow> risk_settings \<Rightarrow> outbox_input" where
  "settings_event org actor before after =
     \<lparr>oi_event_type = ''FlowRiskSettingsChanged'', oi_work_item_id = ''flow-risk-settings:'' @ org, oi_org_id = org,
      oi_actor_type = ''user'', oi_actor_id = actor,
      oi_payload = JObj [(''org_id'', JStr org),
        (''before'', if snd before then JNull else settings_json (fst before)), (''after'', settings_json after)],
      oi_schema_version = None, oi_event_id = None, oi_timestamp = None\<rparr>"

definition store_settings :: "risk_settings \<Rightarrow> 'z risk_store_scheme \<Rightarrow> 'z risk_store_scheme" where
  "store_settings s st =
     (if \<exists>r \<in> set (risk_settings_rows st). rk_org_id r = rk_org_id s
      then st\<lparr>risk_settings_rows := update_where (\<lambda>r. rk_org_id r = rk_org_id s) (\<lambda>_. s) (risk_settings_rows st)\<rparr>
      else st\<lparr>risk_settings_rows := risk_settings_rows st @ [s]\<rparr>)"

definition update_risk_settings ::
  "(string \<Rightarrow> string) \<Rightarrow> (nat \<Rightarrow> 'z risk_store_scheme \<Rightarrow> 'z risk_store_scheme) \<Rightarrow> 'z risk_store_scheme handler \<Rightarrow> uuid
   \<Rightarrow> time \<Rightarrow> string \<Rightarrow> string \<Rightarrow> jsobj \<Rightarrow> 'z risk_store_scheme \<Rightarrow> risk_error + risk_settings \<times> 'z risk_store_scheme" where
  "update_risk_settings sha env pub fresh wall org actor dto st =
     (let before = get_risk_settings org st
      in and_then (next_settings dto (fst before)) (\<lambda>after.
           if \<not> snd before \<and> fst before = after then Inr (after, st)
           else case enqueue sha env fresh wall (settings_event org actor before after) (store_settings after st) of
             Inl e \<Rightarrow> Inl (RiskDb e)
           | Inr (ev, st1) \<Rightarrow> Inr (after, snd (dispatch_envelope pub wall ev st1))))"

subsection \<open>Assessment\<close>

definition visit_key :: "work_item \<Rightarrow> string \<Rightarrow> string" where
  "visit_key w state = wi_team_id w @ ''|'' @ wi_type w @ ''|'' @ state"

text \<open>Comparable completed visits: their durations in minutes and the items they belong to.\<close>

type_synonym visit_history = "(string \<times> rat list \<times> string list) list"

definition add_visit :: "time \<Rightarrow> work_item \<Rightarrow> visit_history \<Rightarrow> scored \<Rightarrow> visit_history" where
  "add_visit cutoff w h i =
     (if sd_open i \<or> sd_ms i \<le> 0 \<or> sd_end i < cutoff then h
      else upsert (visit_key w (sd_state i)) ([], [])
        (\<lambda>(ds, ids). (ds @ [of_int (sd_ms i) / of_int minute_ms],
           if wi_id w \<in> set ids then ids else ids @ [wi_id w])) h)"

definition wait_history ::
  "string \<Rightarrow> time \<Rightarrow> 'z risk_store_scheme \<Rightarrow> risk_settings \<times> ((work_item \<times> scored list \<times> nat) list \<times> bool) \<times> visit_history \<times> (string \<Rightarrow> int option)" where
  "wait_history org now st =
     (let settings = fst (get_risk_settings org st); (items, truncated) = score_org org now st;
          cutoff = now - rk_lookback_days settings * day_ms
      in (settings, (items, truncated),
          foldl (\<lambda>h (w, is, _). foldl (add_visit cutoff w) h is) [] items,
          (\<lambda>key. map_option sp_threshold (find (\<lambda>p. flow_key (sp_item_type p) (sp_state p) = key)
             (rev (filter (\<lambda>p. sp_org_id p = org) (sla_policies st)))))))"

record wait_risk =
  wk_item :: work_item
  wk_interval :: scored
  wk_result :: risk_result
  wk_at_risk :: bool

definition threshold_value :: "risk_settings \<Rightarrow> rat" where
  "threshold_value s = (case read_decimal (rk_threshold s) of None \<Rightarrow> 0 | Some r \<Rightarrow> r)"

definition at_risk :: "risk_settings \<Rightarrow> risk_result \<Rightarrow> bool" where
  "at_risk s r = (case r of InsufficientHistory _ _ _ _ \<Rightarrow> False | ScoredRisk k \<Rightarrow> ks_percentile k \<ge> threshold_value s)"

definition current_wait :: "scored \<Rightarrow> bool" where
  "current_wait i \<longleftrightarrow> sd_open i \<and> sd_class i \<in> {FWaiting, FBlocked}"

definition assess_wait ::
  "risk_settings \<Rightarrow> visit_history \<Rightarrow> (string \<Rightarrow> int option) \<Rightarrow> work_item \<Rightarrow> scored \<Rightarrow> wait_risk" where
  "assess_wait settings history targets w i =
     (let (ds, ids) = (case map_of history (visit_key w (sd_state i)) of None \<Rightarrow> ([], []) | Some e \<Rightarrow> e);
          r = assess_risk ds (length ids) (of_int (sd_ms i) / of_int minute_ms)
                (targets (flow_key (wi_type w) (sd_state i))) (rk_min_sample settings)
      in \<lparr>wk_item = w, wk_interval = i, wk_result = r, wk_at_risk = at_risk settings r\<rparr>)"

definition assess_org :: "string \<Rightarrow> time \<Rightarrow> 'z risk_store_scheme \<Rightarrow> risk_settings \<times> wait_risk list \<times> bool" where
  "assess_org org now st =
     (let (settings, (items, truncated), history, targets) = wait_history org now st
      in (settings, concat (map (\<lambda>(w, is, _). map (assess_wait settings history targets w) (filter current_wait is)) items),
          truncated))"

text \<open>\<open>assessItem\<close>: \<open>None\<close> when the item is unknown, \<open>Some None\<close> when it is not waiting.\<close>

definition assess_item :: "string \<Rightarrow> string \<Rightarrow> time \<Rightarrow> 'z risk_store_scheme \<Rightarrow> wait_risk option option" where
  "assess_item org wid now st =
     (if \<exists>w \<in> set (work_items st). wi_id w = wid \<and> wi_org_id w = org
      then Some (find (\<lambda>r. wi_id (wk_item r) = wid) (fst (snd (assess_org org now st))))
      else None)"

subsection \<open>Evaluation\<close>

text \<open>The text JavaScript prints for \<open>k / 10 ^ d\<close>.\<close>

definition show_decimals :: "nat \<Rightarrow> int \<Rightarrow> string" where
  "show_decimals d k =
     (let n = nat \<bar>k\<bar>; frac = n mod 10 ^ d
      in (if k < 0 then ''-'' else []) @ show_nat (n div 10 ^ d) @
         (if frac = 0 then [] else CHR ''.'' # rev (dropWhile (\<lambda>c. c = CHR ''0'') (rev (pad d (int frac))))))"

definition jdecimals :: "nat \<Rightarrow> rat \<Rightarrow> jsval" where
  "jdecimals d x = JNum (show_decimals d (js_round (x * 10 ^ d)))"

definition show_basis :: "probability_basis \<Rightarrow> string" where
  "show_basis b = (case b of ConditionalEmpirical \<Rightarrow> ''conditional_empirical'' | AlreadyPastTarget \<Rightarrow> ''already_past_target''
     | NoSlaTarget \<Rightarrow> ''no_sla_target'' | BeyondHistory \<Rightarrow> ''beyond_history'')"

definition risk_method :: string where
  "risk_method =
     ''Empirical distribution of business time spent in this state by completed comparable visits (same team, item type and state). '' @
     ''Percentile is the mid-rank share of those visits no longer than the current wait. Probability of exceeding the target is the share of '' @
     ''visits that lasted longer than the current wait which also lasted longer than the state'' @ [CHR 0x27] @ ''s SLA threshold.''"

type_synonym risk_key = "string \<times> string \<times> time"

definition risk_key :: "wait_risk \<Rightarrow> risk_key" where
  "risk_key r = (wi_id (wk_item r), sd_state (wk_interval r), sd_start (wk_interval r))"

definition row_key :: "wait_risk_row \<Rightarrow> risk_key" where
  "row_key k = (kr_item k, kr_state k, kr_entered_at k)"

definition fresh_risk_row :: "string \<Rightarrow> time \<Rightarrow> risk_settings \<Rightarrow> wait_risk \<Rightarrow> wait_risk_row" where
  "fresh_risk_row org now settings r =
     \<lparr>kr_item = wi_id (wk_item r), kr_state = sd_state (wk_interval r), kr_entered_at = sd_start (wk_interval r),
      kr_org_id = org, kr_team_id = wi_team_id (wk_item r), kr_item_type = wi_type (wk_item r),
      kr_result = wk_result r, kr_threshold = rk_threshold settings, kr_above = False, kr_notified_count = 0,
      kr_last_notified_at = None, kr_active = True, kr_evaluated_at = now\<rparr>"

text \<open>\<open>INSERT ... ON CONFLICT (work_item_id, state, entered_at) DO UPDATE\<close>.\<close>

definition upsert_risk :: "string \<Rightarrow> time \<Rightarrow> risk_settings \<Rightarrow> wait_risk \<Rightarrow> wait_risk_row list \<Rightarrow> wait_risk_row list" where
  "upsert_risk org now settings r rows =
     (if \<exists>k \<in> set rows. row_key k = risk_key r
      then update_where (\<lambda>k. row_key k = risk_key r)
        (\<lambda>k. k\<lparr>kr_result := wk_result r, kr_threshold := rk_threshold settings, kr_active := True, kr_evaluated_at := now\<rparr>) rows
      else rows @ [fresh_risk_row org now settings r])"

definition rearm :: "risk_key \<Rightarrow> wait_risk_row list \<Rightarrow> wait_risk_row list" where
  "rearm key = update_where (\<lambda>k. row_key k = key \<and> kr_above k) (\<lambda>k. k\<lparr>kr_above := False\<rparr>)"

text \<open>The claim of a crossing: the rows it returns, and the table after it.\<close>

definition claim_crossing :: "time \<Rightarrow> risk_key \<Rightarrow> wait_risk_row list \<Rightarrow> nat list \<times> wait_risk_row list" where
  "claim_crossing wall key rows =
     (map (\<lambda>k. kr_notified_count k + 1) (filter (\<lambda>k. row_key k = key \<and> \<not> kr_above k) rows),
      update_where (\<lambda>k. row_key k = key \<and> \<not> kr_above k)
        (\<lambda>k. k\<lparr>kr_above := True, kr_notified_count := kr_notified_count k + 1, kr_last_notified_at := Some wall\<rparr>) rows)"

definition crossing_event :: "string \<Rightarrow> string option \<Rightarrow> risk_settings \<Rightarrow> wait_risk \<Rightarrow> risk_score \<Rightarrow> nat \<Rightarrow> outbox_input" where
  "crossing_event org owner settings r k crossing =
     \<lparr>oi_event_type = ''FlowWaitRiskCrossed'', oi_work_item_id = wi_id (wk_item r), oi_org_id = org,
      oi_actor_type = ''system'', oi_actor_id = ''flow-risk'',
      oi_payload = JObj
        [(''org_id'', JStr org), (''work_item_id'', JStr (wi_id (wk_item r))), (''team_id'', JStr (wi_team_id (wk_item r))),
         (''owner_id'', jopt owner), (''type'', JStr (wi_type (wk_item r))), (''status'', JStr (sd_state (wk_interval r))),
         (''classification'', JStr (show_flow_bucket (sd_class (wk_interval r)))),
         (''percentile'', jdecimals 4 (ks_percentile k)), (''threshold'', JNum (rk_threshold settings)),
         (''current_wait_minutes'', jdecimals 2 (ks_current_wait k)),
         (''probability_exceed_target'', case ks_probability k of None \<Rightarrow> JNull | Some p \<Rightarrow> jdecimals 4 p),
         (''probability_basis'', JStr (show_basis (ks_basis k))),
         (''target_minutes'', case ks_target k of None \<Rightarrow> JNull | Some t \<Rightarrow> JInt t),
         (''sample_size'', JInt (int (ks_sample_size k))), (''sample_items'', JInt (int (ks_sample_items k))),
         (''method'', JStr risk_method), (''crossing'', JInt (int crossing))],
      oi_schema_version = None, oi_event_id = None, oi_timestamp = None\<rparr>"

record evaluation_summary =
  es_evaluated :: nat
  es_scored :: nat
  es_insufficient :: nat
  es_at_risk :: nat
  es_crossings :: nat
  es_truncated :: bool

text \<open>
  The upsert and the rearming are statements of their own; only the claim and its event share a
  transaction. An error ends the pass and leaves what was committed before it.
\<close>

definition evaluate_risk ::
  "(string \<Rightarrow> string) \<Rightarrow> (nat \<Rightarrow> 'z risk_store_scheme \<Rightarrow> 'z risk_store_scheme) \<Rightarrow> 'z risk_store_scheme handler
   \<Rightarrow> (nat \<Rightarrow> uuid) \<Rightarrow> time \<Rightarrow> string \<Rightarrow> time \<Rightarrow> risk_settings \<Rightarrow> wait_risk \<Rightarrow> evaluation_summary
   \<Rightarrow> 'z risk_store_scheme \<Rightarrow> db_error option \<times> evaluation_summary \<times> 'z risk_store_scheme" where
  "evaluate_risk sha env pub fresh wall org now settings r sm st =
     (let is_scored = (case wk_result r of ScoredRisk _ \<Rightarrow> True | _ \<Rightarrow> False);
          sm1 = sm\<lparr>es_scored := es_scored sm + of_bool is_scored, es_insufficient := es_insufficient sm + of_bool (\<not> is_scored),
                   es_at_risk := es_at_risk sm + of_bool (wk_at_risk r)\<rparr>;
          st1 = st\<lparr>wait_risks := upsert_risk org now settings r (wait_risks st)\<rparr>
      in if \<not> wk_at_risk r then (None, sm1, st1\<lparr>wait_risks := rearm (risk_key r) (wait_risks st1)\<rparr>)
         else let owner = (case find (\<lambda>w. wi_id w = wi_id (wk_item r)) (work_items st1) of None \<Rightarrow> None | Some w \<Rightarrow> wi_owner_id w);
                  (claimed, rows) = claim_crossing wall (risk_key r) (wait_risks st1)
              in case (claimed, wk_result r) of
                   (n # _, ScoredRisk k) \<Rightarrow>
                     (case enqueue sha env (fresh (es_crossings sm1)) wall (crossing_event org owner settings r k n)
                         (st1\<lparr>wait_risks := rows\<rparr>) of
                        Inl e \<Rightarrow> (Some e, sm1, st1)
                      | Inr (ev, st2) \<Rightarrow>
                          (None, sm1\<lparr>es_crossings := es_crossings sm1 + 1\<rparr>, snd (dispatch_envelope pub wall ev st2)))
                 | _ \<Rightarrow> (None, sm1, st1\<lparr>wait_risks := rows\<rparr>))"

fun evaluate_risks ::
  "(string \<Rightarrow> string) \<Rightarrow> (nat \<Rightarrow> 'z risk_store_scheme \<Rightarrow> 'z risk_store_scheme) \<Rightarrow> 'z risk_store_scheme handler
   \<Rightarrow> (nat \<Rightarrow> uuid) \<Rightarrow> time \<Rightarrow> string \<Rightarrow> time \<Rightarrow> risk_settings \<Rightarrow> wait_risk list \<Rightarrow> evaluation_summary
   \<Rightarrow> 'z risk_store_scheme \<Rightarrow> db_error option \<times> evaluation_summary \<times> 'z risk_store_scheme" where
  "evaluate_risks sha env pub fresh wall org now settings [] sm st = (None, sm, st)"
| "evaluate_risks sha env pub fresh wall org now settings (r # rs) sm st =
     (case evaluate_risk sha env pub fresh wall org now settings r sm st of
        (Some e, sm1, st1) \<Rightarrow> (Some e, sm1, st1)
      | (None, sm1, st1) \<Rightarrow> evaluate_risks sha env pub fresh wall org now settings rs sm1 st1)"

definition evaluate_org ::
  "(string \<Rightarrow> string) \<Rightarrow> (nat \<Rightarrow> 'z risk_store_scheme \<Rightarrow> 'z risk_store_scheme) \<Rightarrow> 'z risk_store_scheme handler
   \<Rightarrow> (nat \<Rightarrow> uuid) \<Rightarrow> time \<Rightarrow> string \<Rightarrow> time \<Rightarrow> 'z risk_store_scheme
   \<Rightarrow> db_error option \<times> evaluation_summary \<times> 'z risk_store_scheme" where
  "evaluate_org sha env pub fresh wall org now st =
     (let (settings, risks, truncated) = assess_org org now st;
          sm = \<lparr>es_evaluated = length risks, es_scored = 0, es_insufficient = 0, es_at_risk = 0, es_crossings = 0,
                es_truncated = truncated\<rparr>
      in case evaluate_risks sha env pub fresh wall org now settings risks sm st of
           (Some e, sm1, st1) \<Rightarrow> (Some e, sm1, st1)
         | (None, sm1, st1) \<Rightarrow>
             (None, sm1, st1\<lparr>wait_risks := update_where (\<lambda>k. kr_org_id k = org \<and> kr_active k \<and> kr_evaluated_at k < now)
                (\<lambda>k. k\<lparr>kr_active := False\<rparr>) (wait_risks st1)\<rparr>))"

text \<open>\<open>tick\<close>: every tenant in turn, unless a tick is still running; an error ends the pass.\<close>

fun tick_orgs ::
  "(string \<Rightarrow> string) \<Rightarrow> (nat \<Rightarrow> 'z risk_store_scheme \<Rightarrow> 'z risk_store_scheme) \<Rightarrow> 'z risk_store_scheme handler
   \<Rightarrow> (string \<Rightarrow> nat \<Rightarrow> uuid) \<Rightarrow> time \<Rightarrow> time \<Rightarrow> string list \<Rightarrow> (string \<times> evaluation_summary) list
   \<Rightarrow> 'z risk_store_scheme \<Rightarrow> db_error option \<times> (string \<times> evaluation_summary) list \<times> 'z risk_store_scheme" where
  "tick_orgs sha env pub fresh wall now [] results st = (None, results, st)"
| "tick_orgs sha env pub fresh wall now (o' # os) results st =
     (case evaluate_org sha env pub (fresh o') wall o' now st of
        (Some e, sm, st1) \<Rightarrow> (Some e, results, st1)
      | (None, sm, st1) \<Rightarrow> tick_orgs sha env pub fresh wall now os (results @ [(o', sm)]) st1)"

definition risk_tick ::
  "bool \<Rightarrow> (string \<Rightarrow> string) \<Rightarrow> (nat \<Rightarrow> 'z risk_store_scheme \<Rightarrow> 'z risk_store_scheme) \<Rightarrow> 'z risk_store_scheme handler
   \<Rightarrow> (string \<Rightarrow> nat \<Rightarrow> uuid) \<Rightarrow> time \<Rightarrow> time
   \<Rightarrow> 'z risk_store_scheme \<Rightarrow> db_error option \<times> (string \<times> evaluation_summary) list \<times> 'z risk_store_scheme" where
  "risk_tick running sha env pub fresh wall now st =
     (if running then (None, [], st) else tick_orgs sha env pub fresh wall now (orgs st) [] st)"

text \<open>The listing of the board: active rows, the highest percentile first and unscored waits last.\<close>

definition row_percentile :: "wait_risk_row \<Rightarrow> rat option" where
  "row_percentile k = (case kr_result k of ScoredRisk s \<Rightarrow> Some (ks_percentile s) | _ \<Rightarrow> None)"

definition row_at_risk :: "wait_risk_row \<Rightarrow> bool" where
  "row_at_risk k = (case (row_percentile k, read_decimal (kr_threshold k)) of
     (Some p, Some t) \<Rightarrow> p \<ge> t | _ \<Rightarrow> False)"

definition list_current_risks :: "string \<Rightarrow> bool \<Rightarrow> string option \<Rightarrow> 'z risk_store_scheme \<Rightarrow> wait_risk_row list" where
  "list_current_risks org only_at_risk team st =
     (let wait = (\<lambda>k. case kr_result k of ScoredRisk s \<Rightarrow> - ks_current_wait s | _ \<Rightarrow> 0);
          pct = (\<lambda>k. case row_percentile k of None \<Rightarrow> 1 | Some p \<Rightarrow> - p)
      in sort_key pct (sort_key wait (filter (\<lambda>k. kr_org_id k = org \<and> kr_active k \<and>
           (only_at_risk \<longrightarrow> row_at_risk k) \<and> opt_is team (Some (kr_team_id k)) \<and>
           (\<exists>w \<in> set (work_items st). wi_id w = kr_item k)) (wait_risks st))))"

subsection \<open>Cost of delay\<close>

record cost_rule =
  co_id :: string
  co_team_id :: "string option"
  co_item_type :: "string option"
  co_priority :: "string option"
  co_service_id :: "string option"
  co_rate_per_day :: rat
  co_fixed_value :: "rat option"
  co_label :: "string option"

record item_scope =
  is_team_id :: string
  is_item_type :: string
  is_priority :: "string option"
  is_service_ids :: "string list"

definition minutes_per_day :: "calendar \<Rightarrow> rat" where
  "minutes_per_day cal = (case cal of Cal24x7 \<Rightarrow> 1440 | Cal5x8 \<Rightarrow> 480)"

definition specificity :: "cost_rule \<Rightarrow> int \<times> int" where
  "specificity r =
     (let dims = [(8, co_service_id r), (4, co_team_id r), (2, co_item_type r), (1, co_priority r)]
      in foldl (\<lambda>(n, w) (weight, v). case v of None \<Rightarrow> (n, w) | Some _ \<Rightarrow> (n + 1, w + weight)) (0, 0) dims)"

definition rule_matches :: "item_scope \<Rightarrow> cost_rule \<Rightarrow> bool" where
  "rule_matches scope r \<longleftrightarrow>
     (co_team_id r = None \<or> co_team_id r = Some (is_team_id scope)) \<and>
     (co_item_type r = None \<or> co_item_type r = Some (is_item_type scope)) \<and>
     (co_priority r = None \<or> co_priority r = is_priority scope) \<and>
     (case co_service_id r of None \<Rightarrow> True | Some s \<Rightarrow> s \<in> set (is_service_ids scope))"

text \<open>The comparison of the sort; \<open>lc\<close> is \<open>localeCompare\<close> on the ids.\<close>

definition compare_rules :: "(string \<Rightarrow> string \<Rightarrow> int) \<Rightarrow> cost_rule \<Rightarrow> cost_rule \<Rightarrow> rat" where
  "compare_rules lc a b =
     (let (ca, wa) = specificity a; (cb, wb) = specificity b
      in if cb - ca \<noteq> 0 then of_int (cb - ca)
         else if wb - wa \<noteq> 0 then of_int (wb - wa)
         else if co_rate_per_day b - co_rate_per_day a \<noteq> 0 then co_rate_per_day b - co_rate_per_day a
         else of_int (lc (co_id a) (co_id b)))"

definition match_rule :: "(string \<Rightarrow> string \<Rightarrow> int) \<Rightarrow> cost_rule list \<Rightarrow> item_scope \<Rightarrow> cost_rule option" where
  "match_rule lc rules scope =
     (case sort_by (compare_rules lc) (filter (rule_matches scope) rules) of [] \<Rightarrow> None | r # _ \<Rightarrow> Some r)"

definition interval_cost :: "cost_rule \<Rightarrow> int \<Rightarrow> calendar \<Rightarrow> rat" where
  "interval_cost r ms cal = round2 (co_rate_per_day r * (of_int ms / of_int minute_ms) / minutes_per_day cal)"

definition remaining_minutes :: "rat list \<Rightarrow> rat \<Rightarrow> rat option" where
  "remaining_minutes samples x =
     (let longer = sort (map (\<lambda>d. d - x) (filter (\<lambda>d. d > x) samples)); mid = length longer div 2
      in if longer = [] then None
         else Some (if length longer mod 2 \<noteq> 0 then longer ! mid else (longer ! (mid - 1) + longer ! mid) / 2))"

definition priority_score :: "rat \<Rightarrow> rat \<Rightarrow> calendar \<Rightarrow> rat option" where
  "priority_score rate remaining cal =
     (if remaining \<le> 0 then None else Some (round4 (rate / (remaining / minutes_per_day cal))))"

subsection \<open>One notification per crossing\<close>

definition above_in :: "wait_risk_row list \<Rightarrow> risk_key \<Rightarrow> bool" where
  "above_in rows key \<longleftrightarrow> (\<exists>k \<in> set rows. row_key k = key \<and> kr_above k)"

abbreviation above :: "'z risk_store_scheme \<Rightarrow> risk_key \<Rightarrow> bool" where
  "above st \<equiv> above_in (wait_risks st)"

text \<open>What an assessment reads.\<close>

definition same_sources :: "'z risk_store_scheme \<Rightarrow> 'z risk_store_scheme \<Rightarrow> bool" where
  "same_sources st st' \<longleftrightarrow> work_items st' = work_items st \<and> audit_events st' = audit_events st \<and>
     sla_policies st' = sla_policies st \<and> workflow_rows st' = workflow_rows st \<and>
     flow_classifications st' = flow_classifications st \<and> item_links st' = item_links st \<and> teams st' = teams st \<and>
     risk_settings_rows st' = risk_settings_rows st"

lemma same_sources_refl [simp]: "same_sources st st"
  by (simp add: same_sources_def)

lemma same_sources_trans: "same_sources a b \<Longrightarrow> same_sources b c \<Longrightarrow> same_sources a c"
  by (simp add: same_sources_def)

lemma assess_sources:
  assumes "same_sources st st'"
  shows "assess_org org now st' = assess_org org now st"
proof -
  note eqs = assms [unfolded same_sources_def]
  have terminal: "terminal_of st' = terminal_of st" and item_org: "item_org st' = item_org st"
    using eqs by (auto simp: terminal_of_def get_workflow_definition_def item_org_def fun_eq_iff)
  then have states: "terminal_states types st' = terminal_states types st"
      and events: "load_events org ids st' = load_events org ids st"
      and names: "team_names org st' = team_names org st" for types ids
    using eqs by (auto simp: terminal_states_def load_events_def team_names_def fun_eq_iff)
  have items: "work_items st' = work_items st" and links: "item_links st' = item_links st" using eqs by simp_all
  have blockers: "load_blockers org ids known st' = load_blockers org ids known st" for ids known
    unfolding load_blockers_def terminal events names items links ..
  have "load_calendars org st' = load_calendars org st"
    using eqs by (auto simp: load_calendars_def fun_eq_iff)
  then have "flow_context_of org items st' = flow_context_of org items st" for items
    using eqs by (simp add: flow_context_of_def states events blockers)
  then have "score_org org now st' = score_org org now st"
    using eqs by (simp add: score_org_def load_items_def Let_def)
  then show ?thesis
    using eqs by (simp add: assess_org_def wait_history_def get_risk_settings_def)
qed

lemma enqueue_sources:
  assumes "enqueue sha quiet fresh now i st = Inr (ev, st')"
  shows "store.more st' = store.more st \<and> work_items st' = work_items st \<and> audit_events st' = audit_events st"
  using assms append_frame by (fastforce simp: enqueue_Inr)

lemma bus_audit_events:
  "audit_events (snd (publish_envelope (store_bus sha quiet) ev st)) = audit_events st"
proof (cases "record_event sha quiet ev (st\<lparr>emitted := emitted st @ [ev]\<rparr>)")
  case (Inr st')
  then show ?thesis using record_frame [OF Inr] by (simp add: store_publish store_handler_def)
qed (simp add: store_publish store_handler_def)

lemma dispatch_sources:
  "store.more (snd (dispatch_envelope (publish_envelope (store_bus sha quiet)) now ev st)) = store.more st \<and>
   work_items (snd (dispatch_envelope (publish_envelope (store_bus sha quiet)) now ev st)) = work_items st \<and>
   audit_events (snd (dispatch_envelope (publish_envelope (store_bus sha quiet)) now ev st)) = audit_events st"
  by (simp add: sb.dispatch_ok bus_tables bus_audit_events)

lemma risk_tables_cong:
  assumes "store.more st' = store.more (st :: 'z risk_store_scheme)" "work_items st' = work_items st"
    "audit_events st' = audit_events st"
  shows "same_sources st st' \<and> wait_risks st' = wait_risks st"
  using assms by (cases st; cases st') (simp add: same_sources_def)

lemma row_key_updates [simp]:
  "row_key (k\<lparr>kr_above := a\<rparr>) = row_key k" "row_key (k\<lparr>kr_active := b\<rparr>) = row_key k"
  "row_key (k\<lparr>kr_result := res, kr_threshold := t, kr_active := b, kr_evaluated_at := now\<rparr>) = row_key k"
  "row_key (k\<lparr>kr_above := a, kr_notified_count := n, kr_last_notified_at := l\<rparr>) = row_key k"
  "row_key (fresh_risk_row org now settings r) = risk_key r"
  by (simp_all add: row_key_def fresh_risk_row_def risk_key_def)

lemma upsert_keys: "distinct (map row_key rows) \<Longrightarrow> distinct (map row_key (upsert_risk org now settings r rows))"
  by (auto simp: upsert_risk_def map_update_where image_iff)

lemma above_in_simps [simp]:
  "above_in [] key = False"
  "above_in (r # rs) key = (row_key r = key \<and> kr_above r \<or> above_in rs key)"
  "above_in (rs @ rs') key = (above_in rs key \<or> above_in rs' key)"
  by (auto simp: above_in_def)

lemma upsert_has_key: "risk_key r \<in> row_key ` set (upsert_risk org now settings r rows)"
proof (cases "risk_key r \<in> row_key ` set rows")
  case True
  have "row_key ` set (update_where P (\<lambda>k. k\<lparr>kr_result := wk_result r, kr_threshold := rk_threshold settings,
      kr_active := True, kr_evaluated_at := now\<rparr>) rows) = row_key ` set rows" for P
    by (induction rows) auto
  with True show ?thesis by (auto simp: upsert_risk_def)
next
  case False
  then have "\<not> (\<exists>k \<in> set rows. row_key k = risk_key r)" by force
  then show ?thesis by (simp add: upsert_risk_def)
qed

lemma upsert_above: "above_in (upsert_risk org now settings r rows) key = above_in rows key"
proof -
  have "above_in (update_where P (\<lambda>k. k\<lparr>kr_result := wk_result r, kr_threshold := rk_threshold settings,
      kr_active := True, kr_evaluated_at := now\<rparr>) rows) key = above_in rows key" for P
    by (induction rows) auto
  then show ?thesis by (simp add: upsert_risk_def) (simp add: fresh_risk_row_def)
qed

lemma rearm_keys: "map row_key (rearm key rows) = map row_key rows"
  by (simp add: rearm_def map_update_where)

lemma rearm_above: "above_in (rearm key rows) key' \<longleftrightarrow> key' \<noteq> key \<and> above_in rows key'"
  by (induction rows) (auto simp: rearm_def)

lemma claim_keys: "map row_key (snd (claim_crossing wall key rows)) = map row_key rows"
  by (simp add: claim_crossing_def map_update_where)

lemma claim_above:
  "above_in (snd (claim_crossing wall key rows)) key' \<longleftrightarrow>
     above_in rows key' \<or> key' = key \<and> key \<in> row_key ` set rows"
  by (induction rows) (auto simp: claim_crossing_def)

lemma claim_free:
  assumes "distinct (map row_key rows)" "key \<in> row_key ` set rows"
  shows "fst (claim_crossing wall key rows) = [] \<longleftrightarrow> above_in rows key"
proof -
  obtain k where k: "k \<in> set rows" "row_key k = key" using assms(2) by auto
  have "k' = k" if "k' \<in> set rows" "row_key k' = key" for k'
    using assms(1) k that by (auto simp: distinct_map inj_on_def)
  with k show ?thesis by (auto simp: claim_crossing_def above_in_def filter_empty_conv)
qed

abbreviation bus_of :: "(string \<Rightarrow> string) \<Rightarrow> 'z store_scheme handler" where
  "bus_of sha \<equiv> publish_envelope (store_bus sha quiet)"

definition risk_consistent :: "wait_risk \<Rightarrow> bool" where
  "risk_consistent r \<longleftrightarrow> (wk_at_risk r \<longrightarrow> (\<exists>k. wk_result r = ScoredRisk k))"

lemma evaluate_risk_effect:
  assumes run: "evaluate_risk sha quiet (bus_of sha) fresh wall org now settings r sm st = (None, sm', st')"
    and pk: "distinct (map row_key (wait_risks st))" and r: "risk_consistent r"
  shows "same_sources st st' \<and> distinct (map row_key (wait_risks st')) \<and>
    (\<forall>key. above st' key \<longleftrightarrow> (if key = risk_key r then wk_at_risk r else above st key)) \<and>
    es_crossings sm' = es_crossings sm + of_bool (wk_at_risk r \<and> \<not> above st (risk_key r))"
proof -
  let ?rows = "upsert_risk org now settings r (wait_risks st)"
  let ?claim = "claim_crossing wall (risk_key r) ?rows"
  have keys: "distinct (map row_key ?rows)" by (rule upsert_keys [OF pk])
  note free = claim_free [OF keys upsert_has_key, of wall, unfolded upsert_above]
  have src: "same_sources st (st\<lparr>wait_risks := x\<rparr>)" for x by (simp add: same_sources_def)
  show ?thesis
  proof (cases "wk_at_risk r")
    case False
    then have "sm' = sm\<lparr>es_scored := es_scored sm', es_insufficient := es_insufficient sm'\<rparr>"
        "st' = st\<lparr>wait_risks := rearm (risk_key r) ?rows\<rparr>"
      using run by (auto simp: evaluate_risk_def Let_def)
    then have "es_crossings sm' = es_crossings sm" "wait_risks st' = rearm (risk_key r) ?rows" "same_sources st st'"
      using src by (metis evaluation_summary.select_convs(5) evaluation_summary.surjective evaluation_summary.update_convs(2,3), simp_all)
    with False keys show ?thesis by (auto simp: rearm_keys rearm_above upsert_above)
  next
    case True
    then obtain k where k: "wk_result r = ScoredRisk k" using r by (auto simp: risk_consistent_def)
    show ?thesis
    proof (cases "fst ?claim")
      case Nil
      then have eqs: "es_crossings sm' = es_crossings sm" "st' = st\<lparr>wait_risks := snd ?claim\<rparr>"
        using run True by (auto simp: evaluate_risk_def Let_def case_prod_beta)
      then show ?thesis
        using True Nil free src keys upsert_has_key
        by (auto simp: claim_above upsert_above claim_keys)
    next
      case (Cons n ns)
      then obtain ev owner st2 where enq: "enqueue sha quiet (fresh (es_crossings sm)) wall
            (crossing_event org owner settings r k n) (st\<lparr>wait_risks := snd ?claim\<rparr>) = Inr (ev, st2)"
          and st': "st' = snd (dispatch_envelope (bus_of sha) wall ev st2)"
          and sm': "es_crossings sm' = es_crossings sm + 1"
        using run True k by (auto simp: evaluate_risk_def Let_def case_prod_beta split: sum.splits)
      have more: "store.more st' = store.more (st\<lparr>wait_risks := snd ?claim\<rparr>) \<and> work_items st' = work_items st \<and>
          audit_events st' = audit_events st"
        using enqueue_sources [OF enq] unfolding st' by (simp add: dispatch_sources)
      have "same_sources st st'" "wait_risks st' = snd ?claim"
        using risk_tables_cong [of st' "st\<lparr>wait_risks := snd ?claim\<rparr>"] more
        by (auto simp: same_sources_def)
      then show ?thesis
        using True Cons free keys sm' upsert_has_key
        by (auto simp: claim_above upsert_above claim_keys)
    qed
  qed
qed

lemma evaluate_risks_effect:
  assumes "evaluate_risks sha quiet (bus_of sha) fresh wall org now settings rs sm st = (None, sm', st')"
    and "distinct (map row_key (wait_risks st))" "distinct (map risk_key rs)" "\<And>r. r \<in> set rs \<Longrightarrow> risk_consistent r"
  shows "same_sources st st' \<and> distinct (map row_key (wait_risks st')) \<and>
    (\<forall>r \<in> set rs. above st' (risk_key r) = wk_at_risk r) \<and>
    (\<forall>key. key \<notin> risk_key ` set rs \<longrightarrow> above st' key = above st key) \<and>
    es_crossings sm' = es_crossings sm + count_if (\<lambda>r. wk_at_risk r \<and> \<not> above st (risk_key r)) rs"
  using assms
proof (induction rs arbitrary: sm st)
  case (Cons r rs)
  obtain sm1 st1 where one: "evaluate_risk sha quiet (bus_of sha) fresh wall org now settings r sm st = (None, sm1, st1)"
      and rest: "evaluate_risks sha quiet (bus_of sha) fresh wall org now settings rs sm1 st1 = (None, sm', st')"
    using Cons.prems(1) by (auto split: prod.splits option.splits)
  have r: "risk_consistent r" using Cons.prems(4) by simp
  note eff = evaluate_risk_effect [OF one Cons.prems(2) r]
  have IH: "same_sources st1 st' \<and> distinct (map row_key (wait_risks st')) \<and>
      (\<forall>r \<in> set rs. above st' (risk_key r) = wk_at_risk r) \<and>
      (\<forall>key. key \<notin> risk_key ` set rs \<longrightarrow> above st' key = above st1 key) \<and>
      es_crossings sm' = es_crossings sm1 + count_if (\<lambda>r. wk_at_risk r \<and> \<not> above st1 (risk_key r)) rs"
    using eff Cons.prems(3,4) by (intro Cons.IH [OF rest]) auto
  have fresh: "risk_key r \<notin> risk_key ` set rs" using Cons.prems(3) by auto
  have other: "above st1 (risk_key x) = above st (risk_key x)" if "x \<in> set rs" for x
  proof -
    have "risk_key x \<noteq> risk_key r" using fresh that by (metis imageI)
    with eff show ?thesis by presburger
  qed
  have "filter (\<lambda>r. wk_at_risk r \<and> \<not> above st1 (risk_key r)) rs =
      filter (\<lambda>r. wk_at_risk r \<and> \<not> above st (risk_key r)) rs"
    using other by (intro filter_cong) auto
  then have counts: "es_crossings sm' = es_crossings sm + count_if (\<lambda>r. wk_at_risk r \<and> \<not> above st (risk_key r)) (r # rs)"
    using IH eff by (simp add: count_if_def)
  have step: "above st1 key = (if key = risk_key r then wk_at_risk r else above st key)" for key
    using eff by blast
  have later: "key \<notin> risk_key ` set rs \<Longrightarrow> above st' key = above st1 key" for key using IH by blast
  have "above st' (risk_key r) = wk_at_risk r" using later [OF fresh] step [of "risk_key r"] by simp
  moreover have "above st' key = above st key" if "key \<notin> risk_key ` set (r # rs)" for key
    using that later [of key] step [of key] by simp
  moreover have "same_sources st st'" using eff IH same_sources_trans by blast
  ultimately show ?case using IH counts by simp
qed (simp add: count_if_def)

text \<open>An item has at most one open interval, so the waits of a tenant have distinct keys.\<close>

lemma closed_walks:
  "\<forall>i \<in> set (wk_intervals k). \<not> si_open i \<Longrightarrow> \<forall>i \<in> set (wk_intervals (foldl (walk_event terminal) k es)). \<not> si_open i"
proof (induction es arbitrary: k)
  case (Cons e es)
  have "\<forall>i \<in> set (wk_intervals (walk_event terminal k e)). \<not> si_open i"
    using Cons.prems by (auto simp: walk_event_def close_interval_def Let_def split: option.splits if_splits)
  with Cons.IH show ?case by simp
qed simp

lemma one_open: "length (filter si_open (fst (build_intervals created current_state events now terminal))) \<le> 1"
proof -
  let ?k = "foldl (walk_event terminal) (start_walk created current_state (sort_key sc_at events)) (sort_key sc_at events)"
  have "\<forall>i \<in> set (wk_intervals ?k). \<not> si_open i"
    by (rule closed_walks) (simp add: start_walk_def)
  then show ?thesis
    by (simp add: build_intervals_def Let_def close_interval_def)
qed

lemma one_wait: "length (filter current_wait (fst (score_item ctx None None now w))) \<le> 1"
proof -
  have "length (filter current_wait (fst (score_item ctx None None now w))) \<le>
      length (filter si_open (fst (item_history ctx now w)))" for ctx
  proof -
    have "length (filter current_wait (map (score_interval ctx w built) (filter P is))) \<le> length (filter si_open is)" for built P "is"
      by (induction "is") (auto simp: current_wait_def score_interval_def Let_def)
    then show ?thesis by (simp add: score_item_def clip_intervals_def case_prod_beta map_idI)
  qed
  also have "length (filter si_open (fst (item_history ctx now w))) \<le> 1"
    unfolding item_history_def by (rule one_open)
  finally show ?thesis .
qed

lemma risk_key_assess [simp]:
  "risk_key (assess_wait s h t w i) = (wi_id w, sd_state i, sd_start i)"
  "risk_consistent (assess_wait s h t w i)"
  by (auto simp: assess_wait_def risk_key_def risk_consistent_def at_risk_def Let_def split: prod.splits risk_result.splits)

definition waits_of ::
  "risk_settings \<Rightarrow> visit_history \<Rightarrow> (string \<Rightarrow> int option) \<Rightarrow> (work_item \<times> scored list \<times> nat) list \<Rightarrow> wait_risk list" where
  "waits_of s h t items =
     concat (map (\<lambda>e. map (assess_wait s h t (fst e)) (filter current_wait (fst (snd e)))) items)"

lemma waits_of_Cons:
  "waits_of s h t (e # items) = map (assess_wait s h t (fst e)) (filter current_wait (fst (snd e))) @ waits_of s h t items"
  by (simp add: waits_of_def)

lemma waits_of_keys: "key \<in> risk_key ` set (waits_of s h t items) \<Longrightarrow> fst key \<in> (wi_id \<circ> fst) ` set items"
  by (force simp: waits_of_def)

lemma distinct_waits:
  "distinct (map (wi_id \<circ> fst) items) \<Longrightarrow> (\<And>e. e \<in> set items \<Longrightarrow> length (filter current_wait (fst (snd e))) \<le> 1) \<Longrightarrow>
   distinct (map risk_key (waits_of s h t items))"
proof (induction items)
  case (Cons e items)
  have IH: "distinct (map risk_key (waits_of s h t items))" using Cons by simp
  have other: "risk_key (assess_wait s h t (fst e) i) \<notin> risk_key ` set (waits_of s h t items)" for i
    using waits_of_keys [of "risk_key (assess_wait s h t (fst e) i)" s h t items] Cons.prems(1) by auto
  have "length (filter current_wait (fst (snd e))) \<le> 1" using Cons.prems(2) by simp
  then consider "filter current_wait (fst (snd e)) = []" | i where "filter current_wait (fst (snd e)) = [i]"
    by (cases "filter current_wait (fst (snd e))") auto
  then show ?case
  proof cases
    case 2
    then show ?thesis using IH other [of i] by (simp add: waits_of_Cons)
  qed (use IH in \<open>simp add: waits_of_Cons\<close>)
qed (simp add: waits_of_def)

lemma distinct_map_sorted: "distinct (map h (sort_key f xs)) = distinct (map h xs)"
  by (metis mset_eq_imp_distinct_iff mset_map mset_sort)

lemma load_items_distinct:
  assumes "distinct (map wi_id (work_items st))"
  shows "distinct (map wi_id (fst (load_items org to_t f st)))"
  using List.distinct_map_filter [OF assms]
  by (simp add: load_items_def Let_def distinct_map_sorted flip: take_map)

lemma score_org_items:
  assumes "score_org org now st = (items, truncated)"
  shows "distinct (map wi_id (work_items st)) \<Longrightarrow> distinct (map (wi_id \<circ> fst) items)"
    and "e \<in> set items \<Longrightarrow> length (filter current_wait (fst (snd e))) \<le> 1"
proof -
  let ?rows = "fst (load_items org now \<lparr>if_team = None, if_type = None, if_item = None\<rparr> st)"
  obtain ctx where items: "items = map (\<lambda>w. (w, score_item ctx None None now w)) ?rows"
    using assms by (auto simp: score_org_def Let_def case_prod_beta)
  show "length (filter current_wait (fst (snd e))) \<le> 1" if "e \<in> set items"
    using that one_wait [of ctx now] by (auto simp: items)
  assume "distinct (map wi_id (work_items st))"
  then have "distinct (map wi_id ?rows)" by (rule load_items_distinct)
  then show "distinct (map (wi_id \<circ> fst) items)" by (simp add: items o_def)
qed

lemma assess_org_waits:
  "\<exists>s h t items truncated. score_org org now st = (items, truncated) \<and> assess_org org now st = (s, waits_of s h t items, truncated)"
proof -
  obtain items truncated where items: "score_org org now st = (items, truncated)" by fastforce
  show ?thesis
    by (intro exI conjI, rule items) (simp add: assess_org_def wait_history_def items waits_of_def Let_def case_prod_unfold)
qed

lemma assess_risks:
  assumes "distinct (map wi_id (work_items st))"
  shows "distinct (map risk_key (fst (snd (assess_org org now st))))"
    and "r \<in> set (fst (snd (assess_org org now st))) \<Longrightarrow> risk_consistent r"
proof -
  obtain s h t items truncated where eqs: "score_org org now st = (items, truncated)"
      "assess_org org now st = (s, waits_of s h t items, truncated)"
    using assess_org_waits by blast
  show "distinct (map risk_key (fst (snd (assess_org org now st))))"
    using distinct_waits [OF score_org_items(1) [OF eqs(1) assms] score_org_items(2) [OF eqs(1)]] eqs(2) by simp
  show "risk_consistent r" if "r \<in> set (fst (snd (assess_org org now st)))"
    using that eqs(2) by (auto simp: waits_of_def)
qed

lemma deactivate_rows:
  "map row_key (update_where P (\<lambda>k. k\<lparr>kr_active := False\<rparr>) rows) = map row_key rows"
  "above_in (update_where P (\<lambda>k. k\<lparr>kr_active := False\<rparr>) rows) key = above_in rows key"
proof -
  show "map row_key (update_where P (\<lambda>k. k\<lparr>kr_active := False\<rparr>) rows) = map row_key rows"
    by (simp add: map_update_where)
  show "above_in (update_where P (\<lambda>k. k\<lparr>kr_active := False\<rparr>) rows) key = above_in rows key"
    by (induction rows) auto
qed

lemma evaluate_org_effect:
  assumes "evaluate_org sha quiet (bus_of sha) fresh wall org now st = (None, sm, st')"
    and "distinct (map wi_id (work_items st))" "distinct (map row_key (wait_risks st))"
  shows "same_sources st st' \<and> distinct (map row_key (wait_risks st')) \<and>
    (\<forall>r \<in> set (fst (snd (assess_org org now st))). above st' (risk_key r) = wk_at_risk r) \<and>
    es_crossings sm = count_if (\<lambda>r. wk_at_risk r \<and> \<not> above st (risk_key r)) (fst (snd (assess_org org now st)))"
proof -
  obtain s risks truncated where a: "assess_org org now st = (s, risks, truncated)" by (cases "assess_org org now st") auto
  let ?sm = "\<lparr>es_evaluated = length risks, es_scored = 0, es_insufficient = 0, es_at_risk = 0, es_crossings = 0,
      es_truncated = truncated\<rparr>"
  obtain st1 where run: "evaluate_risks sha quiet (bus_of sha) fresh wall org now s risks ?sm st = (None, sm, st1)"
      and st': "st' = st1\<lparr>wait_risks := update_where (\<lambda>k. kr_org_id k = org \<and> kr_active k \<and> kr_evaluated_at k < now)
         (\<lambda>k. k\<lparr>kr_active := False\<rparr>) (wait_risks st1)\<rparr>"
    using assms(1) a by (auto simp: evaluate_org_def Let_def split: prod.splits option.splits)
  have "distinct (map risk_key risks)" "\<And>r. r \<in> set risks \<Longrightarrow> risk_consistent r"
    using assess_risks [OF assms(2), where org = org and now = now] a by simp_all
  note eff = evaluate_risks_effect [OF run assms(3) this]
  then show ?thesis
    by (simp add: a st' deactivate_rows) (simp add: same_sources_def)
qed

lemma evaluate_risk_quiet:
  assumes "wk_at_risk r \<longrightarrow> above st (risk_key r)" "distinct (map row_key (wait_risks st))"
  shows "fst (evaluate_risk sha env pub fresh wall org now settings r sm st) = None"
proof (cases "wk_at_risk r")
  case True
  have "fst (claim_crossing wall (risk_key r) (upsert_risk org now settings r (wait_risks st))) = []"
    using assms True claim_free [OF upsert_keys [OF assms(2)] upsert_has_key] by (simp add: upsert_above)
  with True show ?thesis by (simp add: evaluate_risk_def Let_def case_prod_beta)
qed (simp add: evaluate_risk_def Let_def)

lemma evaluate_risks_quiet:
  assumes "\<And>r. r \<in> set rs \<Longrightarrow> wk_at_risk r \<longrightarrow> above st (risk_key r)" "distinct (map row_key (wait_risks st))"
    and "distinct (map risk_key rs)" "\<And>r. r \<in> set rs \<Longrightarrow> risk_consistent r"
  shows "fst (evaluate_risks sha quiet (bus_of sha) fresh wall org now settings rs sm st) = None"
  using assms
proof (induction rs arbitrary: sm st)
  case (Cons r rs)
  obtain sm1 st1 where one: "evaluate_risk sha quiet (bus_of sha) fresh wall org now settings r sm st = (None, sm1, st1)"
    using evaluate_risk_quiet [of r st sha quiet "bus_of sha" fresh wall org now settings sm] Cons.prems(1,2)
    by (cases "evaluate_risk sha quiet (bus_of sha) fresh wall org now settings r sm st") auto
  have r: "risk_consistent r" using Cons.prems(4) by simp
  note eff = evaluate_risk_effect [OF one Cons.prems(2) r]
  have step: "above st1 key = (if key = risk_key r then wk_at_risk r else above st key)" for key using eff by blast
  have "wk_at_risk x \<longrightarrow> above st1 (risk_key x)" if "x \<in> set rs" for x
    using that Cons.prems(1,3) step [of "risk_key x"] by (auto simp: image_iff)
  moreover have "distinct (map row_key (wait_risks st1))" using eff by blast
  ultimately have "fst (evaluate_risks sha quiet (bus_of sha) fresh wall org now settings rs sm1 st1) = None"
    using Cons.prems(3,4) by (intro Cons.IH) simp_all
  with one show ?case by simp
qed simp

text \<open>C16. A waiting risk is announced once per crossing of the threshold: a pass announces exactly the
  waits that are at risk now and were not marked above the threshold before, it marks every waiting
  item's row above exactly when the item is at risk, and a further pass over the same history
  succeeds and announces nothing, whatever clock and event ids it uses.\<close>

theorem risk_crossing_notified_once:
  assumes "evaluate_org sha quiet (bus_of sha) fresh wall org now st = (None, sm, st')"
    and "distinct (map wi_id (work_items st))" "distinct (map row_key (wait_risks st))"
  shows "es_crossings sm = count_if (\<lambda>r. wk_at_risk r \<and> \<not> above st (risk_key r)) (fst (snd (assess_org org now st))) \<and>
    (\<forall>r \<in> set (fst (snd (assess_org org now st))). above st' (risk_key r) = wk_at_risk r) \<and>
    (\<exists>sm' st''. evaluate_org sha quiet (bus_of sha) fresh' wall' org now st' = (None, sm', st'') \<and> es_crossings sm' = 0)"
proof -
  note first = evaluate_org_effect [OF assms(1-3)]
  then have items: "distinct (map wi_id (work_items st'))" using assms(2) by (simp add: same_sources_def)
  have same: "assess_org org now st' = assess_org org now st" using first assess_sources by blast
  obtain s risks truncated where a: "assess_org org now st = (s, risks, truncated)" by (cases "assess_org org now st") auto
  let ?sm = "\<lparr>es_evaluated = length risks, es_scored = 0, es_insufficient = 0, es_at_risk = 0, es_crossings = 0,
      es_truncated = truncated\<rparr>"
  have "fst (evaluate_risks sha quiet (bus_of sha) fresh' wall' org now s risks ?sm st') = None"
    using first a assess_risks [OF assms(2), where org = org and now = now] by (intro evaluate_risks_quiet) auto
  then obtain sm' st'' where second: "evaluate_org sha quiet (bus_of sha) fresh' wall' org now st' = (None, sm', st'')"
    using same a by (cases "evaluate_risks sha quiet (bus_of sha) fresh' wall' org now s risks ?sm st'")
      (auto simp: evaluate_org_def)
  have "es_crossings sm' =
      count_if (\<lambda>r. wk_at_risk r \<and> \<not> above st' (risk_key r)) (fst (snd (assess_org org now st)))"
    using evaluate_org_effect [OF second items] first same by simp
  also have "\<dots> = 0" using first by (simp add: count_if_def filter_empty_conv)
  finally show ?thesis using first second by simp
qed

text \<open>Three items left review after one minute; a fourth has been waiting in it for ten.\<close>

definition sample_move :: "string \<Rightarrow> string \<Rightarrow> time \<Rightarrow> string \<Rightarrow> string \<Rightarrow> audit_event" where
  "sample_move i w t a b = \<lparr>ae_id = i, ae_event_type = ''WorkItemStateChanged'', ae_work_item_id = w,
     ae_actor_type = ''user'', ae_actor_id = ''u1'',
     ae_payload = JObj [(''from_state'', JStr a), (''to_state'', JStr b)], ae_timestamp = t\<rparr>"

definition sample_wait :: "string \<Rightarrow> string \<Rightarrow> work_item" where
  "sample_wait i status = sample_item\<lparr>wi_id := i, wi_status := status\<rparr>"

lemma sample_wait_fields [simp]:
  "wi_id (sample_wait i status) = i" "wi_status (sample_wait i status) = status" "wi_org_id (sample_wait i status) = ''o1''"
  "wi_created_at (sample_wait i status) = 0" "wi_type (sample_wait i status) = ''story''"
  "wi_team_id (sample_wait i status) = ''t1''"
  by (simp_all add: sample_wait_def sample_item_def)

definition sample_risk_store :: risk_store where
  "sample_risk_store =
     \<lparr>work_items = [sample_wait ''a'' ''Done'', sample_wait ''b'' ''Done'', sample_wait ''c'' ''Done'',
        sample_wait ''d'' ''In Review''],
      domain_events = [],
      audit_events = [sample_move ''1'' ''a'' 60000 ''In Review'' ''Done'', sample_move ''2'' ''b'' 60000 ''In Review'' ''Done'',
        sample_move ''3'' ''c'' 60000 ''In Review'' ''Done''],
      integrity = [], integrity_seq = 1, outbox = [], emitted = [], sla_policies = [], sla_emissions = [],
      escalation_settings = [], people = [], escalation_targets = [], workflow_rows = [],
      flow_classifications = [\<lparr>cr_id = ''r'', cr_org_id = ''o1'', cr_team_id = None, cr_state = ''In Review'',
        cr_classification = FWaiting, cr_default_reason = None, cr_version = 1, cr_changed_by = ''u1'', cr_created_at = 0\<rparr>],
      item_links = [], teams = [],
      risk_settings_rows = [\<lparr>rk_org_id = ''o1'', rk_min_sample = 3, rk_threshold = ''0.9'', rk_lookback_days = 30\<rparr>],
      wait_risks = [], orgs = [''o1'']\<rparr>"

lemmas sample_risk_eval = sample_risk_store_def opt_is_def or_null_def

lemma sample_risk_reads:
  "load_items ''o1'' 600000 \<lparr>if_team = None, if_type = None, if_item = None\<rparr> sample_risk_store =
     ([sample_wait ''a'' ''Done'', sample_wait ''b'' ''Done'', sample_wait ''c'' ''Done'', sample_wait ''d'' ''In Review''], False)"
  "load_events ''o1'' [''a'', ''b'', ''c'', ''d''] sample_risk_store =
     (\<lambda>i. if i \<in> {''a'', ''b'', ''c''} then [\<lparr>sc_at = 60000, sc_from = Some ''In Review'', sc_to = ''Done'', sc_reason = None\<rparr>] else [])"
  "terminal_of sample_risk_store ''story'' = [''Closed'']"
  "load_blockers ''o1'' ids known sample_risk_store = (\<lambda>_. [])"
  "load_calendars ''o1'' sample_risk_store = (\<lambda>_. None)"
  by (auto simp: load_items_def sample_risk_eval fun_eq_iff load_events_def item_org_def sample_move_def state_change_of_def
      jprop_def jget_def wait_reason_category_def terminal_of_def get_workflow_definition_def built_in_workflows_def
      delivery_workflow_def load_blockers_def blocking_pairs_def load_calendars_def List.map_filter_def Let_def)

lemma sample_risk_classes:
  "resolver ''o1'' (flow_classifications sample_risk_store) (Some ''t1'') ''In Review'' =
     \<lparr>rv_classification = FWaiting, rv_default_reason = None, rv_version = Some 1\<rparr>"
  "resolver ''o1'' (flow_classifications sample_risk_store) (Some ''t1'') ''Done'' =
     \<lparr>rv_classification = FUnclassified, rv_default_reason = None, rv_version = None\<rparr>"
  by (simp_all add: resolver_def list_classifications_def sample_risk_store_def scope_id_def nil_uuid_def
      classification_key_def or_null_def)

definition sample_visit :: "time \<Rightarrow> bool \<Rightarrow> scored" where
  "sample_visit t is_open = \<lparr>sd_state = ''In Review'', sd_class = FWaiting, sd_version = Some 1, sd_calendar = Cal24x7,
     sd_start = 0, sd_end = t, sd_open = is_open, sd_ms = t,
     sd_wait = Some \<lparr>wt_reason = None, wt_source = NoSource, wt_note = None, wt_blocker = None, wt_ambiguous = 0\<rparr>\<rparr>"

definition sample_done :: scored where
  "sample_done = \<lparr>sd_state = ''Done'', sd_class = FUnclassified, sd_version = None, sd_calendar = Cal24x7,
     sd_start = 60000, sd_end = 600000, sd_open = True, sd_ms = 540000, sd_wait = None\<rparr>"

lemmas sample_score = score_item_def item_history_def build_intervals_def start_walk_def walk_event_def
  close_interval_def clip_intervals_def score_interval_def business_ms_def sample_risk_classes Let_def
  attribute_wait_def applicable_blockers_def entered_interval_def sample_visit_def sample_done_def

lemma sample_scored:
  "score_org ''o1'' 600000 sample_risk_store =
     ([(sample_wait ''a'' ''Done'', [sample_visit 60000 False, sample_done], 0),
       (sample_wait ''b'' ''Done'', [sample_visit 60000 False, sample_done], 0),
       (sample_wait ''c'' ''Done'', [sample_visit 60000 False, sample_done], 0),
       (sample_wait ''d'' ''In Review'', [sample_visit 600000 True], 0)], False)"
  by (simp add: score_org_def sample_risk_reads flow_context_of_def terminal_states_def sample_score)

lemma sample_threshold: "read_decimal ''0.9'' = Some (9 / 10)"
  by code_simp

lemma sample_history:
  "foldl (\<lambda>h (w, is, _). foldl (add_visit (- 2591400000) w) h is) [] (fst (score_org ''o1'' 600000 sample_risk_store)) =
     [(''t1|story|In Review'', [1, 1, 1], [''a'', ''b'', ''c''])]"
  by (simp add: sample_scored add_visit_def visit_key_def sample_visit_def sample_done_def minute_ms_def)

lemma sample_wait_history:
  "\<exists>targets. wait_history ''o1'' 600000 sample_risk_store =
     (\<lparr>rk_org_id = ''o1'', rk_min_sample = 3, rk_threshold = ''0.9'', rk_lookback_days = 30\<rparr>,
      score_org ''o1'' 600000 sample_risk_store, [(''t1|story|In Review'', [1, 1, 1], [''a'', ''b'', ''c''])], targets)"
proof -
  have "get_risk_settings ''o1'' sample_risk_store =
      (\<lparr>rk_org_id = ''o1'', rk_min_sample = 3, rk_threshold = ''0.9'', rk_lookback_days = 30\<rparr>, False)"
    by (simp add: get_risk_settings_def sample_risk_store_def)
  then show ?thesis
    using sample_history by (auto simp: wait_history_def day_ms_def Let_def split: prod.splits)
qed

lemma sample_assessment:
  "\<exists>k settings. assess_org ''o1'' 600000 sample_risk_store =
     (settings, [\<lparr>wk_item = sample_wait ''d'' ''In Review'', wk_interval = sample_visit 600000 True,
        wk_result = ScoredRisk k, wk_at_risk = True\<rparr>], False)"
proof -
  obtain targets where h: "wait_history ''o1'' 600000 sample_risk_store =
     (\<lparr>rk_org_id = ''o1'', rk_min_sample = 3, rk_threshold = ''0.9'', rk_lookback_days = 30\<rparr>,
      score_org ''o1'' 600000 sample_risk_store, [(''t1|story|In Review'', [1, 1, 1], [''a'', ''b'', ''c''])], targets)"
    using sample_wait_history by blast
  show ?thesis
    by (simp add: assess_org_def h sample_scored current_wait_def assess_wait_def visit_key_def
        assess_risk_def at_risk_def threshold_value_def sample_threshold percentile_of_def count_if_def round4_def
        sample_visit_def sample_done_def minute_ms_def split: prod.split)
qed

lemma risk_crossing_notified_once_witness:
  "\<exists>sm st' sm' st''.
     evaluate_org sample_sha quiet (bus_of sample_sha) (\<lambda>_. ''e1'') 600000 ''o1'' 600000 sample_risk_store = (None, sm, st') \<and>
     es_crossings sm = 1 \<and>
     evaluate_org sample_sha quiet (bus_of sample_sha) (\<lambda>_. ''e2'') 700000 ''o1'' 600000 st' = (None, sm', st'') \<and>
     es_crossings sm' = 0"
proof -
  obtain k settings where a: "assess_org ''o1'' 600000 sample_risk_store =
     (settings, [\<lparr>wk_item = sample_wait ''d'' ''In Review'', wk_interval = sample_visit 600000 True,
        wk_result = ScoredRisk k, wk_at_risk = True\<rparr>], False)"
    using sample_assessment by blast
  have tables: "wait_risks sample_risk_store = []" "domain_events sample_risk_store = []" "outbox sample_risk_store = []"
      "integrity sample_risk_store = []" "distinct (map wi_id (work_items sample_risk_store))"
    by (simp_all add: sample_risk_store_def)
  have "\<exists>sm st'. evaluate_org sample_sha quiet (bus_of sample_sha) (\<lambda>_. ''e1'') 600000 ''o1'' 600000 sample_risk_store = (None, sm, st')"
    by (simp add: evaluate_org_def a evaluate_risk_def tables upsert_risk_def claim_crossing_def fresh_risk_row_def row_key_def
        risk_key_def sample_visit_def enqueue_def has_event_def outbox_envelope_def or_null_def crossing_event_def
        append_audit_entry_def max_append_attempts_def numeral_eq_Suc insert_integrity_def quiet_def event_input_def Let_def)
  then obtain sm st' where run: "evaluate_org sample_sha quiet (bus_of sample_sha) (\<lambda>_. ''e1'') 600000 ''o1'' 600000 sample_risk_store = (None, sm, st')"
    by blast
  have "distinct (map row_key (wait_risks sample_risk_store))" by (simp add: tables)
  from risk_crossing_notified_once [OF run tables(5) this, of "\<lambda>_. ''e2''" 700000] run
  show ?thesis by (auto simp: a tables count_if_def)
qed

subsection \<open>The rule that prices a wait\<close>

lemma compare_rules_le:
  "compare_rules lc a b \<le> 0 \<longleftrightarrow>
     (let (ca, wa) = specificity a; (cb, wb) = specificity b
      in cb < ca \<or> cb = ca \<and> (wb < wa \<or> wb = wa \<and> (co_rate_per_day b < co_rate_per_day a \<or>
         co_rate_per_day b = co_rate_per_day a \<and> lc (co_id a) (co_id b) \<le> 0)))"
  by (auto simp: compare_rules_def Let_def split: prod.splits)

lemma compare_rules_total:
  assumes "total_preorder lc"
  shows "total_preorder (compare_rules lc)"
  unfolding total_preorder_def
proof (intro conjI allI impI)
  fix a b :: cost_rule
  have "lc (co_id a) (co_id b) \<le> 0 \<or> lc (co_id b) (co_id a) \<le> 0"
    using assms unfolding total_preorder_def by blast
  then show "compare_rules lc a b \<le> 0 \<or> compare_rules lc b a \<le> 0"
    by (cases "specificity a"; cases "specificity b") (auto simp: compare_rules_le)
next
  fix a b c :: cost_rule
  assume ab: "compare_rules lc a b \<le> 0" and bc: "compare_rules lc b c \<le> 0"
  obtain ca wa cb wb cc wc where sp: "specificity a = (ca, wa)" "specificity b = (cb, wb)" "specificity c = (cc, wc)"
    by (cases "specificity a"; cases "specificity b"; cases "specificity c")
  note le = compare_rules_le [of lc, unfolded Let_def]
  have "lc (co_id a) (co_id b) \<le> 0 \<Longrightarrow> lc (co_id b) (co_id c) \<le> 0 \<Longrightarrow> lc (co_id a) (co_id c) \<le> 0"
    using assms unfolding total_preorder_def by blast
  then have "cc < ca \<or> cc = ca \<and> (wc < wa \<or> wc = wa \<and> (co_rate_per_day c < co_rate_per_day a \<or>
      co_rate_per_day c = co_rate_per_day a \<and> lc (co_id a) (co_id c) \<le> 0))"
    using ab [unfolded le sp prod.case] bc [unfolded le sp prod.case]
    by - ((erule (1) lex_trans)+, blast)
  then show "compare_rules lc a c \<le> 0" by (simp add: compare_rules_le sp)
qed

text \<open>The rule that prices a wait matches the item and no matching rule is preferred to it: none sets
  more dimensions, or as many with a stronger combination, or the same ones at a higher rate. There
  is a rule exactly when some rule matches, and with distinct ids the choice does not depend on the
  order in which the rules are listed, for any comparison of ids that is a total order.\<close>

lemma most_specific_rule_prices:
  assumes lc: "total_preorder lc" "\<And>x y. lc x y \<le> 0 \<Longrightarrow> lc y x \<le> 0 \<Longrightarrow> x = y"
    and ids: "distinct (map co_id rules)" and perm: "mset rules' = mset rules"
  shows "match_rule lc rules' scope = match_rule lc rules scope \<and>
    (match_rule lc rules scope = None \<longleftrightarrow> (\<forall>r \<in> set rules. \<not> rule_matches scope r)) \<and>
    (\<forall>r. match_rule lc rules scope = Some r \<longrightarrow> r \<in> set rules \<and> rule_matches scope r \<and>
       (\<forall>q \<in> set rules. rule_matches scope q \<longrightarrow> compare_rules lc r q \<le> 0))"
proof -
  note cmp = compare_rules_total [OF lc(1)]
  have chosen: "r \<in> set rs \<and> rule_matches scope r \<and> (\<forall>q \<in> set rs. rule_matches scope q \<longrightarrow> compare_rules lc r q \<le> 0)"
    if m: "match_rule lc rs scope = Some r" for rs r
  proof -
    obtain ys where ys: "sort_by (compare_rules lc) (filter (rule_matches scope) rs) = r # ys"
      using m by (auto simp: match_rule_def split: list.splits)
    then have "r \<in> set (filter (rule_matches scope) rs)" by (metis list.set_intros(1) set_sort_by)
    with sort_by_least [OF cmp ys] show ?thesis by simp
  qed
  have none: "match_rule lc rs scope = None \<longleftrightarrow> (\<forall>r \<in> set rs. \<not> rule_matches scope r)" for rs
  proof -
    have "match_rule lc rs scope = None \<longleftrightarrow> set (sort_by (compare_rules lc) (filter (rule_matches scope) rs)) = {}"
      by (simp add: match_rule_def split: list.splits)
    then show ?thesis by (simp only: set_sort_by) auto
  qed
  have sets: "set rules' = set rules" using perm by (metis set_mset_mset)
  have "match_rule lc rules' scope = match_rule lc rules scope"
  proof (cases "match_rule lc rules scope")
    case None
    then show ?thesis using none [of rules] none [of rules'] sets by simp
  next
    case (Some r)
    then obtain r' where r': "match_rule lc rules' scope = Some r'"
      using none [of rules] none [of rules'] sets by fastforce
    have "compare_rules lc r r' \<le> 0" "compare_rules lc r' r \<le> 0"
      using chosen [OF Some] chosen [OF r'] sets by auto
    then have "co_id r = co_id r'"
      by (intro lc(2)) (auto simp: compare_rules_le Let_def split: prod.splits)
    then have "r = r'"
      using ids chosen [OF Some] chosen [OF r'] sets by (auto simp: distinct_map inj_on_def)
    with Some r' show ?thesis by simp
  qed
  with none [of rules] chosen [of rules] show ?thesis by blast
qed

definition sample_rule :: "string \<Rightarrow> string option \<Rightarrow> string option \<Rightarrow> rat \<Rightarrow> cost_rule" where
  "sample_rule i team service rate = \<lparr>co_id = i, co_team_id = team, co_item_type = None, co_priority = None,
     co_service_id = service, co_rate_per_day = rate, co_fixed_value = None, co_label = None\<rparr>"

definition text_compare :: "string \<Rightarrow> string \<Rightarrow> int" where
  "text_compare a b = (if a = b then 0 else if a < b then - 1 else 1)"

end
