(* ===== verification/Correlation.thy ===== *)
theory Correlation
  imports EventOutbox
begin

text \<open>
  The identity graph of \<^verbatim>\<open>src/modules/integrations/correlation.service.ts\<close>: normalisation of
  identities, pairs of correlated records, the breadth-first resolution of an identity, and
  metadata updates.

  \<open>ids n\<close> is the \<open>n\<close>-th id an operation draws, \<open>lc\<close> is \<open>localeCompare\<close>. The text of a \<^verbatim>\<open>url\<close> or a
  \<^verbatim>\<open>display_key\<close> is not interpreted. Fresh ids are taken to be unused.
\<close>

record corr_node =
  cn_id :: uuid
  cn_org_id :: string
  cn_system :: string
  cn_entity_type :: string
  cn_immutable_id :: string
  cn_display_key :: "string option"
  cn_url :: "string option"
  cn_created_at :: time
  cn_updated_at :: time

record corr_link =
  ck_id :: uuid
  ck_org_id :: string
  ck_source :: uuid
  ck_target :: uuid
  ck_relationship :: string
  ck_created_by :: string
  ck_created_at :: time

record corr_store = store +
  corr_nodes :: "corr_node list"
  corr_links :: "corr_link list"

datatype corr_error =
    InvalidCorrelation string
  | CorrelationNotFound string
  | CorrDb db_error

subsection \<open>Normalisation\<close>

definition lower_letter :: "char \<Rightarrow> bool" where
  "lower_letter c \<longleftrightarrow> c \<in> set ''abcdefghijklmnopqrstuvwxyz''"

definition decimal_digit :: "char \<Rightarrow> bool" where
  "decimal_digit c \<longleftrightarrow> c \<in> set ''0123456789''"

definition token_pattern :: "string \<Rightarrow> bool" where
  "token_pattern s \<longleftrightarrow> (case s of [] \<Rightarrow> False
     | c # r \<Rightarrow> lower_letter c \<and> length r \<le> 63 \<and> list_all (\<lambda>d. lower_letter d \<or> decimal_digit d \<or> d \<in> set ''_.-'') r)"

definition relationship_pattern :: "string \<Rightarrow> bool" where
  "relationship_pattern s \<longleftrightarrow> (case s of [] \<Rightarrow> False
     | c # r \<Rightarrow> lower_letter c \<and> length r \<le> 63 \<and> list_all (\<lambda>d. lower_letter d \<or> decimal_digit d \<or> d = CHR ''_'') r)"

definition corr_required_text :: "jsval \<Rightarrow> string \<Rightarrow> corr_error + string" where
  "corr_required_text v field = (case v of
     JStr s \<Rightarrow>
       if trim s = [] then Inl (InvalidCorrelation (field @ '' is required''))
       else if length (trim s) > 512 then Inl (InvalidCorrelation (field @ '' must be 512 characters or fewer''))
       else Inr (trim s)
   | _ \<Rightarrow> Inl (InvalidCorrelation (field @ '' is required'')))"

definition corr_optional_text :: "jsval \<Rightarrow> string \<Rightarrow> corr_error + string option" where
  "corr_optional_text v field = (case v of
     JUndef \<Rightarrow> Inr None
   | JNull \<Rightarrow> Inr None
   | JStr s \<Rightarrow> if length (trim s) > 2048 then Inl (InvalidCorrelation (field @ '' is too long''))
       else Inr (or_null (Some (trim s)))
   | _ \<Rightarrow> Inl (InvalidCorrelation (field @ '' must be a string or null'')))"

definition required_token :: "jsval \<Rightarrow> string \<Rightarrow> corr_error + string" where
  "required_token v field =
     and_then (corr_required_text v field) (\<lambda>s.
       if token_pattern (lower s) then Inr (lower s)
       else Inl (InvalidCorrelation (field @
         '' must start with a letter and contain only letters, digits, dots, dashes, or underscores'')))"

definition normalize_relationship :: "jsval \<Rightarrow> corr_error + string" where
  "normalize_relationship v =
     and_then (corr_required_text v ''relationship'') (\<lambda>s.
       if relationship_pattern (lower s) then Inr (lower s)
       else Inl (InvalidCorrelation
         ''relationship must start with a letter and contain only lowercase letters, digits, or underscores''))"

record entity =
  en_system :: string
  en_entity_type :: string
  en_immutable_id :: string
  en_display_key :: "string option"
  en_url :: "string option"

definition normalize_entity :: "jsval \<Rightarrow> string \<Rightarrow> corr_error + entity" where
  "normalize_entity input label =
     (if \<not> (case input of JArr _ \<Rightarrow> True | JObj _ \<Rightarrow> True | _ \<Rightarrow> False)
      then Inl (InvalidCorrelation (label @ '' is required''))
      else and_then (required_token (jprop input ''system'') (label @ ''.system'')) (\<lambda>s.
           and_then (required_token (jprop input ''entity_type'') (label @ ''.entity_type'')) (\<lambda>e.
           and_then (corr_required_text (jprop input ''immutable_id'') (label @ ''.immutable_id'')) (\<lambda>i.
           and_then (corr_optional_text (jprop input ''display_key'') (label @ ''.display_key'')) (\<lambda>d.
           and_then (corr_optional_text (jprop input ''url'') (label @ ''.url'')) (\<lambda>u.
             Inr \<lparr>en_system = s, en_entity_type = e, en_immutable_id = i, en_display_key = d, en_url = u\<rparr>))))))"

definition same_identity :: "entity \<Rightarrow> entity \<Rightarrow> bool" where
  "same_identity a b \<longleftrightarrow> en_system a = en_system b \<and> en_entity_type a = en_entity_type b \<and>
     en_immutable_id a = en_immutable_id b"

subsection \<open>Nodes\<close>

definition is_identity :: "string \<Rightarrow> string \<Rightarrow> string \<Rightarrow> string \<Rightarrow> corr_node \<Rightarrow> bool" where
  "is_identity org system ty i n \<longleftrightarrow> cn_org_id n = org \<and> cn_system n = system \<and> cn_entity_type n = ty \<and> cn_immutable_id n = i"

definition coalesce :: "'a option \<Rightarrow> 'a option \<Rightarrow> 'a option" where
  "coalesce a b = (case a of None \<Rightarrow> b | Some x \<Rightarrow> Some x)"

definition refresh_node :: "time \<Rightarrow> entity \<Rightarrow> corr_node \<Rightarrow> corr_node" where
  "refresh_node now e n = n\<lparr>cn_display_key := coalesce (en_display_key e) (cn_display_key n),
     cn_url := coalesce (en_url e) (cn_url n),
     cn_updated_at := (if en_display_key e \<noteq> None \<or> en_url e \<noteq> None then now else cn_updated_at n)\<rparr>"

definition upsert_node_row :: "uuid \<Rightarrow> time \<Rightarrow> string \<Rightarrow> entity \<Rightarrow> corr_node list \<Rightarrow> corr_node \<times> corr_node list" where
  "upsert_node_row fresh now org e rows =
     (let same = is_identity org (en_system e) (en_entity_type e) (en_immutable_id e)
      in case find same rows of
           Some n \<Rightarrow> (refresh_node now e n, update_where same (refresh_node now e) rows)
         | None \<Rightarrow>
             (let n = \<lparr>cn_id = fresh, cn_org_id = org, cn_system = en_system e, cn_entity_type = en_entity_type e,
                       cn_immutable_id = en_immutable_id e, cn_display_key = en_display_key e, cn_url = en_url e,
                       cn_created_at = now, cn_updated_at = now\<rparr>
              in (n, rows @ [n])))"

definition upsert_node ::
  "uuid \<Rightarrow> time \<Rightarrow> string \<Rightarrow> jsval \<Rightarrow> 'z corr_store_scheme \<Rightarrow> corr_error + corr_node \<times> 'z corr_store_scheme" where
  "upsert_node fresh now org input st =
     and_then (normalize_entity input ''node'') (\<lambda>e.
       let (n, rows) = upsert_node_row fresh now org e (corr_nodes st)
       in Inr (n, st\<lparr>corr_nodes := rows\<rparr>))"

subsection \<open>Pairs\<close>

definition link_between :: "string \<Rightarrow> uuid \<Rightarrow> uuid \<Rightarrow> string \<Rightarrow> corr_link \<Rightarrow> bool" where
  "link_between org a b rel l \<longleftrightarrow> ck_org_id l = org \<and> ck_relationship l = rel \<and>
     (ck_source l = a \<and> ck_target l = b \<or> rel = ''counterpart'' \<and> ck_source l = b \<and> ck_target l = a)"

definition find_existing_link :: "string \<Rightarrow> uuid \<Rightarrow> uuid \<Rightarrow> string \<Rightarrow> corr_link list \<Rightarrow> corr_link option" where
  "find_existing_link org a b rel links = find (link_between org a b rel) links"

definition event_identity :: "corr_node \<Rightarrow> jsval" where
  "event_identity n = JObj [(''node_id'', JStr (cn_id n)), (''system'', JStr (cn_system n)),
     (''entity_type'', JStr (cn_entity_type n)), (''immutable_id'', JStr (cn_immutable_id n)),
     (''display_key'', jopt (cn_display_key n))]"

definition pair_event :: "string \<Rightarrow> string \<Rightarrow> bool \<Rightarrow> string \<Rightarrow> corr_link \<Rightarrow> corr_node \<Rightarrow> corr_node \<Rightarrow> outbox_input" where
  "pair_event org actor created rel l source target =
     \<lparr>oi_event_type = (if created then ''CorrelationPairCreated'' else ''CorrelationPairResolved''),
      oi_work_item_id = ck_id l, oi_org_id = org, oi_actor_type = ''integration'', oi_actor_id = actor,
      oi_payload = JObj [(''org_id'', JStr org), (''correlation_id'', JStr (ck_id l)), (''relationship'', JStr rel),
        (''created'', JBool created), (''source'', event_identity source), (''target'', event_identity target)],
      oi_schema_version = None, oi_event_id = None, oi_timestamp = None\<rparr>"

text \<open>The reference one end of a link carries to the other.\<close>

record corr_reference =
  cf_node_id :: uuid
  cf_system :: string
  cf_value :: string

record pair_result =
  pr_created :: bool
  pr_source :: corr_node
  pr_target :: corr_node
  pr_link :: corr_link
  pr_source_ref :: corr_reference
  pr_target_ref :: corr_reference

definition link_references :: "corr_node \<Rightarrow> corr_node \<Rightarrow> corr_reference \<times> corr_reference" where
  "link_references source target =
     (\<lparr>cf_node_id = cn_id source, cf_system = cn_system source, cf_value = cn_immutable_id target\<rparr>,
      \<lparr>cf_node_id = cn_id target, cf_system = cn_system target, cf_value = cn_immutable_id source\<rparr>)"

definition pair_tx ::
  "(string \<Rightarrow> string) \<Rightarrow> (nat \<Rightarrow> 'z corr_store_scheme \<Rightarrow> 'z corr_store_scheme) \<Rightarrow> (nat \<Rightarrow> uuid) \<Rightarrow> time \<Rightarrow> string
   \<Rightarrow> string \<Rightarrow> entity \<Rightarrow> entity \<Rightarrow> string \<Rightarrow> 'z corr_store_scheme
   \<Rightarrow> corr_error + pair_result \<times> envelope \<times> 'z corr_store_scheme" where
  "pair_tx sha env ids now org actor e1 e2 rel st =
     (let (source, nodes1) = upsert_node_row (ids 0) now org e1 (corr_nodes st);
          (target, nodes2) = upsert_node_row (ids 1) now org e2 nodes1;
          (link, created) =
            (case find_existing_link org (cn_id source) (cn_id target) rel (corr_links st) of
               Some l \<Rightarrow> (l, False)
             | None \<Rightarrow> (\<lparr>ck_id = ids 2, ck_org_id = org, ck_source = cn_id source, ck_target = cn_id target,
                         ck_relationship = rel, ck_created_by = actor, ck_created_at = now\<rparr>, True));
          st1 = st\<lparr>corr_nodes := nodes2, corr_links := corr_links st @ (if created then [link] else [])\<rparr>;
          stored_source = (if ck_source link = cn_id source then source else target);
          stored_target = (if ck_target link = cn_id target then target else source);
          (source_ref, target_ref) = link_references stored_source stored_target
      in case enqueue sha env (ids 3) now (pair_event org actor created rel link source target) st1 of
           Inl e \<Rightarrow> Inl (CorrDb e)
         | Inr (ev, st2) \<Rightarrow>
             Inr (\<lparr>pr_created = created, pr_source = source, pr_target = target, pr_link = link,
                   pr_source_ref = source_ref, pr_target_ref = target_ref\<rparr>, ev, st2))"

definition or_counterpart :: "jsval \<Rightarrow> jsval" where
  "or_counterpart v = (if js_truthy v then v else JStr ''counterpart'')"

definition create_pair ::
  "(string \<Rightarrow> string) \<Rightarrow> (nat \<Rightarrow> 'z corr_store_scheme \<Rightarrow> 'z corr_store_scheme) \<Rightarrow> 'z corr_store_scheme handler
   \<Rightarrow> (nat \<Rightarrow> uuid) \<Rightarrow> time \<Rightarrow> string \<Rightarrow> jsval \<Rightarrow> string \<Rightarrow> 'z corr_store_scheme
   \<Rightarrow> corr_error + pair_result \<times> 'z corr_store_scheme" where
  "create_pair sha env pub ids now org dto actor st =
     and_then (normalize_entity (jprop dto ''source'') ''source'') (\<lambda>e1.
     and_then (normalize_entity (jprop dto ''target'') ''target'') (\<lambda>e2.
     and_then (normalize_relationship (or_counterpart (jprop dto ''relationship''))) (\<lambda>rel.
       if same_identity e1 e2 then Inl (InvalidCorrelation ''source and target must identify different records'')
       else and_then (pair_tx sha env ids now org actor e1 e2 rel st) (\<lambda>(p, ev, st1).
         Inr (p, snd (dispatch_envelope pub now ev st1))))))"

subsection \<open>Resolution\<close>

definition node_by_id :: "string \<Rightarrow> corr_node list \<Rightarrow> uuid \<Rightarrow> corr_node option" where
  "node_by_id org rows i = find (\<lambda>n. cn_id n = i \<and> cn_org_id n = org) rows"

text \<open>The joined links of a tenant that touch the frontier, oldest first.\<close>

definition frontier_links ::
  "string \<Rightarrow> uuid list \<Rightarrow> 'z corr_store_scheme \<Rightarrow> (corr_link \<times> corr_node \<times> corr_node) list" where
  "frontier_links org frontier st =
     List.map_filter (\<lambda>l. case (node_by_id org (corr_nodes st) (ck_source l), node_by_id org (corr_nodes st) (ck_target l)) of
         (Some s, Some t) \<Rightarrow> Some (l, s, t) | _ \<Rightarrow> None)
       (sort_key ck_created_at (sort_key ck_id (filter (\<lambda>l. ck_org_id l = org \<and>
          (ck_source l \<in> set frontier \<or> ck_target l \<in> set frontier)) (corr_links st))))"

record search =
  se_nodes :: "(uuid \<times> corr_node \<times> nat) list"
  se_links :: "(uuid \<times> corr_link \<times> corr_node \<times> corr_node) list"
  se_next :: "uuid list"

definition visit_node :: "nat \<Rightarrow> corr_node \<Rightarrow> search \<Rightarrow> search" where
  "visit_node distance n s =
     (if cn_id n \<in> fst ` set (se_nodes s) then s
      else s\<lparr>se_nodes := se_nodes s @ [(cn_id n, n, distance)], se_next := se_next s @ [cn_id n]\<rparr>)"

definition visit_link :: "nat \<Rightarrow> search \<Rightarrow> corr_link \<times> corr_node \<times> corr_node \<Rightarrow> search" where
  "visit_link distance s row =
     (case row of (l, source, target) \<Rightarrow>
        (let s1 = visit_node distance target (visit_node distance source s)
         in if ck_id l \<in> fst ` set (se_links s1) then s1
            else s1\<lparr>se_links := se_links s1 @ [(ck_id l, l, source, target)]\<rparr>))"

text \<open>The loop over distances; \<open>left\<close> counts the levels that remain.\<close>

fun search_levels :: "string \<Rightarrow> 'z corr_store_scheme \<Rightarrow> nat \<Rightarrow> nat \<Rightarrow> uuid list \<Rightarrow> search \<Rightarrow> search" where
  "search_levels org st distance 0 frontier s = s"
| "search_levels org st distance (Suc left) frontier s =
     (if frontier = [] then s
      else let s1 = foldl (visit_link distance) (s\<lparr>se_next := []\<rparr>) (frontier_links org frontier st)
           in search_levels org st (Suc distance) left (se_next s1) s1)"

record corr_graph =
  cg_root :: corr_node
  cg_depth :: int
  cg_nodes :: "(uuid \<times> corr_node \<times> nat) list"
  cg_links :: "(uuid \<times> corr_link \<times> corr_node \<times> corr_node) list"
  cg_direct :: nat
  cg_max_distance :: nat

definition compare_nodes :: "(string \<Rightarrow> string \<Rightarrow> int) \<Rightarrow> uuid \<times> corr_node \<times> nat \<Rightarrow> uuid \<times> corr_node \<times> nat \<Rightarrow> int" where
  "compare_nodes lc a b =
     (if int (snd (snd a)) - int (snd (snd b)) \<noteq> 0 then int (snd (snd a)) - int (snd (snd b))
      else if lc (cn_system (fst (snd a))) (cn_system (fst (snd b))) \<noteq> 0
        then lc (cn_system (fst (snd a))) (cn_system (fst (snd b)))
      else lc (cn_immutable_id (fst (snd a))) (cn_immutable_id (fst (snd b))))"

definition search_from :: "string \<Rightarrow> 'z corr_store_scheme \<Rightarrow> nat \<Rightarrow> corr_node \<Rightarrow> search" where
  "search_from org st depth origin =
     search_levels org st 1 depth [cn_id origin] \<lparr>se_nodes = [(cn_id origin, origin, 0)], se_links = [], se_next = []\<rparr>"

definition resolve ::
  "(string \<Rightarrow> string \<Rightarrow> int) \<Rightarrow> string \<Rightarrow> string \<Rightarrow> string \<Rightarrow> string \<Rightarrow> int \<Rightarrow> 'z corr_store_scheme \<Rightarrow> corr_error + corr_graph" where
  "resolve lc org system ty i depth st =
     and_then (normalize_entity (JObj [(''system'', JStr system), (''entity_type'', JStr ty), (''immutable_id'', JStr i)]) ''identity'') (\<lambda>e.
       if depth < 1 \<or> depth > 10 then Inl (InvalidCorrelation ''depth must be an integer from 1 to 10'')
       else case find (is_identity org (en_system e) (en_entity_type e) (en_immutable_id e)) (corr_nodes st) of
         None \<Rightarrow> Inl (CorrelationNotFound ''Correlation identity not found'')
       | Some origin \<Rightarrow>
           (let s = search_from org st (nat depth) origin;
                known = fst ` set (se_nodes s);
                links = filter (\<lambda>(_, l, _, _). ck_source l \<in> known \<and> ck_target l \<in> known) (se_links s)
            in Inr \<lparr>cg_root = origin, cg_depth = depth, cg_nodes = sort_by (compare_nodes lc) (se_nodes s), cg_links = links,
                 cg_direct = length (filter (\<lambda>(_, l, _, _). ck_relationship l = ''counterpart'' \<and>
                    (ck_source l = cn_id origin \<or> ck_target l = cn_id origin)) links),
                 cg_max_distance = foldr (\<lambda>(_, _, d) m. max d m) (se_nodes s) 0\<rparr>))"

subsection \<open>Metadata\<close>

definition uuid_pattern :: "string \<Rightarrow> bool" where
  "uuid_pattern s \<longleftrightarrow> (let parts = split_on (CHR ''-'') s
     in map length parts = [8, 4, 4, 4, 12] \<and> list_all (list_all hex_digit) parts \<and>
        hd (parts ! 2) \<in> set ''12345'' \<and> hd (parts ! 3) \<in> set ''89abAB'')"

definition metadata_event :: "string \<Rightarrow> string \<Rightarrow> string \<Rightarrow> corr_node \<Rightarrow> corr_node \<Rightarrow> outbox_input" where
  "metadata_event org actor node_id before after =
     \<lparr>oi_event_type = ''CorrelationMetadataUpdated'', oi_work_item_id = node_id, oi_org_id = org,
      oi_actor_type = ''integration'', oi_actor_id = actor,
      oi_payload = JObj [(''org_id'', JStr org), (''identity'', event_identity after),
        (''before'', JObj [(''display_key'', jopt (cn_display_key before)), (''url'', jopt (cn_url before))]),
        (''after'', JObj [(''display_key'', jopt (cn_display_key after)), (''url'', jopt (cn_url after))])],
      oi_schema_version = None, oi_event_id = None, oi_timestamp = None\<rparr>"

definition has_own :: "jsobj \<Rightarrow> string \<Rightarrow> bool" where
  "has_own obj k \<longleftrightarrow> k \<in> fst ` set obj"

definition update_metadata ::
  "(string \<Rightarrow> string) \<Rightarrow> (nat \<Rightarrow> 'z corr_store_scheme \<Rightarrow> 'z corr_store_scheme) \<Rightarrow> 'z corr_store_scheme handler
   \<Rightarrow> uuid \<Rightarrow> time \<Rightarrow> string \<Rightarrow> string \<Rightarrow> jsobj \<Rightarrow> string \<Rightarrow> 'z corr_store_scheme
   \<Rightarrow> corr_error + corr_node \<times> 'z corr_store_scheme" where
  "update_metadata sha env pub fresh now org node_id dto actor st =
     (if \<not> uuid_pattern node_id then Inl (InvalidCorrelation ''node id must be a UUID'')
      else if \<not> has_own dto ''display_key'' \<and> \<not> has_own dto ''url'' then Inl (InvalidCorrelation ''display_key or url is required'')
      else case find (has_own dto) [''system'', ''entity_type'', ''immutable_id''] of
        Some f \<Rightarrow> Inl (InvalidCorrelation (f @ '' is immutable; create a new identity instead''))
      | None \<Rightarrow>
          and_then (corr_optional_text (jget dto ''display_key'') ''display_key'') (\<lambda>d.
          and_then (corr_optional_text (jget dto ''url'') ''url'') (\<lambda>u.
            case node_by_id org (corr_nodes st) (lower node_id) of
              None \<Rightarrow> Inl (CorrelationNotFound ''Correlation node not found'')
            | Some before \<Rightarrow>
                (let change = (\<lambda>n. n\<lparr>cn_display_key := (if has_own dto ''display_key'' then d else cn_display_key n),
                       cn_url := (if has_own dto ''url'' then u else cn_url n), cn_updated_at := now\<rparr>);
                     st1 = st\<lparr>corr_nodes := update_where (\<lambda>n. cn_id n = lower node_id \<and> cn_org_id n = org) change (corr_nodes st)\<rparr>
                 in case enqueue sha env fresh now (metadata_event org actor node_id before (change before)) st1 of
                      Inl e \<Rightarrow> Inl (CorrDb e)
                    | Inr (ev, st2) \<Rightarrow> Inr (change before, snd (dispatch_envelope pub now ev st2))))))"

subsection \<open>Resolution is reachability\<close>

text \<open>Two nodes are joined when a link of the tenant connects them and both exist in it.\<close>

definition joined :: "string \<Rightarrow> 'z corr_store_scheme \<Rightarrow> uuid \<Rightarrow> uuid \<Rightarrow> bool" where
  "joined org st a b \<longleftrightarrow> (\<exists>l \<in> set (corr_links st). ck_org_id l = org \<and>
     node_by_id org (corr_nodes st) (ck_source l) \<noteq> None \<and> node_by_id org (corr_nodes st) (ck_target l) \<noteq> None \<and>
     (ck_source l = a \<and> ck_target l = b \<or> ck_source l = b \<and> ck_target l = a))"

fun ball_of :: "('a \<Rightarrow> 'a \<Rightarrow> bool) \<Rightarrow> 'a \<Rightarrow> nat \<Rightarrow> 'a set" where
  "ball_of R a 0 = {a}"
| "ball_of R a (Suc n) = ball_of R a n \<union> {c. \<exists>b \<in> ball_of R a n. R b c}"

lemma ball_mono: "m \<le> n \<Longrightarrow> ball_of R a m \<subseteq> ball_of R a n"
  by (induction n) (auto simp: le_Suc_eq)

lemma ball_steps: "c \<in> ball_of R a n \<longleftrightarrow> (\<exists>k \<le> n. (R ^^ k) a c)"
proof
  assume "c \<in> ball_of R a n"
  then show "\<exists>k \<le> n. (R ^^ k) a c"
  proof (induction n arbitrary: c)
    case (Suc n)
    then consider "c \<in> ball_of R a n" | b where "b \<in> ball_of R a n" "R b c" by auto
    then show ?case
    proof cases
      case 2
      with Suc.IH [of b] obtain k where "k \<le> n" "(R ^^ k) a b" by auto
      with 2 have "(R ^^ Suc k) a c" by auto
      with \<open>k \<le> n\<close> show ?thesis by (metis Suc_le_mono)
    qed (use Suc.IH le_SucI in blast)
  qed simp
next
  have "(R ^^ k) a c \<Longrightarrow> c \<in> ball_of R a k" for k
    by (induction k arbitrary: c) auto
  then show "\<exists>k \<le> n. (R ^^ k) a c \<Longrightarrow> c \<in> ball_of R a n"
    using ball_mono [of _ n R a] by blast
qed

lemma ball_stable: "ball_of R a (Suc n) = ball_of R a n \<Longrightarrow> n \<le> m \<Longrightarrow> ball_of R a m = ball_of R a n"
  by (induction m) (auto simp: le_Suc_eq)

definition least_level :: "('a \<Rightarrow> 'a \<Rightarrow> bool) \<Rightarrow> 'a \<Rightarrow> 'a \<Rightarrow> nat \<Rightarrow> bool" where
  "least_level R a c k \<longleftrightarrow> c \<in> ball_of R a k \<and> (\<forall>j < k. c \<notin> ball_of R a j)"

lemma least_level_steps: "least_level R a c k \<longleftrightarrow> (R ^^ k) a c \<and> (\<forall>j < k. \<not> (R ^^ j) a c)"
proof
  assume l: "least_level R a c k"
  then obtain j where "j \<le> k" "(R ^^ j) a c" by (auto simp: least_level_def ball_steps)
  moreover have "\<not> (R ^^ i) a c" if "i < k" for i
    using l that by (auto simp: least_level_def ball_steps)
  ultimately show "(R ^^ k) a c \<and> (\<forall>j < k. \<not> (R ^^ j) a c)" by (metis le_neq_implies_less)
next
  assume "(R ^^ k) a c \<and> (\<forall>j < k. \<not> (R ^^ j) a c)"
  then show "least_level R a c k" by (auto simp: least_level_def ball_steps)
qed

lemma least_level_exists: "c \<in> ball_of R a n \<Longrightarrow> \<exists>k \<le> n. least_level R a c k"
proof (induction n)
  case (Suc n)
  show ?case
  proof (cases "c \<in> ball_of R a n")
    case True
    with Suc.IH show ?thesis using le_SucI by blast
  next
    case False
    then have "c \<notin> ball_of R a j" if "j < Suc n" for j
      using that ball_mono [of j n R a] by auto
    with Suc.prems show ?thesis unfolding least_level_def by blast
  qed
qed (simp add: least_level_def)

lemma least_level_unique: "least_level R a c k \<Longrightarrow> least_level R a c k' \<Longrightarrow> k = k'"
  unfolding least_level_def by (metis linorder_neqE_nat)

abbreviation found :: "search \<Rightarrow> uuid set" where
  "found s \<equiv> fst ` set (se_nodes s)"

definition ends_of :: "(corr_link \<times> corr_node \<times> corr_node) list \<Rightarrow> uuid set" where
  "ends_of rows = (\<lambda>r. cn_id (fst (snd r))) ` set rows \<union> (\<lambda>r. cn_id (snd (snd r))) ` set rows"

definition grown :: "nat \<Rightarrow> search \<Rightarrow> search \<Rightarrow> bool" where
  "grown d s s' \<longleftrightarrow> (\<exists>new. se_nodes s' = se_nodes s @ new \<and> se_next s' = se_next s @ map fst new \<and>
     (\<forall>e \<in> set new. snd (snd e) = d \<and> fst e \<notin> found s))"

lemma grown_refl: "grown d s s"
  by (simp add: grown_def)

lemma grown_trans: "grown d a b \<Longrightarrow> grown d b c \<Longrightarrow> grown d a c"
  by (fastforce simp: grown_def)

lemma visit_node_grown: "grown d s (visit_node d n s)" "found (visit_node d n s) = insert (cn_id n) (found s)"
  by (auto simp: grown_def visit_node_def)

lemma visit_link_grown:
  "grown d s (visit_link d s row)"
  "found (visit_link d s row) = found s \<union> ends_of [row]"
proof -
  obtain l a b where row: "row = (l, a, b)" by (cases row) auto
  let ?s1 = "visit_node d b (visit_node d a s)"
  have same: "se_nodes (visit_link d s row) = se_nodes ?s1" "se_next (visit_link d s row) = se_next ?s1"
    by (simp_all add: row visit_link_def Let_def)
  show "grown d s (visit_link d s row)"
    using grown_trans [OF visit_node_grown(1) [of d s a] visit_node_grown(1) [of d _ b]] by (simp add: grown_def same)
  have "found (visit_link d s row) = found ?s1" by (simp only: same)
  then show "found (visit_link d s row) = found s \<union> ends_of [row]"
    by (simp add: visit_node_grown ends_of_def row)
qed

lemma visit_links_grown:
  "grown d s (foldl (visit_link d) s rows) \<and> found (foldl (visit_link d) s rows) = found s \<union> ends_of rows"
proof (induction rows arbitrary: s)
  case (Cons row rows)
  show ?case
    using Cons [of "visit_link d s row"] visit_link_grown [of d s row] grown_trans
    by (auto simp: ends_of_def)
qed (simp add: grown_refl ends_of_def)

lemma node_by_id_id: "node_by_id org rows i = Some n \<Longrightarrow> cn_id n = i"
  by (auto simp: node_by_id_def dest: find_SomeD)

lemma frontier_rows:
  "(l, s, t) \<in> set (frontier_links org frontier st) \<longleftrightarrow> l \<in> set (corr_links st) \<and> ck_org_id l = org \<and>
     (ck_source l \<in> set frontier \<or> ck_target l \<in> set frontier) \<and>
     node_by_id org (corr_nodes st) (ck_source l) = Some s \<and> node_by_id org (corr_nodes st) (ck_target l) = Some t"
  by (auto simp: frontier_links_def set_map_filter split: option.splits)

lemma frontier_ends:
  "ends_of (frontier_links org frontier st) =
     {c. \<exists>b. joined org st b c \<and> (b \<in> set frontier \<or> c \<in> set frontier)}"
proof (intro set_eqI iffI)
  fix c
  assume "c \<in> ends_of (frontier_links org frontier st)"
  then obtain l s t where row: "(l, s, t) \<in> set (frontier_links org frontier st)" and c: "c = cn_id s \<or> c = cn_id t"
    by (auto simp: ends_of_def)
  then have "joined org st (ck_source l) (ck_target l)" "joined org st (ck_target l) (ck_source l)"
    unfolding joined_def frontier_rows by (metis option.discI)+
  moreover have "c = ck_source l \<or> c = ck_target l" "ck_source l \<in> set frontier \<or> ck_target l \<in> set frontier"
    using c row by (auto simp: frontier_rows dest: node_by_id_id)
  ultimately show "c \<in> {c. \<exists>b. joined org st b c \<and> (b \<in> set frontier \<or> c \<in> set frontier)}" by blast
next
  fix c
  assume "c \<in> {c. \<exists>b. joined org st b c \<and> (b \<in> set frontier \<or> c \<in> set frontier)}"
  then obtain l s t where "(l, s, t) \<in> set (frontier_links org frontier st)" "c = cn_id s \<or> c = cn_id t"
    by (fastforce simp: frontier_rows joined_def dest: node_by_id_id)
  then show "c \<in> ends_of (frontier_links org frontier st)" by (force simp: ends_of_def)
qed

lemma joined_sym: "joined org st a b \<Longrightarrow> joined org st b a"
  by (auto simp: joined_def)

text \<open>After \<open>d\<close> levels the search knows the ball of radius \<open>d\<close>, each node at its least distance.\<close>

definition search_at :: "string \<Rightarrow> 'z corr_store_scheme \<Rightarrow> uuid \<Rightarrow> nat \<Rightarrow> search \<Rightarrow> bool" where
  "search_at org st origin d s \<longleftrightarrow> found s = ball_of (joined org st) origin d \<and>
     (\<forall>e \<in> set (se_nodes s). snd (snd e) \<le> d \<and> least_level (joined org st) origin (fst e) (snd (snd e)))"

lemma search_step:
  assumes at: "search_at org st origin d s"
    and front: "\<And>c. c \<in> set frontier \<longleftrightarrow> c \<in> ball_of (joined org st) origin d \<and>
      (\<forall>j < d. c \<notin> ball_of (joined org st) origin j)"
  defines "s1 \<equiv> foldl (visit_link (Suc d)) (s\<lparr>se_next := []\<rparr>) (frontier_links org frontier st)"
  shows "search_at org st origin (Suc d) s1"
    and "c \<in> set (se_next s1) \<longleftrightarrow> c \<in> ball_of (joined org st) origin (Suc d) \<and>
      (\<forall>j < Suc d. c \<notin> ball_of (joined org st) origin j)"
proof -
  let ?B = "ball_of (joined org st) origin"
  have in_front: "c \<in> set frontier" if "c \<in> ?B d" "joined org st c x" "x \<notin> ?B d" for c x
  proof -
    have "c \<notin> ?B j" if "j < d" for j
    proof
      assume "c \<in> ?B j"
      with \<open>joined org st c x\<close> have "x \<in> ?B (Suc j)" by auto
      moreover have "?B (Suc j) \<subseteq> ?B d" using \<open>j < d\<close> by (intro ball_mono) simp
      ultimately show False using \<open>x \<notin> ?B d\<close> by blast
    qed
    with that(1) front show ?thesis by blast
  qed
  have grow: "grown (Suc d) (s\<lparr>se_next := []\<rparr>) s1" and known: "found s1 = found s \<union> ends_of (frontier_links org frontier st)"
    using visit_links_grown [of "Suc d" "s\<lparr>se_next := []\<rparr>" "frontier_links org frontier st"] by (simp_all add: s1_def)
  have next_ball: "found s1 = ?B (Suc d)"
  proof -
    have "ends_of (frontier_links org frontier st) \<subseteq> ?B (Suc d)"
      unfolding frontier_ends using front joined_sym by fastforce
    moreover have "c \<in> ends_of (frontier_links org frontier st)" if "c \<in> ?B (Suc d)" "c \<notin> ?B d" for c
      unfolding frontier_ends using that in_front by auto
    ultimately show ?thesis
      using known at by (auto simp: search_at_def)
  qed
  obtain new where new: "se_nodes s1 = se_nodes s @ new" "se_next s1 = map fst new"
      "\<forall>e \<in> set new. snd (snd e) = Suc d \<and> fst e \<notin> found s"
    using grow by (auto simp: grown_def)
  have out: "c \<notin> ?B d \<Longrightarrow> j < Suc d \<Longrightarrow> c \<notin> ?B j" for c j
    using ball_mono [of j d "joined org st" origin] by auto
  have added: "c \<in> set (se_next s1) \<longleftrightarrow> c \<in> ?B (Suc d) \<and> c \<notin> ?B d" for c
  proof -
    have "found s1 = found s \<union> set (se_next s1)" "set (se_next s1) \<inter> found s = {}"
      using new by auto
    with next_ball at show ?thesis by (auto simp: search_at_def)
  qed
  show "c \<in> set (se_next s1) \<longleftrightarrow> c \<in> ?B (Suc d) \<and> (\<forall>j < Suc d. c \<notin> ?B j)"
    unfolding added using out by blast
  have "least_level (joined org st) origin (fst e) (Suc d)" if "e \<in> set new" for e
    using that new added [of "fst e"] out unfolding least_level_def by auto
  with new at next_ball show "search_at org st origin (Suc d) s1"
    by (auto simp: search_at_def)
qed

lemma search_levels_at:
  assumes "search_at org st origin d s"
    and "\<And>c. c \<in> set frontier \<longleftrightarrow> c \<in> ball_of (joined org st) origin d \<and>
      (\<forall>j < d. c \<notin> ball_of (joined org st) origin j)"
  shows "search_at org st origin (d + left) (search_levels org st (Suc d) left frontier s)"
  using assms
proof (induction left arbitrary: d s frontier)
  case (Suc left)
  let ?B = "ball_of (joined org st) origin"
  show ?case
  proof (cases "frontier = []")
    case True
    then have "d \<noteq> 0" using Suc.prems(2) [of origin] by (cases d) auto
    then obtain e where e: "d = Suc e" by (cases d) auto
    have "?B (Suc e) = ?B e"
    proof
      show "?B (Suc e) \<subseteq> ?B e"
      proof
        fix c
        assume "c \<in> ?B (Suc e)"
        with Suc.prems(2) [of c] True e obtain j where "j < Suc e" "c \<in> ?B j" by auto
        with ball_mono [of j e "joined org st" origin] show "c \<in> ?B e" by auto
      qed
    qed simp
    then have "?B (d + Suc left) = ?B d"
      using ball_stable [of "joined org st" origin e "d + Suc left"] ball_stable [of "joined org st" origin e d] e by simp
    with Suc.prems(1) True show ?thesis by (auto simp: search_at_def)
  next
    case False
    from Suc.IH [OF search_step [OF Suc.prems]] False show ?thesis by (simp add: Let_def)
  qed
qed simp

lemma search_from_at: "search_at org st (cn_id origin) depth (search_from org st depth origin)"
proof -
  have "search_at org st (cn_id origin) (0 + depth) (search_from org st depth origin)"
    unfolding search_from_def One_nat_def
    by (rule search_levels_at) (auto simp: search_at_def least_level_def)
  then show ?thesis by simp
qed

text \<open>C17. Resolving an identity computes shortest paths in the tenant's identity graph: the returned
  nodes are exactly those at most the given depth of links away, each with its least number of links.\<close>

theorem resolve_is_shortest_paths:
  assumes "resolve lc org system ty i depth st = Inr g"
  shows "(\<lambda>(c, n, d). (c, d)) ` set (cg_nodes g) =
    {(c, d). int d \<le> depth \<and> (joined org st ^^ d) (cn_id (cg_root g)) c \<and>
       (\<forall>j < d. \<not> (joined org st ^^ j) (cn_id (cg_root g)) c)}"
proof -
  have depth: "0 \<le> depth" and nodes: "set (cg_nodes g) = set (se_nodes (search_from org st (nat depth) (cg_root g)))"
    using assms by (auto simp: resolve_def and_then_Inr set_sort_by Let_def split: if_splits option.splits)
  let ?s = "search_from org st (nat depth) (cg_root g)" and ?R = "joined org st" and ?o = "cn_id (cg_root g)"
  have at: "search_at org st ?o (nat depth) ?s" by (rule search_from_at)
  have "(\<lambda>e. (fst e, snd (snd e))) ` set (se_nodes ?s) = {(c, d). d \<le> nat depth \<and> least_level ?R ?o c d}"
  proof (intro set_eqI iffI)
    fix p
    assume "p \<in> {(c, d). d \<le> nat depth \<and> least_level ?R ?o c d}"
    then obtain c d where p: "p = (c, d)" "d \<le> nat depth" "least_level ?R ?o c d" by auto
    then have "c \<in> found ?s"
      using at ball_mono [of d "nat depth" ?R ?o] by (auto simp: search_at_def least_level_def)
    then obtain e where e: "e \<in> set (se_nodes ?s)" "fst e = c" by auto
    then have "snd (snd e) = d" using at p(3) least_level_unique unfolding search_at_def by metis
    with e p show "p \<in> (\<lambda>e. (fst e, snd (snd e))) ` set (se_nodes ?s)" by force
  qed (use at in \<open>auto simp: search_at_def\<close>)
  moreover have "(\<lambda>(c, n, d). (c, d)) = (\<lambda>e :: uuid \<times> corr_node \<times> nat. (fst e, snd (snd e)))" by auto
  ultimately show ?thesis
    using depth by (auto simp: nodes least_level_steps zle_int [symmetric] simp del: zle_int)
qed

definition sample_node :: "string \<Rightarrow> string \<Rightarrow> corr_node" where
  "sample_node i system = \<lparr>cn_id = i, cn_org_id = ''o1'', cn_system = system, cn_entity_type = ''issue'',
     cn_immutable_id = ''7'', cn_display_key = None, cn_url = None, cn_created_at = 0, cn_updated_at = 0\<rparr>"

definition sample_link :: "string \<Rightarrow> string \<Rightarrow> string \<Rightarrow> corr_link" where
  "sample_link i a b = \<lparr>ck_id = i, ck_org_id = ''o1'', ck_source = a, ck_target = b, ck_relationship = ''counterpart'',
     ck_created_by = ''u1'', ck_created_at = 0\<rparr>"

definition sample_corr :: corr_store where
  "sample_corr = \<lparr>work_items = [], domain_events = [], audit_events = [], integrity = [], integrity_seq = 1,
     outbox = [], emitted = [],
     corr_nodes = [sample_node ''a'' ''jira'', sample_node ''b'' ''snow'', sample_node ''c'' ''gitlab''],
     corr_links = [sample_link ''1'' ''a'' ''b'', sample_link ''2'' ''c'' ''b'']\<rparr>"

lemma resolve_is_shortest_paths_witness:
  "\<exists>g. resolve (\<lambda>_ _. 0) ''o1'' ''jira'' ''issue'' ''7'' 2 sample_corr = Inr g \<and>
     (joined ''o1'' sample_corr ^^ 2) ''a'' ''c'' \<and> \<not> joined ''o1'' sample_corr ''a'' ''c''"
proof -
  have norm: "normalize_entity (JObj [(''system'', JStr ''jira''), (''entity_type'', JStr ''issue''), (''immutable_id'', JStr ''7'')]) ''identity'' =
      Inr \<lparr>en_system = ''jira'', en_entity_type = ''issue'', en_immutable_id = ''7'', en_display_key = None, en_url = None\<rparr>"
    by code_simp
  obtain g where g: "resolve (\<lambda>_ _. 0) ''o1'' ''jira'' ''issue'' ''7'' 2 sample_corr = Inr g"
      "(''c'', 2) \<in> (\<lambda>(c, n, d). (c, d)) ` set (cg_nodes g)" "cn_id (cg_root g) = ''a''"
    by (simp add: resolve_def norm sample_corr_def sample_node_def sample_link_def is_identity_def search_from_def
        frontier_links_def node_by_id_def visit_link_def visit_node_def sort_by_def compare_nodes_def numeral_eq_Suc
        List.map_filter_def Let_def)
  then have "(''c'', 2) \<in> {(c, d). int d \<le> 2 \<and> (joined ''o1'' sample_corr ^^ d) ''a'' c \<and>
      (\<forall>j < d. \<not> (joined ''o1'' sample_corr ^^ j) ''a'' c)}"
    using resolve_is_shortest_paths [OF g(1)] by simp
  then have two: "(joined ''o1'' sample_corr ^^ 2) ''a'' ''c''" and "\<forall>j < 2. \<not> (joined ''o1'' sample_corr ^^ j) ''a'' ''c''"
    by auto
  then have one: "\<not> joined ''o1'' sample_corr ''a'' ''c''" by (drule_tac spec [of _ 1]) (simp add: eq_OO)
  show ?thesis by (intro exI conjI, rule g(1), rule two, rule one)
qed

subsection \<open>One link per pair\<close>

lemma find_same_identity:
  assumes "find (is_identity org sy ty i) rows = Some n" "\<And>x. is_identity org sy ty i (f x) = is_identity org sy ty i x"
  shows "find (is_identity org sy ty i) (update_where P f rows) = Some (if P n then f n else n)"
  using assms find_update_where [of P "is_identity org sy ty i" f rows] by simp

abbreviation entity_of :: "string \<Rightarrow> entity \<Rightarrow> corr_node \<Rightarrow> bool" where
  "entity_of org e \<equiv> is_identity org (en_system e) (en_entity_type e) (en_immutable_id e)"

lemma refresh_fields [simp]: "cn_id (refresh_node now e n) = cn_id n" "is_identity org sy ty i (refresh_node now e n) = is_identity org sy ty i n"
  by (simp_all add: refresh_node_def is_identity_def)

lemma upsert_finds:
  assumes "upsert_node_row fresh now org e rows = (n, rows')"
  shows "find (entity_of org e) rows' = Some n"
proof (cases "find (entity_of org e) rows")
  case None
  with assms show ?thesis by (auto simp: upsert_node_row_def Let_def find_append is_identity_def)
next
  case (Some m)
  then have "entity_of org e m" by (auto dest: find_SomeD)
  with Some assms find_same_identity [OF Some, of "refresh_node now e"] show ?thesis
    by (auto simp: upsert_node_row_def Let_def)
qed

lemma upsert_keeps_other:
  assumes "upsert_node_row fresh now org e rows = (n, rows')" "find (entity_of org e') rows = Some m"
    and "\<not> same_identity e e'"
  shows "find (entity_of org e') rows' = Some m"
proof (cases "find (entity_of org e) rows")
  case None
  with assms show ?thesis by (auto simp: upsert_node_row_def Let_def find_append)
next
  case (Some x)
  have "\<not> entity_of org e m" using assms(2,3) by (auto simp: is_identity_def same_identity_def dest!: find_SomeD)
  with Some assms find_same_identity [OF assms(2), of "refresh_node now e" "entity_of org e"] show ?thesis
    by (auto simp: upsert_node_row_def Let_def)
qed

lemma upsert_again:
  assumes "find (entity_of org e) rows = Some m"
  shows "fst (upsert_node_row fresh now org e rows) = refresh_node now e m"
    "map cn_id (snd (upsert_node_row fresh now org e rows)) = map cn_id rows"
  using assms by (auto simp: upsert_node_row_def Let_def map_update_where)

lemma counterpart_sym: "link_between org b a ''counterpart'' = link_between org a b ''counterpart''"
  by (auto simp: link_between_def fun_eq_iff)

lemma find_link_snoc:
  "(case find P links of None \<Rightarrow> P l | Some m \<Rightarrow> l = m) \<Longrightarrow>
   find P (links @ (if find P links = None then [l] else [])) = Some l"
  by (auto simp: find_append split: option.splits)

lemma pair_tx_result:
  assumes "pair_tx sha quiet ids now org actor e1 e2 rel st = Inr (p, ev, st')" "\<not> same_identity e1 e2"
  shows "find (entity_of org e1) (corr_nodes st') = Some (pr_source p)"
    "find (entity_of org e2) (corr_nodes st') = Some (pr_target p)"
    "find_existing_link org (cn_id (pr_source p)) (cn_id (pr_target p)) rel (corr_links st') = Some (pr_link p)"
    "pr_created p = (find_existing_link org (cn_id (pr_source p)) (cn_id (pr_target p)) rel (corr_links st) = None)"
    "corr_links st' = corr_links st @ (if pr_created p then [pr_link p] else [])"
proof -
  obtain a nodes1 where a: "upsert_node_row (ids 0) now org e1 (corr_nodes st) = (a, nodes1)" by fastforce
  obtain b nodes2 where b: "upsert_node_row (ids 1) now org e2 nodes1 = (b, nodes2)" by fastforce
  let ?old = "find_existing_link org (cn_id a) (cn_id b) rel (corr_links st)"
  define l where "l = (case ?old of Some l \<Rightarrow> l
    | None \<Rightarrow> \<lparr>ck_id = ids 2, ck_org_id = org, ck_source = cn_id a, ck_target = cn_id b, ck_relationship = rel,
        ck_created_by = actor, ck_created_at = now\<rparr>)"
  let ?st1 = "st\<lparr>corr_nodes := nodes2, corr_links := corr_links st @ (if ?old = None then [l] else [])\<rparr>"
  obtain st2 where enq: "enqueue sha quiet (ids 3) now (pair_event org actor (?old = None) rel l a b) ?st1 = Inr (ev, st2)"
      and p: "pr_source p = a" "pr_target p = b" "pr_link p = l" "pr_created p = (?old = None)" and st2: "st2 = st'"
    using assms(1) a b unfolding pair_tx_def
    by (cases ?old) (auto simp: l_def Let_def link_references_def split: sum.splits)
  have "store.more st' = store.more ?st1"
    using enq append_frame unfolding st2 by (fastforce simp: enqueue_Inr)
  then have tables: "corr_nodes st' = nodes2" "corr_links st' = corr_links st @ (if ?old = None then [l] else [])"
    by (cases st'; cases st; simp)+
  show "find (entity_of org e2) (corr_nodes st') = Some (pr_target p)"
    using upsert_finds [OF b] by (simp add: tables p)
  show "find (entity_of org e1) (corr_nodes st') = Some (pr_source p)"
    using upsert_keeps_other [OF b upsert_finds [OF a]] assms(2) by (auto simp: tables p same_identity_def)
  show "find_existing_link org (cn_id (pr_source p)) (cn_id (pr_target p)) rel (corr_links st') = Some (pr_link p)"
    unfolding tables p find_existing_link_def
    by (rule find_link_snoc) (auto simp: l_def find_existing_link_def link_between_def split: option.splits)
  show "pr_created p = (find_existing_link org (cn_id (pr_source p)) (cn_id (pr_target p)) rel (corr_links st) = None)"
    "corr_links st' = corr_links st @ (if pr_created p then [pr_link p] else [])"
    by (simp_all add: p tables)
qed

lemma pair_tx_nodes:
  assumes "pair_tx sha quiet ids now org actor e1 e2 rel st = Inr (p, ev, st')"
    and "find (entity_of org e1) (corr_nodes st) = Some m1" "find (entity_of org e2) (corr_nodes st) = Some m2"
    and "\<not> same_identity e1 e2"
  shows "cn_id (pr_source p) = cn_id m1 \<and> cn_id (pr_target p) = cn_id m2 \<and>
    map cn_id (corr_nodes st') = map cn_id (corr_nodes st)"
proof -
  obtain a nodes1 where a: "upsert_node_row (ids 0) now org e1 (corr_nodes st) = (a, nodes1)" by fastforce
  obtain b nodes2 where b: "upsert_node_row (ids 1) now org e2 nodes1 = (b, nodes2)" by fastforce
  have m2: "find (entity_of org e2) nodes1 = Some m2" by (rule upsert_keeps_other [OF a assms(3,4)])
  obtain st1 st2 input where enq: "enqueue sha quiet (ids 3) now input st1 = Inr (ev, st2)" and st1: "corr_nodes st1 = nodes2"
      and p: "pr_source p = a" "pr_target p = b" "st' = st2"
    using assms(1) a b unfolding pair_tx_def
    by (auto simp: Let_def link_references_def split: sum.splits option.splits)
  have "store.more st2 = store.more st1"
    using enq append_frame by (fastforce simp: enqueue_Inr)
  then have "corr_nodes st' = nodes2" using st1 by (cases st2; cases st1; simp add: p)
  with upsert_again [OF assms(2), of "ids 0" now] upsert_again [OF m2, of "ids 1" now] a b p show ?thesis by simp
qed

abbreviation correlate ::
  "(string \<Rightarrow> string) \<Rightarrow> (nat \<Rightarrow> uuid) \<Rightarrow> time \<Rightarrow> string \<Rightarrow> jsval \<Rightarrow> string \<Rightarrow> 'z corr_store_scheme
   \<Rightarrow> corr_error + pair_result \<times> 'z corr_store_scheme" where
  "correlate sha \<equiv> create_pair sha quiet (publish_envelope (store_bus sha quiet))"

lemma corr_tables_dispatch:
  "corr_nodes (snd (dispatch_envelope (publish_envelope (store_bus sha quiet)) now ev (st :: 'z corr_store_scheme))) = corr_nodes st"
  "corr_links (snd (dispatch_envelope (publish_envelope (store_bus sha quiet)) now ev (st :: 'z corr_store_scheme))) = corr_links st"
proof -
  have "store.more (snd (dispatch_envelope (publish_envelope (store_bus sha quiet)) now ev st)) = store.more st"
    by (simp add: sb.dispatch_ok bus_tables)
  then show "corr_nodes (snd (dispatch_envelope (publish_envelope (store_bus sha quiet)) now ev st)) = corr_nodes st"
      "corr_links (snd (dispatch_envelope (publish_envelope (store_bus sha quiet)) now ev st)) = corr_links st"
    by (cases "snd (dispatch_envelope (publish_envelope (store_bus sha quiet)) now ev st)"; cases st; simp)+
qed

lemma create_pair_Inr:
  assumes "correlate sha ids now org dto actor st = Inr (p, st')"
  obtains e1 e2 rel ev st1 where "normalize_entity (jprop dto ''source'') ''source'' = Inr e1"
    "normalize_entity (jprop dto ''target'') ''target'' = Inr e2"
    "normalize_relationship (or_counterpart (jprop dto ''relationship'')) = Inr rel"
    "\<not> same_identity e1 e2" "pair_tx sha quiet ids now org actor e1 e2 rel st = Inr (p, ev, st1)"
    "corr_nodes st' = corr_nodes st1" "corr_links st' = corr_links st1"
  using assms unfolding create_pair_def
  by (auto simp: and_then_Inr corr_tables_dispatch split: if_splits)

lemma normalize_entity_label:
  "normalize_entity v a = Inr e \<Longrightarrow> normalize_entity v b = Inr e' \<Longrightarrow> e = e'"
  by (auto simp: normalize_entity_def and_then_Inr required_token_def corr_required_text_def corr_optional_text_def
      split: if_splits jsval.splits)

text \<open>Two records have one counterpart link however often and in whichever direction they are paired:
  pairing them again, with source and target exchanged, resolves the stored link, and adds neither a
  link nor a node.\<close>

lemma counterparts_pair_once:
  assumes "correlate sha ids now org dto actor st = Inr (p, st')"
    and "correlate sha ids' now' org dto' actor' st' = Inr (p', st'')"
    and "jprop dto' ''source'' = jprop dto ''target''" "jprop dto' ''target'' = jprop dto ''source''"
    and "normalize_relationship (or_counterpart (jprop dto ''relationship'')) = Inr ''counterpart''"
    and "normalize_relationship (or_counterpart (jprop dto' ''relationship'')) = Inr ''counterpart''"
  shows "\<not> pr_created p' \<and> pr_link p' = pr_link p \<and> corr_links st'' = corr_links st' \<and>
    map cn_id (corr_nodes st'') = map cn_id (corr_nodes st')"
proof -
  obtain e1 e2 rel ev st1 where f: "normalize_entity (jprop dto ''source'') ''source'' = Inr e1"
    "normalize_entity (jprop dto ''target'') ''target'' = Inr e2"
    "normalize_relationship (or_counterpart (jprop dto ''relationship'')) = Inr rel"
    "\<not> same_identity e1 e2" "pair_tx sha quiet ids now org actor e1 e2 rel st = Inr (p, ev, st1)"
    "corr_nodes st' = corr_nodes st1" "corr_links st' = corr_links st1"
    by (rule create_pair_Inr [OF assms(1)])
  obtain d1 d2 rel' ev' st2 where g: "normalize_entity (jprop dto' ''source'') ''source'' = Inr d1"
    "normalize_entity (jprop dto' ''target'') ''target'' = Inr d2"
    "normalize_relationship (or_counterpart (jprop dto' ''relationship'')) = Inr rel'"
    "\<not> same_identity d1 d2" "pair_tx sha quiet ids' now' org actor' d1 d2 rel' st' = Inr (p', ev', st2)"
    "corr_nodes st'' = corr_nodes st2" "corr_links st'' = corr_links st2"
    by (rule create_pair_Inr [OF assms(2)])
  have swap: "d1 = e2" "d2 = e1" and rel: "rel = ''counterpart''" "rel' = ''counterpart''"
    using f(1-3) g(1-3) assms(3-6) normalize_entity_label by auto
  note first = pair_tx_result [OF f(5,4)]
  note second = pair_tx_result [OF g(5,4)]
  have nodes: "cn_id (pr_source p') = cn_id (pr_target p)" "cn_id (pr_target p') = cn_id (pr_source p)"
      "map cn_id (corr_nodes st2) = map cn_id (corr_nodes st')"
    using pair_tx_nodes [OF g(5), of "pr_target p" "pr_source p"] first(1,2) g(4) by (simp_all add: swap f(6))
  have old: "find_existing_link org (cn_id (pr_source p')) (cn_id (pr_target p')) rel' (corr_links st') = Some (pr_link p)"
    using first(3) by (simp add: nodes rel f(7) find_existing_link_def counterpart_sym)
  then have created: "\<not> pr_created p'" using second(4) by simp
  then have "corr_links st2 = corr_links st'" using second(5) by simp
  with created old second(3) nodes(3) g(6,7) show ?thesis by simp
qed

definition sample_ids :: "string \<Rightarrow> nat \<Rightarrow> uuid" where
  "sample_ids x n = (if n = 0 then ''a'' else if n = 1 then ''b'' else if n = 2 then ''c'' else ''e'') @ x"

definition sample_pair :: "string \<Rightarrow> string \<Rightarrow> jsval" where
  "sample_pair s t = JObj
     [(''source'', JObj [(''system'', JStr s), (''entity_type'', JStr ''issue''), (''immutable_id'', JStr ''1'')]),
      (''target'', JObj [(''system'', JStr t), (''entity_type'', JStr ''issue''), (''immutable_id'', JStr ''1'')])]"

abbreviation sample_entity :: "string \<Rightarrow> entity" where
  "sample_entity s \<equiv> \<lparr>en_system = s, en_entity_type = ''issue'', en_immutable_id = ''1'', en_display_key = None, en_url = None\<rparr>"

text \<open>When nothing interferes, pairing two different records under unused ids succeeds.\<close>

lemma correlate_total:
  assumes "growing sha" "chain_state sha st" "\<not> used st (ids 3)" "ids 2 \<noteq> []" "\<forall>l \<in> set (corr_links st). ck_id l \<noteq> []"
    and norm: "normalize_entity (jprop dto ''source'') ''source'' = Inr e1" "normalize_entity (jprop dto ''target'') ''target'' = Inr e2"
      "normalize_relationship (or_counterpart (jprop dto ''relationship'')) = Inr rel" "\<not> same_identity e1 e2"
  shows "\<exists>p st'. correlate sha ids now org dto actor st = Inr (p, st') \<and> chain_state sha st' \<and>
    (\<forall>e. used st' e = (e = ids 3 \<or> used st e)) \<and> (\<forall>l \<in> set (corr_links st'). ck_id l \<noteq> [])"
proof -
  obtain n1 rows1 where n1: "upsert_node_row (ids 0) now org e1 (corr_nodes st) = (n1, rows1)" by fastforce
  obtain n2 rows2 where n2: "upsert_node_row (ids 1) now org e2 rows1 = (n2, rows2)" by fastforce
  obtain l c where lc: "(case find_existing_link org (cn_id n1) (cn_id n2) rel (corr_links st) of
               Some l \<Rightarrow> (l, False)
             | None \<Rightarrow> (\<lparr>ck_id = ids 2, ck_org_id = org, ck_source = cn_id n1, ck_target = cn_id n2,
                         ck_relationship = rel, ck_created_by = actor, ck_created_at = now\<rparr>, True)) = (l, c)" by fastforce
  let ?st1 = "st\<lparr>corr_nodes := rows2, corr_links := corr_links st @ (if c then [l] else [])\<rparr>"
  have l: "ck_id l \<noteq> []"
    using lc assms(4,5) by (auto simp: find_existing_link_def find_Some_iff split: option.splits)
  have frame: "chain_state sha ?st1" "used ?st1 = used st"
    using assms(2) chain_state_base [of ?st1 st sha] used_base [of ?st1 st] by simp_all
  have new: "\<not> used ?st1 (ids 3)" "oi_event_id (pair_event org actor c rel l n1 n2) = None"
      "oi_work_item_id (pair_event org actor c rel l n1 n2) \<noteq> []"
    using assms(3) frame(2) l by (simp_all add: pair_event_def)
  obtain ev st2 where enq: "enqueue sha quiet (ids 3) now (pair_event org actor c rel l n1 n2) ?st1 = Inr (ev, st2)"
    and disp: "chain_state sha (snd (dispatch_envelope (publish_envelope (store_bus sha quiet)) now ev st2))"
      "\<forall>e. used (snd (dispatch_envelope (publish_envelope (store_bus sha quiet)) now ev st2)) e = (e = ids 3 \<or> used st e)"
    using enqueue_dispatch_total [OF assms(1) frame(1) new, of now now] frame(2) by (auto simp: Let_def)
  have "store.more st2 = store.more ?st1"
    using enq append_frame by (fastforce simp: enqueue_Inr)
  then have "corr_links st2 = corr_links ?st1" by (cases st2; cases st; simp)
  moreover obtain p where "pair_tx sha quiet ids now org actor e1 e2 rel st = Inr (p, ev, st2)"
    using enq by (simp add: pair_tx_def n1 n2 lc link_references_def Let_def del: One_nat_def)
  ultimately show ?thesis
    using disp l assms(5) by (auto simp: create_pair_def norm corr_tables_dispatch)
qed

lemma sample_norm:
  "normalize_entity (JObj [(''system'', JStr ''jira''), (''entity_type'', JStr ''issue''), (''immutable_id'', JStr ''1'')]) ''source'' =
     Inr (sample_entity ''jira'')"
  "normalize_entity (JObj [(''system'', JStr ''snow''), (''entity_type'', JStr ''issue''), (''immutable_id'', JStr ''1'')]) ''target'' =
     Inr (sample_entity ''snow'')"
  "normalize_entity (JObj [(''system'', JStr ''jira''), (''entity_type'', JStr ''issue''), (''immutable_id'', JStr ''1'')]) ''target'' =
     Inr (sample_entity ''jira'')"
  "normalize_entity (JObj [(''system'', JStr ''snow''), (''entity_type'', JStr ''issue''), (''immutable_id'', JStr ''1'')]) ''source'' =
     Inr (sample_entity ''snow'')"
  "normalize_relationship (JStr ''counterpart'') = Inr ''counterpart''"
  by code_simp+

end
