(* ===== verification/SyncGuard.thy ===== *)
theory SyncGuard
  imports Correlation
begin

text \<open>
  The echo guard of \<^verbatim>\<open>src/modules/integrations/sync-guard.service.ts\<close>: the volatile markers of
  recent outbound writes, the durable snapshot of the content last observed on a record, and the
  decision on a returning webhook. It rests on the nodes of the correlation graph.

  The markers are the map \<^verbatim>\<open>recentWrites\<close> from key to expiry, kept apart from the database because a
  restart loses them. Every \<^verbatim>\<open>Date.now()\<close> of one call is the argument \<open>now\<close>, in milliseconds.
\<close>

record sync_snapshot =
  sn_org_id :: string
  sn_node_id :: uuid
  sn_payload_hash :: string
  sn_canonical :: jsval
  sn_actor_id :: string
  sn_source :: string
  sn_updated_at :: time

record guard_store = corr_store +
  snapshots :: "sync_snapshot list"

type_synonym markers = "string \<rightharpoonup> time"

datatype guard_error =
    InvalidGuard string
  | IdentityNotFound string
  | GuardDb db_error

definition suppression_window_ms :: int where
  "suppression_window_ms = 15 * 60 * 1000"

subsection \<open>Input\<close>

definition guard_text :: "jsval \<Rightarrow> string \<Rightarrow> nat \<Rightarrow> guard_error + string" where
  "guard_text v field limit = (case v of
     JStr s \<Rightarrow>
       if trim s = [] then Inl (InvalidGuard (field @ '' is required''))
       else if length (trim s) > limit
         then Inl (InvalidGuard (field @ '' must be '' @ show_nat limit @ '' characters or fewer''))
       else Inr (trim s)
   | _ \<Rightarrow> Inl (InvalidGuard (field @ '' is required'')))"

record sync_identity =
  sy_system :: string
  sy_entity_type :: string
  sy_immutable_id :: string

definition normalize_identity :: "jsval \<Rightarrow> guard_error + sync_identity" where
  "normalize_identity input =
     (if \<not> (case input of JArr _ \<Rightarrow> True | JObj _ \<Rightarrow> True | _ \<Rightarrow> False) then Inl (InvalidGuard ''identity is required'')
      else and_then (guard_text (jprop input ''system'') ''identity.system'' 64) (\<lambda>s.
           and_then (guard_text (jprop input ''entity_type'') ''identity.entity_type'' 64) (\<lambda>e.
             if \<not> token_pattern (lower s) \<or> \<not> token_pattern (lower e)
             then Inl (InvalidGuard ''identity system and entity_type contain unsupported characters'')
             else and_then (guard_text (jprop input ''immutable_id'') ''identity.immutable_id'' 512) (\<lambda>i.
               Inr \<lparr>sy_system = lower s, sy_entity_type = lower e, sy_immutable_id = i\<rparr>))))"

definition normalize_payload :: "jsval \<Rightarrow> guard_error + jsval" where
  "normalize_payload input = (case input of
     JObj kvs \<Rightarrow> Inr (json_clone (JObj kvs))
   | _ \<Rightarrow> Inl (InvalidGuard ''payload must be a JSON object''))"

definition hash_payload :: "(string \<Rightarrow> string) \<Rightarrow> jsval \<Rightarrow> string" where
  "hash_payload sha p = sha (stable_stringify p)"

definition require_node :: "string \<Rightarrow> sync_identity \<Rightarrow> 'z corr_store_scheme \<Rightarrow> guard_error + corr_node" where
  "require_node org i st =
     (case find (is_identity org (sy_system i) (sy_entity_type i) (sy_immutable_id i)) (corr_nodes st) of
        None \<Rightarrow> Inl (IdentityNotFound ''Correlation identity not found in this tenant'')
      | Some n \<Rightarrow> Inr n)"

subsection \<open>Markers\<close>

definition marker_key :: "string \<Rightarrow> uuid \<Rightarrow> string \<Rightarrow> string \<Rightarrow> string" where
  "marker_key org node actor hash = org @ [CHR 0x0A] @ node @ [CHR 0x0A] @ actor @ [CHR 0x0A] @ hash"

definition prune_expired :: "time \<Rightarrow> markers \<Rightarrow> markers" where
  "prune_expired now m = (\<lambda>k. case m k of None \<Rightarrow> None | Some e \<Rightarrow> if e < now then None else Some e)"

definition clear_volatile_markers :: "markers \<Rightarrow> markers" where
  "clear_volatile_markers m = Map.empty"

subsection \<open>Snapshots\<close>

definition of_node :: "string \<Rightarrow> uuid \<Rightarrow> sync_snapshot \<Rightarrow> bool" where
  "of_node org node s \<longleftrightarrow> sn_org_id s = org \<and> sn_node_id s = node"

definition upsert_snapshot :: "sync_snapshot \<Rightarrow> sync_snapshot list \<Rightarrow> sync_snapshot list" where
  "upsert_snapshot s rows =
     (if \<exists>x \<in> set rows. of_node (sn_org_id s) (sn_node_id s) x
      then update_where (of_node (sn_org_id s) (sn_node_id s)) (\<lambda>_. s) rows else rows @ [s])"

definition identity_value :: "sync_identity \<Rightarrow> jsval" where
  "identity_value i = JObj [(''system'', JStr (sy_system i)), (''entity_type'', JStr (sy_entity_type i)),
     (''immutable_id'', JStr (sy_immutable_id i))]"

definition guard_event :: "string \<Rightarrow> string \<Rightarrow> string \<Rightarrow> uuid \<Rightarrow> time \<Rightarrow> (string \<times> jsval) list \<Rightarrow> outbox_input" where
  "guard_event ty org actor node when entries =
     \<lparr>oi_event_type = ty, oi_work_item_id = node, oi_org_id = org, oi_actor_type = ''integration'', oi_actor_id = actor,
      oi_payload = JObj ((''org_id'', JStr org) # entries), oi_schema_version = None, oi_event_id = None, oi_timestamp = Some when\<rparr>"

subsection \<open>Recording an outbound write\<close>

record write_receipt =
  wr_node_id :: uuid
  wr_identity :: sync_identity
  wr_account :: string
  wr_hash :: string
  wr_recorded_at :: time
  wr_expires_at :: time

definition record_integration_write ::
  "(string \<Rightarrow> string) \<Rightarrow> (nat \<Rightarrow> 'z guard_store_scheme \<Rightarrow> 'z guard_store_scheme) \<Rightarrow> 'z guard_store_scheme handler \<Rightarrow> uuid
   \<Rightarrow> time \<Rightarrow> string \<Rightarrow> jsval \<Rightarrow> markers \<times> 'z guard_store_scheme
   \<Rightarrow> guard_error + write_receipt \<times> markers \<times> 'z guard_store_scheme" where
  "record_integration_write sha env pub fresh now org dto = (\<lambda>(m, st).
     and_then (normalize_identity (jprop dto ''identity'')) (\<lambda>i.
     and_then (guard_text (jprop dto ''service_account_id'') ''service_account_id'' 256) (\<lambda>account.
     and_then (normalize_payload (jprop dto ''payload'')) (\<lambda>p.
       let hash = hash_payload sha p
       in and_then (require_node org i st) (\<lambda>node.
         let row = \<lparr>sn_org_id = org, sn_node_id = cn_id node, sn_payload_hash = hash, sn_canonical = json_clone p,
                    sn_actor_id = account, sn_source = ''outbound_write'', sn_updated_at = now\<rparr>;
             ev = guard_event ''IntegrationWriteRecorded'' org account (cn_id node) now
               [(''identity'', identity_value i), (''payload_hash'', JStr hash),
                (''suppression_window_seconds'', JInt (suppression_window_ms div 1000))]
         in case enqueue sha env fresh now ev (st\<lparr>snapshots := upsert_snapshot row (snapshots st)\<rparr>) of
              Inl e \<Rightarrow> Inl (GuardDb e)
            | Inr (e, st1) \<Rightarrow>
                Inr (\<lparr>wr_node_id = cn_id node, wr_identity = i, wr_account = account, wr_hash = hash,
                      wr_recorded_at = now, wr_expires_at = now + suppression_window_ms\<rparr>,
                     (prune_expired now m)(marker_key org (cn_id node) account hash \<mapsto> now + suppression_window_ms),
                     snd (dispatch_envelope pub now e st1)))))))"

subsection \<open>Evaluating a webhook\<close>

datatype guard_reason = SelfOriginatedHash | ContentNoop | ExternalChange

fun reason_text :: "guard_reason \<Rightarrow> string" where
  "reason_text SelfOriginatedHash = ''self_originated_hash''"
| "reason_text ContentNoop = ''content_noop''"
| "reason_text ExternalChange = ''external_change''"

record guard_decision =
  gd_node_id :: uuid
  gd_identity :: sync_identity
  gd_hash :: string
  gd_suppressed :: bool
  gd_action :: string
  gd_reason :: guard_reason
  gd_matched :: bool
  gd_decided_at :: time

definition snapshot_reason :: "string \<Rightarrow> uuid \<Rightarrow> string \<Rightarrow> jsval \<Rightarrow> sync_snapshot list \<Rightarrow> guard_reason" where
  "snapshot_reason org node hash p rows =
     (case find (of_node org node) rows of
        None \<Rightarrow> ExternalChange
      | Some s \<Rightarrow> if sn_payload_hash s = hash \<and> stable_stringify (sn_canonical s) = stable_stringify p
                 then ContentNoop else ExternalChange)"

definition live_marker :: "time \<Rightarrow> markers \<Rightarrow> string \<Rightarrow> bool" where
  "live_marker now m key \<longleftrightarrow> (case m key of None \<Rightarrow> False | Some e \<Rightarrow> now \<le> e)"

definition evaluate_webhook ::
  "(string \<Rightarrow> string) \<Rightarrow> (nat \<Rightarrow> 'z guard_store_scheme \<Rightarrow> 'z guard_store_scheme) \<Rightarrow> 'z guard_store_scheme handler \<Rightarrow> uuid
   \<Rightarrow> time \<Rightarrow> string \<Rightarrow> jsval \<Rightarrow> markers \<times> 'z guard_store_scheme
   \<Rightarrow> guard_error + guard_decision \<times> markers \<times> 'z guard_store_scheme" where
  "evaluate_webhook sha env pub fresh now org dto = (\<lambda>(m, st).
     and_then (normalize_identity (jprop dto ''identity'')) (\<lambda>i.
     and_then (guard_text (jprop dto ''actor_id'') ''actor_id'' 256) (\<lambda>actor.
     and_then (normalize_payload (jprop dto ''payload'')) (\<lambda>p.
       let hash = hash_payload sha p
       in and_then (require_node org i st) (\<lambda>node.
         let m1 = prune_expired now m;
             key = marker_key org (cn_id node) actor hash;
             matched = live_marker now m1 key;
             reason = (if matched then SelfOriginatedHash else snapshot_reason org (cn_id node) hash p (snapshots st));
             suppressed = (reason \<noteq> ExternalChange);
             row = \<lparr>sn_org_id = org, sn_node_id = cn_id node, sn_payload_hash = hash, sn_canonical = json_clone p,
                    sn_actor_id = actor, sn_source = ''inbound_change'', sn_updated_at = now\<rparr>;
             st1 = (if suppressed then st else st\<lparr>snapshots := upsert_snapshot row (snapshots st)\<rparr>);
             action = (if suppressed then ''ignore'' else ''process'');
             ev = guard_event (if suppressed then ''IntegrationEchoSuppressed'' else ''IntegrationChangeAccepted'') org actor (cn_id node) now
               [(''identity'', identity_value i), (''payload_hash'', JStr hash), (''decision'', JStr action),
                (''reason'', JStr (reason_text reason)), (''matched_service_account'', JBool matched)]
         in case enqueue sha env fresh now ev st1 of
              Inl e \<Rightarrow> Inl (GuardDb e)
            | Inr (e, st2) \<Rightarrow>
                Inr (\<lparr>gd_node_id = cn_id node, gd_identity = i, gd_hash = hash, gd_suppressed = suppressed, gd_action = action,
                      gd_reason = reason, gd_matched = matched, gd_decided_at = now\<rparr>,
                     (if matched then m1(key := None) else m1),
                     snd (dispatch_envelope pub now e st2)))))))"

subsection \<open>Runs\<close>

abbreviation guard_write ::
  "(string \<Rightarrow> string) \<Rightarrow> uuid \<Rightarrow> time \<Rightarrow> string \<Rightarrow> jsval \<Rightarrow> markers \<times> 'z guard_store_scheme
   \<Rightarrow> guard_error + write_receipt \<times> markers \<times> 'z guard_store_scheme" where
  "guard_write sha \<equiv> record_integration_write sha quiet (publish_envelope (store_bus sha quiet))"

abbreviation guard_webhook ::
  "(string \<Rightarrow> string) \<Rightarrow> uuid \<Rightarrow> time \<Rightarrow> string \<Rightarrow> jsval \<Rightarrow> markers \<times> 'z guard_store_scheme
   \<Rightarrow> guard_error + guard_decision \<times> markers \<times> 'z guard_store_scheme" where
  "guard_webhook sha \<equiv> evaluate_webhook sha quiet (publish_envelope (store_bus sha quiet))"

datatype guard_call =
    GuardWrite uuid time string jsval
  | GuardWebhook uuid time string jsval
  | GuardRestart

fun guard_step :: "(string \<Rightarrow> string) \<Rightarrow> markers \<times> 'z guard_store_scheme \<Rightarrow> guard_call \<Rightarrow> markers \<times> 'z guard_store_scheme" where
  "guard_step sha s (GuardWrite fresh now org dto) =
     (case guard_write sha fresh now org dto s of Inl _ \<Rightarrow> s | Inr (_, s') \<Rightarrow> s')"
| "guard_step sha s (GuardWebhook fresh now org dto) =
     (case guard_webhook sha fresh now org dto s of Inl _ \<Rightarrow> s | Inr (_, s') \<Rightarrow> s')"
| "guard_step sha s GuardRestart = (clear_volatile_markers (fst s), snd s)"

fun addresses :: "string \<Rightarrow> sync_identity \<Rightarrow> guard_call \<Rightarrow> bool" where
  "addresses org i (GuardWrite _ _ o' dto) \<longleftrightarrow> o' = org \<and> normalize_identity (jprop dto ''identity'') = Inr i"
| "addresses org i (GuardWebhook _ _ o' dto) \<longleftrightarrow> o' = org \<and> normalize_identity (jprop dto ''identity'') = Inr i"
| "addresses org i GuardRestart \<longleftrightarrow> False"

subsection \<open>What the guard promises\<close>

text \<open>The content last observed on each record, and the decision it calls for.\<close>

type_synonym content = "string \<times> uuid \<rightharpoonup> string"

definition content :: "'z guard_store_scheme \<Rightarrow> content" where
  "content st = (\<lambda>(org, node). map_option (\<lambda>s. stable_stringify (sn_canonical s)) (find (of_node org node) (snapshots st)))"

definition judge :: "string \<times> uuid \<Rightarrow> string \<Rightarrow> content \<Rightarrow> bool \<times> content" where
  "judge k t c = (if c k = Some t then (True, c) else (False, c(k \<mapsto> t)))"

definition payload_text :: "jsval \<Rightarrow> string" where
  "payload_text dto = stable_stringify (json_clone (jprop dto ''payload''))"

definition hashes_match :: "(string \<Rightarrow> string) \<Rightarrow> 'z guard_store_scheme \<Rightarrow> bool" where
  "hashes_match sha st \<longleftrightarrow> (\<forall>s \<in> set (snapshots st). sn_payload_hash s = hash_payload sha (sn_canonical s))"

lemma find_overwritten:
  "P s \<Longrightarrow> \<exists>x \<in> set rows. P x \<Longrightarrow> find P (update_where P (\<lambda>_. s) rows) = Some s"
  "\<not> P s \<Longrightarrow> (\<And>x. Q x \<Longrightarrow> \<not> P x) \<Longrightarrow> find P (update_where Q (\<lambda>_. s) rows) = find P rows"
  by (induction rows) (auto simp: update_where_def)

lemma find_upsert_snapshot:
  "find (of_node org node) (upsert_snapshot s rows) =
     (if org = sn_org_id s \<and> node = sn_node_id s then Some s else find (of_node org node) rows)"
proof -
  let ?Q = "of_node (sn_org_id s) (sn_node_id s)"
  have self: "?Q s" and other: "of_node org node s = (org = sn_org_id s \<and> node = sn_node_id s)" by (auto simp: of_node_def)
  have disjoint: "\<not> of_node org node x" if "\<not> (org = sn_org_id s \<and> node = sn_node_id s)" "?Q x" for x
    using that by (auto simp: of_node_def)
  have none: "find ?Q rows = None" if "\<not> (\<exists>x \<in> set rows. ?Q x)" using that by (auto simp: find_None_iff)
  show ?thesis
  proof (cases "org = sn_org_id s \<and> node = sn_node_id s")
    case True
    then show ?thesis using self find_overwritten(1) [of ?Q s rows] none
      by (auto simp: upsert_snapshot_def find_append)
  next
    case False
    then show ?thesis using other find_overwritten(2) [of "of_node org node" s ?Q rows] disjoint
      by (auto simp: upsert_snapshot_def find_append split: option.splits)
  qed
qed

lemma content_upsert:
  assumes "snapshots st' = upsert_snapshot s (snapshots st)"
  shows "content st' = (content st)((sn_org_id s, sn_node_id s) \<mapsto> stable_stringify (sn_canonical s))"
  by (auto simp: content_def assms find_upsert_snapshot fun_eq_iff)

lemma hashes_match_upsert:
  assumes "snapshots st' = upsert_snapshot s (snapshots st)" "hashes_match sha st" "sn_payload_hash s = hash_payload sha (sn_canonical s)"
  shows "hashes_match sha st'"
  using assms by (auto simp: hashes_match_def upsert_snapshot_def set_update_where split: if_splits)

lemma snapshot_reason_content:
  assumes "hashes_match sha st"
  shows "(snapshot_reason org node (hash_payload sha p) p (snapshots st) \<noteq> ExternalChange) = (content st (org, node) = Some (stable_stringify p))"
  using assms by (auto simp: snapshot_reason_def content_def hashes_match_def hash_payload_def dest: find_SomeD split: option.splits)

lemma guard_frame:
  assumes "enqueue sha quiet fresh now i st = Inr (ev, st')"
  shows "snapshots (snd (dispatch_envelope (publish_envelope (store_bus sha quiet)) now' ev (st' :: 'z guard_store_scheme))) = snapshots st"
    "corr_nodes (snd (dispatch_envelope (publish_envelope (store_bus sha quiet)) now' ev st')) = corr_nodes st"
proof -
  let ?d = "snd (dispatch_envelope (publish_envelope (store_bus sha quiet)) now' ev st')"
  have "store.more ?d = store.more st'" by (simp add: sb.dispatch_ok bus_tables)
  also have "\<dots> = store.more st" using assms append_frame by (fastforce simp: enqueue_Inr)
  finally show "snapshots ?d = snapshots st" "corr_nodes ?d = corr_nodes st" by (cases ?d; cases st; simp)+
qed

lemma case_error_Inr:
  "(case x of Inl e \<Rightarrow> Inl (f e) | Inr y \<Rightarrow> g y) = Inr z \<longleftrightarrow> (\<exists>y. x = Inr y \<and> g y = Inr z)"
  by (cases x) auto

lemma guard_write_Inr:
  assumes "guard_write sha fresh now org dto (m, st) = Inr (r, m', st')"
  obtains i account p node where "normalize_identity (jprop dto ''identity'') = Inr i"
    "guard_text (jprop dto ''service_account_id'') ''service_account_id'' 256 = Inr account"
    "normalize_payload (jprop dto ''payload'') = Inr p" "require_node org i st = Inr node"
    "wr_node_id r = cn_id node" "corr_nodes st' = corr_nodes st"
    "snapshots st' = upsert_snapshot \<lparr>sn_org_id = org, sn_node_id = cn_id node, sn_payload_hash = hash_payload sha p,
       sn_canonical = json_clone p, sn_actor_id = account, sn_source = ''outbound_write'', sn_updated_at = now\<rparr> (snapshots st)"
    "m' = (prune_expired now m)(marker_key org (cn_id node) account (hash_payload sha p) \<mapsto> now + suppression_window_ms)"
  using assms unfolding record_integration_write_def
  by (auto simp: and_then_Inr Let_def guard_frame case_error_Inr)

lemma guard_webhook_Inr:
  assumes "guard_webhook sha fresh now org dto (m, st) = Inr (d, m', st')"
  obtains i actor p node where "normalize_identity (jprop dto ''identity'') = Inr i"
    "guard_text (jprop dto ''actor_id'') ''actor_id'' 256 = Inr actor"
    "normalize_payload (jprop dto ''payload'') = Inr p" "require_node org i st = Inr node"
    "gd_node_id d = cn_id node" "corr_nodes st' = corr_nodes st"
    "gd_matched d = live_marker now (prune_expired now m) (marker_key org (cn_id node) actor (hash_payload sha p))"
    "gd_suppressed d = (gd_matched d \<or> snapshot_reason org (cn_id node) (hash_payload sha p) p (snapshots st) \<noteq> ExternalChange)"
    "gd_action d = (if gd_suppressed d then ''ignore'' else ''process'')"
    "snapshots st' = (if gd_suppressed d then snapshots st else
       upsert_snapshot \<lparr>sn_org_id = org, sn_node_id = cn_id node, sn_payload_hash = hash_payload sha p,
         sn_canonical = json_clone p, sn_actor_id = actor, sn_source = ''inbound_change'', sn_updated_at = now\<rparr> (snapshots st))"
  using assms unfolding evaluate_webhook_def
  by (auto simp: and_then_Inr Let_def guard_frame case_error_Inr)

lemma payload_normal:
  "normalize_payload (jprop dto ''payload'') = Inr p \<Longrightarrow> json_clone p = p \<and> stable_stringify p = payload_text dto"
  by (auto simp: normalize_payload_def payload_text_def simp del: json_clone.simps split: jsval.splits)

text \<open>When nothing interferes, a call on a known record under an unused event id succeeds.\<close>

lemma guard_totals:
  assumes "growing sha" "chain_state sha st" "\<not> used st fresh"
    and "normalize_identity (jprop dto ''identity'') = Inr i" "normalize_payload (jprop dto ''payload'') = Inr p"
    and "require_node org i st = Inr node" "cn_id node \<noteq> []"
  shows "guard_text (jprop dto ''service_account_id'') ''service_account_id'' 256 = Inr account \<Longrightarrow>
      \<exists>r m' st'. guard_write sha fresh now org dto (m, st) = Inr (r, m', st') \<and> chain_state sha st' \<and>
        (\<forall>e. used st' e = (e = fresh \<or> used st e))"
    and "guard_text (jprop dto ''actor_id'') ''actor_id'' 256 = Inr actor \<Longrightarrow>
      \<exists>d m' st'. guard_webhook sha fresh now org dto (m, st) = Inr (d, m', st') \<and> chain_state sha st' \<and>
        (\<forall>e. used st' e = (e = fresh \<or> used st e))"
proof -
  have enq: "\<exists>ev st'. enqueue sha quiet fresh now (guard_event ty org a (cn_id node) now es) (st\<lparr>snapshots := rows\<rparr>) = Inr (ev, st') \<and>
      chain_state sha (snd (dispatch_envelope (publish_envelope (store_bus sha quiet)) now ev st')) \<and>
      (\<forall>e. used (snd (dispatch_envelope (publish_envelope (store_bus sha quiet)) now ev st')) e = (e = fresh \<or> used st e))"
    for ty a es rows
  proof -
    let ?st = "st\<lparr>snapshots := rows\<rparr>"
    have frame: "chain_state sha ?st" "used ?st = used st"
      using assms(2) chain_state_base [of ?st st sha] used_base [of ?st st] by simp_all
    have new: "\<not> used ?st fresh" "oi_event_id (guard_event ty org a (cn_id node) now es) = None"
        "oi_work_item_id (guard_event ty org a (cn_id node) now es) \<noteq> []"
      using assms(3,7) frame(2) by (simp_all add: guard_event_def)
    show ?thesis using enqueue_dispatch_total [OF assms(1) frame(1) new, of now now] frame(2) by (auto simp: Let_def)
  qed
  have same: "st = st\<lparr>snapshots := snapshots st\<rparr>" by simp
  show "\<exists>r m' st'. guard_write sha fresh now org dto (m, st) = Inr (r, m', st') \<and> chain_state sha st' \<and>
        (\<forall>e. used st' e = (e = fresh \<or> used st e))"
    if "guard_text (jprop dto ''service_account_id'') ''service_account_id'' 256 = Inr account"
    using enq unfolding record_integration_write_def
    by (simp add: assms that and_then_Inr Let_def case_error_Inr case_prod_unfold) metis
  show "\<exists>d m' st'. guard_webhook sha fresh now org dto (m, st) = Inr (d, m', st') \<and> chain_state sha st' \<and>
        (\<forall>e. used st' e = (e = fresh \<or> used st e))"
    if "guard_text (jprop dto ''actor_id'') ''actor_id'' 256 = Inr actor"
  proof -
    have enq': "\<exists>ev st'. enqueue sha quiet fresh now (guard_event ty org a (cn_id node) now es)
        (if c then st else st\<lparr>snapshots := rows\<rparr>) = Inr (ev, st') \<and>
      chain_state sha (snd (dispatch_envelope (publish_envelope (store_bus sha quiet)) now ev st')) \<and>
      (\<forall>e. used (snd (dispatch_envelope (publish_envelope (store_bus sha quiet)) now ev st')) e = (e = fresh \<or> used st e))"
      for ty a es rows c using enq [of ty a es rows] enq [of ty a es "snapshots st"] by (cases c) auto
    have fin: "\<exists>d m' st'. (case enqueue sha quiet fresh now (guard_event ty org a (cn_id node) now es)
        (if c then st else st\<lparr>snapshots := rows\<rparr>) of Inl e \<Rightarrow> Inl (GuardDb e)
        | Inr (e, st2) \<Rightarrow> Inr (D, M, snd (dispatch_envelope (publish_envelope (store_bus sha quiet)) now e st2))) =
          Inr (d, m', st') \<and> chain_state sha st' \<and> (\<forall>e. used st' e = (e = fresh \<or> used st e))"
      for ty a es rows c D M using enq' [of ty a es c rows] by auto
    show ?thesis unfolding evaluate_webhook_def Let_def prod.case assms(4-6) that and_then.simps by (rule fin)
  qed
qed

lemma guard_refines_step:
  assumes "hashes_match sha st"
  shows "guard_write sha fresh now org dto (m, st) = Inr (r, m1, st1) \<Longrightarrow>
      hashes_match sha st1 \<and> content st1 = (content st)((org, wr_node_id r) \<mapsto> payload_text dto)"
    and "guard_webhook sha fresh now org dto (m, st) = Inr (d, m2, st2) \<Longrightarrow>
      hashes_match sha st2 \<and> (m = Map.empty \<longrightarrow> \<not> gd_matched d) \<and>
      (gd_suppressed d, content st2) =
        (if gd_matched d then (True, content st) else judge (org, gd_node_id d) (payload_text dto) (content st))"
proof -
  show "hashes_match sha st1 \<and> content st1 = (content st)((org, wr_node_id r) \<mapsto> payload_text dto)"
    if "guard_write sha fresh now org dto (m, st) = Inr (r, m1, st1)"
    using that
    by (rule guard_write_Inr) (use content_upsert hashes_match_upsert [OF _ assms] payload_normal in \<open>fastforce\<close>)
  show "hashes_match sha st2 \<and> (m = Map.empty \<longrightarrow> \<not> gd_matched d) \<and>
      (gd_suppressed d, content st2) =
        (if gd_matched d then (True, content st) else judge (org, gd_node_id d) (payload_text dto) (content st))"
    if "guard_webhook sha fresh now org dto (m, st) = Inr (d, m2, st2)"
    using that
  proof (rule guard_webhook_Inr)
    fix i actor p node
    assume p: "normalize_payload (jprop dto ''payload'') = Inr p" and node: "gd_node_id d = cn_id node"
      and matched: "gd_matched d = live_marker now (prune_expired now m) (marker_key org (cn_id node) actor (hash_payload sha p))"
      and sup: "gd_suppressed d = (gd_matched d \<or> snapshot_reason org (cn_id node) (hash_payload sha p) p (snapshots st) \<noteq> ExternalChange)"
      and rows: "snapshots st2 = (if gd_suppressed d then snapshots st else
         upsert_snapshot \<lparr>sn_org_id = org, sn_node_id = cn_id node, sn_payload_hash = hash_payload sha p,
           sn_canonical = json_clone p, sn_actor_id = actor, sn_source = ''inbound_change'', sn_updated_at = now\<rparr> (snapshots st))"
    have pt: "json_clone p = p" "stable_stringify p = payload_text dto" using payload_normal [OF p] by auto
    have eq: "gd_suppressed d = (gd_matched d \<or> content st (org, gd_node_id d) = Some (payload_text dto))"
      using sup snapshot_reason_content [OF assms] pt node by simp
    have "content st2 = content st \<and> hashes_match sha st2" if "gd_suppressed d"
      using that rows assms by (simp add: content_def hashes_match_def)
    moreover have "content st2 = (content st)((org, gd_node_id d) \<mapsto> payload_text dto) \<and> hashes_match sha st2" if "\<not> gd_suppressed d"
      using that rows content_upsert [of st2 _ st] hashes_match_upsert [of st2 _ st sha] assms pt node by fastforce
    moreover have "m = Map.empty \<longrightarrow> \<not> gd_matched d"
      using matched by (simp add: live_marker_def prune_expired_def)
    ultimately show ?thesis using eq by (auto simp: judge_def)
  qed
qed

lemma webhook_action:
  assumes "guard_webhook sha fresh now org dto (m, st) = Inr (d, m2, st2)"
  shows "gd_action d = (if gd_suppressed d then ''ignore'' else ''process'')" "gd_matched d \<Longrightarrow> gd_suppressed d"
    "gd_suppressed d \<Longrightarrow> snapshots st2 = snapshots st"
  by (rule guard_webhook_Inr [OF assms]; simp)+

lemma webhook_judged:
  assumes "hashes_match sha st" "guard_webhook sha fresh now org dto (m, st) = Inr (d, m2, st2)"
  shows "gd_suppressed d = (gd_matched d \<or> content st (org, gd_node_id d) = Some (payload_text dto))"
    and "hashes_match sha st2" and "m = Map.empty \<Longrightarrow> \<not> gd_matched d"
    and "k \<noteq> (org, gd_node_id d) \<Longrightarrow> content st2 k = content st k"
  using guard_refines_step(2) [OF assms] by (auto simp: judge_def split: if_splits)

text \<open>C18. Without its markers the guard is the content rule it stands for: a write makes its payload the
  last content of the record, and a webhook is ignored exactly when it carries that content and
  otherwise becomes it. A marker that matches only turns a decision into ``ignore'', leaving the
  content as it is.\<close>

theorem guard_refines_content:
  assumes "hashes_match sha st"
  shows "(guard_write sha fresh now org dto (m, st) = Inr (r, m1, st1) \<longrightarrow>
      hashes_match sha st1 \<and> content st1 = (content st)((org, wr_node_id r) \<mapsto> payload_text dto)) \<and>
    (guard_webhook sha fresh' now' org' dto' (m', st) = Inr (d, m2, st2) \<longrightarrow>
      hashes_match sha st2 \<and> (m' = clear_volatile_markers m0 \<longrightarrow> \<not> gd_matched d) \<and>
      (gd_suppressed d, content st2) =
        (if gd_matched d then (True, content st) else judge (org', gd_node_id d) (payload_text dto') (content st)))"
  using guard_refines_step [OF assms] by (auto simp: clear_volatile_markers_def)

lemma require_node_Inr:
  "require_node org i st = Inr n \<Longrightarrow>
   n \<in> set (corr_nodes st) \<and> is_identity org (sy_system i) (sy_entity_type i) (sy_immutable_id i) n"
  by (auto simp: require_node_def dest: find_SomeD split: option.splits)

text \<open>Two identities of one tenant are different records.\<close>

lemma nodes_apart:
  assumes "distinct (map cn_id (corr_nodes st))" "require_node org i st = Inr a" "require_node org j st = Inr b" "cn_id a = cn_id b"
  shows "i = j"
proof -
  have "a = b" using assms require_node_Inr [OF assms(2)] require_node_Inr [OF assms(3)] by (auto simp: distinct_map dest: inj_onD)
  then show ?thesis
    using require_node_Inr [OF assms(2)] require_node_Inr [OF assms(3)] by (cases i; cases j) (auto simp: is_identity_def)
qed

lemma guard_step_elsewhere:
  assumes "distinct (map cn_id (corr_nodes st))" "hashes_match sha st" "require_node org i st = Inr node"
    and "\<not> addresses org i c" "guard_step sha (m, st) c = (m', st')"
  shows "corr_nodes st' = corr_nodes st \<and> hashes_match sha st' \<and> content st' (org, cn_id node) = content st (org, cn_id node)"
proof (cases c)
  case (GuardWrite fresh now o' dto)
  show ?thesis
  proof (cases "guard_write sha fresh now o' dto (m, st)")
    case (Inr w)
    then obtain r where w: "guard_write sha fresh now o' dto (m, st) = Inr (r, m', st')"
      using assms(5) GuardWrite by (cases w) auto
    obtain j b where j: "normalize_identity (jprop dto ''identity'') = Inr j" "require_node o' j st = Inr b"
        "wr_node_id r = cn_id b" "corr_nodes st' = corr_nodes st"
      by (rule guard_write_Inr [OF w])
    have "\<not> (o' = org \<and> cn_id b = cn_id node)"
      using nodes_apart [OF assms(1,3), of j b] j assms(4) GuardWrite by auto
    then show ?thesis using guard_refines_step(1) [OF assms(2) w] j by auto
  qed (use assms(2,5) GuardWrite in auto)
next
  case (GuardWebhook fresh now o' dto)
  show ?thesis
  proof (cases "guard_webhook sha fresh now o' dto (m, st)")
    case (Inr w)
    then obtain d where w: "guard_webhook sha fresh now o' dto (m, st) = Inr (d, m', st')"
      using assms(5) GuardWebhook by (cases w) auto
    obtain j b where j: "normalize_identity (jprop dto ''identity'') = Inr j" "require_node o' j st = Inr b"
        "gd_node_id d = cn_id b" "corr_nodes st' = corr_nodes st"
      by (rule guard_webhook_Inr [OF w])
    have "\<not> (o' = org \<and> cn_id b = cn_id node)"
      using nodes_apart [OF assms(1,3), of j b] j assms(4) GuardWebhook by auto
    then show ?thesis using webhook_judged(2,4) [OF assms(2) w] j by auto
  qed (use assms(2,5) GuardWebhook in auto)
next
  case GuardRestart
  then show ?thesis using assms(2,5) by auto
qed

lemma guard_run_elsewhere:
  assumes "foldl (guard_step sha) (m, st) calls = (m', st')" "\<forall>c \<in> set calls. \<not> addresses org i c"
    and "distinct (map cn_id (corr_nodes st))" "hashes_match sha st" "require_node org i st = Inr node"
  shows "corr_nodes st' = corr_nodes st \<and> hashes_match sha st' \<and> content st' (org, cn_id node) = content st (org, cn_id node)"
  using assms
proof (induction calls arbitrary: m st)
  case (Cons c calls)
  obtain m1 st1 where step: "guard_step sha (m, st) c = (m1, st1)" by fastforce
  have one: "corr_nodes st1 = corr_nodes st \<and> hashes_match sha st1 \<and> content st1 (org, cn_id node) = content st (org, cn_id node)"
    by (rule guard_step_elsewhere [OF Cons.prems(3-5) _ step]) (use Cons.prems(2) in simp)
  then have "require_node org i st1 = Inr node" using Cons.prems(5) by (simp add: require_node_def)
  with Cons.IH [of m1 st1] Cons.prems step one show ?case by simp
qed simp

text \<open>C19. The echo of an outbound write is ignored and leaves the stored content as it is, whoever the
  provider names as its actor, however late it comes, in whatever order it lists the payload's keys,
  and whatever calls about other records, failed ones and restarts included, come in between.\<close>

theorem echo_is_ignored:
  assumes "guard_write sha fresh now org dto (m, st) = Inr (r, m1, st1)"
    and "foldl (guard_step sha) (m1, st1) calls = (m2, st2)" "\<forall>c \<in> set calls. \<not> addresses org i c"
    and "guard_webhook sha fresh' now' org echo (m2, st2) = Inr (d, m3, st3)"
    and "normalize_identity (jprop dto ''identity'') = Inr i" "normalize_identity (jprop echo ''identity'') = Inr i"
    and "payload_text echo = payload_text dto"
    and "distinct (map cn_id (corr_nodes st))" "hashes_match sha st"
  shows "gd_suppressed d \<and> gd_action d = ''ignore'' \<and> snapshots st3 = snapshots st2"
proof -
  obtain node where w: "require_node org i st = Inr node" "wr_node_id r = cn_id node" "corr_nodes st1 = corr_nodes st"
    by (rule guard_write_Inr [OF assms(1)]) (use assms(5) in auto)
  have written: "hashes_match sha st1" "content st1 (org, cn_id node) = Some (payload_text dto)"
    using guard_refines_step(1) [OF assms(9,1)] w(2) by auto
  have found: "require_node org i st1 = Inr node" using w by (simp add: require_node_def)
  have run: "corr_nodes st2 = corr_nodes st1" "hashes_match sha st2" "content st2 (org, cn_id node) = Some (payload_text dto)"
    using guard_run_elsewhere [OF assms(2,3) _ written(1) found] assms(8) w(3) written(2) by auto
  have "gd_node_id d = cn_id node"
    by (rule guard_webhook_Inr [OF assms(4)]) (use assms(6) found run(1) in \<open>auto simp: require_node_def\<close>)
  then have "gd_suppressed d"
    using webhook_judged(1) [OF run(2) assms(4)] run(3) assms(7) by simp
  then show ?thesis using webhook_action [OF assms(4)] by simp
qed

text \<open>Losing the markers does change decisions: after two outbound writes of different content to one
  record, the echo of the first is ignored while its marker lives, and is processed as an external
  change once a restart has dropped the markers.\<close>

lemma lost_markers_change_decision:
  assumes "guard_write sha f1 t1 org a (m, st) = Inr (ra, m1, st1)"
    and "guard_write sha f2 t2 org b (m1, st1) = Inr (rb, m2, st2)"
    and "normalize_identity (jprop a ''identity'') = Inr i" "normalize_identity (jprop b ''identity'') = Inr i"
    and "normalize_identity (jprop echo ''identity'') = Inr i" "jprop echo ''actor_id'' = jprop a ''service_account_id''"
    and "payload_text echo = payload_text a" "payload_text b \<noteq> payload_text a"
    and "t1 \<le> t2" "t2 \<le> t3" "t3 \<le> t1 + suppression_window_ms" "hashes_match sha st"
    and "guard_webhook sha f3 t3 org echo (m2, st2) = Inr (d, m3, st3)"
    and "guard_webhook sha f3 t3 org echo (clear_volatile_markers m2, st2) = Inr (d', m3', st3')"
  shows "gd_action d = ''ignore'' \<and> gd_action d' = ''process''"
proof -
  obtain account p node where w: "guard_text (jprop a ''service_account_id'') ''service_account_id'' 256 = Inr account"
      "normalize_payload (jprop a ''payload'') = Inr p" "require_node org i st = Inr node" "corr_nodes st1 = corr_nodes st"
      "m1 = (prune_expired t1 m)(marker_key org (cn_id node) account (hash_payload sha p) \<mapsto> t1 + suppression_window_ms)"
    by (rule guard_write_Inr [OF assms(1)]) (use assms(3) in auto)
  obtain account' p' where w': "corr_nodes st2 = corr_nodes st1" "wr_node_id rb = cn_id node"
      "m2 = (prune_expired t2 m1)(marker_key org (cn_id node) account' (hash_payload sha p') \<mapsto> t2 + suppression_window_ms)"
    by (rule guard_write_Inr [OF assms(2)]) (use assms(4) w(3,4) in \<open>auto simp: require_node_def\<close>)
  let ?key = "marker_key org (cn_id node) account (hash_payload sha p)"
  have live: "live_marker t3 (prune_expired t3 m2) ?key"
    using assms(9-11) by (auto simp: w'(3) w(5) live_marker_def prune_expired_def)
  have found: "require_node org i st2 = Inr node" using w w' by (simp add: require_node_def)
  have actor: "guard_text (jprop echo ''actor_id'') ''actor_id'' 256 = Inr x \<Longrightarrow> x = account" for x
    using w(1) assms(6) by (auto simp: guard_text_def split: jsval.splits if_splits)
  have hash: "normalize_payload (jprop echo ''payload'') = Inr q \<Longrightarrow> hash_payload sha q = hash_payload sha p" for q
    using payload_normal [of echo q] payload_normal [OF w(2)] assms(7) by (simp add: hash_payload_def)
  have "gd_matched d"
    by (rule guard_webhook_Inr [OF assms(13)]) (use assms(5) found actor hash live in fastforce)
  then have ignored: "gd_action d = ''ignore''" using webhook_action [OF assms(13)] by simp
  have "gd_node_id d' = cn_id node"
    by (rule guard_webhook_Inr [OF assms(14)]) (use assms(5) found in auto)
  moreover have "hashes_match sha st2" "content st2 (org, cn_id node) = Some (payload_text b)"
    using guard_refines_step(1) [OF assms(12,1)] guard_refines_step(1) [OF _ assms(2)] w'(2) by auto
  ultimately have "\<not> gd_suppressed d'"
    using webhook_judged(1,3) [OF _ assms(14)] assms(7,8) by (simp add: clear_volatile_markers_def)
  then have "gd_action d' = ''process''" using webhook_action [OF assms(14)] by simp
  with ignored show ?thesis by simp
qed

subsection \<open>Samples\<close>

definition guarded :: guard_store where
  "guarded = \<lparr>work_items = [], domain_events = [], audit_events = [], integrity = [], integrity_seq = 1, outbox = [], emitted = [],
     corr_nodes = [sample_node ''a'' ''jira'', sample_node ''b'' ''snow''], corr_links = [], snapshots = []\<rparr>"

definition sample_write :: "string \<Rightarrow> string \<Rightarrow> jsval" where
  "sample_write system title = JObj
     [(''identity'', JObj [(''system'', JStr system), (''entity_type'', JStr ''issue''), (''immutable_id'', JStr ''7'')]),
      (''service_account_id'', JStr ''bot''), (''actor_id'', JStr ''bot''),
      (''payload'', JObj [(''title'', JStr title)])]"

abbreviation jira_issue :: sync_identity where
  "jira_issue \<equiv> \<lparr>sy_system = ''jira'', sy_entity_type = ''issue'', sy_immutable_id = ''7''\<rparr>"

lemma sample_write_input:
  "normalize_identity (jprop (sample_write ''jira'' x) ''identity'') = Inr jira_issue"
  "normalize_payload (jprop (sample_write s x) ''payload'') = Inr (JObj [(''title'', JStr x)])"
  "guard_text (jprop (sample_write s x) ''service_account_id'') ''service_account_id'' 256 = Inr ''bot''"
  "guard_text (jprop (sample_write s x) ''actor_id'') ''actor_id'' 256 = Inr ''bot''"
  "payload_text (sample_write s x) = CHR ''{'' # json_quote ''title'' @ '':'' @ json_quote x @ ''}''"
proof -
  show "normalize_identity (jprop (sample_write ''jira'' x) ''identity'') = Inr jira_issue"
    unfolding sample_write_def jprop_def jget_def by (simp) code_simp
qed (simp_all add: sample_write_def jprop_def jget_def normalize_payload_def payload_text_def guard_text_def trim_def is_ws_def)

lemma guarded_ready:
  "chain_state sha guarded" "\<not> used guarded e" "hashes_match sha guarded" "distinct (map cn_id (corr_nodes guarded))"
  "require_node ''o1'' jira_issue guarded = Inr (sample_node ''a'' ''jira'')"
  by (simp_all add: guarded_def chain_state_no_links used_def has_event_def logged_def hashes_match_def sample_node_def
      require_node_def is_identity_def)

lemma sample_guard_write:
  assumes "chain_state sample_sha st" "\<not> used st fresh" "corr_nodes st = corr_nodes guarded"
  shows "\<exists>r m' st'. guard_write sample_sha fresh now ''o1'' (sample_write ''jira'' x) (m, st) = Inr (r, m', st') \<and>
      chain_state sample_sha st' \<and> (\<forall>e. used st' e = (e = fresh \<or> used st e)) \<and> corr_nodes st' = corr_nodes guarded"
    and "\<exists>d m' st'. guard_webhook sample_sha fresh now ''o1'' (sample_write ''jira'' x) (m, st) = Inr (d, m', st')"
proof -
  have node: "require_node ''o1'' jira_issue st = Inr (sample_node ''a'' ''jira'')" "cn_id (sample_node ''a'' ''jira'') \<noteq> []"
    using guarded_ready(5) assms(3) by (simp_all add: require_node_def sample_node_def)
  note total = guard_totals [OF growing_sample assms(1,2) sample_write_input(1,2) node]
  obtain r m' st' where w: "guard_write sample_sha fresh now ''o1'' (sample_write ''jira'' x) (m, st) = Inr (r, m', st')"
      "chain_state sample_sha st'" "\<forall>e. used st' e = (e = fresh \<or> used st e)"
    using total(1) [OF sample_write_input(3)] by blast
  have "corr_nodes st' = corr_nodes guarded" by (rule guard_write_Inr [OF w(1)]) (use assms(3) in simp)
  with w show "\<exists>r m' st'. guard_write sample_sha fresh now ''o1'' (sample_write ''jira'' x) (m, st) = Inr (r, m', st') \<and>
      chain_state sample_sha st' \<and> (\<forall>e. used st' e = (e = fresh \<or> used st e)) \<and> corr_nodes st' = corr_nodes guarded" by blast
  show "\<exists>d m' st'. guard_webhook sample_sha fresh now ''o1'' (sample_write ''jira'' x) (m, st) = Inr (d, m', st')"
    using total(2) [OF sample_write_input(4)] by blast
qed

lemma guard_refines_content_witness:
  "\<exists>r m' st'. guard_write sample_sha ''e1'' 0 ''o1'' (sample_write ''jira'' ''x'') (Map.empty, guarded) = Inr (r, m', st') \<and>
     content st' = (content guarded)((''o1'', wr_node_id r) \<mapsto> payload_text (sample_write ''jira'' ''x''))"
  using sample_guard_write(1) [OF guarded_ready(1,2) refl] guard_refines_content [OF guarded_ready(3)] by metis

lemma echo_is_ignored_witness:
  "\<exists>r m1 st1 d m2 st2. guard_write sample_sha ''e1'' 0 ''o1'' (sample_write ''jira'' ''x'') (Map.empty, guarded) = Inr (r, m1, st1) \<and>
     guard_webhook sample_sha ''e2'' 99 ''o1'' (sample_write ''jira'' ''x'') (guard_step sample_sha (m1, st1) GuardRestart) = Inr (d, m2, st2) \<and>
     gd_action d = ''ignore''"
proof -
  obtain r m1 st1 where w: "guard_write sample_sha ''e1'' 0 ''o1'' (sample_write ''jira'' ''x'') (Map.empty, guarded) = Inr (r, m1, st1)"
      "chain_state sample_sha st1" "\<not> used st1 ''e2''" "corr_nodes st1 = corr_nodes guarded"
    using sample_guard_write(1) [OF guarded_ready(1,2) refl, of "''e1''" 0 "''x''" Map.empty] guarded_ready(2) by auto
  obtain m1' where run: "foldl (guard_step sample_sha) (m1, st1) [GuardRestart] = (m1', st1)"
      "guard_step sample_sha (m1, st1) GuardRestart = (m1', st1)" by simp
  obtain d m2 st2 where e: "guard_webhook sample_sha ''e2'' 99 ''o1'' (sample_write ''jira'' ''x'') (m1', st1) = Inr (d, m2, st2)"
    using sample_guard_write(2) [OF w(2,3,4)] by blast
  have "gd_action d = ''ignore''"
    using echo_is_ignored [OF w(1) run(1) _ e sample_write_input(1,1) refl guarded_ready(4,3)] by simp
  with w(1) e run(2) show ?thesis by auto
qed

end
