(* ===== verification/BackfillPlan.thy ===== *)
theory BackfillPlan
  imports Jsval JsDate
begin

text \<open>
  The pure parts of the historical backfill in \<^verbatim>\<open>src/modules/connectors/backfill\<close>: the plan of time
  windows (\<open>backfill-planner.ts\<close>), the adaptive limiter and the request pacer
  (\<open>adaptive-limiter.ts\<close>), and the CSV writer of the audit report (\<open>csv.ts\<close>).

  Instants and whole delays are integers of milliseconds. The extra delay of the limiter can be
  fractional, because a \<^verbatim>\<open>Retry-After\<close> can be, and is an exact rational.
\<close>

subsection \<open>Planning\<close>

definition min_chunk_seconds :: int where
  "min_chunk_seconds = 60"

definition max_chunk_seconds :: int where
  "max_chunk_seconds = 31 * 86400"

definition default_chunk_seconds :: int where
  "default_chunk_seconds = 86400"

definition max_chunks_per_job :: int where
  "max_chunks_per_job = 5000"

definition max_backfill_span_ms :: int where
  "max_backfill_span_ms = 10 * 366 * 86400000"

record planned_chunk =
  pc_seq :: nat
  pc_start :: time
  pc_end :: time

definition floor_to_minute :: "time \<Rightarrow> time" where
  "floor_to_minute t = t div 60000 * 60000"

text \<open>\<open>Number.isInteger\<close>: a number with an integral value.\<close>

definition js_integer :: "jsval \<Rightarrow> int option" where
  "js_integer v =
     (case v of
        JNum t \<Rightarrow> (case read_decimal t of None \<Rightarrow> None | Some r \<Rightarrow> if r = of_int \<lfloor>r\<rfloor> then Some \<lfloor>r\<rfloor> else None)
      | _ \<Rightarrow> None)"

definition planned :: "time \<Rightarrow> time \<Rightarrow> int \<Rightarrow> nat \<Rightarrow> planned_chunk" where
  "planned start till step seq =
     \<lparr>pc_seq = seq, pc_start = start + int seq * step, pc_end = min (start + int seq * step + step) till\<rparr>"

text \<open>An invalid date is \<open>None\<close>.\<close>

definition plan_chunks :: "time option \<Rightarrow> time option \<Rightarrow> jsval \<Rightarrow> string + planned_chunk list" where
  "plan_chunks from_t to_t chunk_seconds =
     (let bad = ''chunk_seconds must be a whole number between '' @ show_int min_chunk_seconds @ '' and '' @ show_int max_chunk_seconds
      in case js_integer chunk_seconds of
        None \<Rightarrow> Inl bad
      | Some n \<Rightarrow>
          if n < min_chunk_seconds \<or> n > max_chunk_seconds then Inl bad
          else if n mod 60 \<noteq> 0 then Inl ''chunk_seconds must be a multiple of 60, because provider queries have minute precision''
          else (case (map_option floor_to_minute from_t, map_option floor_to_minute to_t) of
            (Some start, Some till) \<Rightarrow>
              if start \<ge> till then Inl ''from must be earlier than to, at whole-minute precision''
              else if till - start > max_backfill_span_ms then Inl ''The range spans more than 10 years; split it into several jobs''
              else (let step = n * 1000; count = ceil_div (till - start) step
                in if count > max_chunks_per_job then
                     Inl (''This range and window size make '' @ show_int count @ '' chunks; the limit is '' @
                       show_int max_chunks_per_job @ ''. Use chunk_seconds of at least '' @
                       show_int (ceil_div (till - start) (max_chunks_per_job * 1000 * 60) * 60) @ '', or a shorter range.'')
                   else Inr (map (planned start till step) [0 ..< nat count]))
          | _ \<Rightarrow> Inl ''from and to must be valid timestamps''))"

subsection \<open>The adaptive limiter\<close>

definition successes_per_increase :: nat where
  "successes_per_increase = 3"

definition throttle_base_delay_ms :: rat where
  "throttle_base_delay_ms = 250"

definition max_delay_ms :: rat where
  "max_delay_ms = 60000"

record limiter_state =
  ls_concurrency :: int
  ls_delay_ms :: rat
  ls_throttle_events :: int

record limiter =
  li_concurrency :: int
  li_delay :: rat
  li_throttles :: int
  li_streak :: nat
  li_max :: int
  li_floor_ms :: int

definition new_limiter :: "int \<Rightarrow> int \<Rightarrow> limiter_state option \<Rightarrow> limiter" where
  "new_limiter max_concurrency rpm initial =
     (let c = (case initial of None \<Rightarrow> 1 | Some s \<Rightarrow> ls_concurrency s);
          d = (case initial of None \<Rightarrow> 0 | Some s \<Rightarrow> ls_delay_ms s)
      in \<lparr>li_concurrency = min (max 1 max_concurrency) (max 1 c), li_delay = min max_delay_ms (max 0 d),
          li_throttles = (case initial of None \<Rightarrow> 0 | Some s \<Rightarrow> ls_throttle_events s), li_streak = 0,
          li_max = max 1 max_concurrency, li_floor_ms = ceil_div 60000 (max 1 rpm)\<rparr>)"

definition on_success :: "limiter \<Rightarrow> limiter" where
  "on_success l =
     (let l1 = l\<lparr>li_streak := li_streak l + 1\<rparr>
      in if li_streak l1 < successes_per_increase then l1
         else l1\<lparr>li_streak := 0, li_concurrency := min (li_max l) (li_concurrency l + 1),
                 li_delay := (if li_delay l \<le> throttle_base_delay_ms / 2 then 0 else of_int \<lfloor>li_delay l / 2\<rfloor>)\<rparr>)"

definition on_throttle :: "rat option \<Rightarrow> limiter \<Rightarrow> limiter" where
  "on_throttle retry_after l =
     (let requested = (case retry_after of None \<Rightarrow> 0 | Some s \<Rightarrow> if s > 0 then s * 1000 else 0)
      in l\<lparr>li_throttles := li_throttles l + 1, li_streak := 0,
          li_concurrency := max 1 (li_concurrency l div 2),
          li_delay := min max_delay_ms (max requested (if li_delay l > 0 then li_delay l * 2 else throttle_base_delay_ms))\<rparr>)"

definition interval_ms :: "limiter \<Rightarrow> rat" where
  "interval_ms l = max (li_delay l) (of_int (li_floor_ms l))"

definition limiter_snapshot :: "limiter \<Rightarrow> limiter_state" where
  "limiter_snapshot l = \<lparr>ls_concurrency = li_concurrency l, ls_delay_ms = li_delay l, ls_throttle_events = li_throttles l\<rparr>"

text \<open>\<open>acquire\<close>: the slot reserved, which is when the caller goes on, and the next free slot.\<close>

definition pacer_acquire :: "rat \<Rightarrow> rat \<Rightarrow> rat \<Rightarrow> rat \<times> rat" where
  "pacer_acquire now interval next_slot = (let slot = max now next_slot in (slot, slot + interval))"

subsection \<open>The CSV writer\<close>

text \<open>A cell: nothing, a string, or the text of a date or a number.\<close>

datatype csv_value =
    CsvNull
  | CsvString string
  | CsvPrinted string

definition formula_lead :: "string \<Rightarrow> bool" where
  "formula_lead s \<longleftrightarrow> (case s of [] \<Rightarrow> False
     | c # _ \<Rightarrow> c \<in> {CHR ''='', CHR ''+'', CHR ''-'', CHR ''@'', CHR 0x09, CHR 0x0D})"

definition csv_text :: "csv_value \<Rightarrow> string" where
  "csv_text v = (case v of
       CsvNull \<Rightarrow> []
     | CsvString s \<Rightarrow> if formula_lead s then CHR 0x27 # s else s
     | CsvPrinted s \<Rightarrow> s)"

definition csv_special :: "char \<Rightarrow> bool" where
  "csv_special c \<longleftrightarrow> c \<in> {CHR 0x22, CHR '','', CHR 0x0D, CHR 0x0A}"

definition double_quotes :: "string \<Rightarrow> string" where
  "double_quotes s = concat (map (\<lambda>c. if c = CHR 0x22 then [CHR 0x22, CHR 0x22] else [c]) s)"

definition csv_cell :: "csv_value \<Rightarrow> string" where
  "csv_cell v =
     (if \<exists>c \<in> set (csv_text v). csv_special c then CHR 0x22 # double_quotes (csv_text v) @ [CHR 0x22] else csv_text v)"

definition csv_row :: "csv_value list \<Rightarrow> string" where
  "csv_row cells = join '','' (map csv_cell cells)"

definition to_csv :: "string list \<Rightarrow> csv_value list list \<Rightarrow> string" where
  "to_csv header rows = join [CHR 0x0D, CHR 0x0A] (csv_row (map CsvString header) # map csv_row rows) @ [CHR 0x0D, CHR 0x0A]"

subsection \<open>The plan partitions the range\<close>

lemma planned_covers:
  assumes "0 < step" "start \<le> x" "x < till"
  shows "let n = nat ((x - start) div step) in n < nat (ceil_div (till - start) step) \<and>
    pc_start (planned start till step n) \<le> x \<and> x < pc_end (planned start till step n)"
proof -
  let ?q = "(x - start) div step"
  have q: "0 \<le> ?q" using assms by (simp add: pos_imp_zdiv_nonneg_iff)
  have bounds: "?q * step \<le> x - start" "x - start < ?q * step + step"
    using assms(1) div_mult_mod_eq [of "x - start" step] pos_mod_bound [of step "x - start"] pos_mod_sign [of step "x - start"]
    by linarith+
  have "?q < ceil_div (till - start) step"
  proof (rule ccontr)
    assume "\<not> ?q < ceil_div (till - start) step"
    then have "till - start \<le> ?q * step" using ceil_div_le_iff [OF assms(1), of "till - start" ?q] by linarith
    with bounds(1) assms(3) show False by linarith
  qed
  with q bounds assms(3) show ?thesis by (simp add: Let_def planned_def)
qed

lemma planned_meets:
  assumes "0 < step" "pc_start (planned start till step n) \<le> x" "x < pc_end (planned start till step n)"
  shows "n = nat ((x - start) div step)"
proof -
  have "(x - start) div step = int n"
    by (rule int_div_pos_eq [of _ _ _ "x - start - int n * step"]) (use assms in \<open>auto simp: planned_def algebra_simps\<close>)
  then show ?thesis by simp
qed

lemma plan_chunks_Inr:
  assumes "plan_chunks from_t to_t v = Inr chunks"
  obtains f t n where "from_t = Some f" "to_t = Some t" "js_integer v = Some n" "60 \<le> n" "n mod 60 = 0"
    "floor_to_minute f < floor_to_minute t" "ceil_div (floor_to_minute t - floor_to_minute f) (n * 1000) \<le> max_chunks_per_job"
    "chunks = map (planned (floor_to_minute f) (floor_to_minute t) (n * 1000))
       [0 ..< nat (ceil_div (floor_to_minute t - floor_to_minute f) (n * 1000))]"
  using assms
  by (auto simp: plan_chunks_def Let_def min_chunk_seconds_def not_less not_le split: option.splits if_splits)

text \<open>The plan partitions the range at whole-minute precision: every instant of the range falls into the
  window of exactly one chunk, no window is empty, leaves the range or is longer than asked, all
  begin and end on a minute, and there are at most five thousand of them, numbered in order.\<close>

lemma plan_partitions_range:
  assumes "plan_chunks (Some f) (Some t) v = Inr chunks"
  shows "(\<forall>x. floor_to_minute f \<le> x \<and> x < floor_to_minute t \<longrightarrow> (\<exists>!c. c \<in> set chunks \<and> pc_start c \<le> x \<and> x < pc_end c)) \<and>
    (\<forall>c \<in> set chunks. floor_to_minute f \<le> pc_start c \<and> pc_start c < pc_end c \<and> pc_end c \<le> floor_to_minute t \<and>
       pc_start c mod 60000 = 0 \<and> pc_end c mod 60000 = 0 \<and> (\<exists>n. js_integer v = Some n \<and> pc_end c - pc_start c \<le> n * 1000)) \<and>
    map pc_seq chunks = [0 ..< length chunks] \<and> int (length chunks) \<le> max_chunks_per_job"
proof -
  obtain n where n: "js_integer v = Some n" "60 \<le> n" "n mod 60 = 0" and less: "floor_to_minute f < floor_to_minute t"
    and count: "ceil_div (floor_to_minute t - floor_to_minute f) (n * 1000) \<le> max_chunks_per_job"
    and chunks: "chunks = map (planned (floor_to_minute f) (floor_to_minute t) (n * 1000))
       [0 ..< nat (ceil_div (floor_to_minute t - floor_to_minute f) (n * 1000))]"
    by (rule plan_chunks_Inr [OF assms]) auto
  define start till step where "start = floor_to_minute f" "till = floor_to_minute t" "step = n * 1000"
  note eqs = start_till_step_def
  have pos: "0 < step" and range: "start < till" using n(2) less by (simp_all add: eqs)
  have chunks': "chunks = map (planned start till step) [0 ..< nat (ceil_div (till - start) step)]" by (simp add: chunks eqs)
  have minute: "start mod 60000 = 0" "till mod 60000 = 0" "step mod 60000 = 0"
    using n(3) by (auto simp: eqs floor_to_minute_def mod_eq_0_iff_dvd elim!: dvdE)
  have one: "\<exists>!c. c \<in> set chunks \<and> pc_start c \<le> x \<and> x < pc_end c" if x: "start \<le> x" "x < till" for x
    using planned_covers [OF pos x] planned_meets [OF pos] unfolding chunks'
    by (intro ex1I [of _ "planned start till step (nat ((x - start) div step))"]) (auto simp: Let_def)
  have each: "start \<le> pc_start c \<and> pc_start c < pc_end c \<and> pc_end c \<le> till \<and> pc_start c mod 60000 = 0 \<and>
      pc_end c mod 60000 = 0 \<and> pc_end c - pc_start c \<le> step" if c: "c \<in> set chunks" for c
  proof -
    obtain k where k: "c = planned start till step k" "k < nat (ceil_div (till - start) step)" using c by (auto simp: chunks')
    then have "\<not> till - start \<le> int k * step" using ceil_div_le_iff [OF pos, of "till - start" "int k"] by linarith
    moreover have "(start + int k * step) mod 60000 = 0" using minute by (auto simp: mod_eq_0_iff_dvd)
    moreover have "(start + int k * step + step) mod 60000 = 0" using minute by (auto simp: mod_eq_0_iff_dvd)
    moreover have "0 \<le> int k * step" using pos by simp
    ultimately show ?thesis using pos minute(2) by (auto simp: k(1) planned_def min_def)
  qed
  have "map pc_seq chunks = [0 ..< length chunks]" by (simp add: chunks' o_def planned_def)
  moreover have "int (length chunks) \<le> max_chunks_per_job" using count by (simp add: chunks max_chunks_per_job_def)
  ultimately show ?thesis using one each n(1) by (auto simp: eqs)
qed

subsection \<open>Request rates\<close>

text \<open>What happens to one limiter and one pacer while a job runs, in any order.\<close>

datatype pace_event =
    Acquire rat
  | Succeeded
  | Throttled "rat option"

fun limit :: "limiter \<Rightarrow> pace_event \<Rightarrow> limiter" where
  "limit l (Acquire _) = l"
| "limit l Succeeded = on_success l"
| "limit l (Throttled r) = on_throttle r l"

text \<open>The instants at which requests start, from the next free slot on.\<close>

fun paced :: "limiter \<Rightarrow> rat \<Rightarrow> pace_event list \<Rightarrow> rat list" where
  "paced l slot [] = []"
| "paced l slot (Acquire now # es) =
     (let (start, next_slot) = pacer_acquire now (interval_ms l) slot in start # paced l next_slot es)"
| "paced l slot (e # es) = paced (limit l e) slot es"

definition limiter_ok :: "limiter \<Rightarrow> bool" where
  "limiter_ok l \<longleftrightarrow> 1 \<le> li_concurrency l \<and> li_concurrency l \<le> li_max l \<and> 0 \<le> li_delay l \<and> li_delay l \<le> max_delay_ms"

lemma limit_keeps:
  assumes "limiter_ok l"
  shows "limiter_ok (limit l e)" "li_floor_ms (limit l e) = li_floor_ms l" "li_max (limit l e) = li_max l"
proof -
  have half: "of_int \<lfloor>d / 2\<rfloor> \<le> max_delay_ms \<and> 0 \<le> (of_int \<lfloor>d / 2\<rfloor> :: rat)" if "0 \<le> d" "d \<le> max_delay_ms" for d
    using that of_int_floor_le [of "d / 2"] by (auto simp: max_delay_ms_def)
  show "limiter_ok (limit l e)"
  proof (cases e)
    case Succeeded
    then show ?thesis using assms half [of "li_delay l"]
      by (auto simp: limiter_ok_def on_success_def Let_def max_delay_ms_def)
  next
    case (Throttled r)
    then show ?thesis using assms by (auto simp: limiter_ok_def on_throttle_def Let_def max_delay_ms_def throttle_base_delay_ms_def)
  qed (use assms in simp)
  show "li_floor_ms (limit l e) = li_floor_ms l" "li_max (limit l e) = li_max l"
    by (cases e; simp add: on_success_def on_throttle_def Let_def)+
qed

lemma limits_keep:
  "limiter_ok l \<Longrightarrow> limiter_ok (foldl limit l es) \<and> li_max (foldl limit l es) = li_max l"
  by (induction es arbitrary: l) (auto simp: limit_keeps)

lemma paced_spaced:
  assumes "limiter_ok l" "0 \<le> li_floor_ms l"
  shows "sorted_wrt (\<lambda>a b. a + of_int (li_floor_ms l) \<le> b) (paced l slot es) \<and> (\<forall>a \<in> set (paced l slot es). slot \<le> a)"
  using assms
proof (induction l slot es rule: paced.induct)
  case (2 l slot now es)
  let ?start = "max now slot" and ?L = "of_int (li_floor_ms l) :: rat"
  have ge: "?L \<le> interval_ms l" by (simp add: interval_ms_def)
  have "sorted_wrt (\<lambda>a b. a + ?L \<le> b) (paced l (?start + interval_ms l) es)"
    and later: "\<forall>a \<in> set (paced l (?start + interval_ms l) es). ?start + interval_ms l \<le> a"
    using "2.IH" [of "(?start, ?start + interval_ms l)" ?start "?start + interval_ms l"] "2.prems" by (auto simp: pacer_acquire_def Let_def)
  moreover have "slot \<le> a" if "a \<in> set (paced l (?start + interval_ms l) es)" for a
  proof -
    have "?start + interval_ms l \<le> a" using later that by blast
    moreover have "0 \<le> ?L" using "2.prems"(2) by simp
    ultimately show ?thesis using ge by linarith
  qed
  moreover have "?start + ?L \<le> a" if "a \<in> set (paced l (?start + interval_ms l) es)" for a
    using later that ge by fastforce
  ultimately show ?case by (auto simp: pacer_acquire_def Let_def)
qed (simp_all add: limit_keeps del: limit.simps)

lemma spaced_span:
  "sorted_wrt (\<lambda>a b. a + L \<le> b) (y # ys) \<Longrightarrow> 0 \<le> L \<Longrightarrow> y + of_nat (length ys) * L \<le> last (y # ys)" for L :: rat
proof (induction ys arbitrary: y)
  case (Cons z zs)
  from Cons.prems have "z + of_nat (length zs) * L \<le> last (z # zs)" by (intro Cons.IH) auto
  with Cons.prems(1) show ?case by (simp add: algebra_simps)
qed simp

lemma spaced_count:
  fixes L :: rat
  assumes "sorted_wrt (\<lambda>a b. a + L \<le> b) xs" "0 < L" "W \<le> of_nat k * L"
  shows "length (filter (\<lambda>x. t \<le> x \<and> x < t + W) xs) \<le> k"
proof (cases "filter (\<lambda>x. t \<le> x \<and> x < t + W) xs")
  case (Cons y ys)
  then have "sorted_wrt (\<lambda>a b. a + L \<le> b) (y # ys)" using sorted_wrt_filter [OF assms(1)] by metis
  then have "y + of_nat (length ys) * L \<le> last (y # ys)" using assms(2) spaced_span by fastforce
  moreover have "t \<le> y" "last (y # ys) < t + W"
    using arg_cong [OF Cons, of set] last_in_set [of "y # ys"] by (auto simp del: last.simps)
  ultimately have "of_nat (length ys) * L < of_nat k * L" using assms(3) by linarith
  then have "length ys < k" using assms(2) by (simp add: mult_less_cancel_right)
  then show ?thesis using Cons by simp
qed simp

text \<open>C24. However the provider answers and whenever workers ask, a run starts at most
  the job's maximum of requests in any sixty seconds, keeps between one and the job's maximum of
  chunks in flight, and never delays a request by more than a minute on top of that spacing.\<close>

theorem request_rate_bound:
  assumes "l = new_limiter max_concurrency rpm initial"
  shows "int (length (filter (\<lambda>s. t \<le> s \<and> s < t + 60000) (paced l 0 es))) \<le> max 1 rpm \<and>
    (let l' = foldl limit l es in 1 \<le> li_concurrency l' \<and> li_concurrency l' \<le> max 1 max_concurrency \<and>
       0 \<le> li_delay l' \<and> li_delay l' \<le> max_delay_ms)"
proof -
  let ?L = "ceil_div 60000 (max 1 rpm)"
  have ok: "limiter_ok l" "li_floor_ms l = ?L" "li_max l = max 1 max_concurrency"
    by (auto simp: assms new_limiter_def limiter_ok_def max_delay_ms_def Let_def)
  have cover: "60000 \<le> ?L * max 1 rpm" using ceil_div_le_iff [of "max 1 rpm" 60000 ?L] by simp
  then have pos: "0 < ?L" by (smt (verit) mult_nonneg_nonpos2 mult.commute)
  have "(60000 :: rat) \<le> of_int (?L * max 1 rpm)" using cover by (metis of_int_le_iff of_int_numeral)
  then have "(60000 :: rat) \<le> of_nat (nat (max 1 rpm)) * of_int ?L" by (simp add: mult.commute)
  moreover have "sorted_wrt (\<lambda>a b. a + of_int ?L \<le> b) (paced l 0 es)"
    using paced_spaced [OF ok(1), of 0 es] pos ok(2) by simp
  ultimately have "length (filter (\<lambda>s. t \<le> s \<and> s < t + 60000) (paced l 0 es)) \<le> nat (max 1 rpm)"
    using spaced_count [of "of_int ?L" "paced l 0 es" 60000 "nat (max 1 rpm)" t] pos by simp
  moreover have "limiter_ok (foldl limit l es) \<and> li_max (foldl limit l es) = max 1 max_concurrency"
    using limits_keep [OF ok(1)] ok(3) by simp
  ultimately show ?thesis by (auto simp: limiter_ok_def Let_def)
qed

lemma request_rate_bound_witness:
  "int (length (filter (\<lambda>s. 0 \<le> s \<and> s < 60000) (paced (new_limiter 4 2 None) 0 [Acquire 0, Succeeded, Acquire 1, Acquire 2]))) \<le> 2"
  using request_rate_bound [OF refl, of 0 4 2 None "[Acquire 0, Succeeded, Acquire 1, Acquire 2]"] by simp

subsection \<open>The report reads back\<close>

text \<open>What RFC 4180 says a reader does with the text.\<close>

fun read_quoted :: "string \<Rightarrow> (string \<times> string) option" where
  "read_quoted [] = None"
| "read_quoted (c # cs) =
     (if c \<noteq> CHR 0x22 then map_option (\<lambda>(t, u). (c # t, u)) (read_quoted cs)
      else case cs of
        d # r \<Rightarrow> if d = CHR 0x22 then map_option (\<lambda>(t, u). (d # t, u)) (read_quoted r) else Some ([], cs)
      | [] \<Rightarrow> Some ([], []))"

definition read_cell :: "string \<Rightarrow> (string \<times> string) option" where
  "read_cell s = (case s of
       c # cs \<Rightarrow> if c = CHR 0x22 then read_quoted cs
                else Some (takeWhile (\<lambda>d. \<not> csv_special d) s, dropWhile (\<lambda>d. \<not> csv_special d) s)
     | [] \<Rightarrow> Some ([], []))"

lemma read_quoted_shorter: "read_quoted s = Some (t, u) \<Longrightarrow> length u \<le> length s"
  by (induction s arbitrary: t u rule: read_quoted.induct) (fastforce split: if_splits list.splits)+

lemma read_cell_shorter: "read_cell s = Some (t, u) \<Longrightarrow> length u \<le> length s"
  by (auto simp: read_cell_def length_dropWhile_le dest: read_quoted_shorter split: list.splits if_splits)
    (metis le_SucI length_dropWhile_le)

function read_record :: "string \<Rightarrow> (string list \<times> string) option" where
  "read_record s =
     (case read_cell s of
        None \<Rightarrow> None
      | Some (t, u) \<Rightarrow>
          (case u of
             c # r \<Rightarrow>
               if c = CHR '','' then map_option (\<lambda>(ts, u'). (t # ts, u')) (read_record r)
               else if c = CHR 0x0D \<and> r \<noteq> [] \<and> hd r = CHR 0x0A then Some ([t], tl r) else None
           | [] \<Rightarrow> None))"
  by pat_completeness auto
termination
  by (relation "measure length") (auto dest!: read_cell_shorter)

declare read_record.simps [simp del]

lemma read_record_shorter: "read_record s = Some (ts, u) \<Longrightarrow> length u < length s"
proof (induction s arbitrary: ts u rule: read_record.induct)
  case (1 s)
  then obtain t v where cell: "read_cell s = Some (t, v)" by (auto simp: read_record.simps [of s] split: option.splits)
  note short = read_cell_shorter [OF cell]
  obtain c r where v: "v = c # r" using "1.prems" cell by (cases v) (auto simp: read_record.simps [of s])
  show ?case
  proof (cases "c = CHR '',''")
    case True
    then obtain ts' where "read_record r = Some (ts', u)" using "1.prems" cell v by (auto simp: read_record.simps [of s])
    then have "length u < length r" using "1.IH" [OF cell refl v True] by simp
    then show ?thesis using short v by simp
  next
    case False
    then have "u = tl r" using "1.prems" cell v by (auto simp: read_record.simps [of s] split: if_splits)
    then show ?thesis using short v by (cases r) auto
  qed
qed

function read_csv :: "string \<Rightarrow> string list list option" where
  "read_csv s =
     (if s = [] then Some []
      else case read_record s of
        None \<Rightarrow> None
      | Some (row, r) \<Rightarrow> map_option (\<lambda>rows. row # rows) (read_csv r))"
  by pat_completeness auto
termination
  by (relation "measure length") (auto dest: read_record_shorter)

declare read_csv.simps [simp del]

lemma read_quoted_doubled:
  "r = [] \<or> hd r \<noteq> CHR 0x22 \<Longrightarrow> read_quoted (double_quotes s @ CHR 0x22 # r) = Some (s, r)"
  by (induction s) (auto simp: double_quotes_def split: list.splits)

lemma read_cell_written:
  assumes "r \<noteq> []" "csv_special (hd r)" "hd r \<noteq> CHR 0x22"
  shows "read_cell (csv_cell v @ r) = Some (csv_text v, r)"
proof (cases "\<exists>c \<in> set (csv_text v). csv_special c")
  case True
  then show ?thesis using read_quoted_doubled [of r "csv_text v"] assms by (simp add: csv_cell_def read_cell_def)
next
  case False
  then have plain: "\<forall>c \<in> set (csv_text v). \<not> csv_special c" by blast
  obtain d r' where r: "r = d # r'" "csv_special d" "d \<noteq> CHR 0x22" using assms by (cases r) auto
  have "takeWhile (\<lambda>d. \<not> csv_special d) (csv_text v @ r) = csv_text v" "dropWhile (\<lambda>d. \<not> csv_special d) (csv_text v @ r) = r"
    using plain r by (simp_all add: takeWhile_append2 dropWhile_append2)
  moreover have "hd (csv_text v @ r) \<noteq> CHR 0x22"
    using plain r by (cases "csv_text v") (auto simp: csv_special_def)
  moreover obtain c cs where eq: "csv_text v @ r = c # cs" using r(1) by (cases "csv_text v @ r") auto
  ultimately have "read_cell (csv_text v @ r) = Some (csv_text v, r)" by (simp add: read_cell_def del: takeWhile.simps dropWhile.simps)
  then show ?thesis using False by (simp add: csv_cell_def)
qed

lemma read_record_written:
  "cells \<noteq> [] \<Longrightarrow> read_record (csv_row cells @ CHR 0x0D # CHR 0x0A # r) = Some (map csv_text cells, r)"
proof (induction cells)
  case (Cons v vs)
  show ?case
  proof (cases vs)
    case Nil
    then show ?thesis
      by (subst read_record.simps) (simp add: csv_row_def read_cell_written csv_special_def)
  next
    case (Cons w ws)
    then have "csv_row (v # vs) @ CHR 0x0D # CHR 0x0A # r = csv_cell v @ CHR '','' # csv_row vs @ CHR 0x0D # CHR 0x0A # r"
      by (simp add: csv_row_def)
    then show ?thesis using Cons.IH Cons
      by (subst read_record.simps) (simp add: read_cell_written csv_special_def)
  qed
qed simp

lemma read_csv_written:
  "\<forall>row \<in> set rows. row \<noteq> [] \<Longrightarrow>
   read_csv (concat (map (\<lambda>row. csv_row row @ [CHR 0x0D, CHR 0x0A]) rows)) = Some (map (map csv_text) rows)"
  by (induction rows) (simp_all add: read_csv.simps read_record_written)

lemma join_lines: "join sep (x # xs) @ sep = concat (map (\<lambda>y. y @ sep) (x # xs))"
  by (induction xs arbitrary: x) auto

text \<open>C25. The audit report reads back: a reader that follows RFC 4180 gets the header and the rows again,
  cell by cell, whatever quotes, commas and line breaks they hold; and no text cell it gets
  begins with a character that makes a spreadsheet run it as a formula.\<close>

theorem report_reads_back:
  assumes "header \<noteq> []" "\<forall>row \<in> set rows. row \<noteq> []"
  shows "read_csv (to_csv header rows) = Some (map (map csv_text) (map CsvString header # rows)) \<and>
    (\<forall>s. \<not> formula_lead (csv_text (CsvString s)))"
proof -
  have "to_csv header rows = concat (map (\<lambda>row. csv_row row @ [CHR 0x0D, CHR 0x0A]) (map CsvString header # rows))"
    using join_lines [of "[CHR 0x0D, CHR 0x0A]" "csv_row (map CsvString header)" "map csv_row rows"]
    by (simp add: to_csv_def o_def)
  moreover have "\<forall>row \<in> set (map CsvString header # rows). row \<noteq> []" using assms by auto
  ultimately show ?thesis
    using read_csv_written [of "map CsvString header # rows"] by (auto simp: csv_text_def formula_lead_def split: list.splits)
qed

lemma report_reads_back_witness:
  "read_csv (to_csv [''name''] [[CsvString ''=1,2'']]) = Some [[''name''], [CHR 0x27 # ''=1,2'']]"
  using report_reads_back [of "[''name'']" "[[CsvString ''=1,2'']]"] by (simp add: csv_text_def formula_lead_def)

end
