(* ===== verification/Connectors.thy ===== *)
theory Connectors
  imports SyncGuard
begin

text \<open>
  The connectors of a tenant, as far as the components that use them read them, the events of
  \<^verbatim>\<open>src/modules/connectors/connector.service.ts\<close>, and the shape of its transactions: a write and its
  event commit together, the event is dispatched after the commit.
\<close>

record connector_row =
  cr_id :: uuid
  cr_org_id :: string
  cr_provider :: string
  cr_name :: string
  cr_entity_types :: "string list"
  cr_has_backfill :: bool
  cr_activated_at :: "time option"
  cr_status :: string
  cr_config :: jsval
  cr_discovery :: "jsval option"
  cr_updated_at :: time

record conn_store = guard_store +
  connectors :: "connector_row list"

definition find_connector :: "string \<Rightarrow> uuid \<Rightarrow> 'z conn_store_scheme \<Rightarrow> connector_row option" where
  "find_connector org i st = find (\<lambda>c. cr_id c = i \<and> cr_org_id c = org) (connectors st)"

definition integration_actor :: "string \<Rightarrow> string" where
  "integration_actor actor = (if take 10 actor = ''connector:'' then ''integration'' else ''user'')"

definition connector_event :: "string \<Rightarrow> string \<Rightarrow> string \<Rightarrow> string \<Rightarrow> jsobj \<Rightarrow> outbox_input" where
  "connector_event org subject actor ty payload =
     \<lparr>oi_event_type = ty, oi_work_item_id = subject, oi_org_id = org, oi_actor_type = integration_actor actor, oi_actor_id = actor,
      oi_payload = JObj (jspread [(''org_id'', JStr org)] payload), oi_schema_version = None, oi_event_id = None, oi_timestamp = None\<rparr>"

abbreviation store_pub :: "(string \<Rightarrow> string) \<Rightarrow> 'z store_scheme handler" where
  "store_pub sha \<equiv> publish_envelope (store_bus sha quiet)"

definition with_event ::
  "(string \<Rightarrow> string) \<Rightarrow> 'z store_scheme handler \<Rightarrow> uuid \<Rightarrow> time \<Rightarrow> outbox_input \<Rightarrow> 'z store_scheme
   \<Rightarrow> db_error + envelope \<times> 'z store_scheme" where
  "with_event sha pub fresh now i st =
     and_then (enqueue sha quiet fresh now i st) (\<lambda>(ev, st1). Inr (ev, snd (dispatch_envelope pub now ev st1)))"

text \<open>Neither the commit of an event nor its dispatch touches a table of its own component.\<close>

lemma enqueue_more: "enqueue sha quiet fresh now i st = Inr (ev, st') \<Longrightarrow> store.more st' = store.more st"
  using append_frame by (fastforce simp: enqueue_Inr)

lemma dispatch_more: "store.more (snd (dispatch_envelope (store_pub sha) now ev st)) = store.more st"
proof -
  have "store.more (snd (store_pub sha ev st)) = store.more st" using bus_tables by blast
  then show ?thesis by (auto simp: dispatch_envelope_def split: prod.splits option.splits)
qed

lemma with_event_more: "with_event sha (store_pub sha) fresh now i st = Inr (ev, st') \<Longrightarrow> store.more st' = store.more st"
  by (auto simp: with_event_def and_then_Inr dest: enqueue_more simp: dispatch_more)

lemma connectors_more: "store.more st' = store.more st \<Longrightarrow> connectors st' = connectors st"
  by (cases st; cases st') simp

end
