(* ===== verification/MappingTable.thy ===== *)
theory MappingTable
  imports Connectors
begin

text \<open>
  What state mappings (\<^verbatim>\<open>src/modules/integrations/state-mapping.service.ts\<close>) and field mappings
  (\<^verbatim>\<open>src/modules/connectors/mapping/field-mapping.service.ts\<close>) have in common: the validation of their
  texts and endpoints, the table of versioned definitions with its life cycle of drafts, published and
  superseded versions, and the search for the version that is in force.

  A definition is polymorphic in its rules. Ties of \<^verbatim>\<open>ORDER BY version DESC LIMIT 1\<close> are broken by row order.
\<close>

datatype map_error =
    InvalidMapping string
  | MappingNotFound string
  | MappingConflict string
  | IdentityMissing string
  | MapDb db_error

subsection \<open>Texts\<close>

definition map_text :: "jsval \<Rightarrow> string \<Rightarrow> nat \<Rightarrow> map_error + string" where
  "map_text v field most = (case v of
     JStr s \<Rightarrow>
       if trim s = [] then Inl (InvalidMapping (field @ '' is required''))
       else if length (trim s) > most then Inl (InvalidMapping (field @ '' must be '' @ show_nat most @ '' characters or fewer''))
       else Inr (trim s)
   | _ \<Rightarrow> Inl (InvalidMapping (field @ '' is required'')))"

definition map_token :: "jsval \<Rightarrow> string \<Rightarrow> map_error + string" where
  "map_token v field =
     and_then (map_text v field 64) (\<lambda>s.
       if token_pattern (lower s) then Inr (lower s)
       else Inl (InvalidMapping (field @ '' contains unsupported characters'')))"

definition require_map_uuid :: "string \<Rightarrow> string \<Rightarrow> map_error + unit" where
  "require_map_uuid v field = (if uuid_pattern v then Inr () else Inl (InvalidMapping (field @ '' must be a UUID'')))"

definition letter :: "char \<Rightarrow> bool" where
  "letter c \<longleftrightarrow> lower_letter c \<or> c \<in> set ''ABCDEFGHIJKLMNOPQRSTUVWXYZ''"

definition field_path_pattern :: "string \<Rightarrow> bool" where
  "field_path_pattern s \<longleftrightarrow> (case s of [] \<Rightarrow> False
     | c # r \<Rightarrow> (letter c \<or> c = CHR ''_'') \<and> length r \<le> 127 \<and>
         list_all (\<lambda>d. letter d \<or> decimal_digit d \<or> d \<in> set ''_.-'') r)"

definition map_field_path :: "jsval \<Rightarrow> string \<Rightarrow> map_error + string" where
  "map_field_path v field =
     and_then (map_text v field 128) (\<lambda>s.
       if field_path_pattern s then Inr s else Inl (InvalidMapping (field @ '' is not a supported field path'')))"

definition indexed :: "string \<Rightarrow> nat \<Rightarrow> string" where
  "indexed field i = field @ ''['' @ show_nat i @ '']''"

text \<open>The elements of which no earlier one has the same key.\<close>

fun dedupe_by :: "('a \<Rightarrow> 'k) \<Rightarrow> 'k list \<Rightarrow> 'a list \<Rightarrow> 'a list" where
  "dedupe_by key seen [] = []"
| "dedupe_by key seen (x # xs) =
     (if key x \<in> set seen then dedupe_by key seen xs else x # dedupe_by key (key x # seen) xs)"

lemma set_dedupe_by: "set (dedupe_by (\<lambda>x. x) seen xs) = set xs - set seen"
  by (induction xs arbitrary: seen) auto

lemma set_dedupe: "set (dedupe_by (\<lambda>x. x) [] xs) = set xs"
  by (simp add: set_dedupe_by)

definition map_array :: "(jsval \<Rightarrow> string \<Rightarrow> map_error + 'a) \<Rightarrow> jsval \<Rightarrow> string \<Rightarrow> map_error + 'a list" where
  "map_array f v field = (case v of
     JUndef \<Rightarrow> Inr [] | JNull \<Rightarrow> Inr []
   | JArr xs \<Rightarrow> map_res (\<lambda>(i, x). f x (indexed field i)) (enumerate 0 xs)
   | _ \<Rightarrow> Inl (InvalidMapping (field @ '' must be an array'')))"

definition is_object :: "jsval \<Rightarrow> bool" where
  "is_object v \<longleftrightarrow> (case v of JArr _ \<Rightarrow> True | JObj _ \<Rightarrow> True | _ \<Rightarrow> False)"

definition map_fields :: "jsval \<Rightarrow> string \<Rightarrow> map_error + jsobj" where
  "map_fields v field = (case v of
     JUndef \<Rightarrow> Inr [] | JNull \<Rightarrow> Inr []
   | JObj o' \<Rightarrow> Inr (map (\<lambda>(k, x). (k, json_clone x)) (filter (\<lambda>(k, x). x \<noteq> JUndef) o'))
   | _ \<Rightarrow> Inl (InvalidMapping (field @ '' must be a JSON object'')))"

text \<open>
  \<open>localeCompare\<close> with sensitivity \<^verbatim>\<open>accent\<close> under the collation of the root locale: control characters are
  ignored, case and the compatibility variants of a letter or digit do not count.
\<close>

definition collated :: "char \<Rightarrow> string" where
  "collated c =
     (let n = (of_char c :: nat) in
      if n \<le> 8 \<or> (14 \<le> n \<and> n \<le> 31) \<or> (127 \<le> n \<and> n \<le> 159 \<and> n \<noteq> 133) \<or> n = 173 then []
      else if n = 160 then '' '' else if n = 170 then ''a'' else if n = 186 then ''o'' else if n = 223 then ''ss''
      else if n = 178 then ''2'' else if n = 179 then ''3'' else if n = 185 then ''1''
      else [lower_char c])"

definition same_text :: "string \<Rightarrow> string \<Rightarrow> bool" where
  "same_text a b \<longleftrightarrow> concat (map collated a) = concat (map collated b)"

subsection \<open>Definitions\<close>

record endpoint =
  ep_system :: string
  ep_entity_type :: string

datatype mapping_direction = SourceToTarget | TargetToSource

fun direction_text :: "mapping_direction \<Rightarrow> string" where
  "direction_text SourceToTarget = ''source_to_target''"
| "direction_text TargetToSource = ''target_to_source''"

datatype mapping_status = MapDraft | MapPublished | MapSuperseded

fun map_status_text :: "mapping_status \<Rightarrow> string" where
  "map_status_text MapDraft = ''draft''"
| "map_status_text MapPublished = ''published''"
| "map_status_text MapSuperseded = ''superseded''"

record 'r mapping_def =
  md_id :: uuid
  md_org_id :: string
  md_name :: string
  md_source :: endpoint
  md_target :: endpoint
  md_version :: int
  md_status :: mapping_status
  md_rules :: "'r list"
  md_created_by :: string
  md_created_at :: time
  md_published_by :: "string option"
  md_published_at :: "time option"

definition map_endpoint :: "jsval \<Rightarrow> string \<Rightarrow> map_error + endpoint" where
  "map_endpoint v field =
     (if \<not> is_object v then Inl (InvalidMapping (field @ '' is required''))
      else and_then (map_token (jprop v ''system'') (field @ ''.system'')) (\<lambda>s.
           and_then (map_token (jprop v ''entity_type'') (field @ ''.entity_type'')) (\<lambda>e.
             Inr \<lparr>ep_system = s, ep_entity_type = e\<rparr>)))"

definition map_direction :: "jsval \<Rightarrow> string \<Rightarrow> map_error + mapping_direction" where
  "map_direction v field =
     (if v = JStr ''source_to_target'' then Inr SourceToTarget
      else if v = JStr ''target_to_source'' then Inr TargetToSource
      else Inl (InvalidMapping (field @ '' must be source_to_target or target_to_source'')))"

definition draft_head :: "jsval \<Rightarrow> map_error + string \<times> endpoint \<times> endpoint" where
  "draft_head dto =
     and_then (map_text (jprop dto ''name'') ''name'' 160) (\<lambda>name.
     and_then (map_endpoint (jprop dto ''source'') ''source'') (\<lambda>source.
     and_then (map_endpoint (jprop dto ''target'') ''target'') (\<lambda>target.
       if source = target then Inl (InvalidMapping ''source and target must identify different system/entity pairs'')
       else Inr (name, source, target))))"

definition endpoint_value :: "endpoint \<Rightarrow> jsval" where
  "endpoint_value e = JObj [(''system'', JStr (ep_system e)), (''entity_type'', JStr (ep_entity_type e))]"

definition mapping_event :: "string \<Rightarrow> string \<Rightarrow> ('r, 'm) mapping_def_scheme \<Rightarrow> outbox_input" where
  "mapping_event ty actor d =
     \<lparr>oi_event_type = ty, oi_work_item_id = md_id d, oi_org_id = md_org_id d, oi_actor_type = ''user'', oi_actor_id = actor,
      oi_payload = JObj [(''org_id'', JStr (md_org_id d)), (''mapping_id'', JStr (md_id d)), (''name'', JStr (md_name d)),
        (''version'', JInt (md_version d)), (''status'', JStr (map_status_text (md_status d))),
        (''source'', endpoint_value (md_source d)), (''target'', endpoint_value (md_target d)),
        (''rule_count'', JInt (int (length (md_rules d))))],
      oi_schema_version = None, oi_event_id = None, oi_timestamp = None\<rparr>"

text \<open>A write of a definition and its event in one transaction, dispatched after the commit.\<close>

definition mapping_tx ::
  "(string \<Rightarrow> string) \<Rightarrow> 'z store_scheme handler \<Rightarrow> uuid \<Rightarrow> time \<Rightarrow> outbox_input \<Rightarrow> 'z store_scheme \<Rightarrow> map_error + 'z store_scheme" where
  "mapping_tx sha pub fresh now i st =
     (case enqueue sha quiet fresh now i st of
        Inl e \<Rightarrow> Inl (MapDb e)
      | Inr (ev, st1) \<Rightarrow> Inr (snd (dispatch_envelope pub now ev st1)))"

subsection \<open>The table\<close>

definition of_pair :: "string \<Rightarrow> endpoint \<Rightarrow> endpoint \<Rightarrow> ('r, 'm) mapping_def_scheme \<Rightarrow> bool" where
  "of_pair org source target d \<longleftrightarrow> md_org_id d = org \<and> md_source d = source \<and> md_target d = target"

definition next_version :: "string \<Rightarrow> endpoint \<Rightarrow> endpoint \<Rightarrow> ('r, 'm) mapping_def_scheme list \<Rightarrow> int" where
  "next_version org source target rows = foldr (\<lambda>d n. max (md_version d) n) (filter (of_pair org source target) rows) 0 + 1"

definition is_definition :: "string \<Rightarrow> uuid \<Rightarrow> ('r, 'm) mapping_def_scheme \<Rightarrow> bool" where
  "is_definition org i d \<longleftrightarrow> md_org_id d = org \<and> md_id d = i"

definition supersede :: "('r, 'm) mapping_def_scheme \<Rightarrow> ('r, 'm) mapping_def_scheme" where
  "supersede d = d\<lparr>md_status := MapSuperseded\<rparr>"

definition published_row :: "string \<Rightarrow> time \<Rightarrow> ('r, 'm) mapping_def_scheme \<Rightarrow> ('r, 'm) mapping_def_scheme" where
  "published_row actor now d = d\<lparr>md_status := MapPublished, md_published_by := Some actor, md_published_at := Some now\<rparr>"

text \<open>The two updates of a publication; \<open>f\<close> is what the second one sets.\<close>

definition publish_rows ::
  "string \<Rightarrow> (('r, 'm) mapping_def_scheme \<Rightarrow> ('r, 'm) mapping_def_scheme) \<Rightarrow> ('r, 'm) mapping_def_scheme
   \<Rightarrow> ('r, 'm) mapping_def_scheme list \<Rightarrow> ('r, 'm) mapping_def_scheme list" where
  "publish_rows org f d rows =
     update_where (is_definition org (md_id d)) f
       (update_where (\<lambda>x. of_pair org (md_source d) (md_target d) x \<and> md_status x = MapPublished) supersede rows)"

definition published_between :: "string \<Rightarrow> endpoint \<Rightarrow> endpoint \<Rightarrow> ('r, 'm) mapping_def_scheme \<Rightarrow> bool" where
  "published_between org a b d \<longleftrightarrow> md_status d = MapPublished \<and> (of_pair org a b d \<or> of_pair org b a d)"

definition find_published :: "string \<Rightarrow> endpoint \<Rightarrow> endpoint \<Rightarrow> ('r, 'm) mapping_def_scheme list \<Rightarrow> ('r, 'm) mapping_def_scheme option" where
  "find_published org a b rows = max_by md_version (filter (published_between org a b) rows)"

definition find_definition :: "string \<Rightarrow> uuid \<Rightarrow> ('r, 'm) mapping_def_scheme list \<Rightarrow> ('r, 'm) mapping_def_scheme option" where
  "find_definition org i rows = find (is_definition org i) rows"

text \<open>\<^verbatim>\<open>ORDER BY source, target, version DESC, created_at DESC\<close>.\<close>

definition list_definitions :: "string \<Rightarrow> ('r, 'm) mapping_def_scheme list \<Rightarrow> ('r, 'm) mapping_def_scheme list" where
  "list_definitions org rows =
     (sort_key (\<lambda>d. ep_system (md_source d)) \<circ> sort_key (\<lambda>d. ep_entity_type (md_source d)) \<circ>
      sort_key (\<lambda>d. ep_system (md_target d)) \<circ> sort_key (\<lambda>d. ep_entity_type (md_target d)) \<circ>
      sort_key (\<lambda>d. - md_version d) \<circ> sort_key (\<lambda>d. - md_created_at d)) (filter (\<lambda>d. md_org_id d = org) rows)"

definition draft_row ::
  "uuid \<Rightarrow> time \<Rightarrow> string \<Rightarrow> string \<Rightarrow> string \<times> endpoint \<times> endpoint \<Rightarrow> 'r list \<Rightarrow> int \<Rightarrow> 'r mapping_def" where
  "draft_row i now org actor = (\<lambda>(name, source, target) rules version.
     \<lparr>md_id = i, md_org_id = org, md_name = name, md_source = source, md_target = target, md_version = version,
      md_status = MapDraft, md_rules = rules, md_created_by = actor, md_created_at = now, md_published_by = None, md_published_at = None\<rparr>)"

lemma draft_row_simps [simp]:
  "md_id (draft_row i now org actor h rules v) = i" "md_org_id (draft_row i now org actor h rules v) = org"
  "md_source (draft_row i now org actor h rules v) = fst (snd h)" "md_target (draft_row i now org actor h rules v) = snd (snd h)"
  "md_version (draft_row i now org actor h rules v) = v" "md_status (draft_row i now org actor h rules v) = MapDraft"
  "md_rules (draft_row i now org actor h rules v) = rules"
  by (auto simp: draft_row_def split: prod.splits)

text \<open>The direction in which a definition is used between two endpoints, if it joins them.\<close>

definition direct_between :: "endpoint \<Rightarrow> endpoint \<Rightarrow> ('r, 'm) mapping_def_scheme \<Rightarrow> bool" where
  "direct_between a b d \<longleftrightarrow> md_source d = a \<and> md_target d = b"

subsection \<open>What the table keeps\<close>

definition same_pair_of :: "('r, 'm) mapping_def_scheme \<Rightarrow> ('r, 'm) mapping_def_scheme \<Rightarrow> bool" where
  "same_pair_of d d' \<longleftrightarrow> of_pair (md_org_id d) (md_source d) (md_target d) d'"

text \<open>Versions of a pair of endpoints are distinct, and at most one of them is published.\<close>

definition mappings_ok :: "('r, 'm) mapping_def_scheme list \<Rightarrow> bool" where
  "mappings_ok rows \<longleftrightarrow> distinct (map md_id rows) \<and>
     (\<forall>d \<in> set rows. \<forall>d' \<in> set rows. same_pair_of d d' \<longrightarrow>
        md_version d = md_version d' \<or> md_status d = MapPublished \<and> md_status d' = MapPublished \<longrightarrow> d = d')"

lemma mappings_okD:
  assumes "mappings_ok rows" "d \<in> set rows" "d' \<in> set rows" "same_pair_of d d'"
  shows "md_version d = md_version d' \<Longrightarrow> d = d'"
    "md_status d = MapPublished \<Longrightarrow> md_status d' = MapPublished \<Longrightarrow> d = d'"
  using assms unfolding mappings_ok_def by blast+

lemma foldr_max_bound: "x \<in> set xs \<Longrightarrow> f x \<le> foldr (\<lambda>d n. max (f d) n) xs (z :: int)"
  by (induction xs) (auto simp: max.coboundedI2)

lemma version_below_next: "d \<in> set rows \<Longrightarrow> of_pair org a b d \<Longrightarrow> md_version d < next_version org a b rows"
  using foldr_max_bound [of d "filter (of_pair org a b) rows" md_version 0] by (simp add: next_version_def)

lemma draft_keeps_mappings:
  assumes "mappings_ok rows" "md_id d \<notin> md_id ` set rows" "md_status d = MapDraft"
    "md_version d = next_version (md_org_id d) (md_source d) (md_target d) rows"
  shows "mappings_ok (rows @ [d])"
proof -
  have "md_version x < md_version d" if "x \<in> set rows" "same_pair_of d x \<or> same_pair_of x d" for x
    using that version_below_next [of x rows "md_org_id d" "md_source d" "md_target d"] assms(4)
    by (auto simp: same_pair_of_def of_pair_def)
  then show ?thesis using assms(1-3) unfolding mappings_ok_def by (simp del: set_map) (fastforce)
qed

text \<open>What a publication may set: anything but the place of the definition in the table.\<close>

definition publishes :: "(('r, 'm) mapping_def_scheme \<Rightarrow> ('r, 'm) mapping_def_scheme) \<Rightarrow> bool" where
  "publishes f \<longleftrightarrow> (\<forall>d. md_id (f d) = md_id d \<and> md_org_id (f d) = md_org_id d \<and> md_source (f d) = md_source d \<and>
     md_target (f d) = md_target d \<and> md_version (f d) = md_version d \<and> md_status (f d) = MapPublished)"

lemma publishes_published_row [simp]: "publishes (published_row actor now)"
  by (simp add: publishes_def published_row_def)

lemma publish_rows_map:
  assumes "mappings_ok rows" "d \<in> set rows" "md_org_id d = org"
  shows "publish_rows org f d rows = map (\<lambda>x. if x = d then f (if md_status d = MapPublished then supersede d else d)
     else if same_pair_of d x \<and> md_status x = MapPublished then supersede x else x) rows"
proof -
  have "(md_id x = md_id d) = (x = d)" if "x \<in> set rows" for x
    using that assms(1,2) distinct_id_eq [of md_id rows x d] by (auto simp: mappings_ok_def)
  then show ?thesis using assms(3)
    by (auto simp: publish_rows_def update_where_def is_definition_def supersede_def same_pair_of_def of_pair_def)
qed

lemma map_keeps_mappings:
  assumes "mappings_ok rows"
    and "\<And>x. md_id (g x) = md_id x" "\<And>x. md_version (g x) = md_version x" "\<And>x y. same_pair_of (g x) (g y) = same_pair_of x y"
    and "\<And>x y. x \<in> set rows \<Longrightarrow> y \<in> set rows \<Longrightarrow> same_pair_of x y \<Longrightarrow> md_status (g x) = MapPublished \<Longrightarrow>
      md_status (g y) = MapPublished \<Longrightarrow> x = y"
  shows "mappings_ok (map g rows)"
proof -
  have "distinct (map md_id (map g rows))" using assms(1,2) by (simp add: mappings_ok_def comp_def)
  moreover have "g x = g y" if "x \<in> set rows" "y \<in> set rows" "same_pair_of (g x) (g y)"
      "md_version (g x) = md_version (g y) \<or> md_status (g x) = MapPublished \<and> md_status (g y) = MapPublished" for x y
  proof -
    have "x = y" using that assms(3-5) mappings_okD(1) [OF assms(1)] by metis
    then show ?thesis by simp
  qed
  ultimately show ?thesis unfolding mappings_ok_def by (auto simp del: map_map)
qed

lemma publish_keeps_mappings:
  assumes "mappings_ok rows" "d \<in> set rows" "md_org_id d = org" "publishes f"
  shows "mappings_ok (publish_rows org f d rows)"
proof -
  let ?g = "\<lambda>x. if x = d then f (if md_status d = MapPublished then supersede d else d)
     else if same_pair_of d x \<and> md_status x = MapPublished then supersede x else x"
  have keep: "md_id (?g x) = md_id x" "md_version (?g x) = md_version x"
      "same_pair_of (?g x) (?g y) = same_pair_of x y" for x y
    using assms(4) by (auto simp: publishes_def supersede_def same_pair_of_def of_pair_def)
  have pub: "md_status (?g x) = MapPublished \<longleftrightarrow> x = d \<or> \<not> same_pair_of d x \<and> md_status x = MapPublished" for x
    using assms(4) by (auto simp: publishes_def supersede_def)
  have sym: "same_pair_of x y \<Longrightarrow> same_pair_of y x" "same_pair_of d d" for x y by (auto simp: same_pair_of_def of_pair_def)
  have "mappings_ok (map ?g rows)"
  proof (rule map_keeps_mappings [OF assms(1) keep])
    fix x y assume "x \<in> set rows" "y \<in> set rows" "same_pair_of x y" "md_status (?g x) = MapPublished" "md_status (?g y) = MapPublished"
    then show "x = y" unfolding pub using mappings_okD(2) [OF assms(1)] sym by blast
  qed
  then show ?thesis by (simp only: publish_rows_map [OF assms(1-3)])
qed

lemma mapping_tx_more: "mapping_tx sha (store_pub sha) fresh now i st = Inr st' \<Longrightarrow> store.more st' = store.more st"
  by (auto simp: mapping_tx_def dispatch_more dest: enqueue_more split: sum.splits)

lemma mapping_tx_total:
  assumes "growing sha" "chain_state sha st" "\<not> used st fresh" "oi_event_id i = None" "oi_work_item_id i \<noteq> []"
  obtains st' where "mapping_tx sha (store_pub sha) fresh now i st = Inr st'" "chain_state sha st'" "\<And>e. used st' e = (e = fresh \<or> used st e)"
  using enqueue_dispatch_total [OF assms, of now now] by (auto simp: mapping_tx_def Let_def)

subsection \<open>Histories of the table\<close>

text \<open>Two versions of a row: only its status and the marks of its publication may have moved, and a status only forward.\<close>

fun map_rank :: "mapping_status \<Rightarrow> nat" where
  "map_rank MapDraft = 0"
| "map_rank MapPublished = 1"
| "map_rank MapSuperseded = 2"

definition later_version :: "('r, 'm) mapping_def_scheme \<Rightarrow> ('r, 'm) mapping_def_scheme \<Rightarrow> bool" where
  "later_version d d' \<longleftrightarrow> md_id d' = md_id d \<and> md_org_id d' = md_org_id d \<and> md_source d' = md_source d \<and> md_target d' = md_target d \<and>
     md_version d' = md_version d \<and> md_rules d' = md_rules d \<and> map_rank (md_status d) \<le> map_rank (md_status d')"

lemma later_version_refl [simp]: "later_version d d"
  by (simp add: later_version_def)

lemma later_version_trans: "later_version d e \<Longrightarrow> later_version e f \<Longrightarrow> later_version d f"
  by (simp add: later_version_def)

definition drafted :: "('r, 'm) mapping_def_scheme list \<Rightarrow> ('r, 'm) mapping_def_scheme list \<Rightarrow> bool" where
  "drafted rows rows' \<longleftrightarrow> (\<exists>d. rows' = rows @ [d] \<and> md_id d \<notin> md_id ` set rows \<and> md_status d = MapDraft \<and>
     md_version d = next_version (md_org_id d) (md_source d) (md_target d) rows)"

definition published :: "('r, 'm) mapping_def_scheme list \<Rightarrow> ('r, 'm) mapping_def_scheme list \<Rightarrow> bool" where
  "published rows rows' \<longleftrightarrow> (\<exists>d f. d \<in> set rows \<and> md_status d = MapDraft \<and> publishes f \<and> (\<forall>x. md_rules (f x) = md_rules x) \<and>
     rows' = publish_rows (md_org_id d) f d rows)"

text \<open>A service that owns such a table: every operation drafts, publishes, or leaves it alone.\<close>

locale mapping_service =
  fixes rows :: "'s \<Rightarrow> ('r, 'm) mapping_def_scheme list" and step :: "'s \<Rightarrow> 's \<Rightarrow> bool"
  assumes steps: "step st st' \<Longrightarrow> drafted (rows st) (rows st') \<or> published (rows st) (rows st') \<or> rows st' = rows st"
begin

lemma step_ok: "step st st' \<Longrightarrow> mappings_ok (rows st) \<Longrightarrow> mappings_ok (rows st')"
  using steps [of st st'] draft_keeps_mappings publish_keeps_mappings [OF _ _ refl]
  by (auto simp: drafted_def published_def)

lemma step_history:
  assumes "step st st'" "mappings_ok (rows st)" "d \<in> set (rows st)"
  shows "\<exists>d' \<in> set (rows st'). later_version d d'"
proof -
  consider "drafted (rows st) (rows st')" | "published (rows st) (rows st')" | "rows st' = rows st" using steps [OF assms(1)] by blast
  then show ?thesis
  proof cases
    case 2
    then obtain e f where e: "e \<in> set (rows st)" "md_status e = MapDraft" "publishes f" "\<forall>x. md_rules (f x) = md_rules x"
        "rows st' = publish_rows (md_org_id e) f e (rows st)" by (auto simp: published_def)
    let ?g = "\<lambda>x. if x = e then f (if md_status e = MapPublished then supersede e else e)
      else if same_pair_of e x \<and> md_status x = MapPublished then supersede x else x"
    have "?g d \<in> set (rows st')" using e(5) publish_rows_map [OF assms(2) e(1) refl, of f] assms(3) by auto
    moreover have "later_version d (?g d)" using e(2-4) by (auto simp: later_version_def publishes_def supersede_def)
    ultimately show ?thesis by blast
  qed (use assms(3) in \<open>auto simp: drafted_def intro: bexI [of _ d]\<close>)
qed

lemma runs_keep:
  "step\<^sup>*\<^sup>* st st' \<Longrightarrow> mappings_ok (rows st) \<Longrightarrow>
   mappings_ok (rows st') \<and> (\<forall>d \<in> set (rows st). \<exists>d' \<in> set (rows st'). later_version d d')"
proof (induction rule: rtranclp_induct)
  case (step y z)
  then have ok: "mappings_ok (rows y)" by blast
  have "\<exists>d' \<in> set (rows z). later_version d d'" if d: "d \<in> set (rows st)" for d
  proof -
    obtain e where e: "e \<in> set (rows y)" "later_version d e" using step.IH step.prems d by blast
    obtain d' where "d' \<in> set (rows z)" "later_version e d'" using step_history [OF step.hyps(2) ok e(1)] by blast
    then show ?thesis using later_version_trans [OF e(2)] by blast
  qed
  then show ?case using step_ok [OF step.hyps(2) ok] by blast
qed (use later_version_refl in blast)

end

end
