(* ===== verification/StateMapping.thy ===== *)
theory StateMapping
  imports MappingTable
begin

text \<open>
  The lifecycle translation of \<^verbatim>\<open>src/modules/integrations/state-mapping.service.ts\<close>: drafts and
  publication of state mappings, and the translation of a state change of one record into a state of
  its counterpart, which either prepares a write or is held for review.

  \<open>ids n\<close> is the \<open>n\<close>-th id an operation draws. The arrow of a message is written in UTF-8.
\<close>

record state_rule =
  sr_direction :: mapping_direction
  sr_from :: string
  sr_to :: string
  sr_required :: "string list"
  sr_allowed :: "string list"

record sync_transaction =
  st_id :: uuid
  st_org_id :: string
  st_mapping :: "(uuid \<times> int) option"
  st_source_node :: uuid
  st_target_node :: uuid
  st_direction :: "mapping_direction option"
  st_source_state :: string
  st_target_before :: "string option"
  st_mapped :: "string option"
  st_required :: "string list"
  st_provided :: jsobj
  st_ready :: bool
  st_reason :: string
  st_actor_id :: string
  st_created_at :: time

record smap_store = conn_store +
  state_mappings :: "state_rule mapping_def list"
  sync_transactions :: "sync_transaction list"

subsection \<open>Rules\<close>

definition max_state_rules :: nat where
  "max_state_rules = 500"

definition state_paths :: "jsval \<Rightarrow> string \<Rightarrow> map_error + string list" where
  "state_paths v field = and_then (map_array map_field_path v field) (\<lambda>ps. Inr (dedupe_by (\<lambda>p. p) [] ps))"

definition state_names :: "jsval \<Rightarrow> string \<Rightarrow> map_error + string list" where
  "state_names v field = and_then (map_array (\<lambda>x f. map_text x f 160) v field) (\<lambda>ss. Inr (dedupe_by lower [] ss))"

fun state_rules_from :: "nat \<Rightarrow> (mapping_direction \<times> string) list \<Rightarrow> jsval list \<Rightarrow> map_error + state_rule list" where
  "state_rules_from i seen [] = Inr []"
| "state_rules_from i seen (v # vs) =
     (let f = indexed ''rules'' i
      in if \<not> is_object v then Inl (InvalidMapping (f @ '' must be an object''))
         else and_then (map_direction (jprop v ''direction'') (f @ ''.direction'')) (\<lambda>d.
              and_then (map_text (jprop v ''from_state'') (f @ ''.from_state'') 160) (\<lambda>from_s.
              and_then (map_text (jprop v ''to_state'') (f @ ''.to_state'') 160) (\<lambda>to_s.
                if (d, lower from_s) \<in> set seen
                then Inl (InvalidMapping (''rules contains duplicate '' @ direction_text d @ '' state '' @ quoted from_s))
                else and_then (state_paths (jprop v ''required_target_fields'') (f @ ''.required_target_fields'')) (\<lambda>req.
                     and_then (state_names (jprop v ''allowed_target_from_states'') (f @ ''.allowed_target_from_states'')) (\<lambda>allowed.
                     and_then (state_rules_from (Suc i) ((d, lower from_s) # seen) vs) (\<lambda>rs.
                       Inr (\<lparr>sr_direction = d, sr_from = from_s, sr_to = to_s, sr_required = req, sr_allowed = allowed\<rparr> # rs))))))))"

definition state_rules :: "jsval \<Rightarrow> map_error + state_rule list" where
  "state_rules v = (case v of
     JArr vs \<Rightarrow>
       if vs = [] then Inl (InvalidMapping ''rules must contain at least one state mapping'')
       else if length vs > max_state_rules
         then Inl (InvalidMapping (''rules cannot exceed '' @ show_nat max_state_rules @ '' entries''))
       else state_rules_from 0 [] vs
   | _ \<Rightarrow> Inl (InvalidMapping ''rules must contain at least one state mapping''))"

subsection \<open>Drafts and publication\<close>

definition create_state_draft ::
  "(string \<Rightarrow> string) \<Rightarrow> 'z smap_store_scheme handler \<Rightarrow> (nat \<Rightarrow> uuid) \<Rightarrow> time \<Rightarrow> string \<Rightarrow> jsval \<Rightarrow> string
   \<Rightarrow> 'z smap_store_scheme \<Rightarrow> map_error + state_rule mapping_def \<times> 'z smap_store_scheme" where
  "create_state_draft sha pub ids now org dto actor st =
     and_then (draft_head dto) (\<lambda>h.
     and_then (state_rules (jprop dto ''rules'')) (\<lambda>rules.
       let d = draft_row (ids 0) now org actor h rules (next_version org (fst (snd h)) (snd (snd h)) (state_mappings st))
       in if ids 0 \<in> md_id ` set (state_mappings st)
          then Inl (MapDb (UniqueViolation ''integration_state_mapping_definitions_pkey''))
          else and_then (mapping_tx sha pub (ids 1) now (mapping_event ''StateMappingDraftCreated'' actor d)
                 (st\<lparr>state_mappings := state_mappings st @ [d]\<rparr>)) (\<lambda>st1. Inr (d, st1))))"

definition get_state_mapping :: "string \<Rightarrow> uuid \<Rightarrow> 'z smap_store_scheme \<Rightarrow> map_error + state_rule mapping_def" where
  "get_state_mapping org i st =
     and_then (require_map_uuid i ''mapping id'') (\<lambda>_.
       case find_definition org i (state_mappings st) of
         None \<Rightarrow> Inl (MappingNotFound ''State mapping not found'') | Some d \<Rightarrow> Inr d)"

definition list_state_mappings :: "string \<Rightarrow> 'z smap_store_scheme \<Rightarrow> state_rule mapping_def list" where
  "list_state_mappings org st = list_definitions org (state_mappings st)"

definition publish_state_mapping ::
  "(string \<Rightarrow> string) \<Rightarrow> 'z smap_store_scheme handler \<Rightarrow> uuid \<Rightarrow> time \<Rightarrow> string \<Rightarrow> uuid \<Rightarrow> string
   \<Rightarrow> 'z smap_store_scheme \<Rightarrow> map_error + state_rule mapping_def \<times> 'z smap_store_scheme" where
  "publish_state_mapping sha pub fresh now org i actor st =
     and_then (get_state_mapping org i st) (\<lambda>d.
       case md_status d of
         MapSuperseded \<Rightarrow> Inl (MappingConflict ''A superseded state mapping cannot be published again'')
       | MapPublished \<Rightarrow> Inr (d, st)
       | MapDraft \<Rightarrow>
           and_then (mapping_tx sha pub fresh now (mapping_event ''StateMappingPublished'' actor (published_row actor now d))
               (st\<lparr>state_mappings := publish_rows org (published_row actor now) d (state_mappings st)\<rparr>)) (\<lambda>st1.
             Inr (published_row actor now d, st1)))"

subsection \<open>Evaluation\<close>

datatype state_reason = Mapped | MappingMissing | UnmappedState | MissingRequiredFields | InvalidTargetTransition

fun state_reason_text :: "state_reason \<Rightarrow> string" where
  "state_reason_text Mapped = ''mapped''"
| "state_reason_text MappingMissing = ''mapping_not_found''"
| "state_reason_text UnmappedState = ''unmapped_state''"
| "state_reason_text MissingRequiredFields = ''missing_required_fields''"
| "state_reason_text InvalidTargetTransition = ''invalid_target_transition''"

record state_evaluation =
  se_mapping :: "state_rule mapping_def option"
  se_direction :: "mapping_direction option"
  se_rule :: "state_rule option"
  se_ready :: bool
  se_reason :: state_reason
  se_message :: string
  se_mapped :: "string option"
  se_missing :: "string list"

fun own_path :: "jsval \<Rightarrow> string list \<Rightarrow> jsval option" where
  "own_path v [] = Some v"
| "own_path v (p # ps) = (case v of JObj o' \<Rightarrow> (case map_of o' p of None \<Rightarrow> None | Some x \<Rightarrow> own_path x ps) | _ \<Rightarrow> None)"

definition has_value :: "jsobj \<Rightarrow> string \<Rightarrow> bool" where
  "has_value o' path = (case own_path (JObj o') (split_on (CHR ''.'') path) of
     None \<Rightarrow> False
   | Some v \<Rightarrow> v \<noteq> JUndef \<and> v \<noteq> JNull \<and> (case v of JStr s \<Rightarrow> trim s \<noteq> [] | _ \<Rightarrow> True))"

definition endpoint_of :: "sync_identity \<Rightarrow> endpoint" where
  "endpoint_of i = \<lparr>ep_system = sy_system i, ep_entity_type = sy_entity_type i\<rparr>"

definition direction_for :: "endpoint \<Rightarrow> endpoint \<Rightarrow> state_rule mapping_def \<Rightarrow> map_error + mapping_direction" where
  "direction_for a b d =
     (if direct_between a b d then Inr SourceToTarget
      else if direct_between b a d then Inr TargetToSource
      else Inl (MappingConflict ''Published mapping does not match the correlated record direction''))"

definition arrow :: string where
  "arrow = [CHR '' '', CHR 0xE2, CHR 0x86, CHR 0x92, CHR '' '']"

definition endpoint_text :: "endpoint \<Rightarrow> string" where
  "endpoint_text e = ep_system e @ ''/'' @ ep_entity_type e"

definition evaluate_rule ::
  "state_rule mapping_def \<Rightarrow> mapping_direction \<Rightarrow> state_rule \<Rightarrow> string \<Rightarrow> string option \<Rightarrow> jsobj \<Rightarrow> state_evaluation" where
  "evaluate_rule m d r state current target_fields =
     (let missing = filter (\<lambda>p. \<not> has_value target_fields p) (sr_required r);
          held = (\<lambda>reason message missing. \<lparr>se_mapping = Some m, se_direction = Some d, se_rule = Some r, se_ready = False,
                    se_reason = reason, se_message = message, se_mapped = Some (sr_to r), se_missing = missing\<rparr>)
      in if missing \<noteq> []
         then held MissingRequiredFields (''Required target fields are missing: '' @ join '', '' missing) missing
         else if sr_allowed r \<noteq> [] \<and> (case current of None \<Rightarrow> True | Some c \<Rightarrow> \<not> (\<exists>s \<in> set (sr_allowed r). same_text s c))
         then held InvalidTargetTransition
           (''Target is in '' @ (case current of None \<Rightarrow> ''an unknown state'' | Some c \<Rightarrow> quoted c) @ ''; '' @ quoted (sr_to r) @
            '' is allowed only from '' @ join '', '' (sr_allowed r)) []
         else \<lparr>se_mapping = Some m, se_direction = Some d, se_rule = Some r, se_ready = True, se_reason = Mapped,
                se_message = ''Map '' @ quoted state @ '' to '' @ quoted (sr_to r) @ '' using '' @ md_name m @ '' v'' @ show_int (md_version m),
                se_mapped = Some (sr_to r), se_missing = []\<rparr>)"

definition rule_for :: "state_rule mapping_def \<Rightarrow> mapping_direction \<Rightarrow> string \<Rightarrow> state_rule option" where
  "rule_for m d state = find (\<lambda>r. sr_direction r = d \<and> same_text (sr_from r) state) (md_rules m)"

definition evaluate_state ::
  "string \<Rightarrow> endpoint \<Rightarrow> endpoint \<Rightarrow> string \<Rightarrow> string option \<Rightarrow> jsobj \<Rightarrow> 'z smap_store_scheme \<Rightarrow> map_error + state_evaluation" where
  "evaluate_state org source target state current target_fields st =
     (case find_published org source target (state_mappings st) of
        None \<Rightarrow> Inr \<lparr>se_mapping = None, se_direction = None, se_rule = None, se_ready = False, se_reason = MappingMissing,
          se_message = ''No published state mapping exists for '' @ endpoint_text source @ arrow @ endpoint_text target,
          se_mapped = None, se_missing = []\<rparr>
      | Some m \<Rightarrow> and_then (direction_for source target m) (\<lambda>d.
          case rule_for m d state of
            None \<Rightarrow> Inr \<lparr>se_mapping = Some m, se_direction = Some d, se_rule = None, se_ready = False, se_reason = UnmappedState,
              se_message = ''State '' @ quoted state @ '' has no '' @ direction_text d @ '' rule in mapping '' @ md_name m @ '' v'' @ show_int (md_version m),
              se_mapped = None, se_missing = []\<rparr>
          | Some r \<Rightarrow> Inr (evaluate_rule m d r state current target_fields)))"

subsection \<open>Translation\<close>

definition map_identity :: "jsval \<Rightarrow> string \<Rightarrow> map_error + sync_identity" where
  "map_identity v field =
     and_then (map_endpoint v field) (\<lambda>e.
     and_then (map_text (jprop v ''immutable_id'') (field @ ''.immutable_id'') 512) (\<lambda>i.
       Inr \<lparr>sy_system = ep_system e, sy_entity_type = ep_entity_type e, sy_immutable_id = i\<rparr>))"

definition map_node :: "string \<Rightarrow> sync_identity \<Rightarrow> 'z corr_store_scheme \<Rightarrow> map_error + corr_node" where
  "map_node org i st =
     (case find (is_identity org (sy_system i) (sy_entity_type i) (sy_immutable_id i)) (corr_nodes st) of
        None \<Rightarrow> Inl (IdentityMissing (''Correlation identity not found: '' @ sy_system i @ ''/'' @ sy_entity_type i @ ''/'' @ sy_immutable_id i))
      | Some n \<Rightarrow> Inr n)"

definition counterpart_link :: "string \<Rightarrow> uuid \<Rightarrow> uuid \<Rightarrow> 'z corr_store_scheme \<Rightarrow> map_error + unit" where
  "counterpart_link org a b st =
     (case find_existing_link org a b ''counterpart'' (corr_links st) of
        None \<Rightarrow> Inl (MappingConflict ''Source and target are not linked as immutable counterparts'')
      | Some _ \<Rightarrow> Inr ())"

record state_decision =
  sd_transaction :: "uuid option"
  sd_dry_run :: bool
  sd_evaluation :: state_evaluation
  sd_source_node :: uuid
  sd_target_node :: uuid
  sd_source_state :: string
  sd_current_target :: "string option"
  sd_evaluated_at :: time

definition decision_action :: "state_evaluation \<Rightarrow> string" where
  "decision_action e = (if se_ready e then ''enqueue_connector_write'' else ''hold_for_review'')"

definition transaction_row ::
  "uuid \<Rightarrow> time \<Rightarrow> string \<Rightarrow> uuid \<Rightarrow> uuid \<Rightarrow> string \<Rightarrow> string option \<Rightarrow> jsobj \<Rightarrow> string \<Rightarrow> state_evaluation \<Rightarrow> sync_transaction" where
  "transaction_row i now org source target state current target_fields actor e =
     \<lparr>st_id = i, st_org_id = org, st_mapping = map_option (\<lambda>m. (md_id m, md_version m)) (se_mapping e), st_source_node = source,
      st_target_node = target, st_direction = se_direction e, st_source_state = state, st_target_before = current, st_mapped = se_mapped e,
      st_required = (case se_rule e of None \<Rightarrow> [] | Some r \<Rightarrow> sr_required r), st_provided = target_fields, st_ready = se_ready e,
      st_reason = state_reason_text (se_reason e), st_actor_id = actor, st_created_at = now\<rparr>"

definition strings_value :: "string list \<Rightarrow> jsval" where
  "strings_value xs = JArr (map JStr xs)"

definition translation_event ::
  "uuid \<Rightarrow> time \<Rightarrow> string \<Rightarrow> sync_identity \<Rightarrow> sync_identity \<Rightarrow> string \<Rightarrow> string option \<Rightarrow> string \<Rightarrow> state_evaluation \<Rightarrow> outbox_input" where
  "translation_event i now org source target state current actor e =
     \<lparr>oi_event_type = (if se_ready e then ''IntegrationStateChangePrepared'' else ''IntegrationStateChangeHeld''),
      oi_work_item_id = i, oi_org_id = org, oi_actor_type = ''integration'', oi_actor_id = actor,
      oi_payload = JObj [(''org_id'', JStr org), (''transaction_id'', JStr i),
        (''mapping_id'', jopt (map_option md_id (se_mapping e))),
        (''mapping_version'', (case se_mapping e of None \<Rightarrow> JNull | Some m \<Rightarrow> JInt (md_version m))),
        (''direction'', jopt (map_option direction_text (se_direction e))),
        (''source_identity'', identity_value source), (''target_identity'', identity_value target),
        (''source_state'', JStr state), (''current_target_state'', jopt current), (''mapped_target_state'', jopt (se_mapped e)),
        (''decision'', JStr (decision_action e)), (''reason'', JStr (state_reason_text (se_reason e))),
        (''missing_target_fields'', strings_value (se_missing e))],
      oi_schema_version = None, oi_event_id = None, oi_timestamp = Some now\<rparr>"

definition optional_state :: "jsval \<Rightarrow> map_error + string option" where
  "optional_state v = (if v = JUndef \<or> v = JNull then Inr None
     else and_then (map_text v ''current_target_state'' 160) (\<lambda>s. Inr (Some s)))"

definition translate_state ::
  "(string \<Rightarrow> string) \<Rightarrow> 'z smap_store_scheme handler \<Rightarrow> (nat \<Rightarrow> uuid) \<Rightarrow> time \<Rightarrow> string \<Rightarrow> jsval \<Rightarrow> string
   \<Rightarrow> 'z smap_store_scheme \<Rightarrow> map_error + state_decision \<times> 'z smap_store_scheme" where
  "translate_state sha pub ids now org dto actor st =
     and_then (map_identity (jprop dto ''source_identity'') ''source_identity'') (\<lambda>source.
     and_then (map_identity (jprop dto ''target_identity'') ''target_identity'') (\<lambda>target.
     and_then (map_text (jprop dto ''source_state'') ''source_state'' 160) (\<lambda>state.
     and_then (optional_state (jprop dto ''current_target_state'')) (\<lambda>current.
     and_then (map_fields (jprop dto ''target_fields'') ''target_fields'') (\<lambda>target_fields.
     and_then (map_node org source st) (\<lambda>n1.
     and_then (map_node org target st) (\<lambda>n2.
     and_then (counterpart_link org (cn_id n1) (cn_id n2) st) (\<lambda>_.
     and_then (evaluate_state org (endpoint_of source) (endpoint_of target) state current target_fields st) (\<lambda>e.
       let dry = (jprop dto ''dry_run'' \<noteq> JBool False);
           decision = \<lparr>sd_transaction = (if dry then None else Some (ids 0)), sd_dry_run = dry, sd_evaluation = e,
             sd_source_node = cn_id n1, sd_target_node = cn_id n2, sd_source_state = state, sd_current_target = current, sd_evaluated_at = now\<rparr>
       in if dry then Inr (decision, st)
          else and_then (mapping_tx sha pub (ids 1) now (translation_event (ids 0) now org source target state current actor e)
                 (st\<lparr>sync_transactions := sync_transactions st @
                    [transaction_row (ids 0) now org (cn_id n1) (cn_id n2) state current target_fields actor e]\<rparr>)) (\<lambda>st1.
               Inr (decision, st1)))))))))))"

definition list_transactions :: "string \<Rightarrow> int \<Rightarrow> 'z smap_store_scheme \<Rightarrow> map_error + sync_transaction list" where
  "list_transactions org most st =
     (if most < 1 \<or> most > 500 then Inl (InvalidMapping ''limit must be an integer from 1 to 500'')
      else Inr (take (nat most) (rev (sort_key st_created_at (sort_key st_id (filter (\<lambda>t. st_org_id t = org) (sync_transactions st)))))))"

subsection \<open>Operations\<close>

inductive state_mapping_step :: "(string \<Rightarrow> string) \<Rightarrow> 'z smap_store_scheme \<Rightarrow> 'z smap_store_scheme \<Rightarrow> bool" for sha where
  create: "create_state_draft sha (store_pub sha) ids now org dto actor st = Inr (d, st') \<Longrightarrow> state_mapping_step sha st st'"
| publish: "publish_state_mapping sha (store_pub sha) fresh now org i actor st = Inr (d, st') \<Longrightarrow> state_mapping_step sha st st'"
| translate: "translate_state sha (store_pub sha) ids now org dto actor st = Inr (x, st') \<Longrightarrow> state_mapping_step sha st st'"

lemma smap_more:
  "store.more st' = store.more st \<Longrightarrow> state_mappings st' = state_mappings st \<and> sync_transactions st' = sync_transactions st"
  by (cases st; cases st') simp

lemma mapping_tx_tables:
  "mapping_tx sha (store_pub sha) fresh now i (st :: 'z smap_store_scheme) = Inr st' \<Longrightarrow>
   state_mappings st' = state_mappings st \<and> sync_transactions st' = sync_transactions st"
  by (drule mapping_tx_more) (rule smap_more)

lemma create_state_rows:
  assumes "create_state_draft sha (store_pub sha) ids now org dto actor st = Inr (d, st')"
  shows "state_mappings st' = state_mappings st @ [d] \<and> md_id d \<notin> md_id ` set (state_mappings st) \<and> md_status d = MapDraft \<and>
    md_version d = next_version (md_org_id d) (md_source d) (md_target d) (state_mappings st)"
  using assms by (auto simp: create_state_draft_def and_then_Inr Let_def dest!: mapping_tx_tables split: if_splits)

lemma and_then_pair: "and_then r (\<lambda>x. Inr (c, x)) = Inr (p, y) \<Longrightarrow> p = c \<and> r = Inr y"
  by (auto simp: and_then_Inr)

lemma publish_state_rows:
  assumes "publish_state_mapping sha (store_pub sha) fresh now org i actor st = Inr (p, st')"
  obtains (again) "p \<in> set (state_mappings st)" "md_id p = i" "md_org_id p = org" "md_status p = MapPublished" "st' = st"
  | (first) d where "d \<in> set (state_mappings st)" "md_id d = i" "md_org_id d = org" "md_status d = MapDraft"
      "p = published_row actor now d" "state_mappings st' = publish_rows org (published_row actor now) d (state_mappings st)"
proof -
  obtain d where d: "find_definition org i (state_mappings st) = Some d" "get_state_mapping org i st = Inr d"
    using assms by (auto simp: publish_state_mapping_def get_state_mapping_def and_then_Inr split: option.splits)
  have mem: "d \<in> set (state_mappings st)" "md_id d = i" "md_org_id d = org"
    using find_SomeD [OF d(1) [unfolded find_definition_def]] by (auto simp: is_definition_def)
  show ?thesis
  proof (cases "md_status d")
    case MapDraft
    let ?st1 = "st\<lparr>state_mappings := publish_rows org (published_row actor now) d (state_mappings st)\<rparr>"
    have "and_then (mapping_tx sha (store_pub sha) fresh now (mapping_event ''StateMappingPublished'' actor (published_row actor now d)) ?st1)
        (\<lambda>st1. Inr (published_row actor now d, st1)) = Inr (p, st')"
      using assms MapDraft d(2) by (simp add: publish_state_mapping_def)
    from and_then_pair [OF this] have p: "p = published_row actor now d"
      and tx: "mapping_tx sha (store_pub sha) fresh now (mapping_event ''StateMappingPublished'' actor (published_row actor now d)) ?st1 = Inr st'"
      by (rule conjunct1, rule conjunct2)
    have "state_mappings st' = state_mappings ?st1" using mapping_tx_tables [OF tx] by (rule conjunct1)
    then show ?thesis using first [OF mem(1-3) MapDraft p] by simp
  next
    case MapPublished
    then have "d = p \<and> st = st'" using assms d(2) by (simp add: publish_state_mapping_def)
    then show ?thesis using again mem MapPublished by metis
  next
    case MapSuperseded
    then show ?thesis using assms d(2) by (simp add: publish_state_mapping_def)
  qed
qed

lemma translate_state_rows:
  assumes "translate_state sha (store_pub sha) ids now org dto actor st = Inr (x, st')"
  shows "state_mappings st' = state_mappings st"
  using assms by (auto simp: translate_state_def and_then_Inr Let_def dest!: mapping_tx_tables split: if_splits)

interpretation states: mapping_service state_mappings "state_mapping_step sha" for sha
proof
  fix st st' :: "'a smap_store_scheme"
  assume "state_mapping_step sha st st'"
  then show "drafted (state_mappings st) (state_mappings st') \<or> published (state_mappings st) (state_mappings st') \<or>
      state_mappings st' = state_mappings st"
  proof cases
    case (create ids now org dto actor d)
    then show ?thesis using create_state_rows unfolding drafted_def by blast
  next
    case (publish fresh now org i actor d)
    then show ?thesis
    proof (cases rule: publish_state_rows)
      case (first e)
      then have "published (state_mappings st) (state_mappings st')"
        unfolding published_def by (intro exI [of _ e] exI [of _ "published_row actor now"]) (simp add: published_row_def)
      then show ?thesis by blast
    qed simp
  next
    case (translate ids now org dto actor x)
    then show ?thesis using translate_state_rows by blast
  qed
qed

text \<open>C21. Whatever drafts are created, published and used for translations, versions of a pair of endpoints are never
  given twice, at most one version of a pair is published at any time, and a definition once drafted keeps its
  version and its rules and only moves forward from draft to published to superseded.\<close>

theorem one_state_mapping_in_force:
  assumes "(state_mapping_step sha)\<^sup>*\<^sup>* st st'" "state_mappings st = []"
  shows "mappings_ok (state_mappings st') \<and>
    (\<forall>st2. (state_mapping_step sha)\<^sup>*\<^sup>* st' st2 \<longrightarrow>
       (\<forall>d \<in> set (state_mappings st'). \<exists>d' \<in> set (state_mappings st2). later_version d d'))"
proof -
  have "mappings_ok (state_mappings st)" using assms(2) by (simp add: mappings_ok_def)
  then have ok: "mappings_ok (state_mappings st')" using states.runs_keep [OF assms(1)] by blast
  then show ?thesis using states.runs_keep by blast
qed

subsection \<open>What a translation decides\<close>

text \<open>What a definition prescribes for a change of state in one direction.\<close>

definition prescribes :: "state_rule mapping_def \<Rightarrow> mapping_direction \<Rightarrow> string \<Rightarrow> string option \<Rightarrow> jsobj \<Rightarrow> string \<Rightarrow> bool" where
  "prescribes m d state current target_fields to_s \<longleftrightarrow> (\<exists>r. rule_for m d state = Some r \<and> sr_to r = to_s \<and>
     (\<forall>p \<in> set (sr_required r). has_value target_fields p) \<and>
     (sr_allowed r = [] \<or> (\<exists>c s. current = Some c \<and> s \<in> set (sr_allowed r) \<and> same_text s c)))"

definition one_orientation :: "string \<Rightarrow> endpoint \<Rightarrow> endpoint \<Rightarrow> ('r, 'm) mapping_def_scheme list \<Rightarrow> bool" where
  "one_orientation org a b rows \<longleftrightarrow> (\<forall>d \<in> set rows. \<not> (md_status d = MapPublished \<and> of_pair org b a d))"

lemma status_supersede: "md_status (supersede d) = MapSuperseded"
  by (simp add: supersede_def)

lemma find_published_mem:
  assumes "find_published org a b rows = Some m"
  shows "m \<in> set rows" "published_between org a b m" "\<And>d. d \<in> set rows \<Longrightarrow> published_between org a b d \<Longrightarrow> md_version d \<le> md_version m"
  using max_by_Some [OF assms [unfolded find_published_def]] by auto

lemma find_published_exists: "m \<in> set rows \<Longrightarrow> published_between org a b m \<Longrightarrow> \<exists>f. find_published org a b rows = Some f"
  by (cases "find_published org a b rows") (auto simp: find_published_def filter_empty_conv)

lemma published_between_commute: "published_between org b a = published_between org a b"
  by (auto simp: published_between_def fun_eq_iff)

lemma find_published_commute: "find_published org b a rows = find_published org a b rows"
  by (simp add: find_published_def published_between_commute)

lemma find_published_unique:
  assumes "mappings_ok rows" "m \<in> set rows" "md_status m = MapPublished" "of_pair org a b m" "one_orientation org a b rows"
  shows "find_published org a b rows = Some m" "find_published org b a rows = Some m"
proof -
  have only: "d = m" if "d \<in> set rows" "published_between org a b d" for d
    using that assms mappings_okD(2) [OF assms(1) assms(2), of d]
    by (auto simp: published_between_def one_orientation_def same_pair_of_def of_pair_def)
  obtain d where d: "find_published org a b rows = Some d"
    using find_published_exists [OF assms(2), of org a b] assms(3,4) by (auto simp: published_between_def)
  then show "find_published org a b rows = Some m" using only find_published_mem [OF d] by blast
  then show "find_published org b a rows = Some m" by (simp add: find_published_commute)
qed

lemma evaluate_rule_ready:
  "se_ready (evaluate_rule m d r state current target_fields) \<longleftrightarrow>
     (\<forall>p \<in> set (sr_required r). has_value target_fields p) \<and>
     (sr_allowed r = [] \<or> (\<exists>c s. current = Some c \<and> s \<in> set (sr_allowed r) \<and> same_text s c))"
  "se_mapped (evaluate_rule m d r state current target_fields) = Some (sr_to r)"
  by (cases "filter (\<lambda>p. \<not> has_value target_fields p) (sr_required r) = []";
      auto simp: evaluate_rule_def Let_def filter_empty_conv split: option.splits)+

lemma evaluate_in_force:
  assumes "find_published org a b (state_mappings st) = Some m" "direction_for a b m = Inr d"
    "evaluate_state org a b state current target_fields st = Inr e"
  shows "se_ready e \<longleftrightarrow> (\<exists>to_s. prescribes m d state current target_fields to_s)"
    "prescribes m d state current target_fields to_s \<Longrightarrow> se_mapped e = Some to_s"
  using assms by (auto simp: evaluate_state_def prescribes_def evaluate_rule_ready split: option.splits)

lemma evaluate_state_total:
  assumes "find_published org a b (state_mappings st) = Some m" "direction_for a b m = Inr d"
  obtains e where "evaluate_state org a b state current target_fields st = Inr e"
  using assms by (cases "rule_for m d state") (auto simp: evaluate_state_def)

lemma translate_state_Inr:
  assumes "translate_state sha (store_pub sha) ids now org dto actor st = Inr (x, st')"
  obtains source target state current target_fields n1 n2 where
    "map_identity (jprop dto ''source_identity'') ''source_identity'' = Inr source"
    "map_identity (jprop dto ''target_identity'') ''target_identity'' = Inr target"
    "map_text (jprop dto ''source_state'') ''source_state'' 160 = Inr state"
    "optional_state (jprop dto ''current_target_state'') = Inr current"
    "map_fields (jprop dto ''target_fields'') ''target_fields'' = Inr target_fields"
    "evaluate_state org (endpoint_of source) (endpoint_of target) state current target_fields st = Inr (sd_evaluation x)"
    "if jprop dto ''dry_run'' \<noteq> JBool False then st' = st
     else sync_transactions st' = sync_transactions st @ [transaction_row (ids 0) now org n1 n2 state current target_fields actor (sd_evaluation x)]"
  using assms
  by (fastforce simp: translate_state_def and_then_Inr Let_def dest!: mapping_tx_tables split: if_splits)


text \<open>C20. The translation of a state change between two endpoints that have a published mapping follows that mapping: it
  is ready exactly when the first rule of its direction for the state has all its required fields filled and allows
  the current state of the target, the state it prepares is then the rule's, and unless it is a dry run it leaves
  exactly one transaction with this verdict.\<close>

theorem translation_follows_mapping:
  assumes "translate_state sha (store_pub sha) ids now org dto actor st = Inr (x, st')"
    and "map_identity (jprop dto ''source_identity'') ''source_identity'' = Inr source"
      "map_identity (jprop dto ''target_identity'') ''target_identity'' = Inr target"
    and "mappings_ok (state_mappings st)" "m \<in> set (state_mappings st)" "md_status m = MapPublished" "md_source m \<noteq> md_target m"
    and "of_pair org (endpoint_of source) (endpoint_of target) m \<and> dir = SourceToTarget \<and>
           one_orientation org (endpoint_of source) (endpoint_of target) (state_mappings st) \<or>
         of_pair org (endpoint_of target) (endpoint_of source) m \<and> dir = TargetToSource \<and>
           one_orientation org (endpoint_of target) (endpoint_of source) (state_mappings st)"
  shows "\<exists>state current target_fields.
    map_text (jprop dto ''source_state'') ''source_state'' 160 = Inr state \<and>
    optional_state (jprop dto ''current_target_state'') = Inr current \<and>
    map_fields (jprop dto ''target_fields'') ''target_fields'' = Inr target_fields \<and>
    (se_ready (sd_evaluation x) \<longleftrightarrow> (\<exists>to_s. prescribes m dir state current target_fields to_s)) \<and>
    (\<forall>to_s. prescribes m dir state current target_fields to_s \<longrightarrow> se_mapped (sd_evaluation x) = Some to_s) \<and>
    (if jprop dto ''dry_run'' \<noteq> JBool False then st' = st
     else \<exists>t. sync_transactions st' = sync_transactions st @ [t] \<and> st_ready t = se_ready (sd_evaluation x) \<and>
       st_mapped t = se_mapped (sd_evaluation x))"
proof -
  let ?a = "endpoint_of source" and ?b = "endpoint_of target"
  obtain source' target' state current target_fields n1 n2 where
      ids: "map_identity (jprop dto ''source_identity'') ''source_identity'' = Inr source'"
        "map_identity (jprop dto ''target_identity'') ''target_identity'' = Inr target'"
    and input: "map_text (jprop dto ''source_state'') ''source_state'' 160 = Inr state"
        "optional_state (jprop dto ''current_target_state'') = Inr current"
        "map_fields (jprop dto ''target_fields'') ''target_fields'' = Inr target_fields"
    and eval: "evaluate_state org (endpoint_of source') (endpoint_of target') state current target_fields st = Inr (sd_evaluation x)"
    and rows: "if jprop dto ''dry_run'' \<noteq> JBool False then st' = st
      else sync_transactions st' = sync_transactions st @ [transaction_row (ids 0) now org n1 n2 state current target_fields actor (sd_evaluation x)]"
    by (rule translate_state_Inr [OF assms(1)])
  have same: "source' = source" "target' = target" using ids assms(2,3) by simp_all
  have found: "find_published org ?a ?b (state_mappings st) = Some m"
    using assms(8) find_published_unique [OF assms(4-6)] by blast
  consider "md_source m = ?a" "md_target m = ?b" "dir = SourceToTarget" | "md_source m = ?b" "md_target m = ?a" "dir = TargetToSource"
    using assms(8) unfolding of_pair_def by blast
  then have "direction_for ?a ?b m = Inr dir"
    using assms(7) by cases (simp_all add: direction_for_def direct_between_def)
  note verdict = evaluate_in_force [OF found this eval [unfolded same]]
  have last: "if jprop dto ''dry_run'' \<noteq> JBool False then st' = st
     else \<exists>t. sync_transactions st' = sync_transactions st @ [t] \<and> st_ready t = se_ready (sd_evaluation x) \<and>
       st_mapped t = se_mapped (sd_evaluation x)"
    using rows by (auto simp: transaction_row_def split: if_splits)
  show ?thesis
    by (intro exI [of _ state] exI [of _ current] exI [of _ target_fields] conjI allI impI input verdict last)
qed

text \<open>Publication supersedes only versions drafted in the same orientation. Publishing a mapping from the second to
  the first of two endpoints while a version with a higher number is published from the first to the second succeeds,
  leaves both published, and changes nothing: the translations of both directions still use the older publication.\<close>

lemma reverse_publication_without_effect:
  assumes "publish_state_mapping sha (store_pub sha) fresh now org i actor st = Inr (p, st')" "mappings_ok (state_mappings st)"
    and "d \<in> set (state_mappings st)" "is_definition org i d" "md_status d = MapDraft" "of_pair org b a d" "a \<noteq> b"
    and "m \<in> set (state_mappings st)" "md_status m = MapPublished" "of_pair org a b m" "md_version d < md_version m"
  shows "md_status p = MapPublished \<and> p \<in> set (state_mappings st') \<and> m \<in> set (state_mappings st') \<and>
    find_published org a b (state_mappings st') = Some m \<and> find_published org b a (state_mappings st') = Some m"
proof -
  have ids: "distinct (map md_id (state_mappings st))" using assms(2) by (simp add: mappings_ok_def)
  obtain e where e: "e \<in> set (state_mappings st)" "md_id e = i" "md_org_id e = org" "p = published_row actor now e"
      "state_mappings st' = publish_rows org (published_row actor now) e (state_mappings st)"
    using assms(1)
  proof (cases rule: publish_state_rows)
    case again
    then show ?thesis using assms(3-5) distinct_id_eq [OF ids, of p d] by (auto simp: is_definition_def)
  next
    case (first e)
    then show ?thesis using that by blast
  qed
  have "e = d" using distinct_id_eq [OF ids e(1) assms(3)] e(2) assms(4) by (simp add: is_definition_def)
  note rows = e(5) [unfolded \<open>e = d\<close> publish_rows_map [OF assms(2,3) e(3) [unfolded \<open>e = d\<close>]]]
  let ?g = "\<lambda>x. if x = d then published_row actor now (if md_status d = MapPublished then supersede d else d)
     else if same_pair_of d x \<and> md_status x = MapPublished then supersede x else x"
  have set: "set (state_mappings st') = ?g ` set (state_mappings st)" using rows by simp
  have m: "?g m = m" using assms(5-7,9,10) by (auto simp: same_pair_of_def of_pair_def)
  have p: "?g d = p" using e(4) assms(5) \<open>e = d\<close> by simp
  have only: "x = m \<or> x = p" if "x \<in> set (state_mappings st')" "published_between org a b x" for x
  proof -
    from that(1) [unfolded set] obtain y where y: "y \<in> set (state_mappings st)" "x = ?g y" by (rule imageE)
    show ?thesis
    proof (cases "y = d")
      case False
      then have "x = y" using y(2) that(2) by (auto simp: published_between_def supersede_def split: if_splits)
      then have "md_status y = MapPublished" "same_pair_of m y \<or> same_pair_of d y"
        using that(2) assms(6,10) by (auto simp: published_between_def same_pair_of_def of_pair_def)
      moreover have "y \<noteq> supersede y" using calculation(1) status_supersede [of y] by auto
      ultimately have "y = m" using mappings_okD(2) [OF assms(2,8) y(1)] assms(9) False y(2) \<open>x = y\<close>
        by (auto split: if_splits)
      then show ?thesis using \<open>x = y\<close> by simp
    qed (use y(2) p in simp)
  qed
  have "published_between org a b m" using assms(9,10) by (simp add: published_between_def)
  moreover have in_m: "m \<in> set (state_mappings st')" unfolding set by (rule image_eqI [where f = ?g, OF m [symmetric] assms(8)])
  ultimately obtain f where f: "find_published org a b (state_mappings st') = Some f" using find_published_exists by blast
  have "md_version m \<le> md_version f" using find_published_mem(3) [OF f in_m] assms(9,10) by (simp add: published_between_def)
  moreover have "md_version p = md_version d" using e(4) \<open>e = d\<close> by (simp add: published_row_def)
  ultimately have "f = m" using only [OF find_published_mem(1,2) [OF f]] assms(11) by auto
  then have "find_published org a b (state_mappings st') = Some m" using f by simp
  moreover have "p \<in> set (state_mappings st')" unfolding set by (rule image_eqI [where f = ?g, OF p [symmetric] assms(3)])
  moreover have "md_status p = MapPublished" unfolding e(4) by (simp add: published_row_def)
  ultimately show ?thesis using in_m find_published_commute [of org b a "state_mappings st'"] by simp
qed

subsection \<open>Concrete runs\<close>

definition sample_uuid :: uuid where
  "sample_uuid = ''11111111-1111-4111-8111-111111111111''"

definition sample_endpoint :: "string \<Rightarrow> endpoint" where
  "sample_endpoint s = \<lparr>ep_system = s, ep_entity_type = ''issue''\<rparr>"

definition sample_mapping :: "string \<Rightarrow> string \<Rightarrow> string \<Rightarrow> int \<Rightarrow> mapping_status \<Rightarrow> state_rule list \<Rightarrow> state_rule mapping_def" where
  "sample_mapping i a b v s rules = \<lparr>md_id = i, md_org_id = ''o1'', md_name = ''m'', md_source = sample_endpoint a, md_target = sample_endpoint b,
     md_version = v, md_status = s, md_rules = rules, md_created_by = ''u'', md_created_at = 0, md_published_by = None, md_published_at = None\<rparr>"

definition sample_rule :: state_rule where
  "sample_rule = \<lparr>sr_direction = SourceToTarget, sr_from = ''Done'', sr_to = ''Resolved'', sr_required = [''close.code''], sr_allowed = []\<rparr>"

definition sample_states :: "state_rule mapping_def list \<Rightarrow> smap_store" where
  "sample_states ms = \<lparr>work_items = [], domain_events = [], audit_events = [], integrity = [], integrity_seq = 1, outbox = [], emitted = [],
     corr_nodes = [sample_node ''a'' ''jira'', sample_node ''b'' ''snow''], corr_links = [sample_link ''1'' ''a'' ''b''], snapshots = [],
     connectors = [], state_mappings = ms, sync_transactions = []\<rparr>"

lemma sample_states_base [simp]: "chain_state sha (sample_states ms)" "\<not> used (sample_states ms) e" "state_mappings (sample_states ms) = ms"
  by (rule chain_state_no_links) (simp_all add: sample_states_def used_def has_event_def logged_def)

lemma states_base [simp]:
  "chain_state sha (st\<lparr>state_mappings := x\<rparr>) = chain_state sha st" "used (st\<lparr>state_mappings := x\<rparr>) = used st"
  by (rule chain_state_base used_base; simp)+

definition sample_change :: jsval where
  "sample_change = JObj [(''source_identity'', JObj [(''system'', JStr ''jira''), (''entity_type'', JStr ''issue''), (''immutable_id'', JStr ''7'')]),
     (''target_identity'', JObj [(''system'', JStr ''snow''), (''entity_type'', JStr ''issue''), (''immutable_id'', JStr ''7'')]),
     (''source_state'', JStr ''done''), (''target_fields'', JObj [(''close'', JObj [(''code'', JStr ''fixed'')])])]"

lemma translation_follows_mapping_witness:
  "\<exists>x st'. translate_state sample_sha (store_pub sample_sha) (\<lambda>n. ''t'') 0 ''o1'' sample_change ''u1''
       (sample_states [sample_mapping ''m1'' ''jira'' ''snow'' 1 MapPublished [sample_rule]]) = Inr (x, st') \<and>
     se_ready (sd_evaluation x) \<and> se_mapped (sd_evaluation x) = Some ''Resolved''"
proof -
  let ?m = "sample_mapping ''m1'' ''jira'' ''snow'' 1 MapPublished [sample_rule]"
  let ?st = "sample_states [?m]"
  let ?i = "\<lambda>s. \<lparr>sy_system = s, sy_entity_type = ''issue'', sy_immutable_id = ''7''\<rparr>"
  have ids: "map_identity (jprop sample_change ''source_identity'') ''source_identity'' = Inr (?i ''jira'')"
      "map_identity (jprop sample_change ''target_identity'') ''target_identity'' = Inr (?i ''snow'')"
      "map_text (jprop sample_change ''source_state'') ''source_state'' 160 = Inr ''done''"
      "optional_state (jprop sample_change ''current_target_state'') = Inr None"
      "map_fields (jprop sample_change ''target_fields'') ''target_fields'' = Inr [(''close'', JObj [(''code'', JStr ''fixed'')])]"
    by code_simp+
  have nodes: "map_node ''o1'' (?i ''jira'') ?st = Inr (sample_node ''a'' ''jira'')" "map_node ''o1'' (?i ''snow'') ?st = Inr (sample_node ''b'' ''snow'')"
      "counterpart_link ''o1'' ''a'' ''b'' ?st = Inr ()" "cn_id (sample_node i s) = i" for i s
    by (simp_all add: map_node_def sample_states_def sample_node_def is_identity_def counterpart_link_def find_existing_link_def
        link_between_def sample_link_def)
  have m: "of_pair ''o1'' (endpoint_of (?i ''jira'')) (endpoint_of (?i ''snow'')) ?m" "mappings_ok [?m]"
      "one_orientation ''o1'' (endpoint_of (?i ''jira'')) (endpoint_of (?i ''snow'')) [?m]"
      "md_status ?m = MapPublished" "md_source ?m \<noteq> md_target ?m"
    by (simp_all add: of_pair_def sample_mapping_def sample_endpoint_def endpoint_of_def mappings_ok_def one_orientation_def)
  have found: "find_published ''o1'' (endpoint_of (?i ''jira'')) (endpoint_of (?i ''snow'')) (state_mappings ?st) = Some ?m"
    using find_published_unique(1) [OF m(2) _ m(4) m(1,3)] by simp
  have dir: "direction_for (endpoint_of (?i ''jira'')) (endpoint_of (?i ''snow'')) ?m = Inr SourceToTarget"
    using m(1) by (simp add: direction_for_def direct_between_def of_pair_def)
  obtain e where e: "evaluate_state ''o1'' (endpoint_of (?i ''jira'')) (endpoint_of (?i ''snow'')) ''done'' None
      [(''close'', JObj [(''code'', JStr ''fixed'')])] ?st = Inr e"
    by (rule evaluate_state_total [OF found dir])
  have dry: "jprop sample_change ''dry_run'' \<noteq> JBool False" by code_simp
  obtain x where run: "translate_state sample_sha (store_pub sample_sha) (\<lambda>n. ''t'') 0 ''o1'' sample_change ''u1'' ?st = Inr (x, ?st)"
    using ids nodes e dry by (simp add: translate_state_def Let_def)
  have "same_text ''Done'' ''done''" "has_value [(''close'', JObj [(''code'', JStr ''fixed'')])] ''close.code''" by code_simp+
  then have p: "prescribes ?m SourceToTarget ''done'' None [(''close'', JObj [(''code'', JStr ''fixed'')])] ''Resolved''"
    by (simp add: prescribes_def rule_for_def sample_mapping_def sample_rule_def)
  show ?thesis
    using translation_follows_mapping [OF run ids(1,2), of ?m SourceToTarget] m p ids(3-5) run by auto
qed

lemma one_state_mapping_in_force_witness:
  "\<exists>d st'. (state_mapping_step sample_sha)\<^sup>*\<^sup>* (sample_states []) st' \<and> state_mappings st' = [d] \<and> md_version d = 1 \<and>
     mappings_ok (state_mappings st')"
proof -
  let ?dto = "JObj [(''name'', JStr ''m''), (''source'', JObj [(''system'', JStr ''jira''), (''entity_type'', JStr ''issue'')]),
      (''target'', JObj [(''system'', JStr ''snow''), (''entity_type'', JStr ''issue'')]),
      (''rules'', JArr [JObj [(''direction'', JStr ''source_to_target''), (''from_state'', JStr ''Done''), (''to_state'', JStr ''Resolved'')]])]"
  have h: "draft_head ?dto = Inr (''m'', sample_endpoint ''jira'', sample_endpoint ''snow'')" unfolding sample_endpoint_def by code_simp
  have "\<exists>rs. state_rules (jprop ?dto ''rules'') = Inr rs"
    by (rule exI [of _ "[\<lparr>sr_direction = SourceToTarget, sr_from = ''Done'', sr_to = ''Resolved'', sr_required = [], sr_allowed = []\<rparr>]"]) code_simp
  then obtain rs where rs: "state_rules (jprop ?dto ''rules'') = Inr rs" by blast
  let ?d = "draft_row ''t'' 0 ''o1'' ''u1'' (''m'', sample_endpoint ''jira'', sample_endpoint ''snow'') rs 1"
  have fresh: "chain_state sample_sha ((sample_states [])\<lparr>state_mappings := [?d]\<rparr>)" "\<not> used ((sample_states [])\<lparr>state_mappings := [?d]\<rparr>) ''t''"
    by simp_all
  have e: "oi_event_id (mapping_event ''StateMappingDraftCreated'' ''u1'' ?d) = None"
      "oi_work_item_id (mapping_event ''StateMappingDraftCreated'' ''u1'' ?d) \<noteq> []" by (simp_all add: mapping_event_def)
  obtain st' where st': "mapping_tx sample_sha (store_pub sample_sha) ''t'' 0 (mapping_event ''StateMappingDraftCreated'' ''u1'' ?d)
      ((sample_states [])\<lparr>state_mappings := [?d]\<rparr>) = Inr st'"
    by (rule mapping_tx_total [OF growing_sample fresh e])
  have v: "next_version ''o1'' (sample_endpoint ''jira'') (sample_endpoint ''snow'') ([] :: state_rule mapping_def list) = 1" by (simp add: next_version_def)
  have "create_state_draft sample_sha (store_pub sample_sha) (\<lambda>n. ''t'') 0 ''o1'' ?dto ''u1'' (sample_states []) = Inr (?d, st')"
    using h rs st' v by (simp add: create_state_draft_def Let_def)
  then have "(state_mapping_step sample_sha)\<^sup>*\<^sup>* (sample_states []) st'" by (blast intro: state_mapping_step.create)
  moreover have "state_mappings st' = [?d]" using mapping_tx_tables [OF st'] by simp
  ultimately show ?thesis using one_state_mapping_in_force [of sample_sha "sample_states []" st'] by force
qed

end
