(* ===== verification/FieldMapping.thy ===== *)
theory FieldMapping
  imports StateMapping "HOL-Library.Sublist"
begin

text \<open>
  Field-level translation: the evaluator of \<^verbatim>\<open>src/modules/connectors/mapping/field-mapping-evaluator.ts\<close>,
  the limits of \<^verbatim>\<open>script-sandbox.ts\<close>, and the service of \<^verbatim>\<open>field-mapping.service.ts\<close> with its
  validation, life cycle, schema check and translation.

  The isolate that compiles and runs a script is an argument. Values are copied where the code shares
  them, which shows only in a mapping that writes both a path and a path below it. Objects have no inherited properties.
\<close>

subsection \<open>Paths\<close>

definition path_of :: "string \<Rightarrow> string list" where
  "path_of s = split_on (CHR ''.'') s"

definition top_level :: "string \<Rightarrow> string" where
  "top_level s = hd (path_of s)"

fun read_path :: "jsval \<Rightarrow> string list \<Rightarrow> jsval" where
  "read_path v [] = v"
| "read_path v (p # ps) = (case v of JObj o' \<Rightarrow> read_path (jget o' p) ps | _ \<Rightarrow> JUndef)"

definition get_path :: "jsobj \<Rightarrow> string \<Rightarrow> jsval" where
  "get_path o' path = read_path (JObj o') (path_of path)"

fun write_path :: "string list \<Rightarrow> jsval \<Rightarrow> jsobj \<Rightarrow> jsobj" where
  "write_path [] v o' = o'"
| "write_path [p] v o' = jset p v o'"
| "write_path (p # q # ps) v o' = jset p (JObj (write_path (q # ps) v (case jget o' p of JObj x \<Rightarrow> x | _ \<Rightarrow> []))) o'"

definition set_path :: "string \<Rightarrow> jsval \<Rightarrow> jsobj \<Rightarrow> jsobj" where
  "set_path path v o' = write_path (path_of path) v o'"

text \<open>\<^verbatim>\<open>String(v)\<close>; an empty element of an array prints as nothing.\<close>

fun js_text :: "jsval \<Rightarrow> string" where
  "js_text JUndef = ''undefined''"
| "js_text JNull = ''null''"
| "js_text (JBool b) = (if b then ''true'' else ''false'')"
| "js_text (JNum n) = n"
| "js_text (JStr s) = s"
| "js_text (JArr vs) = join '','' (map (\<lambda>v. if v = JUndef \<or> v = JNull then [] else js_text v) vs)"
| "js_text (JObj o') = ''[object Object]''"

fun json_depth :: "jsval \<Rightarrow> nat" where
  "json_depth (JArr vs) = Suc (foldr (\<lambda>v n. max (json_depth v) n) vs 0)"
| "json_depth (JObj o') = Suc (foldr (\<lambda>(k, v) n. max (json_depth v) n) o' 0)"
| "json_depth v = 0"

subsection \<open>Rules\<close>

datatype transform =
    Direct
  | Constant jsval
  | ValueTable "(string \<times> jsval) list" "jsval option"
  | Conditional "((string \<times> string) \<times> jsval) list" "jsval option"
  | Script string

record field_rule =
  fr_direction :: mapping_direction
  fr_source :: string
  fr_target :: string
  fr_transform :: transform

subsection \<open>Scripts\<close>

datatype isolate_outcome = ScriptValue jsval | ScriptThrows string

record isolate =
  iso_compiles :: "string \<Rightarrow> string option"
  iso_runs :: "string \<Rightarrow> jsobj \<Rightarrow> string option \<Rightarrow> string option \<Rightarrow> mapping_direction \<Rightarrow> isolate_outcome"

definition max_result_bytes :: nat where
  "max_result_bytes = 64 * 1024"

definition max_input_bytes :: nat where
  "max_input_bytes = 512 * 1024"

definition max_script_chars :: nat where
  "max_script_chars = 20000"

definition max_result_depth :: nat where
  "max_result_depth = 12"

text \<open>The size of the JSON text in UTF-8; the order of keys does not matter for it.\<close>

definition json_bytes :: "jsval \<Rightarrow> nat" where
  "json_bytes v = sum_list (map (\<lambda>c. if (of_char c :: nat) < 128 then 1 else 2) (stable_stringify (json_clone v)))"

definition run_mapping_script ::
  "isolate \<Rightarrow> string \<Rightarrow> jsobj \<Rightarrow> string option \<Rightarrow> string option \<Rightarrow> mapping_direction \<Rightarrow> string + jsval" where
  "run_mapping_script vm code source_fields s t d =
     (if trim code = [] then Inl ''Script body is empty''
      else if length code > max_script_chars then Inl (''Script exceeds '' @ show_nat max_script_chars @ '' characters'')
      else if json_bytes (JObj source_fields) > max_input_bytes
        then Inl (''Source fields are '' @ show_nat (json_bytes (JObj source_fields)) @ '' bytes, exceeding the '' @
          show_nat max_input_bytes @ ''-byte limit for scripted transforms'')
      else case iso_compiles vm code of
             Some m \<Rightarrow> Inl m
           | None \<Rightarrow>
               (case iso_runs vm code source_fields s t d of
                  ScriptThrows m \<Rightarrow> Inl m
                | ScriptValue v \<Rightarrow>
                    if json_bytes v > max_result_bytes
                    then Inl (''The transform returned '' @ show_nat (json_bytes v) @ '' bytes, exceeding the '' @ show_nat max_result_bytes @ ''-byte limit'')
                    else if json_depth v > max_result_depth
                    then Inl (''The transform returned a value nested '' @ show_nat (json_depth v) @ '' levels deep, exceeding the '' @
                      show_nat max_result_depth @ ''-level limit'')
                    else Inr v))"

definition check_script_syntax :: "isolate \<Rightarrow> string \<Rightarrow> string option" where
  "check_script_syntax vm code =
     (if trim code = [] then Some ''Script body is empty''
      else if length code > max_script_chars then Some (''Script exceeds '' @ show_nat max_script_chars @ '' characters'')
      else iso_compiles vm code)"

subsection \<open>Evaluation\<close>

datatype hold_reason = NoTableEntry | NoConditionalMatch | ScriptFailed | SchemaDrift

datatype rule_outcome = Applied jsval | Unchanged | RuleHeld hold_reason string

record field_input =
  fi_fields :: jsobj
  fi_source_state :: "string option"
  fi_target_state :: "string option"

record field_result =
  fe_ready :: bool
  fe_fields :: jsobj
  fe_outcomes :: "(field_rule \<times> rule_outcome) list"

definition rule_text :: "field_rule \<Rightarrow> string" where
  "rule_text r = fr_source r @ arrow @ fr_target r"

definition no_value :: "jsval \<Rightarrow> bool" where
  "no_value v \<longleftrightarrow> v = JUndef \<or> v = JNull \<or> v = JStr []"

definition matches_case :: "field_input \<Rightarrow> jsval \<Rightarrow> (string \<times> string) \<times> jsval \<Rightarrow> bool" where
  "matches_case inp v c =
     (let x = (if fst (fst c) = ''$value'' then v else get_path (fi_fields inp) (fst (fst c)))
      in x \<noteq> JUndef \<and> x \<noteq> JNull \<and> same_text (js_text x) (snd (fst c)))"

definition resolve_transform :: "isolate \<Rightarrow> field_rule \<Rightarrow> jsval \<Rightarrow> field_input \<Rightarrow> (hold_reason \<times> string) + jsval" where
  "resolve_transform vm r v inp = (case fr_transform r of
     Direct \<Rightarrow> Inr v
   | Constant c \<Rightarrow> Inr c
   | ValueTable t d \<Rightarrow>
       (case find (\<lambda>(k, _). lower k = lower (js_text v)) t of
          Some (_, x) \<Rightarrow> Inr x
        | None \<Rightarrow> (case d of Some x \<Rightarrow> Inr x
            | None \<Rightarrow> Inl (NoTableEntry, quoted (js_text v) @ '' has no entry in the value table for '' @ rule_text r)))
   | Conditional cs d \<Rightarrow>
       (case find (matches_case inp v) cs of
          Some (_, x) \<Rightarrow> Inr x
        | None \<Rightarrow> (case d of Some x \<Rightarrow> Inr x
            | None \<Rightarrow> Inl (NoConditionalMatch, ''No condition matched for '' @ rule_text r @ '', and no default was configured'')))
   | Script code \<Rightarrow>
       (case run_mapping_script vm code (fi_fields inp) (fi_source_state inp) (fi_target_state inp) (fr_direction r) of
          Inl m \<Rightarrow> Inl (ScriptFailed, ''Script for '' @ rule_text r @ '' failed: '' @ m)
        | Inr x \<Rightarrow> Inr x))"

definition rule_outcome :: "isolate \<Rightarrow> (string \<Rightarrow> bool) \<Rightarrow> field_input \<Rightarrow> field_rule \<Rightarrow> rule_outcome" where
  "rule_outcome vm schema_has inp r =
     (if \<not> schema_has (fr_target r)
      then RuleHeld SchemaDrift (''Target field '' @ quoted (fr_target r) @ '' is no longer part of the discovered schema'')
      else let v = get_path (fi_fields inp) (fr_source r)
           in if no_value v then Unchanged
              else case resolve_transform vm r v inp of Inl (reason, m) \<Rightarrow> RuleHeld reason m | Inr x \<Rightarrow> Applied x)"

definition apply_outcome :: "field_rule \<times> rule_outcome \<Rightarrow> jsobj \<Rightarrow> jsobj" where
  "apply_outcome ro o' = (case snd ro of Applied v \<Rightarrow> set_path (fr_target (fst ro)) v o' | _ \<Rightarrow> o')"

fun is_held :: "rule_outcome \<Rightarrow> bool" where
  "is_held (RuleHeld _ _) = True"
| "is_held _ = False"

definition evaluate_fields :: "isolate \<Rightarrow> (string \<Rightarrow> bool) \<Rightarrow> field_rule list \<Rightarrow> mapping_direction \<Rightarrow> field_input \<Rightarrow> field_result" where
  "evaluate_fields vm schema_has rules d inp =
     (let os = map (\<lambda>r. (r, rule_outcome vm schema_has inp r)) (filter (\<lambda>r. fr_direction r = d) rules)
      in \<lparr>fe_ready = \<not> list_ex (\<lambda>ro. is_held (snd ro)) os, fe_fields = fold apply_outcome os [], fe_outcomes = os\<rparr>)"

subsection \<open>Validation\<close>

definition max_field_rules :: nat where
  "max_field_rules = 200"

definition max_table_entries :: nat where
  "max_table_entries = 500"

definition max_conditional_cases :: nat where
  "max_conditional_cases = 100"

definition max_json_depth :: nat where
  "max_json_depth = 12"

definition map_json_value :: "jsval \<Rightarrow> string \<Rightarrow> map_error + jsval" where
  "map_json_value v f = (case v of
     JUndef \<Rightarrow> Inl (InvalidMapping (f @ '' must be a JSON-serializable value''))
   | JArr _ \<Rightarrow> (if json_depth (json_clone v) > max_json_depth
       then Inl (InvalidMapping (f @ '' is nested '' @ show_nat (json_depth (json_clone v)) @ '' levels deep, exceeding the '' @
         show_nat max_json_depth @ ''-level limit'')) else Inr (json_clone v))
   | JObj _ \<Rightarrow> (if json_depth (json_clone v) > max_json_depth
       then Inl (InvalidMapping (f @ '' is nested '' @ show_nat (json_depth (json_clone v)) @ '' levels deep, exceeding the '' @
         show_nat max_json_depth @ ''-level limit'')) else Inr (json_clone v))
   | _ \<Rightarrow> Inr v)"

definition optional_json :: "jsobj \<Rightarrow> string \<Rightarrow> string \<Rightarrow> map_error + jsval option" where
  "optional_json o' key f = (if has_own o' key then and_then (map_json_value (jget o' key) (f @ ''.'' @ key)) (\<lambda>v. Inr (Some v)) else Inr None)"

definition own_entries :: "jsval \<Rightarrow> jsobj" where
  "own_entries v = (case v of JObj o' \<Rightarrow> o' | _ \<Rightarrow> [])"

definition value_table :: "jsval \<Rightarrow> string \<Rightarrow> map_error + transform" where
  "value_table v f = (case jprop v ''table'' of
     JObj t \<Rightarrow>
       if t = [] then Inl (InvalidMapping (f @ ''.table must have at least one entry''))
       else if length t > max_table_entries
         then Inl (InvalidMapping (f @ ''.table cannot exceed '' @ show_nat max_table_entries @ '' entries''))
       else and_then (map_res (\<lambda>(k, x).
              if trim k = [] then Inl (InvalidMapping (f @ ''.table has an empty key''))
              else and_then (map_json_value x (f @ ''.table.'' @ k)) (\<lambda>y. Inr (k, y))) t) (\<lambda>t'.
            and_then (optional_json (own_entries v) ''default_value'' f) (\<lambda>d. Inr (ValueTable t' d)))
   | _ \<Rightarrow> Inl (InvalidMapping (f @ ''.table must be an object'')))"

definition conditional_case :: "jsval \<Rightarrow> string \<Rightarrow> map_error + (string \<times> string) \<times> jsval" where
  "conditional_case v f =
     (if \<not> is_object v then Inl (InvalidMapping (f @ '' must be an object''))
      else if \<not> is_object (jprop v ''when'') then Inl (InvalidMapping (f @ ''.when is required''))
      else let w = js_text (jprop (jprop v ''when'') ''field'')
           in if w \<noteq> ''$value'' \<and> \<not> field_path_pattern w
              then Inl (InvalidMapping (f @ ''.when.field must be '' @ quoted ''$value'' @ '' or a field path''))
              else case jprop (jprop v ''when'') ''equals'' of
                JStr e \<Rightarrow>
                  if trim e = [] then Inl (InvalidMapping (f @ ''.when.equals must be a non-empty string''))
                  else if jprop v ''then'' = JUndef then Inl (InvalidMapping (f @ ''.then is required''))
                  else and_then (map_json_value (jprop v ''then'') (f @ ''.then'')) (\<lambda>x. Inr ((w, trim e), x))
              | _ \<Rightarrow> Inl (InvalidMapping (f @ ''.when.equals must be a non-empty string'')))"

definition conditional_rule :: "jsval \<Rightarrow> string \<Rightarrow> map_error + transform" where
  "conditional_rule v f = (case jprop v ''cases'' of
     JArr cs \<Rightarrow>
       if cs = [] then Inl (InvalidMapping (f @ ''.cases must be a non-empty array''))
       else if length cs > max_conditional_cases
         then Inl (InvalidMapping (f @ ''.cases cannot exceed '' @ show_nat max_conditional_cases @ '' entries''))
       else and_then (map_res (\<lambda>(i, c). conditional_case c (indexed (f @ ''.cases'') i)) (enumerate 0 cs)) (\<lambda>cs'.
            and_then (optional_json (own_entries v) ''else_value'' f) (\<lambda>d. Inr (Conditional cs' d)))
   | _ \<Rightarrow> Inl (InvalidMapping (f @ ''.cases must be a non-empty array'')))"

definition script_rule :: "isolate \<Rightarrow> jsval \<Rightarrow> string \<Rightarrow> map_error + transform" where
  "script_rule vm v f = (case jprop v ''code'' of
     JStr code \<Rightarrow>
       if trim code = [] then Inl (InvalidMapping (f @ ''.code is required''))
       else (case check_script_syntax vm code of
               Some m \<Rightarrow> Inl (InvalidMapping (f @ ''.code does not compile: '' @ m))
             | None \<Rightarrow> Inr (Script code))
   | _ \<Rightarrow> Inl (InvalidMapping (f @ ''.code is required'')))"

definition map_transform :: "isolate \<Rightarrow> jsval \<Rightarrow> string \<Rightarrow> map_error + transform" where
  "map_transform vm v f =
     (if \<not> is_object v then Inl (InvalidMapping (f @ '' is required''))
      else if jprop v ''type'' = JStr ''direct'' then Inr Direct
      else if jprop v ''type'' = JStr ''constant''
        then (if jprop v ''value'' = JUndef then Inl (InvalidMapping (f @ ''.value is required for a constant transform''))
              else and_then (map_json_value (jprop v ''value'') (f @ ''.value'')) (\<lambda>x. Inr (Constant x)))
      else if jprop v ''type'' = JStr ''value_table'' then value_table v f
      else if jprop v ''type'' = JStr ''conditional'' then conditional_rule v f
      else if jprop v ''type'' = JStr ''script'' then script_rule vm v f
      else Inl (InvalidMapping (f @ ''.type must be one of direct, constant, value_table, conditional, script'')))"

fun field_rules_from ::
  "isolate \<Rightarrow> nat \<Rightarrow> (mapping_direction \<times> string \<times> string) list \<Rightarrow> jsval list \<Rightarrow> map_error + field_rule list" where
  "field_rules_from vm i seen [] = Inr []"
| "field_rules_from vm i seen (v # vs) =
     (let f = indexed ''rules'' i
      in if \<not> is_object v then Inl (InvalidMapping (f @ '' must be an object''))
         else and_then (map_direction (jprop v ''direction'') (f @ ''.direction'')) (\<lambda>d.
              and_then (map_field_path (jprop v ''source_field'') (f @ ''.source_field'')) (\<lambda>s.
              and_then (map_field_path (jprop v ''target_field'') (f @ ''.target_field'')) (\<lambda>t.
                if (d, lower s, lower t) \<in> set seen
                then Inl (InvalidMapping (''rules contains a duplicate '' @ direction_text d @ '' mapping for '' @ s @ arrow @ t))
                else and_then (map_transform vm (jprop v ''transform'') (f @ ''.transform'')) (\<lambda>tr.
                     and_then (field_rules_from vm (Suc i) ((d, lower s, lower t) # seen) vs) (\<lambda>rs.
                       Inr (\<lparr>fr_direction = d, fr_source = s, fr_target = t, fr_transform = tr\<rparr> # rs)))))))"

definition field_rules :: "isolate \<Rightarrow> jsval \<Rightarrow> map_error + field_rule list" where
  "field_rules vm v = (case v of
     JArr vs \<Rightarrow>
       if vs = [] then Inl (InvalidMapping ''rules must contain at least one field mapping'')
       else if length vs > max_field_rules
         then Inl (InvalidMapping (''rules cannot exceed '' @ show_nat max_field_rules @ '' entries''))
       else field_rules_from vm 0 [] vs
   | _ \<Rightarrow> Inl (InvalidMapping ''rules must contain at least one field mapping''))"

subsection \<open>The service\<close>

record field_mapping = "field_rule mapping_def" +
  fm_source_fingerprint :: "string option"
  fm_target_fingerprint :: "string option"

record fmap_store = smap_store +
  field_mappings :: "field_mapping list"

definition field_draft :: "field_rule mapping_def \<Rightarrow> field_mapping" where
  "field_draft d = mapping_def.extend d (field_mapping.fields None None)"

definition create_field_draft ::
  "isolate \<Rightarrow> (string \<Rightarrow> string) \<Rightarrow> 'z fmap_store_scheme handler \<Rightarrow> (nat \<Rightarrow> uuid) \<Rightarrow> time \<Rightarrow> string \<Rightarrow> jsval \<Rightarrow> string
   \<Rightarrow> 'z fmap_store_scheme \<Rightarrow> map_error + field_mapping \<times> 'z fmap_store_scheme" where
  "create_field_draft vm sha pub ids now org dto actor st =
     and_then (draft_head dto) (\<lambda>h.
     and_then (field_rules vm (jprop dto ''rules'')) (\<lambda>rules.
       let d = field_draft (draft_row (ids 0) now org actor h rules (next_version org (fst (snd h)) (snd (snd h)) (field_mappings st)))
       in if ids 0 \<in> md_id ` set (field_mappings st)
          then Inl (MapDb (UniqueViolation ''integration_field_mapping_definitions_pkey''))
          else and_then (mapping_tx sha pub (ids 1) now (mapping_event ''FieldMappingDraftCreated'' actor d)
                 (st\<lparr>field_mappings := field_mappings st @ [d]\<rparr>)) (\<lambda>st1. Inr (d, st1))))"

definition get_field_mapping :: "string \<Rightarrow> uuid \<Rightarrow> 'z fmap_store_scheme \<Rightarrow> map_error + field_mapping" where
  "get_field_mapping org i st =
     and_then (require_map_uuid i ''mapping id'') (\<lambda>_.
       case find_definition org i (field_mappings st) of
         None \<Rightarrow> Inl (MappingNotFound ''Field mapping not found'') | Some d \<Rightarrow> Inr d)"

definition list_field_mappings :: "string \<Rightarrow> 'z fmap_store_scheme \<Rightarrow> field_mapping list" where
  "list_field_mappings org st = list_definitions org (field_mappings st)"

text \<open>The field ids of an endpoint in the most recently updated connector that discovered it.\<close>

definition discovered_fields :: "string \<Rightarrow> jsval \<Rightarrow> string list option" where
  "discovered_fields ty discovery = (case jprop discovery ''entities'' of
     JArr es \<Rightarrow> (case find (\<lambda>e. jprop e ''entityType'' = JStr ty) es of
         None \<Rightarrow> None
       | Some e \<Rightarrow> Some (case jprop e ''fields'' of JArr fs \<Rightarrow> dedupe_by (\<lambda>x. x) [] (map (\<lambda>f. js_text (jprop f ''id'')) fs) | _ \<Rightarrow> []))
   | _ \<Rightarrow> None)"

definition schema_field_ids :: "string \<Rightarrow> endpoint \<Rightarrow> 'z conn_store_scheme \<Rightarrow> string list option" where
  "schema_field_ids org e st =
     (case List.map_filter (\<lambda>c. case cr_discovery c of None \<Rightarrow> None | Some d \<Rightarrow> discovered_fields (ep_entity_type e) d)
             (rev (sort_key cr_updated_at (rev (filter (\<lambda>c. cr_org_id c = org \<and> cr_provider c = ep_system e) (connectors st))))) of
        [] \<Rightarrow> None | f # _ \<Rightarrow> Some f)"

definition schema_lookup :: "string list option \<Rightarrow> string \<Rightarrow> bool" where
  "schema_lookup ids path \<longleftrightarrow> (case ids of None \<Rightarrow> True | Some fs \<Rightarrow> top_level path \<in> set fs)"

definition fingerprint :: "(string \<Rightarrow> string) \<Rightarrow> string list option \<Rightarrow> string option" where
  "fingerprint sha ids = map_option (\<lambda>fs. sha (join '','' (sort fs))) ids"

definition field_publication ::
  "(string \<Rightarrow> string) \<Rightarrow> string \<Rightarrow> time \<Rightarrow> string list option \<Rightarrow> string list option \<Rightarrow> field_mapping \<Rightarrow> field_mapping" where
  "field_publication sha actor now s t d =
     (published_row actor now d)\<lparr>fm_source_fingerprint := fingerprint sha s, fm_target_fingerprint := fingerprint sha t\<rparr>"

text \<open>\<open>race\<close> is what others commit between the checks and the transaction.\<close>

definition publish_field_mapping ::
  "(string \<Rightarrow> string) \<Rightarrow> 'z fmap_store_scheme handler \<Rightarrow> ('z fmap_store_scheme \<Rightarrow> 'z fmap_store_scheme) \<Rightarrow> uuid \<Rightarrow> time \<Rightarrow> string
   \<Rightarrow> uuid \<Rightarrow> string \<Rightarrow> 'z fmap_store_scheme \<Rightarrow> map_error + field_mapping \<times> 'z fmap_store_scheme" where
  "publish_field_mapping sha pub race fresh now org i actor st =
     and_then (get_field_mapping org i st) (\<lambda>d.
       case md_status d of
         MapSuperseded \<Rightarrow> Inl (MappingConflict ''A superseded field mapping cannot be published again'')
       | MapPublished \<Rightarrow> Inr (d, st)
       | MapDraft \<Rightarrow>
           (let s = schema_field_ids org (md_source d) st;
                t = schema_field_ids org (md_target d) st;
                missing = filter (\<lambda>r. \<not> schema_lookup t (fr_target r)) (md_rules d);
                st1 = race st;
                f = field_publication sha actor now s t
            in if missing \<noteq> []
               then Inl (InvalidMapping (''Cannot publish: not in the discovered schema '' @ [CHR 0xE2, CHR 0x80, CHR 0x94, CHR '' ''] @
                 join '', '' (dedupe_by (\<lambda>x. x) [] (map (\<lambda>r. ''target field '' @ quoted (fr_target r)) missing))))
               else case find_definition org i (field_mappings st1) of
                      None \<Rightarrow> Inl (MapDb TransactionAborted)
                    | Some e \<Rightarrow>
                        if md_status e \<noteq> MapDraft then Inr (e, st1)
                        else and_then (mapping_tx sha pub fresh now (mapping_event ''FieldMappingPublished'' actor (f e))
                               (st1\<lparr>field_mappings := publish_rows org f d (field_mappings st1)\<rparr>)) (\<lambda>st2. Inr (f e, st2))))"

definition field_direction :: "endpoint \<Rightarrow> endpoint \<Rightarrow> field_mapping \<Rightarrow> mapping_direction" where
  "field_direction a b d = (if direct_between a b d then SourceToTarget else TargetToSource)"

definition translate_fields ::
  "isolate \<Rightarrow> string \<Rightarrow> endpoint \<Rightarrow> endpoint \<Rightarrow> field_input \<Rightarrow> 'z fmap_store_scheme \<Rightarrow> (field_result \<times> field_mapping) option" where
  "translate_fields vm org source target inp st =
     (case find_published org source target (field_mappings st) of
        None \<Rightarrow> None
      | Some m \<Rightarrow> Some (evaluate_fields vm (schema_lookup (schema_field_ids org target st)) (md_rules m) (field_direction source target m) inp, m))"

text \<open>\<open>dto\<close> is the \<^verbatim>\<open>PreviewFieldMappingDto\<close>; the endpoints are used as they are given.\<close>

definition preview_fields ::
  "isolate \<Rightarrow> string \<Rightarrow> endpoint \<Rightarrow> endpoint \<Rightarrow> mapping_direction \<Rightarrow> jsval \<Rightarrow> string option \<Rightarrow> string option \<Rightarrow> 'z fmap_store_scheme
   \<Rightarrow> map_error + (field_result \<times> field_mapping) option" where
  "preview_fields vm org source target d source_fields s t st =
     (case find_published org source target (field_mappings st) of
        None \<Rightarrow> Inr None
      | Some m \<Rightarrow> and_then (map_fields source_fields ''source_fields'') (\<lambda>fs.
          Inr (Some (evaluate_fields vm (schema_lookup (schema_field_ids org target st)) (md_rules m) d
            \<lparr>fi_fields = fs, fi_source_state = s, fi_target_state = t\<rparr>, m))))"

definition writes_to :: "endpoint \<Rightarrow> field_mapping \<Rightarrow> field_rule \<Rightarrow> bool" where
  "writes_to e m r \<longleftrightarrow> fr_direction r = SourceToTarget \<and> md_target m = e \<or> fr_direction r = TargetToSource \<and> md_source m = e"

definition written_field_names :: "string \<Rightarrow> endpoint \<Rightarrow> 'z fmap_store_scheme \<Rightarrow> string list" where
  "written_field_names org e st = dedupe_by (\<lambda>x. x) []
     (concat (map (\<lambda>m. map (\<lambda>r. top_level (fr_target r)) (filter (writes_to e m) (md_rules m)))
       (filter (\<lambda>m. md_org_id m = org \<and> md_status m = MapPublished \<and> (md_source m = e \<or> md_target m = e)) (field_mappings st))))"

subsection \<open>What an evaluation writes\<close>

lemma read_write_path: "p \<noteq> [] \<Longrightarrow> read_path (JObj (write_path p v o')) p = v"
  by (induction p v o' rule: write_path.induct) (auto simp: jget_jset)

lemma read_undef [simp]: "read_path JUndef ps = JUndef"
  by (cases ps) simp_all

lemma jget_Nil [simp]: "jget [] k = JUndef"
  by (simp add: jget_def)

lemma read_parallel_path: "p \<parallel> q \<Longrightarrow> read_path (JObj (write_path p v o')) q = read_path (JObj o') q"
proof (induction p v o' arbitrary: q rule: write_path.induct)
  case (2 p v o')
  then obtain r rs where q: "q = r # rs" "r \<noteq> p" by (cases q) (auto simp: parallel_def)
  then show ?case by (simp add: jget_jset)
next
  case (3 p p' ps v o')
  show ?case
  proof (cases q)
    case (Cons r rs)
    let ?x = "case jget o' p of JObj x \<Rightarrow> x | _ \<Rightarrow> []"
    show ?thesis
    proof (cases "r = p")
      case True
      then have par: "p' # ps \<parallel> rs" using "3.prems" Cons by (auto simp: parallel_def)
      have "read_path (JObj ?x) rs = read_path (jget o' p) rs"
      proof (cases rs)
        case Nil
        then show ?thesis using par by (simp add: parallel_def)
      next
        case (Cons s ss)
        then show ?thesis by (cases "jget o' p") simp_all
      qed
      then show ?thesis using "3.IH" [OF par] Cons True by (simp add: jget_jset)
    qed (simp add: Cons jget_jset)
  qed (use "3.prems" in \<open>simp add: parallel_def\<close>)
qed simp

lemma path_of_not_Nil [simp]: "path_of s \<noteq> []"
  by (simp add: path_of_def)

lemma keys_write_path: "p \<noteq> [] \<Longrightarrow> fst ` set (write_path p v o') = insert (hd p) (fst ` set o')"
  by (induction p v o' rule: write_path.induct) (auto simp: keys_jset)

definition applied_rules :: "(field_rule \<times> rule_outcome) list \<Rightarrow> field_rule list" where
  "applied_rules os = map fst (filter (\<lambda>ro. case snd ro of Applied _ \<Rightarrow> True | _ \<Rightarrow> False) os)"

lemma applied_rules_simps [simp]:
  "applied_rules [] = []"
  "applied_rules ((r, x) # os) = (case x of Applied _ \<Rightarrow> r # applied_rules os | _ \<Rightarrow> applied_rules os)"
  by (auto simp: applied_rules_def split: rule_outcome.splits)

lemma fold_keys: "fst ` set (fold apply_outcome os o') \<subseteq> fst ` set o' \<union> (\<lambda>r. top_level (fr_target r)) ` set (applied_rules os)"
proof (induction os arbitrary: o')
  case (Cons ro os)
  obtain r x where ro: "ro = (r, x)" by (cases ro)
  show ?case
    using Cons.IH [of "apply_outcome ro o'"]
    by (cases x) (auto simp: ro apply_outcome_def set_path_def keys_write_path top_level_def)
qed simp

abbreviation target_path :: "field_rule \<Rightarrow> string list" where
  "target_path r \<equiv> path_of (fr_target r)"

lemma fold_parallel:
  "\<forall>r \<in> set (applied_rules os). target_path r \<parallel> q \<Longrightarrow> read_path (JObj (fold apply_outcome os o')) q = read_path (JObj o') q"
proof (induction os arbitrary: o')
  case (Cons ro os)
  obtain r x where ro: "ro = (r, x)" by (cases ro)
  then show ?case
    using Cons by (cases x) (auto simp: apply_outcome_def set_path_def read_parallel_path)
qed simp

lemma fold_applied:
  "sorted_wrt (\<lambda>r s. target_path r \<parallel> target_path s) (applied_rules os) \<Longrightarrow> (r, Applied v) \<in> set os \<Longrightarrow>
   read_path (JObj (fold apply_outcome os o')) (target_path r) = v"
proof (induction os arbitrary: o')
  case (Cons ro os)
  obtain s x where ro: "ro = (s, x)" by (cases ro)
  show ?case
  proof (cases "(r, Applied v) \<in> set os")
    case True
    then show ?thesis using Cons ro by (cases x) auto
  next
    case False
    then have "s = r" "x = Applied v" using Cons.prems(2) ro by auto
    moreover have "\<forall>y \<in> set (applied_rules os). target_path y \<parallel> target_path r"
      using Cons.prems(1) ro \<open>s = r\<close> \<open>x = Applied v\<close> by (auto simp: parallel_def)
    ultimately show ?thesis using fold_parallel [of os "target_path r" "apply_outcome ro o'"]
      by (simp add: ro) (simp add: apply_outcome_def set_path_def read_write_path)
  qed
qed simp

text \<open>C22. The evaluation of a field mapping is all or nothing and exact: it is held exactly when some rule of its
  direction finds a value it cannot translate or a target field that is no longer discovered, and otherwise, for
  targets that do not overlap, the written object has at every target path the translated value of its rule
  and nothing anywhere else.\<close>

theorem field_evaluation_exact:
  assumes "evaluate_fields vm schema_has rules d inp = res"
    and "sorted_wrt (\<lambda>r s. target_path r \<parallel> target_path s) (applied_rules (fe_outcomes res))"
  shows "(fe_ready res \<longleftrightarrow> (\<forall>r \<in> set rules. fr_direction r = d \<longrightarrow> schema_has (fr_target r) \<and>
      (no_value (get_path (fi_fields inp) (fr_source r)) \<or>
       (\<exists>v. resolve_transform vm r (get_path (fi_fields inp) (fr_source r)) inp = Inr v)))) \<and>
    (\<forall>r \<in> set rules. fr_direction r = d \<longrightarrow> (\<forall>v. rule_outcome vm schema_has inp r = Applied v \<longrightarrow> get_path (fe_fields res) (fr_target r) = v)) \<and>
    (\<forall>q. (\<forall>r \<in> set (applied_rules (fe_outcomes res)). target_path r \<parallel> path_of q) \<longrightarrow> get_path (fe_fields res) q = JUndef)"
proof -
  have os: "fe_outcomes res = map (\<lambda>r. (r, rule_outcome vm schema_has inp r)) (filter (\<lambda>r. fr_direction r = d) rules)"
    and out: "fe_fields res = fold apply_outcome (fe_outcomes res) []"
    and ready: "fe_ready res = (\<forall>r \<in> set rules. fr_direction r = d \<longrightarrow> \<not> is_held (rule_outcome vm schema_has inp r))"
    using assms(1) by (auto simp: evaluate_fields_def Let_def list_ex_iff)
  have held: "is_held (rule_outcome vm schema_has inp r) \<longleftrightarrow> \<not> (schema_has (fr_target r) \<and>
      (no_value (get_path (fi_fields inp) (fr_source r)) \<or>
       (\<exists>v. resolve_transform vm r (get_path (fi_fields inp) (fr_source r)) inp = Inr v)))" for r
    by (auto simp: rule_outcome_def Let_def split: sum.splits prod.splits)
  have none: "read_path (JObj []) (path_of q) = JUndef" for q
  proof (cases "path_of q")
    case (Cons p ps)
    then show ?thesis by simp
  qed simp
  have "get_path (fe_fields res) (fr_target r) = v"
    if "r \<in> set rules" "fr_direction r = d" "rule_outcome vm schema_has inp r = Applied v" for r v
  proof -
    have "(r, Applied v) \<in> set (fe_outcomes res)" using that by (force simp: os)
    then show ?thesis unfolding get_path_def out by (rule fold_applied [OF assms(2)])
  qed
  moreover have "get_path (fe_fields res) q = JUndef" if "\<forall>r \<in> set (applied_rules (fe_outcomes res)). target_path r \<parallel> path_of q" for q
    unfolding get_path_def out fold_parallel [OF that] by (rule none)
  ultimately show ?thesis using ready held by simp
qed

text \<open>Whatever a field translation writes to an endpoint is among the field names reported as written to that
  endpoint, which are the ones an inbound change is screened for as the echo of a write.\<close>

lemma written_names_cover_translation:
  assumes "translate_fields vm org source target inp st = Some (res, m)"
  shows "set (map fst (fe_fields res)) \<subseteq> set (written_field_names org target st)"
proof
  fix k assume "k \<in> set (map fst (fe_fields res))"
  have m: "find_published org source target (field_mappings st) = Some m"
    and res: "res = evaluate_fields vm (schema_lookup (schema_field_ids org target st)) (md_rules m) (field_direction source target m) inp"
    using assms by (auto simp: translate_fields_def split: option.splits)
  have mem: "m \<in> set (field_mappings st)" "published_between org source target m" using find_published_mem [OF m] by blast+
  let ?os = "fe_outcomes res"
  have os: "?os = map (\<lambda>r. (r, rule_outcome vm (schema_lookup (schema_field_ids org target st)) inp r))
      (filter (\<lambda>r. fr_direction r = field_direction source target m) (md_rules m))"
    and out: "fe_fields res = fold apply_outcome ?os []" by (simp_all add: res evaluate_fields_def Let_def)
  obtain r where r: "r \<in> set (applied_rules ?os)" "k = top_level (fr_target r)"
    using \<open>k \<in> set (map fst (fe_fields res))\<close> fold_keys [of ?os "[]"] by (auto simp: out)
  then have "r \<in> set (md_rules m)" "fr_direction r = field_direction source target m" by (auto simp: applied_rules_def os)
  moreover have "writes_to target m r"
    using mem(2) calculation(2) by (auto simp: writes_to_def field_direction_def direct_between_def published_between_def of_pair_def)
  moreover have "md_org_id m = org \<and> md_status m = MapPublished \<and> (md_source m = target \<or> md_target m = target)"
    using mem(2) by (auto simp: published_between_def of_pair_def)
  ultimately show "k \<in> set (written_field_names org target st)"
    using mem(1) r(2) by (auto simp: written_field_names_def set_dedupe)
qed

subsection \<open>Publication\<close>

lemma fmap_more: "store.more st' = store.more st \<Longrightarrow> field_mappings st' = field_mappings st"
  by (cases st; cases st') simp

lemma mapping_tx_fields:
  "mapping_tx sha (store_pub sha) fresh now i (st :: 'z fmap_store_scheme) = Inr st' \<Longrightarrow> field_mappings st' = field_mappings st"
  by (drule mapping_tx_more) (rule fmap_more)

lemma publishes_field_publication: "publishes (field_publication sha actor now s t)" "md_rules (field_publication sha actor now s t d) = md_rules d"
  by (simp_all add: publishes_def field_publication_def published_row_def)

lemma publish_field_rows:
  assumes "publish_field_mapping sha (store_pub sha) race fresh now org i actor st = Inr (p, st')"
  obtains (again) "p \<in> set (field_mappings st)" "md_status p = MapPublished" "st' = st"
  | (late) "p \<in> set (field_mappings (race st))" "md_status p \<noteq> MapDraft" "st' = race st"
  | (first) d e f where "d \<in> set (field_mappings st)" "md_id d = i" "md_org_id d = org" "md_status d = MapDraft"
      "e \<in> set (field_mappings (race st))" "md_id e = i" "md_org_id e = org" "md_status e = MapDraft" "publishes f" "\<forall>x. md_rules (f x) = md_rules x"
      "p = f e" "field_mappings st' = publish_rows org f d (field_mappings (race st))"
proof -
  obtain d where d: "find_definition org i (field_mappings st) = Some d" "get_field_mapping org i st = Inr d"
    using assms by (auto simp: publish_field_mapping_def get_field_mapping_def and_then_Inr split: option.splits)
  have mem: "d \<in> set (field_mappings st)" "md_id d = i" "md_org_id d = org"
    using find_SomeD [OF d(1) [unfolded find_definition_def]] by (auto simp: is_definition_def)
  show ?thesis
  proof (cases "md_status d")
    case MapDraft
    let ?f = "field_publication sha actor now (schema_field_ids org (md_source d) st) (schema_field_ids org (md_target d) st)"
    obtain e where e: "find_definition org i (field_mappings (race st)) = Some e"
      using assms MapDraft d(2) by (auto simp: publish_field_mapping_def Let_def split: if_splits option.splits)
    have mem_e: "e \<in> set (field_mappings (race st))" "md_id e = i" "md_org_id e = org"
      using find_SomeD [OF e [unfolded find_definition_def]] by (auto simp: is_definition_def)
    show ?thesis
    proof (cases "md_status e = MapDraft")
      case True
      let ?st1 = "(race st)\<lparr>field_mappings := publish_rows org ?f d (field_mappings (race st))\<rparr>"
      have "and_then (mapping_tx sha (store_pub sha) fresh now (mapping_event ''FieldMappingPublished'' actor (?f e)) ?st1)
          (\<lambda>st1. Inr (?f e, st1)) = Inr (p, st')"
        using assms MapDraft d(2) e True by (simp add: publish_field_mapping_def Let_def split: if_splits)
      from and_then_pair [OF this] have p: "p = ?f e"
        and tx: "mapping_tx sha (store_pub sha) fresh now (mapping_event ''FieldMappingPublished'' actor (?f e)) ?st1 = Inr st'"
        by (rule conjunct1, rule conjunct2)
      have "field_mappings st' = field_mappings ?st1" by (rule mapping_tx_fields [OF tx])
      then have rows: "field_mappings st' = publish_rows org ?f d (field_mappings (race st))" by simp
      show ?thesis
        by (rule first [OF mem MapDraft mem_e True publishes_field_publication(1) _ p rows]) (simp add: publishes_field_publication(2))
    next
      case False
      then have "p = e \<and> st' = race st"
        using assms MapDraft d(2) e by (simp add: publish_field_mapping_def Let_def split: if_splits)
      then show ?thesis using late mem_e(1) False by metis
    qed
  next
    case MapPublished
    then have "d = p \<and> st = st'" using assms d(2) by (simp add: publish_field_mapping_def)
    then show ?thesis using again mem(1) MapPublished by metis
  next
    case MapSuperseded
    then show ?thesis using assms d(2) by (simp add: publish_field_mapping_def)
  qed
qed

text \<open>A publication of a field mapping that races with others stays safe: whatever drafts and publications commit between
  its checks and its transaction, the table keeps one version in force for every pair of endpoints, and the version
  it returns is published or was superseded by a later publication.\<close>

lemma racing_publications_keep_one:
  assumes "publish_field_mapping sha (store_pub sha) race fresh now org i actor st = Inr (p, st')"
    and "mappings_ok (field_mappings st)" "mappings_ok (field_mappings (race st))"
    and "\<forall>d \<in> set (field_mappings st). \<exists>d' \<in> set (field_mappings (race st)). later_version d d'"
  shows "mappings_ok (field_mappings st') \<and> p \<in> set (field_mappings st') \<and> md_status p \<noteq> MapDraft"
  using assms(1)
proof (cases rule: publish_field_rows)
  case (first d e f)
  obtain d' where d': "d' \<in> set (field_mappings (race st))" "later_version d d'" using assms(4) first(1) by blast
  have "d' = e"
    using distinct_id_eq [of md_id "field_mappings (race st)" d' e] assms(3) d' first(2,5,6) by (auto simp: mappings_ok_def later_version_def)
  then have same: "publish_rows org f d (field_mappings (race st)) = publish_rows org f e (field_mappings (race st))"
    using d'(2) by (simp add: publish_rows_def later_version_def)
  have ok: "mappings_ok (field_mappings st')"
    unfolding first(12) same by (rule publish_keeps_mappings [OF assms(3) first(5,7,9)])
  have "p \<in> set (publish_rows org f e (field_mappings (race st)))"
    unfolding publish_rows_map [OF assms(3) first(5,7)] first(11) using first(5,8) by force
  then show ?thesis using ok first(9,11,12) same by (auto simp: publishes_def)
next
  case late
  then show ?thesis using assms(3) by simp
next
  case again
  then show ?thesis using assms(2) by simp
qed

inductive field_mapping_step :: "isolate \<Rightarrow> (string \<Rightarrow> string) \<Rightarrow> 'z fmap_store_scheme \<Rightarrow> 'z fmap_store_scheme \<Rightarrow> bool" for vm sha where
  create: "create_field_draft vm sha (store_pub sha) ids now org dto actor st = Inr (d, st') \<Longrightarrow> field_mapping_step vm sha st st'"
| publish: "publish_field_mapping sha (store_pub sha) (\<lambda>s. s) fresh now org i actor st = Inr (d, st') \<Longrightarrow> field_mapping_step vm sha st st'"

lemma field_draft_simps [simp]:
  "md_id (field_draft d) = md_id d" "md_org_id (field_draft d) = md_org_id d" "md_source (field_draft d) = md_source d"
  "md_target (field_draft d) = md_target d" "md_version (field_draft d) = md_version d" "md_status (field_draft d) = md_status d"
  by (simp_all add: field_draft_def mapping_def.defs)

lemma create_field_rows:
  assumes "create_field_draft vm sha (store_pub sha) ids now org dto actor st = Inr (d, st')"
  shows "field_mappings st' = field_mappings st @ [d] \<and> md_id d \<notin> md_id ` set (field_mappings st) \<and> md_status d = MapDraft \<and>
    md_version d = next_version (md_org_id d) (md_source d) (md_target d) (field_mappings st)"
  using assms by (auto simp: create_field_draft_def and_then_Inr Let_def dest!: mapping_tx_fields split: if_splits)

interpretation field_maps: mapping_service field_mappings "field_mapping_step vm sha" for vm sha
proof
  fix st st' :: "'a fmap_store_scheme"
  assume "field_mapping_step vm sha st st'"
  then show "drafted (field_mappings st) (field_mappings st') \<or> published (field_mappings st) (field_mappings st') \<or>
      field_mappings st' = field_mappings st"
  proof cases
    case (create ids now org dto actor d)
    then show ?thesis using create_field_rows unfolding drafted_def by blast
  next
    case (publish fresh now org i actor d)
    then show ?thesis
    proof (cases rule: publish_field_rows)
      case (first d e f)
      then show ?thesis unfolding published_def by blast
    qed simp_all
  qed
qed

subsection \<open>Concrete runs\<close>

definition sample_vm :: isolate where
  "sample_vm = \<lparr>iso_compiles = \<lambda>_. None, iso_runs = \<lambda>_ _ _ _ _. ScriptThrows ''no''\<rparr>"

definition sample_fields :: "field_rule list" where
  "sample_fields = [\<lparr>fr_direction = SourceToTarget, fr_source = ''priority'', fr_target = ''u.urgency'',
       fr_transform = ValueTable [(''High'', JStr ''1'')] None\<rparr>,
     \<lparr>fr_direction = SourceToTarget, fr_source = ''team'', fr_target = ''u.group'', fr_transform = Direct\<rparr>]"

definition sample_fmap :: "string \<Rightarrow> string \<Rightarrow> int \<Rightarrow> mapping_status \<Rightarrow> field_mapping" where
  "sample_fmap a b v s = \<lparr>md_id = sample_uuid, md_org_id = ''o1'', md_name = ''m'', md_source = sample_endpoint a, md_target = sample_endpoint b,
     md_version = v, md_status = s, md_rules = sample_fields, md_created_by = ''u'', md_created_at = 0, md_published_by = None, md_published_at = None,
     fm_source_fingerprint = None, fm_target_fingerprint = None\<rparr>"

definition sample_fstore :: "field_mapping list \<Rightarrow> fmap_store" where
  "sample_fstore fs = \<lparr>work_items = [], domain_events = [], audit_events = [], integrity = [], integrity_seq = 1, outbox = [], emitted = [],
     corr_nodes = [], corr_links = [], snapshots = [], connectors = [], state_mappings = [], sync_transactions = [], field_mappings = fs\<rparr>"

definition sample_finput :: field_input where
  "sample_finput = \<lparr>fi_fields = [(''priority'', JStr ''high''), (''team'', JStr ''net'')], fi_source_state = None, fi_target_state = None\<rparr>"

lemma sample_fstore_base [simp]: "chain_state sha (sample_fstore fs)" "\<not> used (sample_fstore fs) e" "field_mappings (sample_fstore fs) = fs"
  by (rule chain_state_no_links) (simp_all add: sample_fstore_def used_def has_event_def logged_def)

lemma fields_base [simp]:
  "chain_state sha (st\<lparr>field_mappings := x\<rparr>) = chain_state sha st" "used (st\<lparr>field_mappings := x\<rparr>) = used st"
  by (rule chain_state_base used_base; simp)+

lemma sample_outcomes:
  "fe_outcomes (evaluate_fields sample_vm (\<lambda>_. True) sample_fields SourceToTarget sample_finput) =
     [(sample_fields ! 0, Applied (JStr ''1'')), (sample_fields ! 1, Applied (JStr ''net''))]"
  by code_simp

lemma field_evaluation_exact_witness:
  "get_path (fe_fields (evaluate_fields sample_vm (\<lambda>_. True) sample_fields SourceToTarget sample_finput)) ''u.group'' = JStr ''net'' \<and>
   get_path (fe_fields (evaluate_fields sample_vm (\<lambda>_. True) sample_fields SourceToTarget sample_finput)) ''v'' = JUndef"
proof -
  have paths: "path_of ''u.urgency'' = [''u'', ''urgency'']" "path_of ''u.group'' = [''u'', ''group'']" "path_of ''v'' = [''v'']" by code_simp+
  have t: "fr_target (sample_fields ! 0) = ''u.urgency''" "fr_target (sample_fields ! 1) = ''u.group''" "fr_target (sample_fields ! Suc 0) = ''u.group''" by (simp_all add: sample_fields_def)
  let ?res = "evaluate_fields sample_vm (\<lambda>_. True) sample_fields SourceToTarget sample_finput"
  have sorted: "sorted_wrt (\<lambda>r s. target_path r \<parallel> target_path s) (applied_rules (fe_outcomes ?res))"
    unfolding sample_outcomes by (simp add: t paths parallel_def)
  have out: "rule_outcome sample_vm (\<lambda>_. True) sample_finput (sample_fields ! 1) = Applied (JStr ''net'')" by code_simp
  have r: "sample_fields ! 1 \<in> set sample_fields" "fr_direction (sample_fields ! 1) = SourceToTarget" by (simp_all add: sample_fields_def)
  have away: "\<forall>r \<in> set (applied_rules (fe_outcomes ?res)). target_path r \<parallel> path_of ''v''"
    unfolding sample_outcomes by (simp add: t paths parallel_def)
  show ?thesis using field_evaluation_exact [OF refl sorted] out r away t(2) by metis
qed

end
