(* ===== verification/Ingestion.thy ===== *)
theory Ingestion
  imports FieldMapping
begin

text \<open>
  Acceptance of provider records into the durable ingestion queue, \<^verbatim>\<open>acceptRecords\<close> of
  \<^verbatim>\<open>src/modules/connectors/connector.service.ts\<close>: one transaction that queues every record of a page
  once, under a key that digests its content, and runs the caller's own progress update with it.

  \<open>ids\<close> numbers the ids the call draws; \<open>sha\<close> is SHA-256.
\<close>

record ext_record =
  er_external_id :: string
  er_artifact_type :: string
  er_updated_at :: string
  er_rest :: jsobj

definition record_value :: "ext_record \<Rightarrow> jsval" where
  "record_value r = JObj ([(''externalId'', JStr (er_external_id r)), (''artifactType'', JStr (er_artifact_type r)),
     (''updatedAt'', JStr (er_updated_at r))] @ er_rest r)"

record ingest_row =
  iq_id :: uuid
  iq_org_id :: string
  iq_connector_id :: uuid
  iq_partition_key :: string
  iq_entity_type :: string
  iq_external_id :: string
  iq_dedupe_key :: string
  iq_payload :: jsval
  iq_position :: int
  iq_status :: string
  iq_attempts :: int
  iq_last_error :: "string option"
  iq_job_id :: "uuid option"
  iq_twin_id :: "uuid option"
  iq_history :: "jsval list"
  iq_claimed_by :: "string option"
  iq_claim_expires_at :: "time option"
  iq_next_attempt_at :: "time option"
  iq_completed_at :: "time option"

text \<open>A canonical twin: what was last accepted of a record a provider owns.\<close>

record twin =
  tw_id :: uuid
  tw_org_id :: string
  tw_connector_id :: uuid
  tw_provider :: string
  tw_artifact_type :: string
  tw_external_id :: string
  tw_native_key :: "string option"
  tw_native_url :: "string option"
  tw_title :: jsval
  tw_native_status :: string
  tw_sync_state :: string
  tw_authority :: jsval
  tw_payload :: jsobj
  tw_content_hash :: string
  tw_source_updated_at :: "time option"
  tw_node_id :: "uuid option"
  tw_updated_at :: time

record ingest_store = fmap_store +
  twins :: "twin list"
  ingestion :: "ingest_row list"
  ingest_position :: int

definition twin_partition_key :: "string \<Rightarrow> string \<Rightarrow> string \<Rightarrow> string" where
  "twin_partition_key provider ty ext = lower provider @ '':'' @ lower ty @ '':'' @ ext"

definition dedupe_key :: "(string \<Rightarrow> string) \<Rightarrow> string \<Rightarrow> string \<Rightarrow> ext_record \<Rightarrow> string" where
  "dedupe_key sha provider ty r =
     sha (stable_stringify (JObj [(''provider'', JStr provider), (''entityType'', JStr ty),
       (''externalId'', JStr (er_external_id r)), (''updatedAt'', JStr (er_updated_at r)), (''record'', record_value r)]))"

record accept_outcome =
  ao_external_id :: string
  ao_updated_at :: string
  ao_queue_entry :: "uuid option"
  ao_enqueued :: bool

record acceptance =
  ac_inserted :: int
  ac_duplicate_deliveries :: int
  ac_outcomes :: "accept_outcome list"

definition no_acceptance :: acceptance where
  "no_acceptance = \<lparr>ac_inserted = 0, ac_duplicate_deliveries = 0, ac_outcomes = []\<rparr>"

text \<open>The default of \<^verbatim>\<open>queue_position\<close> draws from its sequence also when the insert meets a conflict.\<close>

definition accept_one ::
  "(string \<Rightarrow> string) \<Rightarrow> uuid \<Rightarrow> string \<Rightarrow> connector_row \<Rightarrow> string \<Rightarrow> uuid option \<Rightarrow> ext_record
   \<Rightarrow> acceptance \<times> 'z ingest_store_scheme \<Rightarrow> acceptance \<times> 'z ingest_store_scheme" where
  "accept_one sha fresh org c ty job r = (\<lambda>(a, st).
     let key = dedupe_key sha (cr_provider c) ty r;
         outcome = (\<lambda>entry new. \<lparr>ao_external_id = er_external_id r, ao_updated_at = er_updated_at r,
                      ao_queue_entry = entry, ao_enqueued = new\<rparr>);
         st1 = st\<lparr>ingest_position := ingest_position st + 1\<rparr>
     in case find (\<lambda>q. iq_connector_id q = cr_id c \<and> iq_dedupe_key q = key) (ingestion st) of
          None \<Rightarrow>
            (\<lparr>ac_inserted = ac_inserted a + 1, ac_duplicate_deliveries = ac_duplicate_deliveries a,
              ac_outcomes = ac_outcomes a @ [outcome (Some fresh) True]\<rparr>,
             st1\<lparr>ingestion := ingestion st @
               [\<lparr>iq_id = fresh, iq_org_id = org, iq_connector_id = cr_id c,
                 iq_partition_key = twin_partition_key (cr_provider c) (if er_artifact_type r \<noteq> [] then er_artifact_type r else ty) (er_external_id r),
                 iq_entity_type = ty, iq_external_id = er_external_id r, iq_dedupe_key = key,
                 iq_payload = json_clone (record_value r), iq_position = ingest_position st, iq_status = ''pending'',
                 iq_attempts = 0, iq_last_error = None, iq_job_id = job,
                 iq_twin_id = None, iq_history = [], iq_claimed_by = None, iq_claim_expires_at = None, iq_next_attempt_at = None,
                 iq_completed_at = None\<rparr>]\<rparr>)
        | Some q \<Rightarrow>
            (\<lparr>ac_inserted = ac_inserted a,
              ac_duplicate_deliveries = (if iq_status q = ''completed'' then ac_duplicate_deliveries a + 1 else ac_duplicate_deliveries a),
              ac_outcomes = ac_outcomes a @ [outcome (Some (iq_id q)) False]\<rparr>, st1))"

fun accept_all ::
  "(string \<Rightarrow> string) \<Rightarrow> (nat \<Rightarrow> uuid) \<Rightarrow> string \<Rightarrow> connector_row \<Rightarrow> string \<Rightarrow> uuid option \<Rightarrow> ext_record list
   \<Rightarrow> acceptance \<times> 'z ingest_store_scheme \<Rightarrow> acceptance \<times> 'z ingest_store_scheme" where
  "accept_all sha ids org c ty job [] s = s"
| "accept_all sha ids org c ty job (r # rs) s =
     accept_all sha (\<lambda>n. ids (Suc n)) org c ty job rs (accept_one sha (ids 0) org c ty job r s)"

text \<open>The transaction: what \<open>advance\<close> refuses leaves nothing behind.\<close>

definition accept_records ::
  "(string \<Rightarrow> string) \<Rightarrow> (nat \<Rightarrow> uuid) \<Rightarrow> string \<Rightarrow> connector_row \<Rightarrow> string \<Rightarrow> ext_record list
   \<Rightarrow> (acceptance \<Rightarrow> 'z ingest_store_scheme \<Rightarrow> 'e + 'z ingest_store_scheme) \<Rightarrow> uuid option
   \<Rightarrow> 'z ingest_store_scheme \<Rightarrow> 'e + acceptance \<times> 'z ingest_store_scheme" where
  "accept_records sha ids org c ty records advance job st =
     (let (a, st1) = accept_all sha ids org c ty job records (no_acceptance, st)
      in and_then (advance a st1) (\<lambda>st2. Inr (a, st2)))"

subsection \<open>Every record once\<close>

definition queue_keys :: "'z ingest_store_scheme \<Rightarrow> (uuid \<times> string) list" where
  "queue_keys st = map (\<lambda>q. (iq_connector_id q, iq_dedupe_key q)) (ingestion st)"

definition keys_of :: "(string \<Rightarrow> string) \<Rightarrow> connector_row \<Rightarrow> string \<Rightarrow> ext_record list \<Rightarrow> (uuid \<times> string) set" where
  "keys_of sha c ty rs = (\<lambda>r. (cr_id c, dedupe_key sha (cr_provider c) ty r)) ` set rs"

lemma queue_length: "length (ingestion st) = length (queue_keys st)"
  by (simp add: queue_keys_def)

lemma find_queue_None:
  "find (\<lambda>q. iq_connector_id q = c \<and> iq_dedupe_key q = k) (ingestion st) = None \<longleftrightarrow> (c, k) \<notin> set (queue_keys st)"
  by (auto simp: find_None_iff queue_keys_def image_iff)

lemma accept_one_effect:
  assumes "accept_one sha fresh org c ty job r (a, st) = (a', st')"
  shows "set (queue_keys st') = insert (cr_id c, dedupe_key sha (cr_provider c) ty r) (set (queue_keys st))"
    and "distinct (queue_keys st) \<Longrightarrow> distinct (queue_keys st')"
    and "length (ac_outcomes a') = length (ac_outcomes a) + 1"
    and "ac_inserted a' - ac_inserted a = int (length (ingestion st')) - int (length (ingestion st))"
    and "\<exists>o'. ac_outcomes a' = ac_outcomes a @ [o'] \<and> ac_inserted a' = ac_inserted a + (if ao_enqueued o' then 1 else 0) \<and>
       (if ao_enqueued o' then \<exists>q. ingestion st' = ingestion st @ [q] \<and> ao_queue_entry o' = Some (iq_id q) \<and> iq_job_id q = job
        else ingestion st' = ingestion st)"
    and "domain_events st' = domain_events st" "integrity st' = integrity st" "outbox st' = outbox st"
      "connectors st' = connectors st" "ingest_store.more st' = ingest_store.more st"
  using assms find_queue_None [of "cr_id c" "dedupe_key sha (cr_provider c) ty r" st]
  by (auto simp: accept_one_def Let_def queue_keys_def image_iff dest: find_SomeD split: option.splits)

lemma accept_all_effect:
  assumes "accept_all sha ids org c ty job rs (a, st) = (a', st')"
  shows "set (queue_keys st') = set (queue_keys st) \<union> keys_of sha c ty rs"
    and "distinct (queue_keys st) \<Longrightarrow> distinct (queue_keys st')"
    and "length (ac_outcomes a') = length (ac_outcomes a) + length rs"
    and "ac_inserted a' - ac_inserted a = int (length (ingestion st')) - int (length (ingestion st))"
    and "domain_events st' = domain_events st" "integrity st' = integrity st" "outbox st' = outbox st"
      "connectors st' = connectors st" "ingest_store.more st' = ingest_store.more st"
proof -
  have "set (queue_keys st') = set (queue_keys st) \<union> keys_of sha c ty rs \<and>
    (distinct (queue_keys st) \<longrightarrow> distinct (queue_keys st')) \<and>
    length (ac_outcomes a') = length (ac_outcomes a) + length rs \<and>
    ac_inserted a' - ac_inserted a = int (length (ingestion st')) - int (length (ingestion st)) \<and>
    domain_events st' = domain_events st \<and> integrity st' = integrity st \<and> outbox st' = outbox st \<and>
    connectors st' = connectors st \<and> ingest_store.more st' = ingest_store.more st"
    using assms
  proof (induction rs arbitrary: ids a st)
    case (Cons r rs)
    obtain a1 st1 where one: "accept_one sha (ids 0) org c ty job r (a, st) = (a1, st1)" by fastforce
    note step = accept_one_effect [OF one]
    have "accept_all sha (\<lambda>n. ids (Suc n)) org c ty job rs (a1, st1) = (a', st')" using Cons.prems one by simp
    from Cons.IH [OF this] step(1-4,6-10) show ?case by (auto simp: keys_of_def)
  qed (auto simp: keys_of_def)
  then show "set (queue_keys st') = set (queue_keys st) \<union> keys_of sha c ty rs"
    "distinct (queue_keys st) \<Longrightarrow> distinct (queue_keys st')"
    "length (ac_outcomes a') = length (ac_outcomes a) + length rs"
    "ac_inserted a' - ac_inserted a = int (length (ingestion st')) - int (length (ingestion st))"
    "domain_events st' = domain_events st" "integrity st' = integrity st" "outbox st' = outbox st"
    "connectors st' = connectors st" "ingest_store.more st' = ingest_store.more st" by blast+
qed

text \<open>C23. Accepting a page queues every record content once: the queue gains exactly the new contents of the
  page, however often they occur in it, the count reported is their number, every record gets an
  outcome, and a page that was queued before, by whatever job, queues nothing again.\<close>

theorem each_record_queued_once:
  assumes "accept_records sha ids org c ty records advance job st = Inr (a, st')" "distinct (queue_keys st)"
    and "\<And>x s s'. advance x s = Inr s' \<Longrightarrow> ingestion s' = ingestion s"
  shows "distinct (queue_keys st') \<and> set (queue_keys st') = set (queue_keys st) \<union> keys_of sha c ty records \<and>
    ac_inserted a = int (card (keys_of sha c ty records - set (queue_keys st))) \<and>
    length (ac_outcomes a) = length records \<and>
    (keys_of sha c ty records \<subseteq> set (queue_keys st) \<longrightarrow> ac_inserted a = 0 \<and> ingestion st' = ingestion st)"
proof -
  obtain st1 where all: "accept_all sha ids org c ty job records (no_acceptance, st) = (a, st1)" and adv: "advance a st1 = Inr st'"
    using assms(1) by (auto simp: accept_records_def and_then_Inr split: prod.splits)
  note eff = accept_all_effect [OF all]
  have queue: "ingestion st' = ingestion st1" "queue_keys st' = queue_keys st1"
    using assms(3) [OF adv] by (simp_all add: queue_keys_def)
  have "ac_inserted a = int (card (set (queue_keys st1))) - int (card (set (queue_keys st)))"
    using eff(4) eff(2) [OF assms(2)] assms(2) by (simp add: queue_length distinct_card no_acceptance_def)
  also have "card (set (queue_keys st1)) = card (set (queue_keys st)) + card (keys_of sha c ty records - set (queue_keys st))"
    unfolding eff(1) by (subst Un_Diff_cancel [symmetric], subst card_Un_disjoint) (auto simp: keys_of_def)
  finally have count: "ac_inserted a = int (card (keys_of sha c ty records - set (queue_keys st)))" by simp
  have "ingestion st1 = ingestion st" if old: "keys_of sha c ty records \<subseteq> set (queue_keys st)"
  proof -
    have "accept_all sha ids org c ty job records (x, s) = (y, s') \<Longrightarrow> keys_of sha c ty records \<subseteq> set (queue_keys s) \<Longrightarrow>
        ingestion s' = ingestion s" for x y s s'
    proof (induction records arbitrary: ids x s)
      case (Cons r rs)
      obtain x1 s1 where one: "accept_one sha (ids 0) org c ty job r (x, s) = (x1, s1)" by fastforce
      have "ingestion s1 = ingestion s"
        using Cons.prems(2) one find_queue_None [of "cr_id c" "dedupe_key sha (cr_provider c) ty r" s]
        by (auto simp: accept_one_def keys_of_def Let_def split: option.splits)
      then have "queue_keys s1 = queue_keys s" by (simp add: queue_keys_def)
      with Cons one \<open>ingestion s1 = ingestion s\<close> show ?case by (auto simp: keys_of_def)
    qed simp
    then show ?thesis using all old by blast
  qed
  moreover have "card (keys_of sha c ty records - set (queue_keys st)) = 0" if "keys_of sha c ty records \<subseteq> set (queue_keys st)"
    using that by (metis Diff_eq_empty_iff card.empty)
  ultimately show ?thesis using eff(1-3) assms(2) count queue by (auto simp: no_acceptance_def)
qed

definition sample_connector :: connector_row where
  "sample_connector = \<lparr>cr_id = ''c1'', cr_org_id = ''o1'', cr_provider = ''jira'', cr_name = ''tracker'', cr_entity_types = [''issue''],
     cr_has_backfill = True, cr_activated_at = Some 0, cr_status = ''active'',
     cr_config = JObj [], cr_discovery = None, cr_updated_at = 0\<rparr>"

definition sample_record :: "string \<Rightarrow> ext_record" where
  "sample_record i = \<lparr>er_external_id = i, er_artifact_type = ''issue'', er_updated_at = ''0'', er_rest = []\<rparr>"

definition sample_ingest :: ingest_store where
  "sample_ingest = \<lparr>work_items = [], domain_events = [], audit_events = [], integrity = [], integrity_seq = 1, outbox = [], emitted = [],
     corr_nodes = [], corr_links = [], snapshots = [], connectors = [sample_connector],
     state_mappings = [], sync_transactions = [], field_mappings = [], twins = [], ingestion = [], ingest_position = 1\<rparr>"

lemma each_record_queued_once_witness:
  "\<exists>a st. accept_records sample_sha (\<lambda>n. replicate n CHR ''q'') ''o1'' sample_connector ''issue'' [sample_record ''1'', sample_record ''1'']
      (\<lambda>_ s. (Inr s :: unit + ingest_store)) None sample_ingest = Inr (a, st) \<and> ac_inserted a = 1"
proof -
  let ?rs = "[sample_record ''1'', sample_record ''1'']"
  obtain a st where "accept_all sample_sha (\<lambda>n. replicate n CHR ''q'') ''o1'' sample_connector ''issue'' None ?rs
      (no_acceptance, sample_ingest) = (a, st)" by (rule prod.exhaust)
  then have run: "accept_records sample_sha (\<lambda>n. replicate n CHR ''q'') ''o1'' sample_connector ''issue'' ?rs
      (\<lambda>_ s. (Inr s :: unit + ingest_store)) None sample_ingest = Inr (a, st)"
    by (simp add: accept_records_def del: accept_all.simps)
  have "ac_inserted a = int (card (keys_of sample_sha sample_connector ''issue'' ?rs - set (queue_keys sample_ingest)))"
    using each_record_queued_once [OF run] by (simp add: queue_keys_def sample_ingest_def)
  then show ?thesis using run by (simp add: keys_of_def queue_keys_def sample_ingest_def)
qed

end
