(* ===== verification/Backfill.thy ===== *)
theory Backfill
  imports BackfillPlan Ingestion
begin

text \<open>
  Governed historical backfill jobs: their lifecycle (\<^verbatim>\<open>backfill.service.ts\<close>) and their execution
  (\<^verbatim>\<open>backfill-runner.service.ts\<close>), both in \<^verbatim>\<open>src/modules/connectors/backfill\<close>.

  \<open>now\<close> is the instant of a call, for \<^verbatim>\<open>CURRENT_TIMESTAMP\<close> and \<^verbatim>\<open>Date.now()\<close> alike. \<open>race\<close> is what other
  requests commit between the reads of a call and its transaction. What a provider answers, and when,
  is an argument of the run.
\<close>

datatype job_status = JobPending | JobRunning | JobPaused | JobCompleted | JobCompletedWithErrors | JobCancelled

datatype chunk_status = ChunkPending | ChunkRunning | ChunkDone | ChunkFailed

fun job_status_text :: "job_status \<Rightarrow> string" where
  "job_status_text JobPending = ''pending''"
| "job_status_text JobRunning = ''running''"
| "job_status_text JobPaused = ''paused''"
| "job_status_text JobCompleted = ''completed''"
| "job_status_text JobCompletedWithErrors = ''completed_with_errors''"
| "job_status_text JobCancelled = ''cancelled''"

record bf_job =
  bj_id :: uuid
  bj_org_id :: string
  bj_connector_id :: uuid
  bj_name :: string
  bj_entity_type :: string
  bj_language :: "string option"
  bj_query :: "string option"
  bj_from :: time
  bj_to :: time
  bj_chunk_seconds :: jsval
  bj_status :: job_status
  bj_max_concurrency :: int
  bj_max_rpm :: int
  bj_limiter :: limiter_state
  bj_last_error :: "string option"
  bj_lease_owner :: "string option"
  bj_lease_expires_at :: "time option"
  bj_created_by :: string
  bj_created_at :: time
  bj_started_at :: "time option"
  bj_finished_at :: "time option"

record bf_chunk =
  bk_id :: uuid
  bk_job_id :: uuid
  bk_org_id :: string
  bk_seq :: nat
  bk_window_start :: time
  bk_window_end :: time
  bk_status :: chunk_status
  bk_attempts :: int
  bk_page_token :: "string option"
  bk_pages :: int
  bk_fetched :: int
  bk_enqueued :: int
  bk_duplicates :: int
  bk_last_error :: "string option"
  bk_next_attempt_at :: "time option"
  bk_updated_at :: time

record bf_record =
  br_job_id :: uuid
  br_org_id :: string
  br_chunk_seq :: nat
  br_external_id :: string
  br_updated_at :: string
  br_enqueued :: bool
  br_queue_entry :: "uuid option"
  br_recorded_at :: time

record bf_store = ingest_store +
  bf_jobs :: "bf_job list"
  bf_chunks :: "bf_chunk list"
  bf_records :: "bf_record list"

datatype bf_error =
    InvalidBackfill string
  | BackfillNotFound string
  | BackfillConflict string
  | NoConnector
  | NoRowReturned
  | BackfillDb db_error

subsection \<open>Reading jobs\<close>

definition any_uuid_pattern :: "string \<Rightarrow> bool" where
  "any_uuid_pattern s \<longleftrightarrow> (let parts = split_on (CHR ''-'') s
     in map length parts = [8, 4, 4, 4, 12] \<and> list_all (list_all hex_digit) parts)"

definition is_job :: "string \<Rightarrow> uuid \<Rightarrow> bf_job \<Rightarrow> bool" where
  "is_job org i j \<longleftrightarrow> bj_org_id j = org \<and> bj_id j = i"

definition job_row :: "string \<Rightarrow> uuid \<Rightarrow> 'z bf_store_scheme \<Rightarrow> bf_error + bf_job" where
  "job_row org i st =
     (if \<not> any_uuid_pattern i then Inl (BackfillNotFound ''Backfill job not found'')
      else case find (is_job org i) (bf_jobs st) of
        None \<Rightarrow> Inl (BackfillNotFound ''Backfill job not found'')
      | Some j \<Rightarrow> Inr j)"

definition chunks_of :: "string \<Rightarrow> uuid \<Rightarrow> 'z bf_store_scheme \<Rightarrow> bf_chunk list" where
  "chunks_of org i st = filter (\<lambda>k. bk_org_id k = org \<and> bk_job_id k = i) (bf_chunks st)"

record bf_counts =
  bo_total :: nat
  bo_pending :: nat
  bo_running :: nat
  bo_done :: nat
  bo_failed :: nat
  bo_fetched :: int
  bo_enqueued :: int
  bo_duplicates :: int
  bo_queue_queued :: nat
  bo_queue_processed :: nat
  bo_queue_failed :: nat

definition count_by :: "('a \<Rightarrow> bool) \<Rightarrow> 'a list \<Rightarrow> nat" where
  "count_by P xs = length (filter P xs)"

definition counts_of :: "string \<Rightarrow> uuid \<Rightarrow> 'z bf_store_scheme \<Rightarrow> bf_counts" where
  "counts_of org i st =
     (let ks = chunks_of org i st;
          qs = filter (\<lambda>q. iq_org_id q = org \<and> iq_job_id q = Some i) (ingestion st)
      in \<lparr>bo_total = length ks, bo_pending = count_by (\<lambda>k. bk_status k = ChunkPending) ks,
          bo_running = count_by (\<lambda>k. bk_status k = ChunkRunning) ks, bo_done = count_by (\<lambda>k. bk_status k = ChunkDone) ks,
          bo_failed = count_by (\<lambda>k. bk_status k = ChunkFailed) ks,
          bo_fetched = sum_list (map bk_fetched ks), bo_enqueued = sum_list (map bk_enqueued ks),
          bo_duplicates = sum_list (map bk_duplicates ks),
          bo_queue_queued = count_by (\<lambda>q. iq_status q \<in> {''pending'', ''retry'', ''processing''}) qs,
          bo_queue_processed = count_by (\<lambda>q. iq_status q = ''completed'') qs,
          bo_queue_failed = count_by (\<lambda>q. iq_status q = ''dead'') qs\<rparr>)"

definition get_job :: "string \<Rightarrow> uuid \<Rightarrow> 'z bf_store_scheme \<Rightarrow> bf_error + bf_job \<times> bf_counts" where
  "get_job org i st = and_then (job_row org i st) (\<lambda>j. Inr (j, counts_of (bj_org_id j) (bj_id j) st))"

definition list_jobs :: "string \<Rightarrow> 'z bf_store_scheme \<Rightarrow> (bf_job \<times> bf_counts) list" where
  "list_jobs org st =
     map (\<lambda>j. (j, counts_of (bj_org_id j) (bj_id j) st))
       (sort_key (\<lambda>j. - bj_created_at j) (sort_key bj_id (filter (\<lambda>j. bj_org_id j = org) (bf_jobs st))))"

definition list_chunks :: "string \<Rightarrow> uuid \<Rightarrow> 'z bf_store_scheme \<Rightarrow> bf_error + bf_chunk list" where
  "list_chunks org i st = and_then (job_row org i st) (\<lambda>_. Inr (sort_key bk_seq (chunks_of org i st)))"

subsection \<open>Events\<close>

definition job_event_payload :: "bf_job \<Rightarrow> jsobj" where
  "job_event_payload j =
     [(''job_id'', JStr (bj_id j)), (''connector_id'', JStr (bj_connector_id j)), (''name'', JStr (bj_name j)),
      (''entity_type'', JStr (bj_entity_type j)), (''from'', JStr (iso_string (bj_from j))), (''to'', JStr (iso_string (bj_to j))),
      (''chunk_seconds'', bj_chunk_seconds j), (''status'', JStr (job_status_text (bj_status j)))]"

definition job_event :: "string \<Rightarrow> string \<Rightarrow> string \<Rightarrow> string \<Rightarrow> uuid \<Rightarrow> jsobj \<Rightarrow> outbox_input" where
  "job_event ty org actor_type actor i payload =
     \<lparr>oi_event_type = ty, oi_work_item_id = i, oi_org_id = org, oi_actor_type = actor_type, oi_actor_id = actor,
      oi_payload = JObj payload, oi_schema_version = None, oi_event_id = None, oi_timestamp = None\<rparr>"

text \<open>The end of each transaction and the delivery after it.\<close>

definition announce ::
  "(string \<Rightarrow> string) \<Rightarrow> 'z bf_store_scheme handler \<Rightarrow> uuid \<Rightarrow> time \<Rightarrow> outbox_input \<Rightarrow> 'z bf_store_scheme
   \<Rightarrow> bf_error + 'z bf_store_scheme" where
  "announce sha pub fresh now i st =
     (case enqueue sha quiet fresh now i st of
        Inl e \<Rightarrow> Inl (BackfillDb e)
      | Inr (ev, st1) \<Rightarrow> Inr (snd (dispatch_envelope pub now ev st1)))"

subsection \<open>Planning a job\<close>

definition bf_text :: "jsval \<Rightarrow> string \<Rightarrow> nat \<Rightarrow> bf_error + string" where
  "bf_text v field most = (case v of
     JStr s \<Rightarrow>
       if trim s = [] then Inl (InvalidBackfill (field @ '' is required''))
       else if length (trim s) > most
         then Inl (InvalidBackfill (field @ '' must be at most '' @ show_nat most @ '' characters''))
       else Inr (trim s)
   | _ \<Rightarrow> Inl (InvalidBackfill (field @ '' is required'')))"

definition bf_instant :: "(string \<Rightarrow> time option) \<Rightarrow> jsval \<Rightarrow> string \<Rightarrow> bf_error + time" where
  "bf_instant date_parse v field =
     (case (case v of JStr s \<Rightarrow> date_parse s | _ \<Rightarrow> None) of
        None \<Rightarrow> Inl (InvalidBackfill (field @ '' must be an ISO-8601 timestamp'')) | Some t \<Rightarrow> Inr t)"

definition bf_bounded :: "jsval \<Rightarrow> int \<Rightarrow> int \<Rightarrow> int \<Rightarrow> string \<Rightarrow> bf_error + int" where
  "bf_bounded v fallback lo hi field =
     (if v = JUndef \<or> v = JNull then Inr fallback
      else case js_integer v of
        Some n \<Rightarrow> if n < lo \<or> n > hi
          then Inl (InvalidBackfill (field @ '' must be a whole number between '' @ show_int lo @ '' and '' @ show_int hi)) else Inr n
      | None \<Rightarrow> Inl (InvalidBackfill (field @ '' must be a whole number between '' @ show_int lo @ '' and '' @ show_int hi)))"

text \<open>\<open>!String(v).trim()\<close>: only blank strings, and arrays that print as one, are blank.\<close>

fun blank_text :: "jsval \<Rightarrow> bool" where
  "blank_text (JStr s) = (trim s = [])"
| "blank_text (JArr []) = True"
| "blank_text (JArr [v]) = (v = JUndef \<or> v = JNull \<or> blank_text v)"
| "blank_text _ = False"

definition provider_language :: "string \<Rightarrow> string option" where
  "provider_language p = (if p = ''jira'' then Some ''jql'' else if p = ''servicenow'' then Some ''encoded'' else None)"

text \<open>\<open>validate l q\<close> is the first error of the native query validator, if any.\<close>

definition bf_query :: "(string \<Rightarrow> string \<Rightarrow> string option) \<Rightarrow> string \<Rightarrow> jsval \<Rightarrow> bf_error + string option" where
  "bf_query validate language v =
     (if v = JUndef \<or> v = JNull \<or> blank_text v then Inr None
      else and_then (bf_text v ''query'' 100000) (\<lambda>q.
        case validate language q of
          Some e \<Rightarrow> Inl (InvalidBackfill (''Cannot plan: '' @ e))
        | None \<Rightarrow> Inr (Some q)))"

record job_plan =
  jp_name :: string
  jp_entity_type :: string
  jp_connector :: connector_row
  jp_language :: string
  jp_query :: "string option"
  jp_chunk_seconds :: jsval
  jp_chunks :: "planned_chunk list"
  jp_max_concurrency :: int
  jp_max_rpm :: int

definition lift_plan :: "string + 'a \<Rightarrow> bf_error + 'a" where
  "lift_plan r = (case r of Inl e \<Rightarrow> Inl (InvalidBackfill e) | Inr x \<Rightarrow> Inr x)"

definition plan_job ::
  "(string \<Rightarrow> string \<Rightarrow> string option) \<Rightarrow> (string \<Rightarrow> time option) \<Rightarrow> time \<Rightarrow> string \<Rightarrow> jsval \<Rightarrow> 'z bf_store_scheme
   \<Rightarrow> bf_error + job_plan" where
  "plan_job validate date_parse now org dto st =
     and_then (bf_text (jprop dto ''name'') ''name'' 160) (\<lambda>name.
     and_then (bf_text (jprop dto ''entity_type'') ''entity_type'' 80) (\<lambda>ty.
       case jprop dto ''connector_id'' of
         JStr cid \<Rightarrow>
           if \<not> any_uuid_pattern cid then Inl (InvalidBackfill ''connector_id must be a connector UUID'')
           else (case find_connector org cid st of
             None \<Rightarrow> Inl NoConnector
           | Some c \<Rightarrow>
             (case provider_language (cr_provider c) of
               None \<Rightarrow> Inl (InvalidBackfill (''Historical backfill is supported for Jira and ServiceNow connectors; '' @
                 cr_provider c @ '' has no backfill adapter.''))
             | Some language \<Rightarrow>
               if \<not> cr_has_backfill c then Inl (InvalidBackfill (''Historical backfill is supported for Jira and ServiceNow connectors; '' @
                 cr_provider c @ '' has no backfill adapter.''))
               else if cr_activated_at c = None
                 then Inl (BackfillConflict ''The connector must be discovered and activated before a backfill can be planned'')
               else if ty \<notin> set (cr_entity_types c)
                 then Inl (InvalidBackfill (''entity_type '' @ [CHR 0x27] @ ty @ [CHR 0x27] @ '' is not configured on this connector (available: '' @
                   join '', '' (cr_entity_types c) @ '')''))
               else
                 and_then (bf_query validate language (jprop dto ''query'')) (\<lambda>q.
                 and_then (bf_instant date_parse (jprop dto ''from'') ''from'') (\<lambda>f.
                 and_then (if jprop dto ''to'' = JUndef \<or> jprop dto ''to'' = JNull then Inr (floor_to_minute now)
                           else bf_instant date_parse (jprop dto ''to'') ''to'') (\<lambda>t.
                   if t > now + 60000
                   then Inl (InvalidBackfill ''to cannot be in the future; a backfill reads history that already exists'')
                   else (let secs = (if jprop dto ''chunk_seconds'' = JUndef then JInt default_chunk_seconds else jprop dto ''chunk_seconds'') in
                     and_then (lift_plan (plan_chunks (Some f) (Some t) secs)) (\<lambda>chunks.
                     and_then (bf_bounded (jprop dto ''max_concurrency'') 4 1 8 ''max_concurrency'') (\<lambda>mc.
                     and_then (bf_bounded (jprop dto ''max_requests_per_minute'') 300 1 6000 ''max_requests_per_minute'') (\<lambda>rpm.
                       Inr \<lparr>jp_name = name, jp_entity_type = ty, jp_connector = c, jp_language = language, jp_query = q,
                            jp_chunk_seconds = secs, jp_chunks = chunks, jp_max_concurrency = mc, jp_max_rpm = rpm\<rparr>)))))))))
       | _ \<Rightarrow> Inl (InvalidBackfill ''connector_id must be a connector UUID'')))"

definition new_job :: "uuid \<Rightarrow> time \<Rightarrow> string \<Rightarrow> string \<Rightarrow> job_plan \<Rightarrow> bf_job" where
  "new_job i now org actor p =
     \<lparr>bj_id = i, bj_org_id = org, bj_connector_id = cr_id (jp_connector p), bj_name = jp_name p, bj_entity_type = jp_entity_type p,
      bj_language = (case jp_query p of None \<Rightarrow> None | Some _ \<Rightarrow> Some (jp_language p)), bj_query = jp_query p,
      bj_from = pc_start (hd (jp_chunks p)), bj_to = pc_end (last (jp_chunks p)), bj_chunk_seconds = jp_chunk_seconds p,
      bj_status = JobPending, bj_max_concurrency = jp_max_concurrency p, bj_max_rpm = jp_max_rpm p,
      bj_limiter = \<lparr>ls_concurrency = 1, ls_delay_ms = 0, ls_throttle_events = 0\<rparr>, bj_last_error = None,
      bj_lease_owner = None, bj_lease_expires_at = None, bj_created_by = actor, bj_created_at = now,
      bj_started_at = None, bj_finished_at = None\<rparr>"

definition new_chunk :: "uuid \<Rightarrow> uuid \<Rightarrow> string \<Rightarrow> time \<Rightarrow> planned_chunk \<Rightarrow> bf_chunk" where
  "new_chunk i job org now c =
     \<lparr>bk_id = i, bk_job_id = job, bk_org_id = org, bk_seq = pc_seq c, bk_window_start = pc_start c, bk_window_end = pc_end c,
      bk_status = ChunkPending, bk_attempts = 0, bk_page_token = None, bk_pages = 0, bk_fetched = 0, bk_enqueued = 0,
      bk_duplicates = 0, bk_last_error = None, bk_next_attempt_at = None, bk_updated_at = now\<rparr>"

definition create_job ::
  "(string \<Rightarrow> string) \<Rightarrow> 'z bf_store_scheme handler \<Rightarrow> (string \<Rightarrow> string \<Rightarrow> string option) \<Rightarrow> (string \<Rightarrow> time option)
   \<Rightarrow> (nat \<Rightarrow> uuid) \<Rightarrow> time \<Rightarrow> string \<Rightarrow> jsval \<Rightarrow> string \<Rightarrow> 'z bf_store_scheme
   \<Rightarrow> bf_error + (bf_job \<times> bf_counts) \<times> 'z bf_store_scheme" where
  "create_job sha pub validate date_parse ids now org dto actor st =
     and_then (plan_job validate date_parse now org dto st) (\<lambda>p.
       let j = new_job (ids 0) now org actor p;
           ks = map (\<lambda>(n, c). new_chunk (ids (n + 2)) (bj_id j) org now c) (List.enumerate 0 (jp_chunks p))
       in and_then (announce sha pub (ids 1) now
            (job_event ''BackfillJobCreated'' org ''user'' actor (bj_id j)
              (job_event_payload j @ [(''chunk_count'', JInt (int (length (jp_chunks p))))]))
            (st\<lparr>bf_jobs := bf_jobs st @ [j], bf_chunks := bf_chunks st @ ks\<rparr>)) (\<lambda>st1.
          Inr ((j, counts_of org (bj_id j) st1), st1)))"

subsection \<open>The lifecycle\<close>

definition moved_job :: "time \<Rightarrow> job_status \<Rightarrow> bf_job \<Rightarrow> bf_job" where
  "moved_job now s j = j\<lparr>bj_status := s,
     bj_started_at := (if s = JobRunning then (case bj_started_at j of None \<Rightarrow> Some now | Some t \<Rightarrow> Some t) else bj_started_at j),
     bj_finished_at := (if s = JobCancelled then Some now else bj_finished_at j),
     bj_lease_owner := (if s = JobRunning \<or> s = JobPaused then bj_lease_owner j else None),
     bj_lease_expires_at := (if s = JobRunning \<or> s = JobPaused then bj_lease_expires_at j else None)\<rparr>"

definition transition_job ::
  "(string \<Rightarrow> string) \<Rightarrow> 'z bf_store_scheme handler \<Rightarrow> uuid \<Rightarrow> time \<Rightarrow> string \<Rightarrow> uuid \<Rightarrow> string \<Rightarrow> job_status list \<Rightarrow> job_status
   \<Rightarrow> string \<Rightarrow> string \<Rightarrow> 'z bf_store_scheme \<Rightarrow> bf_error + (bf_job \<times> bf_counts) \<times> 'z bf_store_scheme" where
  "transition_job sha pub fresh now org i actor from_s to_s ty refusal st =
     (case find (\<lambda>j. is_job org i j \<and> bj_status j \<in> set from_s) (bf_jobs st) of
        None \<Rightarrow> Inl (BackfillConflict refusal)
      | Some j \<Rightarrow>
          and_then (announce sha pub fresh now (job_event ty org ''user'' actor i (job_event_payload (moved_job now to_s j)))
              (st\<lparr>bf_jobs := update_where (\<lambda>j. is_job org i j \<and> bj_status j \<in> set from_s) (moved_job now to_s) (bf_jobs st)\<rparr>)) (\<lambda>st1.
            Inr ((moved_job now to_s j, counts_of org i st1), st1)))"

definition assert_no_other_active :: "string \<Rightarrow> uuid \<Rightarrow> uuid \<Rightarrow> 'z bf_store_scheme \<Rightarrow> bf_error + unit" where
  "assert_no_other_active org connector except st =
     (case find (\<lambda>j. bj_org_id j = org \<and> bj_connector_id j = connector \<and> bj_status j = JobRunning \<and> bj_id j \<noteq> except) (bf_jobs st) of
        None \<Rightarrow> Inr ()
      | Some j \<Rightarrow> Inl (BackfillConflict (''Backfill job '' @ [CHR 0x27] @ bj_name j @ [CHR 0x27] @
          '' is already running on this connector; pause or finish it first so the provider is not loaded twice'')))"

definition activate_job ::
  "(string \<Rightarrow> string) \<Rightarrow> 'z bf_store_scheme handler \<Rightarrow> ('z bf_store_scheme \<Rightarrow> 'z bf_store_scheme) \<Rightarrow> uuid \<Rightarrow> time \<Rightarrow> string \<Rightarrow> uuid \<Rightarrow> string
   \<Rightarrow> job_status list \<Rightarrow> string \<Rightarrow> string \<Rightarrow> 'z bf_store_scheme \<Rightarrow> bf_error + (bf_job \<times> bf_counts) \<times> 'z bf_store_scheme" where
  "activate_job sha pub race fresh now org i actor from_s ty refusal st =
     and_then (job_row org i st) (\<lambda>j.
       if bj_status j \<notin> set from_s then Inl (BackfillConflict refusal)
       else and_then (assert_no_other_active org (bj_connector_id j) i st) (\<lambda>_.
         transition_job sha pub fresh now org i actor from_s JobRunning ty refusal (race st)))"

definition start_job where
  "start_job sha pub race fresh now org i actor =
     activate_job sha pub race fresh now org i actor [JobPending] ''BackfillJobStarted'' ''Only a pending job can be started''"

definition resume_job where
  "resume_job sha pub race fresh now org i actor =
     activate_job sha pub race fresh now org i actor [JobPaused] ''BackfillJobResumed'' ''Only a paused job can be resumed''"

definition pause_job where
  "pause_job sha pub fresh now org i actor =
     transition_job sha pub fresh now org i actor [JobRunning] JobPaused ''BackfillJobPaused'' ''Only a running job can be paused''"

definition cancel_job where
  "cancel_job sha pub fresh now org i actor =
     transition_job sha pub fresh now org i actor [JobPending, JobRunning, JobPaused] JobCancelled ''BackfillJobCancelled''
       ''Only an unfinished job can be cancelled''"

definition reset_chunk :: "time \<Rightarrow> bf_chunk \<Rightarrow> bf_chunk" where
  "reset_chunk now k = k\<lparr>bk_status := ChunkPending, bk_attempts := 0, bk_next_attempt_at := None, bk_last_error := None, bk_updated_at := now\<rparr>"

definition retried_job :: "bf_job \<Rightarrow> bf_job" where
  "retried_job j = j\<lparr>bj_status := (if bj_status j = JobPaused then JobPaused else JobRunning),
     bj_finished_at := None, bj_last_error := None\<rparr>"

definition retry_failed ::
  "(string \<Rightarrow> string) \<Rightarrow> 'z bf_store_scheme handler \<Rightarrow> ('z bf_store_scheme \<Rightarrow> 'z bf_store_scheme) \<Rightarrow> uuid \<Rightarrow> time \<Rightarrow> string \<Rightarrow> uuid \<Rightarrow> string
   \<Rightarrow> 'z bf_store_scheme \<Rightarrow> bf_error + (bf_job \<times> bf_counts) \<times> 'z bf_store_scheme" where
  "retry_failed sha pub race fresh now org i actor st =
     and_then (get_job org i st) (\<lambda>(j, counts).
       if bj_status j \<notin> {JobCompletedWithErrors, JobRunning, JobPaused}
       then Inl (BackfillConflict ''Only a job with failed chunks can retry them'')
       else if bo_failed counts = 0 then Inl (BackfillConflict ''This job has no failed chunks'')
       else and_then (if bj_status j = JobCompletedWithErrors then assert_no_other_active org (bj_connector_id j) (bj_id j) st else Inr ()) (\<lambda>_.
         let st1 = race st;
             st2 = st1\<lparr>bf_chunks := update_where (\<lambda>k. bk_org_id k = org \<and> bk_job_id k = i \<and> bk_status k = ChunkFailed) (reset_chunk now) (bf_chunks st1),
                       bf_jobs := update_where (is_job org i) retried_job (bf_jobs st1)\<rparr>
         in case find (is_job org i) (bf_jobs st2) of
              None \<Rightarrow> Inl NoRowReturned
            | Some u \<Rightarrow>
                and_then (announce sha pub fresh now
                    (job_event ''BackfillFailedChunksRetried'' org ''user'' actor i
                      (job_event_payload u @ [(''retried_chunks'', JInt (int (bo_failed counts)))])) st2) (\<lambda>st3.
                  Inr ((u, counts_of org i st3), st3))))"

subsection \<open>The audit report\<close>

definition iso_cell :: "time \<Rightarrow> csv_value" where
  "iso_cell t = CsvString (iso_string t)"

definition int_cell :: "int \<Rightarrow> csv_value" where
  "int_cell n = CsvPrinted (show_int n)"

definition opt_cell :: "string option \<Rightarrow> csv_value" where
  "opt_cell x = CsvString (case x of None \<Rightarrow> [] | Some s \<Rightarrow> s)"

definition report_header :: "string list" where
  "report_header = [''job_id'', ''job_name'', ''chunk'', ''window_start'', ''window_end'', ''external_id'', ''native_key'', ''twin_id'',
     ''record_updated_at'', ''outcome'', ''queue_status'', ''attempts'', ''error'', ''recorded_at'']"

text \<open>\<open>linked\<close> are the key and the id of the twins a record of the connector is linked to.\<close>

definition record_rows ::
  "(uuid \<Rightarrow> string \<Rightarrow> (string option \<times> uuid) list) \<Rightarrow> bf_job \<Rightarrow> 'z bf_store_scheme \<Rightarrow> bf_record \<Rightarrow> csv_value list list" where
  "record_rows linked j st r =
     (let q = (case br_queue_entry r of None \<Rightarrow> None | Some e \<Rightarrow> find (\<lambda>q. iq_id q = e) (ingestion st));
          ts = (case linked (bj_connector_id j) (br_external_id r) of [] \<Rightarrow> [None] | xs \<Rightarrow> map Some xs)
      in concat (map (\<lambda>k. map (\<lambda>t.
           [CsvString (bj_id j), CsvString (bj_name j), int_cell (int (br_chunk_seq r)), iso_cell (bk_window_start k), iso_cell (bk_window_end k),
            CsvString (br_external_id r), opt_cell (case t of None \<Rightarrow> None | Some (key, _) \<Rightarrow> key), opt_cell (map_option snd t),
            CsvString (br_updated_at r), CsvString (if br_enqueued r then ''enqueued'' else ''duplicate''), opt_cell (map_option iq_status q),
            (case q of None \<Rightarrow> CsvString [] | Some x \<Rightarrow> int_cell (iq_attempts x)),
            opt_cell (case q of None \<Rightarrow> None | Some x \<Rightarrow> iq_last_error x), iso_cell (br_recorded_at r)]) ts)
         (filter (\<lambda>k. bk_job_id k = br_job_id r \<and> bk_seq k = br_chunk_seq r) (bf_chunks st))))"

definition failed_row :: "bf_job \<Rightarrow> bf_chunk \<Rightarrow> csv_value list" where
  "failed_row j k =
     [CsvString (bj_id j), CsvString (bj_name j), int_cell (int (bk_seq k)), iso_cell (bk_window_start k), iso_cell (bk_window_end k),
      CsvString [], CsvString [], CsvString [], CsvString [], CsvString ''chunk_failed'', CsvString [], int_cell (bk_attempts k),
      opt_cell (bk_last_error k), iso_cell (bk_updated_at k)]"

definition report_rows ::
  "(uuid \<Rightarrow> string \<Rightarrow> (string option \<times> uuid) list) \<Rightarrow> string \<Rightarrow> bf_job \<Rightarrow> 'z bf_store_scheme \<Rightarrow> csv_value list list" where
  "report_rows linked org j st =
     concat (map (record_rows linked j st) (filter (\<lambda>r. br_org_id r = org \<and> br_job_id r = bj_id j) (bf_records st))) @
     map (failed_row j) (sort_key bk_seq (filter (\<lambda>k. bk_status k = ChunkFailed) (chunks_of org (bj_id j) st)))"

definition report_job ::
  "(string \<Rightarrow> string) \<Rightarrow> 'z bf_store_scheme handler \<Rightarrow> (uuid \<Rightarrow> string \<Rightarrow> (string option \<times> uuid) list) \<Rightarrow> uuid \<Rightarrow> time \<Rightarrow> string \<Rightarrow> uuid
   \<Rightarrow> string \<Rightarrow> 'z bf_store_scheme \<Rightarrow> bf_error + (string \<times> nat \<times> string) \<times> 'z bf_store_scheme" where
  "report_job sha pub linked fresh now org i actor st =
     and_then (get_job org i st) (\<lambda>(j, _).
       let rows = report_rows linked org j st
       in and_then (announce sha pub fresh now
            (job_event ''BackfillReportExported'' org ''user'' actor i (job_event_payload j @ [(''rows'', JInt (int (length rows)))])) st) (\<lambda>st1.
          Inr ((to_csv report_header rows, length rows, ''backfill-'' @ bj_id j @ ''.csv''), st1)))"

subsection \<open>One page of one chunk\<close>

definition job_lease_ms :: int where
  "job_lease_ms = 2 * 60000"

definition max_chunk_attempts :: int where
  "max_chunk_attempts = 5"

definition max_backoff_ms :: rat where
  "max_backoff_ms = 60000"

text \<open>What reading a page comes to: a page and the token of the next one, a refusal before any request
  while load is shed, a failure of the provider, or any other error.\<close>

datatype fetch_reply =
    FetchedPage "ext_record list" "string option"
  | LoadShed time string
  | RemoteFailure bool "rat option" string
  | OtherFailure string

definition update_chunk :: "uuid \<Rightarrow> (bf_chunk \<Rightarrow> bf_chunk) \<Rightarrow> 'z bf_store_scheme \<Rightarrow> 'z bf_store_scheme" where
  "update_chunk i f st = st\<lparr>bf_chunks := update_where (\<lambda>k. bk_id k = i) f (bf_chunks st)\<rparr>"

definition backoff_ms :: "rat option \<Rightarrow> int \<Rightarrow> rat" where
  "backoff_ms retry_after attempts =
     min max_backoff_ms (max ((case retry_after of None \<Rightarrow> 0 | Some s \<Rightarrow> s) * 1000) (500 * 2 ^ nat (attempts - 1)))"

definition failed_attempt :: "time \<Rightarrow> int \<Rightarrow> bool \<Rightarrow> rat option \<Rightarrow> string \<Rightarrow> bf_chunk \<Rightarrow> bf_chunk" where
  "failed_attempt now attempts transient retry_after message k =
     (let give_up = \<not> transient \<or> attempts \<ge> max_chunk_attempts
      in k\<lparr>bk_status := (if give_up then ChunkFailed else ChunkPending), bk_attempts := attempts, bk_last_error := Some message,
          bk_next_attempt_at := (if give_up then None else Some \<lfloor>of_int now + backoff_ms (if transient then retry_after else None) attempts\<rfloor>),
          bk_updated_at := now\<rparr>)"

definition deferred :: "time \<Rightarrow> time \<Rightarrow> string \<Rightarrow> bf_chunk \<Rightarrow> bf_chunk" where
  "deferred now until_t message k =
     k\<lparr>bk_status := ChunkPending, bk_last_error := Some (take 500 (''Deferred: '' @ message)),
       bk_next_attempt_at := Some until_t, bk_updated_at := now\<rparr>"

text \<open>\<open>k\<close> is the chunk as the round read it.\<close>

fun record_chunk_failure ::
  "time \<Rightarrow> bf_chunk \<Rightarrow> fetch_reply \<Rightarrow> limiter \<times> 'z bf_store_scheme \<Rightarrow> limiter \<times> 'z bf_store_scheme" where
  "record_chunk_failure now k (LoadShed until_t m) (l, st) =
     (l, update_chunk (bk_id k) (deferred now until_t (take 500 m)) st)"
| "record_chunk_failure now k (RemoteFailure retryable retry_after m) (l, st) =
     (if retryable then on_throttle retry_after l else l,
      update_chunk (bk_id k) (failed_attempt now (bk_attempts k + 1) retryable retry_after (take 500 m)) st)"
| "record_chunk_failure now k (OtherFailure m) (l, st) =
     (l, update_chunk (bk_id k) (failed_attempt now (bk_attempts k + 1) False None (take 500 m)) st)"
| "record_chunk_failure now k (FetchedPage _ _) s = s"

definition page_done :: "time \<Rightarrow> int \<Rightarrow> string option \<Rightarrow> acceptance \<Rightarrow> bf_chunk \<Rightarrow> bf_chunk" where
  "page_done now fetched token a k =
     k\<lparr>bk_status := (if or_null token = None then ChunkDone else ChunkPending), bk_page_token := token,
       bk_pages := bk_pages k + 1, bk_fetched := bk_fetched k + fetched, bk_enqueued := bk_enqueued k + ac_inserted a,
       bk_duplicates := bk_duplicates k + (int (length (ac_outcomes a)) - ac_inserted a),
       bk_attempts := 0, bk_last_error := None, bk_next_attempt_at := None, bk_updated_at := now\<rparr>"

definition ledger_row :: "time \<Rightarrow> bf_job \<Rightarrow> nat \<Rightarrow> accept_outcome \<Rightarrow> bf_record" where
  "ledger_row now j seq a =
     \<lparr>br_job_id = bj_id j, br_org_id = bj_org_id j, br_chunk_seq = seq, br_external_id = ao_external_id a,
      br_updated_at = ao_updated_at a, br_enqueued = ao_enqueued a, br_queue_entry = or_null (ao_queue_entry a), br_recorded_at = now\<rparr>"

text \<open>The progress update that commits with the page; \<open>Inl\<close> is the lost lease.\<close>

definition advance_chunk ::
  "time \<Rightarrow> bf_job \<Rightarrow> string \<Rightarrow> bf_chunk \<Rightarrow> int \<Rightarrow> string option \<Rightarrow> acceptance \<Rightarrow> 'z bf_store_scheme \<Rightarrow> unit + 'z bf_store_scheme" where
  "advance_chunk now j owner k fetched token a st =
     (if \<not> (\<exists>x \<in> set (bf_jobs st). bj_id x = bj_id j \<and> bj_lease_owner x = Some owner \<and> bj_status x \<in> {JobRunning, JobPaused})
      then Inl ()
      else Inr (update_chunk (bk_id k) (page_done now fetched token a)
             (st\<lparr>bf_records := bf_records st @ map (ledger_row now j (bk_seq k)) (ac_outcomes a)\<rparr>)))"

definition release_chunk :: "bf_chunk \<Rightarrow> bf_chunk" where
  "release_chunk k = (if bk_status k = ChunkRunning then k\<lparr>bk_status := ChunkPending\<rparr> else k)"

definition chunk_step ::
  "(string \<Rightarrow> string) \<Rightarrow> (nat \<Rightarrow> uuid) \<Rightarrow> time \<Rightarrow> bf_job \<Rightarrow> string \<Rightarrow> connector_row \<Rightarrow> bf_chunk \<Rightarrow> fetch_reply
   \<Rightarrow> limiter \<times> 'z bf_store_scheme \<Rightarrow> (int \<times> int) \<times> limiter \<times> 'z bf_store_scheme" where
  "chunk_step sha ids now j owner c k reply = (\<lambda>(l, st).
     case reply of
       FetchedPage rs token \<Rightarrow>
         (case accept_records sha ids (bj_org_id j) c (bj_entity_type j) rs
                 (advance_chunk now j owner k (int (length rs)) token) (Some (bj_id j)) st of
            Inr (a, st1) \<Rightarrow> ((1, ac_inserted a), on_success l, st1)
          | Inl _ \<Rightarrow> ((0, 0), l, update_chunk (bk_id k) release_chunk st))
     | _ \<Rightarrow> ((0, 0), record_chunk_failure now k reply (l, st)))"

subsection \<open>Rounds\<close>

text \<open>
  One turn of the loop as the world has it: when it begins and ends, what each chunk's request comes to
  and when, in which order the requests complete, which ids the commits draw, and what operators, the
  drain of the queue and other workers commit before each completion and after the last.
\<close>

record 's bf_round =
  rd_now :: time
  rd_replies :: "uuid \<Rightarrow> time \<times> fetch_reply"
  rd_order :: "bf_chunk list \<Rightarrow> bf_chunk list"
  rd_ids :: "nat \<Rightarrow> nat \<Rightarrow> uuid"
  rd_world :: "nat \<Rightarrow> 's \<Rightarrow> 's"
  rd_end :: time

record run_summary =
  su_chunks_run :: int
  su_pages :: int
  su_enqueued :: int

definition due_chunks :: "time \<Rightarrow> uuid \<Rightarrow> int \<Rightarrow> 'z bf_store_scheme \<Rightarrow> bf_chunk list" where
  "due_chunks now i n st =
     take (nat n) (sort_key (\<lambda>k. if bk_pages k > 0 then 0 else (1 :: nat)) (sort_key bk_seq
       (filter (\<lambda>k. bk_job_id k = i \<and> bk_status k = ChunkPending \<and>
          (case bk_next_attempt_at k of None \<Rightarrow> True | Some t \<Rightarrow> t \<le> now)) (bf_chunks st))))"

fun run_steps ::
  "(string \<Rightarrow> string) \<Rightarrow> 'z bf_store_scheme bf_round \<Rightarrow> bf_job \<Rightarrow> string \<Rightarrow> connector_row \<Rightarrow> nat \<Rightarrow> bf_chunk list
   \<Rightarrow> run_summary \<times> limiter \<times> 'z bf_store_scheme \<Rightarrow> run_summary \<times> limiter \<times> 'z bf_store_scheme" where
  "run_steps sha r j owner c n [] s = s"
| "run_steps sha r j owner c n (k # ks) (su, l, st) =
     (let (t, reply) = rd_replies r (bk_id k);
          ((pages, new), l1, st1) = chunk_step sha (rd_ids r n) t j owner c k reply (l, rd_world r n st)
      in run_steps sha r j owner c (Suc n) ks
           (su\<lparr>su_pages := su_pages su + pages, su_enqueued := su_enqueued su + new\<rparr>, l1, st1))"

definition save_limiter :: "bf_job \<Rightarrow> string \<Rightarrow> limiter \<Rightarrow> 'z bf_store_scheme \<Rightarrow> 'z bf_store_scheme" where
  "save_limiter j owner l st =
     st\<lparr>bf_jobs := update_where (\<lambda>x. bj_id x = bj_id j \<and> bj_lease_owner x = Some owner)
        (\<lambda>x. x\<lparr>bj_limiter := limiter_snapshot l\<rparr>) (bf_jobs st)\<rparr>"

definition renew_lease :: "time \<Rightarrow> bf_job \<Rightarrow> string \<Rightarrow> 'z bf_store_scheme \<Rightarrow> 'z bf_store_scheme" where
  "renew_lease now j owner st =
     st\<lparr>bf_jobs := update_where (\<lambda>x. bj_id x = bj_id j \<and> bj_lease_owner x = Some owner)
        (\<lambda>x. x\<lparr>bj_lease_expires_at := Some (now + job_lease_ms)\<rparr>) (bf_jobs st)\<rparr>"

definition mark_running :: "time \<Rightarrow> bf_chunk list \<Rightarrow> 'z bf_store_scheme \<Rightarrow> 'z bf_store_scheme" where
  "mark_running now ks st =
     st\<lparr>bf_chunks := update_where (\<lambda>k. bk_id k \<in> bk_id ` set ks) (\<lambda>k. k\<lparr>bk_status := ChunkRunning, bk_updated_at := now\<rparr>) (bf_chunks st)\<rparr>"

text \<open>\<open>MIN\<close> skips nulls, and the date of a null is the epoch.\<close>

definition soonest :: "bf_chunk list \<Rightarrow> time" where
  "soonest ks = (case List.map_filter bk_next_attempt_at ks of [] \<Rightarrow> 0 | t # ts \<Rightarrow> foldr min ts t)"

text \<open>The loop of \<open>execute\<close>, over the rounds the world allows it.\<close>

fun work_job ::
  "(string \<Rightarrow> string) \<Rightarrow> bf_job \<Rightarrow> string \<Rightarrow> connector_row \<Rightarrow> time \<Rightarrow> 'z bf_store_scheme bf_round list
   \<Rightarrow> run_summary \<times> limiter \<times> 'z bf_store_scheme \<Rightarrow> run_summary \<times> limiter \<times> 'z bf_store_scheme" where
  "work_job sha j owner c deadline [] s = s"
| "work_job sha j owner c deadline (r # rs) (su, l, st) =
     (if \<not> (\<exists>x \<in> set (bf_jobs st). bj_id x = bj_id j \<and> bj_lease_owner x = Some owner \<and> bj_status x = JobRunning)
      then (su, l, st)
      else (let st1 = renew_lease (rd_now r) j owner st;
                due = due_chunks (rd_now r) (bj_id j) (li_concurrency l) st1
            in if due = [] then
                 (let waiting = filter (\<lambda>k. bk_job_id k = bj_id j \<and> bk_status k = ChunkPending) (bf_chunks st1)
                  in if waiting = [] \<or> soonest waiting \<ge> deadline then (su, l, st1)
                     else work_job sha j owner c deadline rs (su, l, rd_world r 0 st1))
               else
                 (let (su1, l1, st2) = run_steps sha r j owner c 0 (rd_order r due)
                        (su\<lparr>su_chunks_run := su_chunks_run su + int (length due)\<rparr>, l, mark_running (rd_now r) due st1);
                      st3 = rd_world r (length due) (save_limiter j owner l1 st2)
                  in if rd_end r \<ge> deadline then (su1, l1, st3) else work_job sha j owner c deadline rs (su1, l1, st3))))"

subsection \<open>Runs\<close>

datatype run_status = RunJob job_status | RunWaiting | RunBusy | RunGone

record run_result =
  ru_job_id :: uuid
  ru_status :: run_status
  ru_summary :: run_summary
  ru_message :: "string option"

definition zero_run :: run_summary where
  "zero_run = \<lparr>su_chunks_run = 0, su_pages = 0, su_enqueued = 0\<rparr>"

definition counts_json :: "bf_counts \<Rightarrow> jsval" where
  "counts_json n = JObj
     [(''chunks'', JObj [(''total'', JInt (int (bo_total n))), (''pending'', JInt (int (bo_pending n))), (''running'', JInt (int (bo_running n))),
        (''done'', JInt (int (bo_done n))), (''failed'', JInt (int (bo_failed n)))]),
      (''records'', JObj [(''fetched'', JInt (bo_fetched n)), (''enqueued'', JInt (bo_enqueued n)), (''duplicates'', JInt (bo_duplicates n))]),
      (''queue'', JObj [(''queued'', JInt (int (bo_queue_queued n))), (''processed'', JInt (int (bo_queue_processed n))),
        (''failed'', JInt (int (bo_queue_failed n)))])]"

definition closed_job :: "time \<Rightarrow> job_status \<Rightarrow> string \<Rightarrow> bf_job \<Rightarrow> bf_job" where
  "closed_job now s message j = j\<lparr>bj_status := s, bj_finished_at := Some now,
     bj_last_error := (if s = JobCompletedWithErrors then Some message else None)\<rparr>"

definition finish_job ::
  "(string \<Rightarrow> string) \<Rightarrow> 'z bf_store_scheme handler \<Rightarrow> ('z bf_store_scheme \<Rightarrow> 'z bf_store_scheme) \<Rightarrow> uuid \<Rightarrow> time \<Rightarrow> bf_job \<Rightarrow> string
   \<Rightarrow> 'z bf_store_scheme \<Rightarrow> bf_error + (run_status \<times> string option) \<times> 'z bf_store_scheme" where
  "finish_job sha pub race fresh now j owner st =
     (let counts = counts_of (bj_org_id j) (bj_id j) st
      in case find (\<lambda>x. bj_id x = bj_id j) (bf_jobs st) of
           None \<Rightarrow> Inr ((RunGone, None), st)
         | Some x \<Rightarrow>
             if bj_status x \<noteq> JobRunning then Inr ((RunJob (bj_status x), None), st)
             else if bo_pending counts > 0 \<or> bo_running counts > 0 then Inr ((RunJob JobRunning, None), st)
             else (let final = (if bo_failed counts > 0 then JobCompletedWithErrors else JobCompleted);
                       hit = (\<lambda>y. bj_id y = bj_id j \<and> bj_lease_owner y = Some owner \<and> bj_status y = JobRunning);
                       st1 = race st;
                       note_text = show_nat (bo_failed counts) @ '' chunk(s) failed'';
                       st2 = st1\<lparr>bf_jobs := update_where hit (closed_job now final (note_text @ ''; review them and retry'')) (bf_jobs st1)\<rparr>;
                       result = (RunJob final, if final = JobCompleted then None else Some note_text)
                   in if \<not> (\<exists>y \<in> set (bf_jobs st1). hit y) then Inr (result, st1)
                      else and_then (announce sha pub fresh now
                          (job_event ''BackfillJobCompleted'' (bj_org_id j) ''system'' ''backfill-runner'' (bj_id j)
                            [(''job_id'', JStr (bj_id j)), (''connector_id'', JStr (bj_connector_id j)), (''name'', JStr (bj_name j)),
                             (''status'', JStr (job_status_text final)), (''counts'', counts_json counts)]) st2) (\<lambda>st3.
                        Inr (result, st3))))"

definition release_lease :: "bf_job \<Rightarrow> string \<Rightarrow> 'z bf_store_scheme \<Rightarrow> 'z bf_store_scheme" where
  "release_lease j owner st =
     st\<lparr>bf_jobs := update_where (\<lambda>x. bj_id x = bj_id j \<and> bj_lease_owner x = Some owner)
        (\<lambda>x. x\<lparr>bj_lease_owner := None, bj_lease_expires_at := None\<rparr>) (bf_jobs st)\<rparr>"

record 's bf_slice =
  sl_now :: time
  sl_rounds :: "'s bf_round list"
  sl_finish_race :: "'s \<Rightarrow> 's"
  sl_finish_at :: time
  sl_event :: uuid

definition execute_job ::
  "(string \<Rightarrow> string) \<Rightarrow> 'z bf_store_scheme handler \<Rightarrow> 'z bf_store_scheme bf_slice \<Rightarrow> int \<Rightarrow> bf_job \<Rightarrow> string \<Rightarrow> 'z bf_store_scheme
   \<Rightarrow> (bf_error + run_result) \<times> 'z bf_store_scheme" where
  "execute_job sha pub sl max_ms j owner st =
     (let waiting = (\<lambda>m. Inr \<lparr>ru_job_id = bj_id j, ru_status = RunWaiting, ru_summary = zero_run, ru_message = Some m\<rparr>)
      in case find_connector (bj_org_id j) (bj_connector_id j) st of
           None \<Rightarrow> (waiting (''Connector unavailable: Connector '' @ bj_connector_id j @ '' not found''), release_lease j owner st)
         | Some c \<Rightarrow>
             if cr_activated_at c = None \<or> cr_status c = ''paused''
             then (waiting (if cr_status c = ''paused'' then ''The connector is paused'' else ''The connector is not activated''),
                   release_lease j owner st)
             else (let st1 = st\<lparr>bf_chunks := update_where (\<lambda>k. bk_job_id k = bj_id j \<and> bk_status k = ChunkRunning)
                          (\<lambda>k. k\<lparr>bk_status := ChunkPending, bk_updated_at := sl_now sl\<rparr>) (bf_chunks st)\<rparr>;
                       l = new_limiter (bj_max_concurrency j) (bj_max_rpm j) (Some (bj_limiter j));
                       (su, _, st2) = work_job sha j owner c (sl_now sl + max_ms) (sl_rounds sl) (zero_run, l, st1)
                   in case finish_job sha pub (sl_finish_race sl) (sl_event sl) (sl_finish_at sl) j owner st2 of
                        Inl e \<Rightarrow> (Inl e, release_lease j owner st2)
                      | Inr ((status, message), st3) \<Rightarrow>
                          (Inr \<lparr>ru_job_id = bj_id j, ru_status = status, ru_summary = su, ru_message = message\<rparr>, release_lease j owner st3)))"

definition claim_jobs :: "time \<Rightarrow> string \<Rightarrow> (bf_job \<Rightarrow> bool) \<Rightarrow> nat \<Rightarrow> 'z bf_store_scheme \<Rightarrow> bf_job list \<times> 'z bf_store_scheme" where
  "claim_jobs now owner condition n st =
     (let chosen = map bj_id (take n (sort_key bj_created_at (filter (\<lambda>j. bj_status j = JobRunning \<and>
            (case bj_lease_expires_at j of None \<Rightarrow> True | Some t \<Rightarrow> t \<le> now) \<and> condition j) (bf_jobs st))));
          leased = update_where (\<lambda>j. bj_id j \<in> set chosen)
            (\<lambda>j. j\<lparr>bj_lease_owner := Some owner, bj_lease_expires_at := Some (now + job_lease_ms)\<rparr>) (bf_jobs st)
      in (filter (\<lambda>j. bj_id j \<in> set chosen) leased, st\<lparr>bf_jobs := leased\<rparr>))"

definition run_job ::
  "(string \<Rightarrow> string) \<Rightarrow> 'z bf_store_scheme handler \<Rightarrow> 'z bf_store_scheme bf_slice \<Rightarrow> int \<Rightarrow> string \<Rightarrow> string \<Rightarrow> uuid \<Rightarrow> 'z bf_store_scheme
   \<Rightarrow> (bf_error + run_result) \<times> 'z bf_store_scheme" where
  "run_job sha pub sl max_ms owner org i st =
     (case get_job org i st of
        Inl e \<Rightarrow> (Inl e, st)
      | Inr (j, _) \<Rightarrow>
          if bj_status j \<noteq> JobRunning
          then (Inl (BackfillConflict (''Only a running job can be worked; this one is '' @ job_status_text (bj_status j) @
                  ''. Start or resume it first.'')), st)
          else (case claim_jobs (sl_now sl) owner (is_job org i) 1 st of
                  ([], st1) \<Rightarrow> (Inr \<lparr>ru_job_id = i, ru_status = RunBusy, ru_summary = zero_run,
                                ru_message = Some ''Another worker is already running this job''\<rparr>, st1)
                | (x # _, st1) \<Rightarrow> execute_job sha pub sl max_ms x owner st1))"

fun run_claimed ::
  "(string \<Rightarrow> string) \<Rightarrow> 'z bf_store_scheme handler \<Rightarrow> (nat \<Rightarrow> 'z bf_store_scheme bf_slice) \<Rightarrow> nat \<Rightarrow> int \<Rightarrow> string \<Rightarrow> bf_job list
   \<Rightarrow> 'z bf_store_scheme \<Rightarrow> (bf_error + run_result list) \<times> 'z bf_store_scheme" where
  "run_claimed sha pub sl n max_ms owner [] st = (Inr [], st)"
| "run_claimed sha pub sl n max_ms owner (j # js) st =
     (case execute_job sha pub (sl n) max_ms j owner st of
        (Inl e, st1) \<Rightarrow> (Inl e, st1)
      | (Inr r, st1) \<Rightarrow>
          (case run_claimed sha pub sl (Suc n) max_ms owner js st1 of
             (Inl e, st2) \<Rightarrow> (Inl e, st2) | (Inr rs, st2) \<Rightarrow> (Inr (r # rs), st2)))"

definition run_due ::
  "(string \<Rightarrow> string) \<Rightarrow> 'z bf_store_scheme handler \<Rightarrow> (nat \<Rightarrow> 'z bf_store_scheme bf_slice) \<Rightarrow> nat \<Rightarrow> int \<Rightarrow> string
   \<Rightarrow> 'z bf_store_scheme \<Rightarrow> (bf_error + run_result list) \<times> 'z bf_store_scheme" where
  "run_due sha pub sl n max_ms owner st =
     (let (js, st1) = claim_jobs (sl_now (sl 0)) owner (\<lambda>_. True) n st in run_claimed sha pub sl 0 max_ms owner js st1)"

subsection \<open>Frames\<close>

lemma announce_frame:
  assumes "announce sha (store_pub sha) fresh now i st = Inr st'"
  shows "bf_jobs st' = bf_jobs st" "bf_chunks st' = bf_chunks st" "bf_records st' = bf_records st"
    "ingestion st' = ingestion st" "connectors st' = connectors st"
proof -
  obtain ev st1 where enq: "enqueue sha quiet fresh now i st = Inr (ev, st1)"
    and st': "st' = snd (dispatch_envelope (store_pub sha) now ev st1)"
    using assms by (auto simp: announce_def split: sum.splits)
  have "store.more st' = store.more st1" by (simp add: st' sb.dispatch_ok bus_tables)
  also have "\<dots> = store.more st" using enq append_frame by (fastforce simp: enqueue_Inr)
  finally show "bf_jobs st' = bf_jobs st" "bf_chunks st' = bf_chunks st" "bf_records st' = bf_records st"
      "ingestion st' = ingestion st" "connectors st' = connectors st"
    by (cases st'; cases st; simp)+
qed

lemma job_row_Inr: "job_row org i st = Inr j \<longleftrightarrow> any_uuid_pattern i \<and> find (is_job org i) (bf_jobs st) = Some j"
  by (auto simp: job_row_def split: option.splits)

lemma transition_job_Inr:
  assumes "transition_job sha (store_pub sha) fresh now org i actor from_s to_s ty refusal st = Inr (x, st')"
  obtains j where "j \<in> set (bf_jobs st)" "is_job org i j" "bj_status j \<in> set from_s"
    "bf_jobs st' = update_where (\<lambda>j. is_job org i j \<and> bj_status j \<in> set from_s) (moved_job now to_s) (bf_jobs st)"
    "bf_chunks st' = bf_chunks st" "bf_records st' = bf_records st" "fst x = moved_job now to_s j"
  using assms
  by (auto simp: transition_job_def and_then_Inr announce_frame dest!: find_SomeD split: option.splits)

lemma base_of_store [simp]:
  "chain_state sha (st\<lparr>bf_jobs := x\<rparr>) = chain_state sha st" "used (st\<lparr>bf_jobs := x\<rparr>) = used st"
  "chain_state sha (st\<lparr>bf_chunks := y\<rparr>) = chain_state sha st" "used (st\<lparr>bf_chunks := y\<rparr>) = used st"
  by (rule chain_state_base used_base; simp)+

lemma announce_total:
  assumes "growing sha" "chain_state sha st" "\<not> used st fresh" "oi_event_id i = None" "oi_work_item_id i \<noteq> []"
  obtains st' where "announce sha (store_pub sha) fresh now i st = Inr st'" "chain_state sha st'"
    "\<And>e. used st' e = (e = fresh \<or> used st e)"
  using enqueue_dispatch_total [OF assms, of now now] by (auto simp: announce_def Let_def)

lemma transition_job_total:
  assumes "growing sha" "chain_state sha st" "\<not> used st fresh" "i \<noteq> []"
    "find (\<lambda>j. is_job org i j \<and> bj_status j \<in> set from_s) (bf_jobs st) = Some j"
  shows "\<exists>x st'. transition_job sha (store_pub sha) fresh now org i actor from_s to_s ty refusal st = Inr (x, st') \<and>
    chain_state sha st' \<and> (\<forall>e. used st' e = (e = fresh \<or> used st e)) \<and>
    bf_jobs st' = update_where (\<lambda>j. is_job org i j \<and> bj_status j \<in> set from_s) (moved_job now to_s) (bf_jobs st) \<and>
    bf_chunks st' = bf_chunks st"
proof -
  let ?e = "job_event ty org ''user'' actor i (job_event_payload (moved_job now to_s j))"
  let ?st = "st\<lparr>bf_jobs := update_where (\<lambda>j. is_job org i j \<and> bj_status j \<in> set from_s) (moved_job now to_s) (bf_jobs st)\<rparr>"
  obtain st' where st': "announce sha (store_pub sha) fresh now ?e ?st = Inr st'" "chain_state sha st'"
      "\<And>e. used st' e = (e = fresh \<or> used ?st e)"
    using assms announce_total [of sha ?st fresh ?e now] by (auto simp: job_event_def)
  then show ?thesis using assms(5) announce_frame [OF st'(1)] by (simp add: transition_job_def)
qed

lemma start_job_total:
  assumes "growing sha" "any_uuid_pattern i" "find (is_job org i) (bf_jobs st) = Some j" "bj_status j = JobPending"
    "assert_no_other_active org (bj_connector_id j) i st = Inr ()"
    "chain_state sha (race st)" "\<not> used (race st) fresh" "i \<noteq> []"
    "find (\<lambda>j. is_job org i j \<and> bj_status j = JobPending) (bf_jobs (race st)) = Some j'"
  shows "\<exists>x st'. start_job sha (store_pub sha) race fresh now org i actor st = Inr (x, st') \<and>
    chain_state sha st' \<and> (\<forall>e. used st' e = (e = fresh \<or> used (race st) e)) \<and>
    bf_jobs st' = update_where (\<lambda>j. is_job org i j \<and> bj_status j = JobPending) (moved_job now JobRunning) (bf_jobs (race st))"
  using transition_job_total [OF assms(1,6-8), of org "[JobPending]" j' now actor JobRunning "''BackfillJobStarted''"
      "''Only a pending job can be started''"] assms(2-5,9)
  by (auto simp: start_job_def activate_job_def job_row_def)

lemma retry_failed_Inr:
  assumes "retry_failed sha (store_pub sha) race fresh now org i actor st = Inr (x, st')"
  obtains j where "find (is_job org i) (bf_jobs st) = Some j" "any_uuid_pattern i"
    "bj_status j \<in> {JobCompletedWithErrors, JobRunning, JobPaused}" "bo_failed (counts_of org i st) \<noteq> 0"
    "bf_jobs st' = update_where (is_job org i) retried_job (bf_jobs (race st))"
    "bf_chunks st' = update_where (\<lambda>k. bk_org_id k = org \<and> bk_job_id k = i \<and> bk_status k = ChunkFailed) (reset_chunk now) (bf_chunks (race st))"
    "bf_records st' = bf_records (race st)"
proof -
  obtain j counts where g: "get_job org i st = Inr (j, counts)"
    using assms by (auto simp: retry_failed_def and_then_Inr)
  have j: "find (is_job org i) (bf_jobs st) = Some j" "any_uuid_pattern i" "counts = counts_of org i st"
    using g by (auto simp: get_job_def and_then_Inr job_row_Inr is_job_def dest!: find_SomeD)
  show ?thesis
    by (rule that [OF j(1,2)])
      (use assms g j in \<open>auto simp: retry_failed_def Let_def and_then_Inr announce_frame split: if_splits option.splits\<close>)
qed

subsection \<open>Overlapping starts\<close>

text \<open>One job per connector holds only while calls do not overlap: a second job of the connector is
  refused once the first runs, but if the first start commits between the check and the commit of
  the second, both jobs run.\<close>

lemma overlapping_starts_run_two_jobs:
  assumes "start_job sha (store_pub sha) (\<lambda>s. s) f1 t1 org i1 actor st = Inr (x1, st1)"
    and "start_job sha (store_pub sha) (\<lambda>_. st1) f2 t2 org i2 actor2 st = Inr (x2, st2)"
    and "distinct (map bj_id (bf_jobs st))" "i1 \<noteq> i2"
    and "\<forall>j \<in> set (bf_jobs st). \<forall>k \<in> set (bf_jobs st). is_job org i1 j \<and> is_job org i2 k \<longrightarrow> bj_connector_id j = bj_connector_id k"
  shows "(\<exists>e. start_job sha (store_pub sha) (\<lambda>s. s) f2 t2 org i2 actor2 st1 = Inl (BackfillConflict e)) \<and>
    (\<exists>j \<in> set (bf_jobs st2). \<exists>k \<in> set (bf_jobs st2). bj_id j = i1 \<and> bj_id k = i2 \<and> bj_org_id j = org \<and> bj_org_id k = org \<and>
       bj_connector_id j = bj_connector_id k \<and> bj_status j = JobRunning \<and> bj_status k = JobRunning)"
proof -
  obtain j1 where j1: "find (is_job org i1) (bf_jobs st) = Some j1" "bj_status j1 = JobPending" "any_uuid_pattern i1"
    and t1: "transition_job sha (store_pub sha) f1 t1 org i1 actor [JobPending] JobRunning ''BackfillJobStarted'' ''Only a pending job can be started'' st = Inr (x1, st1)"
    using assms(1) by (auto simp: start_job_def activate_job_def and_then_Inr job_row_Inr split: if_splits)
  obtain j2 where j2: "find (is_job org i2) (bf_jobs st) = Some j2" "bj_status j2 = JobPending" "any_uuid_pattern i2"
    and t2: "transition_job sha (store_pub sha) f2 t2 org i2 actor2 [JobPending] JobRunning ''BackfillJobStarted'' ''Only a pending job can be started'' st1 = Inr (x2, st2)"
    using assms(2) by (auto simp: start_job_def activate_job_def and_then_Inr job_row_Inr split: if_splits)
  have mem: "j1 \<in> set (bf_jobs st)" "is_job org i1 j1" "j2 \<in> set (bf_jobs st)" "is_job org i2 j2"
    using j1(1) j2(1) by (auto dest: find_SomeD)
  have same: "bj_connector_id j1 = bj_connector_id j2" using assms(5) mem by blast
  have jobs1: "bf_jobs st1 = update_where (\<lambda>j. is_job org i1 j \<and> bj_status j \<in> set [JobPending]) (moved_job t1 JobRunning) (bf_jobs st)"
    by (rule transition_job_Inr [OF t1])
  have jobs2: "bf_jobs st2 = update_where (\<lambda>j. is_job org i2 j \<and> bj_status j \<in> set [JobPending]) (moved_job t2 JobRunning) (bf_jobs st1)"
    by (rule transition_job_Inr [OF t2])
  have one: "moved_job t1 JobRunning j1 \<in> set (bf_jobs st1)" "j2 \<in> set (bf_jobs st1)"
    using mem j1(2) assms(4) unfolding jobs1 set_update_where image_iff
    by (auto intro: bexI [of _ j1] bexI [of _ j2] simp: is_job_def)
  have "moved_job t1 JobRunning j1 \<in> set (bf_jobs st2)"
    unfolding jobs2 set_update_where
    by (rule bexI [OF _ one(1)]) (use mem(2) assms(4) in \<open>simp add: moved_job_def is_job_def\<close>)
  moreover have "moved_job t2 JobRunning j2 \<in> set (bf_jobs st2)"
    unfolding jobs2 set_update_where by (rule bexI [OF _ one(2)]) (use mem(4) j2(2) in simp)
  ultimately have both: "\<exists>j \<in> set (bf_jobs st2). \<exists>k \<in> set (bf_jobs st2). bj_id j = i1 \<and> bj_id k = i2 \<and> bj_org_id j = org \<and> bj_org_id k = org \<and>
       bj_connector_id j = bj_connector_id k \<and> bj_status j = JobRunning \<and> bj_status k = JobRunning"
    using mem same by (intro bexI [of _ "moved_job t1 JobRunning j1"] bexI [of _ "moved_job t2 JobRunning j2"]) (auto simp: moved_job_def is_job_def)
  have "find (is_job org i2) (bf_jobs st1) = Some j2"
    using j2(1) assms(4) mem(4) unfolding jobs1 by (subst find_update_where) (auto simp: moved_job_def is_job_def)
  moreover have "\<exists>e. assert_no_other_active org (bj_connector_id j2) i2 st1 = Inl (BackfillConflict e)"
  proof -
    have "bj_org_id (moved_job t1 JobRunning j1) = org" "bj_connector_id (moved_job t1 JobRunning j1) = bj_connector_id j2"
      "bj_status (moved_job t1 JobRunning j1) = JobRunning" "bj_id (moved_job t1 JobRunning j1) \<noteq> i2"
      using mem same assms(4) by (auto simp: moved_job_def is_job_def)
    with one(1) have "\<exists>x. bj_org_id x = org \<and> bj_connector_id x = bj_connector_id j2 \<and> bj_status x = JobRunning \<and>
        bj_id x \<noteq> i2 \<and> x \<in> set (bf_jobs st1)" by blast
    then show ?thesis by (auto simp: assert_no_other_active_def find_None_iff split: option.splits)
  qed
  ultimately have "\<exists>e. start_job sha (store_pub sha) (\<lambda>s. s) f2 t2 org i2 actor2 st1 = Inl (BackfillConflict e)"
    using j2(2,3) by (auto simp: start_job_def activate_job_def job_row_def)
  with both show ?thesis by blast
qed


definition uuid_like :: "char \<Rightarrow> uuid" where
  "uuid_like c = replicate 8 c @ ''-'' @ replicate 4 c @ ''-'' @ replicate 4 c @ ''-'' @ replicate 4 c @ ''-'' @ replicate 12 c"

definition sample_job :: "uuid \<Rightarrow> job_status \<Rightarrow> bf_job" where
  "sample_job i s = \<lparr>bj_id = i, bj_org_id = ''o1'', bj_connector_id = ''c1'', bj_name = ''history'', bj_entity_type = ''issue'',
     bj_language = None, bj_query = None, bj_from = 0, bj_to = 86400000, bj_chunk_seconds = JInt 86400, bj_status = s,
     bj_max_concurrency = 4, bj_max_rpm = 300, bj_limiter = \<lparr>ls_concurrency = 1, ls_delay_ms = 0, ls_throttle_events = 0\<rparr>,
     bj_last_error = None, bj_lease_owner = Some ''w1'', bj_lease_expires_at = Some 120000, bj_created_by = ''u1'', bj_created_at = 0,
     bj_started_at = None, bj_finished_at = None\<rparr>"

definition sample_chunk :: "uuid \<Rightarrow> uuid \<Rightarrow> chunk_status \<Rightarrow> bf_chunk" where
  "sample_chunk i job s = \<lparr>bk_id = i, bk_job_id = job, bk_org_id = ''o1'', bk_seq = 0, bk_window_start = 0, bk_window_end = 86400000,
     bk_status = s, bk_attempts = 0, bk_page_token = None, bk_pages = 0, bk_fetched = 0, bk_enqueued = 0, bk_duplicates = 0,
     bk_last_error = None, bk_next_attempt_at = None, bk_updated_at = 0\<rparr>"

definition sample_backfill :: "bf_job list \<Rightarrow> bf_chunk list \<Rightarrow> bf_store" where
  "sample_backfill js ks = \<lparr>work_items = [], domain_events = [], audit_events = [], integrity = [], integrity_seq = 1, outbox = [],
     emitted = [], corr_nodes = [], corr_links = [], snapshots = [], connectors = [sample_connector],
     state_mappings = [], sync_transactions = [], field_mappings = [], twins = [], ingestion = [], ingest_position = 1, bf_jobs = js, bf_chunks = ks, bf_records = []\<rparr>"

lemma sample_uuids [simp]: "any_uuid_pattern (uuid_like CHR ''a'')" "any_uuid_pattern (uuid_like CHR ''b'')"
  "uuid_like CHR ''a'' \<noteq> uuid_like CHR ''b''" "uuid_like c \<noteq> []" "(uuid_like CHR ''b'' = uuid_like CHR ''a'') = False"
  by (simp_all add: uuid_like_def) code_simp+

lemma sample_backfill_base [simp]: "chain_state sha (sample_backfill js ks)" "\<not> used (sample_backfill js ks) e"
  "bf_jobs (sample_backfill js ks) = js" "bf_chunks (sample_backfill js ks) = ks"
  by (rule chain_state_no_links) (simp_all add: sample_backfill_def used_def has_event_def logged_def)

subsection \<open>A retry between the count and the close\<close>

text \<open>What another request commits in between: nothing when it is refused.\<close>

definition after_call :: "('a \<Rightarrow> bf_error + 'b \<times> 'a) \<Rightarrow> 'a \<Rightarrow> 'a" where
  "after_call f s = (case f s of Inl _ \<Rightarrow> s | Inr (_, s') \<Rightarrow> s')"

lemma finish_job_closes:
  assumes "finish_job sha (store_pub sha) race fresh now j owner st = Inr ((RunJob s, m), st')"
    and "s \<noteq> JobRunning" "find (\<lambda>x. bj_id x = bj_id j) (bf_jobs st) = Some x" "bj_status x = JobRunning"
  shows "(s = JobCompletedWithErrors \<longleftrightarrow> bo_failed (counts_of (bj_org_id j) (bj_id j) st) > 0) \<and>
    bo_pending (counts_of (bj_org_id j) (bj_id j) st) = 0 \<and> bo_running (counts_of (bj_org_id j) (bj_id j) st) = 0 \<and>
    bf_chunks st' = bf_chunks (race st) \<and>
    (\<exists>text. bf_jobs st' = update_where (\<lambda>y. bj_id y = bj_id j \<and> bj_lease_owner y = Some owner \<and> bj_status y = JobRunning)
       (closed_job now s text) (bf_jobs (race st)))"
proof -
  have same: "xs = update_where P f xs" if "\<forall>y \<in> set xs. \<not> P y" for P :: "bf_job \<Rightarrow> bool" and f xs
    using that by (induction xs) (auto simp: update_where_def)
  from assms show ?thesis
    by (auto simp: finish_job_def Let_def and_then_Inr announce_frame intro: same split: if_splits)
qed

text \<open>C28. A job that is closed while its failed chunks are being retried is stranded: when a retry commits
  between the count that closes the job and its transaction, the job ends as completed with errors although
  the retried chunks are pending and none is failed, and from then on it can be neither started,
  resumed, paused, cancelled, retried nor worked.\<close>

theorem finish_race_strands_chunks:
  assumes "retry_failed sha (store_pub sha) (\<lambda>s. s) f1 t1 (bj_org_id j) (bj_id j) actor st = Inr (x, st1)"
    and "finish_job sha (store_pub sha) (after_call (retry_failed sha (store_pub sha) (\<lambda>s. s) f1 t1 (bj_org_id j) (bj_id j) actor))
        f2 t2 j owner st = Inr ((RunJob JobCompletedWithErrors, m), st2)"
    and "distinct (map bj_id (bf_jobs st))" "j \<in> set (bf_jobs st)" "bj_status j = JobRunning" "bj_lease_owner j = Some owner"
  shows "(\<exists>k \<in> set (chunks_of (bj_org_id j) (bj_id j) st2). bk_status k = ChunkPending) \<and>
    bo_failed (counts_of (bj_org_id j) (bj_id j) st2) = 0 \<and>
    (\<exists>y. find (is_job (bj_org_id j) (bj_id j)) (bf_jobs st2) = Some y \<and> bj_status y = JobCompletedWithErrors) \<and>
    (\<forall>fresh now user.
       (\<exists>e. start_job sha (store_pub sha) (\<lambda>s. s) fresh now (bj_org_id j) (bj_id j) user st2 = Inl (BackfillConflict e)) \<and>
       (\<exists>e. resume_job sha (store_pub sha) (\<lambda>s. s) fresh now (bj_org_id j) (bj_id j) user st2 = Inl (BackfillConflict e)) \<and>
       (\<exists>e. pause_job sha (store_pub sha) fresh now (bj_org_id j) (bj_id j) user st2 = Inl (BackfillConflict e)) \<and>
       (\<exists>e. cancel_job sha (store_pub sha) fresh now (bj_org_id j) (bj_id j) user st2 = Inl (BackfillConflict e)) \<and>
       (\<exists>e. retry_failed sha (store_pub sha) (\<lambda>s. s) fresh now (bj_org_id j) (bj_id j) user st2 = Inl (BackfillConflict e)) \<and>
       (\<forall>sl ms w. \<exists>e. run_job sha (store_pub sha) sl ms w (bj_org_id j) (bj_id j) st2 = (Inl (BackfillConflict e), st2)))"
proof -
  let ?o = "bj_org_id j" and ?i = "bj_id j"
  have uniq: "y = j" if "y \<in> set (bf_jobs st)" "bj_id y = ?i" for y
    using distinct_id_eq [OF assms(3) that(1) assms(4)] that(2) by simp
  have found: "find (is_job ?o ?i) (bf_jobs st) = Some j" "find (\<lambda>x. bj_id x = ?i) (bf_jobs st) = Some j"
    by (rule find_unique; use assms(4) uniq in \<open>simp add: is_job_def\<close>)+
  obtain j0 where r: "find (is_job ?o ?i) (bf_jobs st) = Some j0" "any_uuid_pattern ?i" "bo_failed (counts_of ?o ?i st) \<noteq> 0"
      "bf_jobs st1 = update_where (is_job ?o ?i) retried_job (bf_jobs st)"
      "bf_chunks st1 = update_where (\<lambda>k. bk_org_id k = ?o \<and> bk_job_id k = ?i \<and> bk_status k = ChunkFailed) (reset_chunk t1) (bf_chunks st)"
    by (rule retry_failed_Inr [OF assms(1)]) blast
  have race: "after_call (retry_failed sha (store_pub sha) (\<lambda>s. s) f1 t1 ?o ?i actor) st = st1"
    by (simp add: after_call_def assms(1))
  obtain note_text where f: "bf_chunks st2 = bf_chunks st1"
      "bf_jobs st2 = update_where (\<lambda>y. bj_id y = ?i \<and> bj_lease_owner y = Some owner \<and> bj_status y = JobRunning)
        (closed_job t2 JobCompletedWithErrors note_text) (bf_jobs st1)"
    using finish_job_closes [OF assms(2) _ found(2) assms(5)] unfolding race by blast
  obtain k where k: "k \<in> set (bf_chunks st)" "bk_org_id k = ?o" "bk_job_id k = ?i" "bk_status k = ChunkFailed"
    using r(3) by (auto simp: counts_of_def count_by_def chunks_of_def Let_def filter_empty_conv)
  have "reset_chunk t1 k \<in> set (chunks_of ?o ?i st2)"
    using k by (auto simp: chunks_of_def f(1) r(5) set_update_where reset_chunk_def intro!: bexI [of _ k])
  then have pending: "\<exists>k \<in> set (chunks_of ?o ?i st2). bk_status k = ChunkPending"
    by (rule bexI [rotated]) (simp add: reset_chunk_def)
  have "\<not> (bk_org_id k = ?o \<and> bk_job_id k = ?i \<and> bk_status k = ChunkFailed)" if mem: "k \<in> set (bf_chunks st2)" for k
  proof -
    obtain k0 where "k = (if bk_org_id k0 = ?o \<and> bk_job_id k0 = ?i \<and> bk_status k0 = ChunkFailed then reset_chunk t1 k0 else k0)"
      using mem unfolding f(1) r(5) set_update_where by blast
    then show ?thesis by (cases "bk_org_id k0 = ?o \<and> bk_job_id k0 = ?i \<and> bk_status k0 = ChunkFailed") (simp_all add: reset_chunk_def)
  qed
  then have none: "bo_failed (counts_of ?o ?i st2) = 0"
    by (auto simp: counts_of_def count_by_def chunks_of_def Let_def filter_empty_conv)
  have "find (is_job ?o ?i) (bf_jobs st1) = Some (retried_job j)"
    unfolding r(4) using found(1) by (subst find_update_where) (auto simp: retried_job_def is_job_def)
  then have job: "find (is_job ?o ?i) (bf_jobs st2) = Some (closed_job t2 JobCompletedWithErrors note_text (retried_job j))"
    unfolding f(2) using assms(5,6) by (subst find_update_where) (auto simp: closed_job_def retried_job_def is_job_def)
  let ?y = "closed_job t2 JobCompletedWithErrors note_text (retried_job j)"
  have row: "job_row ?o ?i st2 = Inr ?y" and got: "get_job ?o ?i st2 = Inr (?y, counts_of ?o ?i st2)"
    using job r(2) by (auto simp: job_row_def get_job_def closed_job_def retried_job_def)
  have y: "bj_status ?y = JobCompletedWithErrors" by (simp add: closed_job_def)
  have ids2: "distinct (map bj_id (bf_jobs st2))"
    unfolding f(2) r(4) using assms(3) by (simp add: table_simps closed_job_def retried_job_def)
  have only: "x = ?y" if x: "x \<in> set (bf_jobs st2)" "is_job ?o ?i x" for x
    using distinct_id_eq [OF ids2 x(1), of ?y] find_SomeD [OF job] x(2) by (simp add: is_job_def)
  have unmoved: "find (\<lambda>j. is_job ?o ?i j \<and> bj_status j \<in> set from_s) (bf_jobs st2) = None"
    if "JobCompletedWithErrors \<notin> set from_s" for from_s
    using only y that by (metis (no_types, lifting) find_None_iff)
  have "(\<exists>e. start_job sha (store_pub sha) (\<lambda>s. s) fresh now ?o ?i user st2 = Inl (BackfillConflict e)) \<and>
       (\<exists>e. resume_job sha (store_pub sha) (\<lambda>s. s) fresh now ?o ?i user st2 = Inl (BackfillConflict e))" for fresh now user
    using row y by (simp add: start_job_def resume_job_def activate_job_def)
  moreover have "(\<exists>e. pause_job sha (store_pub sha) fresh now ?o ?i user st2 = Inl (BackfillConflict e)) \<and>
       (\<exists>e. cancel_job sha (store_pub sha) fresh now ?o ?i user st2 = Inl (BackfillConflict e))" for fresh now user
    using unmoved [of "[JobRunning]"] unmoved [of "[JobPending, JobRunning, JobPaused]"]
    by (simp add: pause_job_def cancel_job_def transition_job_def)
  moreover have "\<exists>e. retry_failed sha (store_pub sha) (\<lambda>s. s) fresh now ?o ?i user st2 = Inl (BackfillConflict e)" for fresh now user
    using got y none by (simp add: retry_failed_def)
  moreover have "\<exists>e. run_job sha (store_pub sha) sl ms w ?o ?i st2 = (Inl (BackfillConflict e), st2)" for sl ms w
    using got y by (simp add: run_job_def)
  ultimately show ?thesis using pending none job y by blast
qed


lemma finish_race_strands_chunks_witness:
  "\<exists>x st1 m st2.
     retry_failed sample_sha (store_pub sample_sha) (\<lambda>s. s) ''e1'' 0 ''o1'' (uuid_like CHR ''a'') ''u1''
       (sample_backfill [sample_job (uuid_like CHR ''a'') JobRunning] [sample_chunk ''k1'' (uuid_like CHR ''a'') ChunkFailed]) = Inr (x, st1) \<and>
     finish_job sample_sha (store_pub sample_sha)
       (after_call (retry_failed sample_sha (store_pub sample_sha) (\<lambda>s. s) ''e1'' 0 ''o1'' (uuid_like CHR ''a'') ''u1'')) ''e2'' 0
       (sample_job (uuid_like CHR ''a'') JobRunning) ''w1''
       (sample_backfill [sample_job (uuid_like CHR ''a'') JobRunning] [sample_chunk ''k1'' (uuid_like CHR ''a'') ChunkFailed])
       = Inr ((RunJob JobCompletedWithErrors, m), st2) \<and>
     (\<exists>k \<in> set (chunks_of ''o1'' (uuid_like CHR ''a'') st2). bk_status k = ChunkPending)"
proof -
  let ?a = "uuid_like CHR ''a''"
  let ?j = "sample_job ?a JobRunning" and ?k = "sample_chunk ''k1'' ?a ChunkFailed"
  let ?st = "sample_backfill [?j] [?k]"
  let ?retry = "retry_failed sample_sha (store_pub sample_sha) (\<lambda>s. s) ''e1'' 0 ''o1'' ?a ''u1''"
  have j: "bj_org_id ?j = ''o1''" "bj_id ?j = ?a" "bj_status ?j = JobRunning" "bj_lease_owner ?j = Some ''w1''" "is_job ''o1'' ?a ?j"
    by (simp_all add: sample_job_def is_job_def)
  have counts: "bo_failed (counts_of ''o1'' ?a ?st) = 1" "bo_pending (counts_of ''o1'' ?a ?st) = 0" "bo_running (counts_of ''o1'' ?a ?st) = 0"
    by (simp_all add: counts_of_def chunks_of_def count_by_def sample_chunk_def Let_def)
  let ?u = "retried_job ?j"
  let ?st2 = "?st\<lparr>bf_chunks := [reset_chunk 0 ?k], bf_jobs := [?u]\<rparr>"
  let ?e1 = "job_event ''BackfillFailedChunksRetried'' ''o1'' ''user'' ''u1'' ?a (job_event_payload ?u @ [(''retried_chunks'', JInt 1)])"
  have u: "is_job ''o1'' ?a ?u" "bj_id ?u = ?a" "bj_lease_owner ?u = Some ''w1''" "bj_status ?u = JobRunning"
    by (simp_all add: retried_job_def sample_job_def is_job_def)
  have k: "bk_org_id ?k = ''o1''" "bk_job_id ?k = ?a" "bk_status ?k = ChunkFailed" by (simp_all add: sample_chunk_def)
  obtain st1 where a1: "announce sample_sha (store_pub sample_sha) ''e1'' 0 ?e1 ?st2 = Inr st1" "chain_state sample_sha st1"
      "\<And>e. used st1 e = (e = ''e1'' \<or> used ?st2 e)"
    by (rule announce_total [of sample_sha ?st2 "''e1''" ?e1 0]) (simp_all add: growing_sample job_event_def)
  have retry: "?retry ?st = Inr ((?u, counts_of ''o1'' ?a st1), st1)"
    using a1(1) counts(1) j u k
    by (simp add: retry_failed_def get_job_def job_row_def Let_def update_where_def)
  have race: "after_call ?retry ?st = st1" by (simp add: after_call_def retry)
  have st1: "bf_jobs st1 = [?u]" using announce_frame(1) [OF a1(1)] by simp
  have "\<exists>m st2. finish_job sample_sha (store_pub sample_sha) (after_call ?retry) ''e2'' 0 ?j ''w1'' ?st =
      Inr ((RunJob JobCompletedWithErrors, m), st2)"
  proof -
    let ?c = "closed_job 0 JobCompletedWithErrors ((show_nat 1 @ '' chunk(s) failed'') @ ''; review them and retry'')"
    let ?e2 = "job_event ''BackfillJobCompleted'' ''o1'' ''system'' ''backfill-runner'' ?a
        [(''job_id'', JStr ?a), (''connector_id'', JStr (bj_connector_id ?j)), (''name'', JStr (bj_name ?j)),
         (''status'', JStr (job_status_text JobCompletedWithErrors)), (''counts'', counts_json (counts_of ''o1'' ?a ?st))]"
    obtain st2 where "announce sample_sha (store_pub sample_sha) ''e2'' 0 ?e2 (st1\<lparr>bf_jobs := [?c ?u]\<rparr>) = Inr st2"
      by (rule announce_total [of sample_sha "st1\<lparr>bf_jobs := [?c ?u]\<rparr>" "''e2''" ?e2 0])
        (simp_all add: growing_sample job_event_def a1(2,3))
    then show ?thesis using j u counts race st1 by (simp add: finish_job_def Let_def update_where_def)
  qed
  then obtain m st2 where finish: "finish_job sample_sha (store_pub sample_sha) (after_call ?retry) ''e2'' 0 ?j ''w1'' ?st =
      Inr ((RunJob JobCompletedWithErrors, m), st2)" by blast
  have "\<exists>k \<in> set (chunks_of ''o1'' ?a st2). bk_status k = ChunkPending"
    using finish_race_strands_chunks [of sample_sha "''e1''" 0 ?j "''u1''" ?st _ st1 "''e2''" 0 "''w1''" m st2] retry finish j by simp
  with retry finish show ?thesis by blast
qed

subsection \<open>Every chunk settles\<close>

text \<open>The successive turns of one chunk: each reads the chunk, marks it running and steps it with the reply
  the provider gives then. A settled chunk is never due again.\<close>

fun chunk_turns ::
  "(string \<Rightarrow> string) \<Rightarrow> (nat \<Rightarrow> nat \<Rightarrow> uuid) \<Rightarrow> bf_job \<Rightarrow> string \<Rightarrow> connector_row \<Rightarrow> uuid \<Rightarrow> nat \<Rightarrow> (time \<times> fetch_reply) list
   \<Rightarrow> limiter \<times> 'z bf_store_scheme \<Rightarrow> limiter \<times> 'z bf_store_scheme" where
  "chunk_turns sha ids j owner c i n [] s = s"
| "chunk_turns sha ids j owner c i n ((now, reply) # rs) (l, st) =
     (case find (\<lambda>k. bk_id k = i) (bf_chunks st) of
        None \<Rightarrow> (l, st)
      | Some k \<Rightarrow>
          if bk_status k \<noteq> ChunkPending then (l, st)
          else chunk_turns sha ids j owner c i (Suc n) rs (snd (chunk_step sha (ids n) now j owner c k reply (l, mark_running now [k] st))))"

fun answered :: "fetch_reply \<Rightarrow> bool" where
  "answered (LoadShed _ _) = False"
| "answered _ = True"

fun continues :: "fetch_reply \<Rightarrow> bool" where
  "continues (FetchedPage _ token) = (or_null token \<noteq> None)"
| "continues _ = False"

definition holds_lease :: "bf_job \<Rightarrow> string \<Rightarrow> 'z bf_store_scheme \<Rightarrow> bool" where
  "holds_lease j owner st \<longleftrightarrow> (\<exists>x \<in> set (bf_jobs st). bj_id x = bj_id j \<and> bj_lease_owner x = Some owner \<and> bj_status x \<in> {JobRunning, JobPaused})"

lemma more_frame:
  assumes "ingest_store.more st' = ingest_store.more (st :: 'z bf_store_scheme)"
  shows "bf_jobs st' = bf_jobs st" "bf_chunks st' = bf_chunks st" "bf_records st' = bf_records st"
  using assms by (cases st'; cases st; simp)+

lemma accept_page_frame:
  assumes "accept_records sha ids org c ty rs (advance_chunk now j owner k n token) job st = Inr (a, st')"
  shows "bf_jobs st' = bf_jobs st" "holds_lease j owner st"
    "bf_chunks st' = update_where (\<lambda>x. bk_id x = bk_id k) (page_done now n token a) (bf_chunks st)"
    "bf_records st' = bf_records st @ map (ledger_row now j (bk_seq k)) (ac_outcomes a)"
proof -
  obtain st1 where all: "accept_all sha ids org c ty job rs (no_acceptance, st) = (a, st1)"
    and adv: "advance_chunk now j owner k n token a st1 = Inr st'"
    using assms by (auto simp: accept_records_def and_then_Inr split: prod.splits)
  note frame = more_frame [OF accept_all_effect(9) [OF all]]
  show "bf_jobs st' = bf_jobs st" "holds_lease j owner st"
    "bf_chunks st' = update_where (\<lambda>x. bk_id x = bk_id k) (page_done now n token a) (bf_chunks st)"
    "bf_records st' = bf_records st @ map (ledger_row now j (bk_seq k)) (ac_outcomes a)"
    using adv by (auto simp: advance_chunk_def update_chunk_def holds_lease_def frame split: if_splits)
qed

lemma accept_page_held:
  assumes "holds_lease j owner st"
  obtains a st' where "accept_records sha ids org c ty rs (advance_chunk now j owner k n token) job st = Inr (a, st')"
proof -
  obtain a st1 where all: "accept_all sha ids org c ty job rs (no_acceptance, st) = (a, st1)" by (rule prod.exhaust)
  have "bf_jobs st1 = bf_jobs st" by (rule more_frame(1) [OF accept_all_effect(9) [OF all]])
  then have "\<exists>st2. advance_chunk now j owner k n token a st1 = Inr st2"
    using assms by (auto simp: advance_chunk_def holds_lease_def)
  then show ?thesis using that all by (auto simp: accept_records_def)
qed

lemma find_chunk_update:
  assumes "find (\<lambda>k. bk_id k = i) ks = Some k" "\<And>x. bk_id (f x) = bk_id x"
  shows "find (\<lambda>k. bk_id k = i) (update_where (\<lambda>k. bk_id k = i) f ks) = Some (f k)"
  using assms by (subst find_update_where) (auto dest: find_SomeD)

lemma mark_one:
  assumes "find (\<lambda>k. bk_id k = i) (bf_chunks st) = Some k"
  shows "find (\<lambda>k. bk_id k = i) (bf_chunks (mark_running now [k] st)) = Some (k\<lparr>bk_status := ChunkRunning, bk_updated_at := now\<rparr>)"
    "bf_jobs (mark_running now [k] st) = bf_jobs st"
  using find_chunk_update [OF assms, of "\<lambda>k. k\<lparr>bk_status := ChunkRunning, bk_updated_at := now\<rparr>"] find_SomeD [OF assms]
  by (simp_all add: mark_running_def)

lemma chunk_step_row:
  assumes "find (\<lambda>k. bk_id k = i) (bf_chunks st) = Some k0" "bk_id k = i" "bk_attempts k0 = bk_attempts k" "holds_lease j owner st"
    and step: "chunk_step sha ids now j owner c k reply (l, st) = (p, l', st')"
  shows "bf_jobs st' = bf_jobs st" and
    "\<exists>k'. find (\<lambda>k. bk_id k = i) (bf_chunks st') = Some k' \<and>
       (case reply of
          FetchedPage rs token \<Rightarrow> bk_attempts k' = 0 \<and> bk_status k' = (if or_null token = None then ChunkDone else ChunkPending)
        | LoadShed until_t m \<Rightarrow> bk_attempts k' = bk_attempts k \<and> bk_status k' = ChunkPending
        | _ \<Rightarrow> bk_attempts k' = bk_attempts k + 1 \<and>
            (bk_status k' = ChunkFailed \<or> (bk_status k' = ChunkPending \<and> bk_attempts k + 1 < max_chunk_attempts)))"
proof -
  have "bf_jobs st' = bf_jobs st \<and> (\<exists>k'. find (\<lambda>k. bk_id k = i) (bf_chunks st') = Some k' \<and>
       (case reply of
          FetchedPage rs token \<Rightarrow> bk_attempts k' = 0 \<and> bk_status k' = (if or_null token = None then ChunkDone else ChunkPending)
        | LoadShed until_t m \<Rightarrow> bk_attempts k' = bk_attempts k \<and> bk_status k' = ChunkPending
        | _ \<Rightarrow> bk_attempts k' = bk_attempts k + 1 \<and>
            (bk_status k' = ChunkFailed \<or> (bk_status k' = ChunkPending \<and> bk_attempts k + 1 < max_chunk_attempts))))"
  proof (cases reply)
    case (FetchedPage rs token)
    obtain a st1 where acc: "accept_records sha ids (bj_org_id j) c (bj_entity_type j) rs
        (advance_chunk now j owner k (int (length rs)) token) (Some (bj_id j)) st = Inr (a, st1)"
      using accept_page_held [OF assms(4)] by blast
    have st1: "st' = st1" using step FetchedPage acc by (simp add: chunk_step_def)
    note frame = accept_page_frame(1,3) [OF acc]
    have "find (\<lambda>k. bk_id k = i) (bf_chunks st') = Some (page_done now (int (length rs)) token a k0)"
      unfolding st1 frame assms(2) by (rule find_chunk_update [OF assms(1)]) (simp add: page_done_def)
    then show ?thesis using FetchedPage frame(1) st1 by (simp add: page_done_def)
  next
    case (LoadShed until_t m)
    have "find (\<lambda>k. bk_id k = i) (bf_chunks (update_chunk i (deferred now until_t (take 500 m)) st)) = Some (deferred now until_t (take 500 m) k0)"
      unfolding update_chunk_def using find_chunk_update [OF assms(1), of "deferred now until_t (take 500 m)"] by (simp add: deferred_def)
    then show ?thesis using LoadShed step assms(2,3) by (auto simp: chunk_step_def deferred_def update_chunk_def)
  next
    case (RemoteFailure retryable after m)
    let ?f = "failed_attempt now (bk_attempts k + 1) retryable after (take 500 m)"
    have "find (\<lambda>k. bk_id k = i) (bf_chunks (update_chunk i ?f st)) = Some (?f k0)"
      unfolding update_chunk_def using find_chunk_update [OF assms(1), of ?f] by (simp add: failed_attempt_def Let_def)
    then show ?thesis using RemoteFailure step assms(2,3) by (auto simp: chunk_step_def failed_attempt_def Let_def update_chunk_def)
  next
    case (OtherFailure m)
    let ?f = "failed_attempt now (bk_attempts k + 1) False None (take 500 m)"
    have "find (\<lambda>k. bk_id k = i) (bf_chunks (update_chunk i ?f st)) = Some (?f k0)"
      unfolding update_chunk_def using find_chunk_update [OF assms(1), of ?f] by (simp add: failed_attempt_def Let_def)
    then show ?thesis using OtherFailure step assms(2,3) by (auto simp: chunk_step_def failed_attempt_def Let_def update_chunk_def)
  qed
  then show "bf_jobs st' = bf_jobs st" and "\<exists>k'. find (\<lambda>k. bk_id k = i) (bf_chunks st') = Some k' \<and>
       (case reply of
          FetchedPage rs token \<Rightarrow> bk_attempts k' = 0 \<and> bk_status k' = (if or_null token = None then ChunkDone else ChunkPending)
        | LoadShed until_t m \<Rightarrow> bk_attempts k' = bk_attempts k \<and> bk_status k' = ChunkPending
        | _ \<Rightarrow> bk_attempts k' = bk_attempts k + 1 \<and>
            (bk_status k' = ChunkFailed \<or> (bk_status k' = ChunkPending \<and> bk_attempts k + 1 < max_chunk_attempts)))" by blast+
qed

text \<open>C27. No chunk is worked for ever: with the lease held, a chunk that starts with fewer than five failed
  attempts is done or failed after at most five turns per remaining page and five more, whatever the
  provider answers in them, turns refused locally while load is shed not counted.\<close>

theorem chunk_settles:
  assumes "find (\<lambda>k. bk_id k = i) (bf_chunks st) = Some k" "bk_status k = ChunkPending" "0 \<le> bk_attempts k"
      "bk_attempts k < max_chunk_attempts" "holds_lease j owner st"
    and "5 * length (filter (continues \<circ> snd) rs) + nat (max_chunk_attempts - bk_attempts k) \<le> length (filter (answered \<circ> snd) rs)"
    and "chunk_turns sha ids j owner c i n rs (l, st) = (l', st')"
  shows "\<exists>k'. find (\<lambda>k. bk_id k = i) (bf_chunks st') = Some k' \<and> (bk_status k' = ChunkDone \<or> bk_status k' = ChunkFailed)"
  using assms
proof (induction rs arbitrary: n l st k)
  case Nil
  then show ?case by simp
next
  case (Cons x rs)
  obtain now reply where x: "x = (now, reply)" by (rule prod.exhaust)
  let ?st = "mark_running now [k] st"
  obtain p l1 st1 where step: "chunk_step sha (ids n) now j owner c k reply (l, ?st) = (p, l1, st1)" by (rule prod_cases3)
  have i: "bk_id k = i" using find_SomeD [OF Cons.prems(1)] by simp
  note mark = mark_one [OF Cons.prems(1), of now]
  have lease: "holds_lease j owner ?st" using Cons.prems(5) mark(2) by (simp add: holds_lease_def)
  obtain k' where k': "find (\<lambda>k. bk_id k = i) (bf_chunks st1) = Some k'"
      "case reply of
          FetchedPage rs token \<Rightarrow> bk_attempts k' = 0 \<and> bk_status k' = (if or_null token = None then ChunkDone else ChunkPending)
        | LoadShed until_t m \<Rightarrow> bk_attempts k' = bk_attempts k \<and> bk_status k' = ChunkPending
        | _ \<Rightarrow> bk_attempts k' = bk_attempts k + 1 \<and>
            (bk_status k' = ChunkFailed \<or> (bk_status k' = ChunkPending \<and> bk_attempts k + 1 < max_chunk_attempts))"
    using chunk_step_row(2) [OF mark(1) i _ lease step] by auto
  have held: "holds_lease j owner st1"
    using chunk_step_row(1) [OF mark(1) i _ lease step] lease by (simp add: holds_lease_def)
  have rest: "chunk_turns sha ids j owner c i (Suc n) rs (l1, st1) = (l', st')"
    using Cons.prems(1,2,7) step by (simp add: x)
  show ?case
  proof (cases "bk_status k' = ChunkPending")
    case True
    have a: "0 \<le> bk_attempts k'" "bk_attempts k' < max_chunk_attempts"
      using k'(2) True Cons.prems(3,4) by (auto simp: max_chunk_attempts_def split: fetch_reply.splits)
    have "5 * length (filter (continues \<circ> snd) rs) + nat (max_chunk_attempts - bk_attempts k') \<le> length (filter (answered \<circ> snd) rs)"
      using k'(2) True Cons.prems(3,4,6) by (auto simp: x comp_def max_chunk_attempts_def split: fetch_reply.splits if_splits)
    from Cons.IH [OF k'(1) True a held this rest] show ?thesis .
  next
    case False
    then have "bk_status k' = ChunkDone \<or> bk_status k' = ChunkFailed"
      using k'(2) by (auto split: fetch_reply.splits if_splits)
    moreover have "st' = st1" using rest k'(1) False by (cases rs) auto
    ultimately show ?thesis using k'(1) by blast
  qed
qed

lemma chunk_settles_witness:
  "\<exists>l st' k. chunk_turns sample_sha (\<lambda>_ _. ''q'') (sample_job ''a'' JobRunning) ''w1'' sample_connector ''k1'' 0
       (replicate 5 (0, RemoteFailure True None ''down''))
       (new_limiter 4 300 None, sample_backfill [sample_job ''a'' JobRunning] [sample_chunk ''k1'' ''a'' ChunkPending]) = (l, st') \<and>
     find (\<lambda>k. bk_id k = ''k1'') (bf_chunks st') = Some k \<and> (bk_status k = ChunkDone \<or> bk_status k = ChunkFailed)"
proof -
  let ?st = "sample_backfill [sample_job ''a'' JobRunning] [sample_chunk ''k1'' ''a'' ChunkPending]"
  let ?rs = "replicate 5 (0 :: time, RemoteFailure True None ''down'')"
  obtain l st' where run: "chunk_turns sample_sha (\<lambda>_ _. ''q'') (sample_job ''a'' JobRunning) ''w1'' sample_connector ''k1'' 0 ?rs
      (new_limiter 4 300 None, ?st) = (l, st')" by (rule prod.exhaust)
  have "\<exists>k'. find (\<lambda>k. bk_id k = ''k1'') (bf_chunks st') = Some k' \<and> (bk_status k' = ChunkDone \<or> bk_status k' = ChunkFailed)"
    by (rule chunk_settles [OF _ _ _ _ _ _ run, where k = "sample_chunk ''k1'' ''a'' ChunkPending"])
      (simp_all add: sample_chunk_def sample_job_def holds_lease_def max_chunk_attempts_def filter_replicate)
  with run show ?thesis by blast
qed

subsection \<open>The ledger of a job\<close>

definition chunk_key :: "bf_chunk \<Rightarrow> uuid \<times> nat" where
  "chunk_key k = (bk_job_id k, bk_seq k)"

definition chunk_idents :: "'z bf_store_scheme \<Rightarrow> (uuid \<times> uuid \<times> nat) set" where
  "chunk_idents st = (\<lambda>k. (bk_id k, chunk_key k)) ` set (bf_chunks st)"

definition ledger_rows :: "bf_chunk \<Rightarrow> 'z bf_store_scheme \<Rightarrow> bf_record list" where
  "ledger_rows k st = filter (\<lambda>r. (br_job_id r, br_chunk_seq r) = chunk_key k) (bf_records st)"

definition chunk_balanced :: "'z bf_store_scheme \<Rightarrow> bf_chunk \<Rightarrow> bool" where
  "chunk_balanced st k \<longleftrightarrow> bk_fetched k = int (length (ledger_rows k st)) \<and>
     bk_enqueued k = int (count_by br_enqueued (ledger_rows k st)) \<and> bk_fetched k = bk_enqueued k + bk_duplicates k"

definition ledger_ok :: "'z bf_store_scheme \<Rightarrow> bool" where
  "ledger_ok st \<longleftrightarrow> distinct (map bk_id (bf_chunks st)) \<and> distinct (map chunk_key (bf_chunks st)) \<and>
     (\<forall>k \<in> set (bf_chunks st). chunk_balanced st k)"

text \<open>What others may commit meanwhile: anything that keeps the ledger and drops no chunk.\<close>

definition keeps_ledger :: "('z bf_store_scheme \<Rightarrow> 'z bf_store_scheme) \<Rightarrow> bool" where
  "keeps_ledger w \<longleftrightarrow> (\<forall>st. ledger_ok st \<longrightarrow> ledger_ok (w st) \<and> chunk_idents st \<subseteq> chunk_idents (w st))"

definition counters :: "bf_chunk \<Rightarrow> uuid \<times> (uuid \<times> nat) \<times> int \<times> int \<times> int" where
  "counters k = (bk_id k, chunk_key k, bk_fetched k, bk_enqueued k, bk_duplicates k)"

lemma ledger_frame:
  fixes st st' :: "'z bf_store_scheme"
  assumes "map counters (bf_chunks st') = map counters (bf_chunks st)" "bf_records st' = bf_records st"
  shows "ledger_ok st' = ledger_ok st" "chunk_idents st' = chunk_idents st"
proof -
  have via: "map bk_id (bf_chunks s) = map fst (map counters (bf_chunks s))"
    "map chunk_key (bf_chunks s) = map (fst \<circ> snd) (map counters (bf_chunks s))"
    "chunk_idents s = (\<lambda>(i, key, _). (i, key)) ` set (map counters (bf_chunks s))"
    "(\<forall>k \<in> set (bf_chunks s). chunk_balanced s k) \<longleftrightarrow> (\<forall>(i, key, f, e, d) \<in> set (map counters (bf_chunks s)).
       f = int (length (filter (\<lambda>r. (br_job_id r, br_chunk_seq r) = key) (bf_records s))) \<and>
       e = int (count_by br_enqueued (filter (\<lambda>r. (br_job_id r, br_chunk_seq r) = key) (bf_records s))) \<and> f = e + d)"
    for s :: "'z bf_store_scheme"
    by (auto simp: counters_def chunk_idents_def chunk_balanced_def ledger_rows_def image_image)
  show "ledger_ok st' = ledger_ok st" "chunk_idents st' = chunk_idents st"
    unfolding ledger_ok_def via assms by (rule refl)+
qed

lemma ledger_update:
  fixes st st' :: "'z bf_store_scheme"
  assumes "\<And>k. counters (f k) = counters k" "bf_chunks st' = update_where P f (bf_chunks st)" "bf_records st' = bf_records st"
  shows "ledger_ok st' = ledger_ok st" "chunk_idents st' = chunk_idents st"
proof -
  have "map counters (bf_chunks st') = map counters (bf_chunks st)"
    unfolding assms(2) by (rule map_update_where) (rule assms(1))
  then show "ledger_ok st' = ledger_ok st" "chunk_idents st' = chunk_idents st"
    using ledger_frame [OF _ assms(3)] by simp_all
qed

lemma update_chunk_ledger:
  assumes "\<And>k. counters (f k) = counters k"
  shows "ledger_ok (update_chunk i f st) = ledger_ok st" "chunk_idents (update_chunk i f st) = chunk_idents st"
  by (rule ledger_update [OF assms]; simp add: update_chunk_def)+

lemma counters_steps [simp]:
  "counters (deferred now until_t m k) = counters k" "counters (failed_attempt now n t after m k) = counters k"
  "counters (release_chunk k) = counters k" "counters (reset_chunk now k) = counters k"
  "counters (k\<lparr>bk_status := s, bk_updated_at := now\<rparr>) = counters k"
  by (simp_all add: counters_def chunk_key_def deferred_def failed_attempt_def release_chunk_def reset_chunk_def Let_def)

lemma accept_all_counts:
  assumes "accept_all sha ids org c ty job rs (a, st) = (a', st')"
  shows "ac_inserted a' - ac_inserted a = int (count_by ao_enqueued (drop (length (ac_outcomes a)) (ac_outcomes a'))) \<and>
    take (length (ac_outcomes a)) (ac_outcomes a') = ac_outcomes a"
  using assms
proof (induction rs arbitrary: ids a st)
  case Nil
  then show ?case by (simp add: count_by_def)
next
  case (Cons r rs)
  obtain a1 st1 where one: "accept_one sha (ids 0) org c ty job r (a, st) = (a1, st1)" by fastforce
  obtain o' where o': "ac_outcomes a1 = ac_outcomes a @ [o']" "ac_inserted a1 = ac_inserted a + (if ao_enqueued o' then 1 else 0)"
    using accept_one_effect(5) [OF one] by blast
  have "accept_all sha (\<lambda>n. ids (Suc n)) org c ty job rs (a1, st1) = (a', st')" using Cons.prems one by simp
  from Cons.IH [OF this] have IH: "ac_inserted a' - ac_inserted a1 = int (count_by ao_enqueued (drop (length (ac_outcomes a1)) (ac_outcomes a')))"
      "take (length (ac_outcomes a1)) (ac_outcomes a') = ac_outcomes a1" by simp_all
  have "ac_outcomes a' = ac_outcomes a1 @ drop (length (ac_outcomes a1)) (ac_outcomes a')"
    using IH(2) by (metis append_take_drop_id)
  then have split: "ac_outcomes a' = ac_outcomes a @ o' # drop (length (ac_outcomes a1)) (ac_outcomes a')" by (simp add: o'(1))
  have "drop (length (ac_outcomes a)) (ac_outcomes a') = o' # drop (length (ac_outcomes a1)) (ac_outcomes a')"
    "take (length (ac_outcomes a)) (ac_outcomes a') = ac_outcomes a"
    by (subst split, simp)+
  then show ?case using IH(1) o'(2) by (cases "ao_enqueued o'") (simp_all add: count_by_def)
qed

lemma accept_page_counts:
  assumes "accept_records sha ids org c ty rs (advance_chunk now j owner k n token) job st = Inr (a, st')"
  shows "length (ac_outcomes a) = length rs" "ac_inserted a = int (count_by ao_enqueued (ac_outcomes a))"
proof -
  obtain st1 where all: "accept_all sha ids org c ty job rs (no_acceptance, st) = (a, st1)"
    using assms by (auto simp: accept_records_def and_then_Inr split: prod.splits)
  show "length (ac_outcomes a) = length rs" "ac_inserted a = int (count_by ao_enqueued (ac_outcomes a))"
    using accept_all_effect(3) [OF all] accept_all_counts [OF all] by (simp_all add: no_acceptance_def)
qed

lemma page_keeps_ledger:
  assumes "ledger_ok st" "(bk_id k, bj_id j, bk_seq k) \<in> chunk_idents st"
    and acc: "accept_records sha ids org c ty rs (advance_chunk now j owner k (int (length rs)) token) job st = Inr (a, st')"
  shows "ledger_ok st'" "chunk_idents st' = chunk_idents st"
proof -
  let ?f = "page_done now (int (length rs)) token a"
  note frame = accept_page_frame [OF acc] and counts = accept_page_counts [OF acc]
  have same: "bk_id (?f x) = bk_id x" "chunk_key (?f x) = chunk_key x" for x by (simp_all add: page_done_def chunk_key_def)
  obtain k0 where k0: "k0 \<in> set (bf_chunks st)" "bk_id k0 = bk_id k" "chunk_key k0 = (bj_id j, bk_seq k)"
    using assms(2) by (auto simp: chunk_idents_def)
  have uniq: "x = k0" if "x \<in> set (bf_chunks st)" "bk_id x = bk_id k \<or> chunk_key x = chunk_key k0" for x
    using that k0 assms(1) distinct_id_eq [of bk_id "bf_chunks st" x k0] distinct_id_eq [of chunk_key "bf_chunks st" x k0]
    by (auto simp: ledger_ok_def)
  have rows: "ledger_rows x st' = ledger_rows x st @ (if chunk_key x = chunk_key k0 then map (ledger_row now j (bk_seq k)) (ac_outcomes a) else [])" for x
    by (auto simp: ledger_rows_def frame(4) k0(3) ledger_row_def filter_empty_conv comp_def)
  have new: "count_by br_enqueued (map (ledger_row now j (bk_seq k)) os) = count_by ao_enqueued os" for os
    by (simp add: count_by_def filter_map comp_def ledger_row_def)
  have "chunk_balanced st' x'" if mem: "x' \<in> set (bf_chunks st')" for x'
  proof -
    obtain x where x: "x \<in> set (bf_chunks st)" "x' = (if bk_id x = bk_id k then ?f x else x)"
      using mem unfolding frame(3) set_update_where by blast
    have bal: "chunk_balanced st x" using assms(1) x(1) by (simp add: ledger_ok_def)
    show ?thesis
    proof (cases "bk_id x = bk_id k")
      case True
      then have "x = k0" using uniq x(1) by blast
      moreover have "ledger_rows (?f k0) st' = ledger_rows k0 st @ map (ledger_row now j (bk_seq k)) (ac_outcomes a)"
        using rows [of "?f k0"] same(2) [of k0] by (simp add: ledger_rows_def)
      ultimately show ?thesis using True bal x(2) counts new
        by (simp add: chunk_balanced_def page_done_def count_by_def)
    next
      case False
      then have "chunk_key x \<noteq> chunk_key k0" using uniq x(1) k0(2) by metis
      then show ?thesis using False bal x(2) rows [of x] by (simp add: chunk_balanced_def)
    qed
  qed
  moreover have "map bk_id (bf_chunks st') = map bk_id (bf_chunks st)" "map chunk_key (bf_chunks st') = map chunk_key (bf_chunks st)"
    unfolding frame(3) using same by (simp_all add: table_simps)
  ultimately show "ledger_ok st'" using assms(1) by (simp add: ledger_ok_def)
  show "chunk_idents st' = chunk_idents st"
    unfolding chunk_idents_def frame(3) set_map [symmetric] by (subst map_update_where) (simp_all add: same)
qed

lemma chunk_step_keeps_ledger:
  assumes "ledger_ok st" "(bk_id k, bj_id j, bk_seq k) \<in> chunk_idents st"
    and step: "chunk_step sha ids now j owner c k reply (l, st) = (p, l', st')"
  shows "ledger_ok st' \<and> chunk_idents st' = chunk_idents st"
proof (cases reply)
  case (FetchedPage rs token)
  show ?thesis
  proof (cases "accept_records sha ids (bj_org_id j) c (bj_entity_type j) rs
      (advance_chunk now j owner k (int (length rs)) token) (Some (bj_id j)) st")
    case (Inl u)
    then show ?thesis using step FetchedPage assms(1) by (auto simp: chunk_step_def update_chunk_ledger)
  next
    case (Inr q)
    then obtain a st1 where q: "accept_records sha ids (bj_org_id j) c (bj_entity_type j) rs
        (advance_chunk now j owner k (int (length rs)) token) (Some (bj_id j)) st = Inr (a, st1)" by (cases q) simp
    then have "st' = st1" using step FetchedPage by (simp add: chunk_step_def)
    then show ?thesis using page_keeps_ledger [OF assms(1,2) q] by simp
  qed
next
  case (RemoteFailure retryable after m)
  then show ?thesis using step assms(1) by (auto simp: chunk_step_def update_chunk_ledger)
qed (use step assms(1) in \<open>auto simp: chunk_step_def update_chunk_ledger\<close>)

lemma run_steps_keeps_ledger:
  assumes "\<And>n. keeps_ledger (rd_world r n)"
  shows "run_steps sha r j owner c n ks (su, l, st) = (su', l', st') \<Longrightarrow> ledger_ok st \<Longrightarrow>
    \<forall>k \<in> set ks. (bk_id k, bj_id j, bk_seq k) \<in> chunk_idents st \<Longrightarrow> ledger_ok st' \<and> chunk_idents st \<subseteq> chunk_idents st'"
proof (induction ks arbitrary: n su l st)
  case (Cons k ks)
  obtain t reply where t: "rd_replies r (bk_id k) = (t, reply)" by (rule prod.exhaust)
  obtain pages new l1 st1 where step: "chunk_step sha (rd_ids r n) t j owner c k reply (l, rd_world r n st) = ((pages, new), l1, st1)"
    by (metis prod.exhaust)
  have world: "ledger_ok (rd_world r n st)" "chunk_idents st \<subseteq> chunk_idents (rd_world r n st)"
    using assms [of n] Cons.prems(2) by (auto simp: keeps_ledger_def)
  have one: "ledger_ok st1" "chunk_idents st1 = chunk_idents (rd_world r n st)"
    using chunk_step_keeps_ledger [OF world(1) _ step] world(2) Cons.prems(3) by auto
  have "run_steps sha r j owner c (Suc n) ks (su\<lparr>su_pages := su_pages su + pages, su_enqueued := su_enqueued su + new\<rparr>, l1, st1) = (su', l', st')"
    using Cons.prems(1) t step by simp
  from Cons.IH [OF this one(1)] show ?case using one(2) world(2) Cons.prems(3) by auto
qed simp

lemma jobs_only_ledger [simp]:
  "ledger_ok (save_limiter j owner l st) = ledger_ok st" "chunk_idents (save_limiter j owner l st) = chunk_idents st"
  "ledger_ok (renew_lease now j owner st) = ledger_ok st" "chunk_idents (renew_lease now j owner st) = chunk_idents st"
  "ledger_ok (release_lease j owner st) = ledger_ok st" "chunk_idents (release_lease j owner st) = chunk_idents st"
  "ledger_ok (mark_running now ks st) = ledger_ok st" "chunk_idents (mark_running now ks st) = chunk_idents st"
  by (rule ledger_frame; simp add: save_limiter_def renew_lease_def release_lease_def mark_running_def table_simps)+

lemma due_chunks_idents:
  assumes "k \<in> set (due_chunks now i n st)"
  shows "(bk_id k, i, bk_seq k) \<in> chunk_idents st"
  using in_set_takeD [OF assms [unfolded due_chunks_def]] by (auto simp: chunk_idents_def chunk_key_def)

definition fair_round :: "'z bf_store_scheme bf_round \<Rightarrow> bool" where
  "fair_round r \<longleftrightarrow> (\<forall>n. keeps_ledger (rd_world r n)) \<and> (\<forall>ks. set (rd_order r ks) = set ks)"

lemma keepsD: "keeps_ledger w \<Longrightarrow> ledger_ok st \<Longrightarrow> ledger_ok (w st) \<and> chunk_idents st \<subseteq> chunk_idents (w st)"
  by (simp add: keeps_ledger_def)

lemma work_job_keeps_ledger:
  assumes "\<forall>r \<in> set rounds. fair_round r"
  shows "work_job sha j owner c deadline rounds (su, l, st) = (su', l', st') \<Longrightarrow> ledger_ok st \<Longrightarrow>
    ledger_ok st' \<and> chunk_idents st \<subseteq> chunk_idents st'"
  using assms
proof (induction rounds arbitrary: su l st)
  case (Cons r rs)
  let ?st1 = "renew_lease (rd_now r) j owner st"
  let ?due = "due_chunks (rd_now r) (bj_id j) (li_concurrency l) ?st1"
  have w: "keeps_ledger (rd_world r n)" "set (rd_order r ks) = set ks" for n ks using Cons.prems(3) by (auto simp: fair_round_def)
  have idle: "ledger_ok (rd_world r n s) \<and> chunk_idents s \<subseteq> chunk_idents (rd_world r n s)" if "ledger_ok s" for n s
    using keepsD [OF w(1) that] .
  show ?case
  proof (cases "\<exists>x \<in> set (bf_jobs st). bj_id x = bj_id j \<and> bj_lease_owner x = Some owner \<and> bj_status x = JobRunning")
    case False
    then show ?thesis using Cons.prems(1,2) by auto
  next
    case True
    show ?thesis
    proof (cases "?due = []")
      case True
      have "work_job sha j owner c deadline rs (su, l, rd_world r 0 ?st1) = (su', l', st') \<or> st' = ?st1"
        using Cons.prems(1) True \<open>\<exists>x \<in> set (bf_jobs st). _ x\<close> by (auto simp: Let_def split: list.splits if_splits)
      then show ?thesis
      proof
        assume "st' = ?st1" then show ?thesis using Cons.prems(2) by simp
      next
        assume go: "work_job sha j owner c deadline rs (su, l, rd_world r 0 ?st1) = (su', l', st')"
        have "ledger_ok (rd_world r 0 ?st1) \<and> chunk_idents ?st1 \<subseteq> chunk_idents (rd_world r 0 ?st1)"
          by (rule idle) (simp add: Cons.prems(2))
        with Cons.IH [OF go] Cons.prems(3) show ?thesis by auto
      qed
    next
      case False
      let ?st2 = "mark_running (rd_now r) ?due ?st1"
      obtain su1 l1 st2 where steps: "run_steps sha r j owner c 0 (rd_order r ?due) (su\<lparr>su_chunks_run := su_chunks_run su + int (length ?due)\<rparr>, l, ?st2) = (su1, l1, st2)"
        by (metis prod_cases3)
      have "ledger_ok st2 \<and> chunk_idents ?st2 \<subseteq> chunk_idents st2"
        by (rule run_steps_keeps_ledger [OF w(1) steps]) (use Cons.prems(2) w(2) due_chunks_idents in \<open>fastforce simp: \<close>)+
      then have st2: "ledger_ok st2" "chunk_idents st \<subseteq> chunk_idents st2" by simp_all
      let ?st3 = "rd_world r (length ?due) (save_limiter j owner l1 st2)"
      have "ledger_ok ?st3 \<and> chunk_idents (save_limiter j owner l1 st2) \<subseteq> chunk_idents ?st3"
        by (rule idle) (simp add: st2)
      then have st3: "ledger_ok ?st3" "chunk_idents st \<subseteq> chunk_idents ?st3" using st2(2) by auto
      have "work_job sha j owner c deadline rs (su1, l1, ?st3) = (su', l', st') \<or> st' = ?st3"
        using Cons.prems(1) False steps True by (auto simp: Let_def split: if_splits)
      then show ?thesis
      proof
        assume "st' = ?st3" then show ?thesis using st3 by simp
      next
        assume go: "work_job sha j owner c deadline rs (su1, l1, ?st3) = (su', l', st')"
        from Cons.IH [OF go st3(1)] Cons.prems(3) st3(2) show ?thesis by auto
      qed
    qed
  qed
qed simp

lemma announce_ledger:
  assumes "announce sha (store_pub sha) fresh now i st = Inr st'"
  shows "ledger_ok st' = ledger_ok st" "chunk_idents st' = chunk_idents st"
  by (rule ledger_frame; simp add: announce_frame [OF assms])+

lemma jobs_update_ledger [simp]:
  "ledger_ok (st\<lparr>bf_jobs := x\<rparr>) = ledger_ok st" "chunk_idents (st\<lparr>bf_jobs := x\<rparr>) = chunk_idents st"
  by (rule ledger_frame; simp)+

lemma finish_job_keeps_ledger:
  assumes "finish_job sha (store_pub sha) race fresh now j owner st = Inr (x, st')" "keeps_ledger race" "ledger_ok st"
  shows "ledger_ok st' \<and> chunk_idents st \<subseteq> chunk_idents st'"
proof -
  have "ledger_ok (race st) \<and> chunk_idents st \<subseteq> chunk_idents (race st)" by (rule keepsD [OF assms(2,3)])
  moreover have "(ledger_ok st' = ledger_ok (race st) \<and> chunk_idents st' = chunk_idents (race st)) \<or> st' = st"
    using assms(1) by (auto simp: finish_job_def Let_def and_then_Inr announce_ledger split: option.splits if_splits)
  ultimately show ?thesis using assms(3) by auto
qed

lemma transition_keeps_ledger: "keeps_ledger (after_call (transition_job sha (store_pub sha) fresh now org i actor from_s to_s ty refusal))"
  unfolding keeps_ledger_def after_call_def transition_job_def
  by (auto simp: and_then_Inr announce_ledger split: option.splits sum.splits prod.splits)

lemma activate_keeps_ledger:
  assumes "keeps_ledger race"
  shows "keeps_ledger (after_call (activate_job sha (store_pub sha) race fresh now org i actor from_s ty refusal))"
  unfolding keeps_ledger_def
proof (intro allI impI)
  fix st :: "'a bf_store_scheme"
  assume st: "ledger_ok st"
  show "ledger_ok (after_call (activate_job sha (store_pub sha) race fresh now org i actor from_s ty refusal) st) \<and>
      chunk_idents st \<subseteq> chunk_idents (after_call (activate_job sha (store_pub sha) race fresh now org i actor from_s ty refusal) st)"
  proof (cases "activate_job sha (store_pub sha) race fresh now org i actor from_s ty refusal st")
    case (Inl e)
    then show ?thesis using st by (simp add: after_call_def)
  next
    case (Inr p)
    then have t: "transition_job sha (store_pub sha) fresh now org i actor from_s JobRunning ty refusal (race st) = Inr p"
      by (auto simp: activate_job_def and_then_Inr split: if_splits)
    have eq: "after_call (activate_job sha (store_pub sha) race fresh now org i actor from_s ty refusal) st =
        after_call (transition_job sha (store_pub sha) fresh now org i actor from_s JobRunning ty refusal) (race st)"
      using Inr t by (simp add: after_call_def)
    have a: "ledger_ok (race st) \<and> chunk_idents st \<subseteq> chunk_idents (race st)" by (rule keepsD [OF assms st])
    show ?thesis unfolding eq using keepsD [OF transition_keeps_ledger conjunct1 [OF a]] a by (blast intro: order_trans)
  qed
qed

lemma lifecycle_keeps_ledger:
  assumes "keeps_ledger race"
  shows "keeps_ledger (after_call (start_job sha (store_pub sha) race fresh now org i actor))"
    "keeps_ledger (after_call (resume_job sha (store_pub sha) race fresh now org i actor))"
    "keeps_ledger (after_call (pause_job sha (store_pub sha) fresh now org i actor))"
    "keeps_ledger (after_call (cancel_job sha (store_pub sha) fresh now org i actor))"
  unfolding start_job_def resume_job_def pause_job_def cancel_job_def
  by (rule activate_keeps_ledger [OF assms] transition_keeps_ledger)+

lemma retry_keeps_ledger:
  assumes "keeps_ledger race"
  shows "keeps_ledger (after_call (retry_failed sha (store_pub sha) race fresh now org i actor))"
  unfolding keeps_ledger_def
proof (intro allI impI)
  fix st :: "'a bf_store_scheme"
  assume st: "ledger_ok st"
  show "ledger_ok (after_call (retry_failed sha (store_pub sha) race fresh now org i actor) st) \<and>
      chunk_idents st \<subseteq> chunk_idents (after_call (retry_failed sha (store_pub sha) race fresh now org i actor) st)"
  proof (cases "retry_failed sha (store_pub sha) race fresh now org i actor st")
    case (Inr p)
    obtain x st' where p: "p = (x, st')" by (rule prod.exhaust)
    let ?st = "race st"
    let ?st1 = "?st\<lparr>bf_chunks := update_where (\<lambda>k. bk_org_id k = org \<and> bk_job_id k = i \<and> bk_status k = ChunkFailed) (reset_chunk now) (bf_chunks ?st)\<rparr>"
    have u: "ledger_ok ?st1 = ledger_ok ?st" "chunk_idents ?st1 = chunk_idents ?st"
      by (rule ledger_update [of "reset_chunk now"]; simp)+
    have "bf_chunks st' = bf_chunks ?st1 \<and> bf_records st' = bf_records ?st1"
      by (rule retry_failed_Inr [OF Inr [unfolded p]]) simp
    then have "ledger_ok st' = ledger_ok ?st1 \<and> chunk_idents st' = chunk_idents ?st1"
      using ledger_frame [of st' ?st1] by simp
    then show ?thesis using Inr p u keepsD [OF assms st] by (simp add: after_call_def)
  qed (use st in \<open>simp add: after_call_def\<close>)
qed

lemma fetched_rows:
  assumes "ledger_ok st" "set ks \<subseteq> set (bf_chunks st)" "distinct (map chunk_key ks)"
  shows "sum_list (map bk_fetched ks) = int (length (filter (\<lambda>r. (br_job_id r, br_chunk_seq r) \<in> chunk_key ` set ks) (bf_records st)))"
  using assms(2,3)
proof (induction ks)
  case (Cons k ks)
  have sum: "length (filter (\<lambda>r. P r \<or> Q r) rs) = length (filter P rs) + length (filter Q rs)" if "\<And>r. \<not> (P r \<and> Q r)"
    for P Q and rs :: "bf_record list"
    using that by (induction rs) auto
  have "chunk_balanced st k" using assms(1) Cons.prems(1) by (simp add: ledger_ok_def)
  moreover have "length (filter (\<lambda>r. (br_job_id r, br_chunk_seq r) = chunk_key k \<or> (br_job_id r, br_chunk_seq r) \<in> chunk_key ` set ks) (bf_records st)) =
      length (ledger_rows k st) + length (filter (\<lambda>r. (br_job_id r, br_chunk_seq r) \<in> chunk_key ` set ks) (bf_records st))"
    unfolding ledger_rows_def by (rule sum) (use Cons.prems(2) in auto)
  ultimately show ?case using Cons by (simp add: chunk_balanced_def)
qed simp



definition sample_round :: "bf_store bf_round" where
  "sample_round = \<lparr>rd_now = 0, rd_replies = (\<lambda>_. (0, FetchedPage [sample_record ''1'', sample_record ''2''] None)), rd_order = (\<lambda>ks. ks),
     rd_ids = (\<lambda>_ n. replicate n CHR ''q''), rd_world = (\<lambda>_ s. s), rd_end = 1\<rparr>"


end
