(* ===== verification/TwinQueue.thy ===== *)
theory TwinQueue
  imports Ingestion
begin

text \<open>
  The drain of the ingestion queue in \<^verbatim>\<open>src/modules/connectors/connector.service.ts\<close>
  (\<^verbatim>\<open>processDueIngestionRecords\<close>, \<^verbatim>\<open>processIngestionRecord\<close>, \<^verbatim>\<open>processRecord\<close>): which queued
  records are due, how one is claimed, materialised as a canonical twin and settled, and what happens
  to one that keeps failing.

  The payload of a record is JSON; a property of another type than \<^verbatim>\<open>ExternalRecordPayload\<close> declares
  reads as missing. \<open>instant\<close> is \<^verbatim>\<open>Date.parse\<close>, \<open>None\<close> its \<^verbatim>\<open>NaN\<close>. Reading the public comments of a record
  is an argument of the drain, and so is what other workers commit while a record is processed.
\<close>

subsection \<open>Events\<close>

subsection \<open>Records\<close>

record provider_record =
  pv_external_id :: string
  pv_artifact_type :: string
  pv_title :: jsval
  pv_native_key :: "string option"
  pv_native_url :: "string option"
  pv_status :: string
  pv_fields :: jsobj
  pv_authority :: jsval
  pv_updated_at :: string
  pv_updated_by :: "string option"

definition text_prop :: "jsval \<Rightarrow> string \<Rightarrow> string" where
  "text_prop v k = (case jprop v k of JStr s \<Rightarrow> s | _ \<Rightarrow> [])"

definition opt_prop :: "jsval \<Rightarrow> string \<Rightarrow> string option" where
  "opt_prop v k = (case jprop v k of JStr s \<Rightarrow> Some s | _ \<Rightarrow> None)"

definition read_payload :: "jsval \<Rightarrow> provider_record" where
  "read_payload v = \<lparr>pv_external_id = text_prop v ''externalId'', pv_artifact_type = text_prop v ''artifactType'',
     pv_title = jprop v ''title'', pv_native_key = opt_prop v ''nativeKey'', pv_native_url = opt_prop v ''nativeUrl'',
     pv_status = text_prop v ''status'', pv_fields = (case jprop v ''fields'' of JObj o' \<Rightarrow> o' | _ \<Rightarrow> []),
     pv_authority = jprop v ''fieldAuthority'', pv_updated_at = text_prop v ''updatedAt'', pv_updated_by = opt_prop v ''updatedBy''\<rparr>"

definition record_hash :: "(string \<Rightarrow> string) \<Rightarrow> provider_record \<Rightarrow> string" where
  "record_hash sha p = sha (stable_stringify (JObj [(''title'', pv_title p), (''status'', JStr (pv_status p)),
     (''nativeKey'', jopt (or_null (pv_native_key p))), (''nativeUrl'', jopt (or_null (pv_native_url p))),
     (''fields'', JObj (pv_fields p)), (''fieldAuthority'', or_empty_obj (pv_authority p))]))"

definition same_state :: "string \<Rightarrow> string \<Rightarrow> bool" where
  "same_state a b \<longleftrightarrow> lower (trim a) = lower (trim b)"

definition or_jnull :: "jsval \<Rightarrow> jsval" where
  "or_jnull v = (if v = JUndef then JNull else v)"

definition fields_differ :: "jsobj \<Rightarrow> jsobj \<Rightarrow> bool" where
  "fields_differ a b \<longleftrightarrow> (\<exists>k \<in> set (map fst (jspread a b)).
     stable_stringify (or_jnull (jget a k)) \<noteq> stable_stringify (or_jnull (jget b k)))"

subsection \<open>Materialising one record\<close>

datatype process_error =
    RecordFailed string
  | RecordShed time string

datatype record_outcome = RecordCreated | RecordUpdated | RecordUnchanged

definition is_twin :: "string \<Rightarrow> string \<Rightarrow> string \<Rightarrow> string \<Rightarrow> twin \<Rightarrow> bool" where
  "is_twin org provider ty ext t \<longleftrightarrow>
     tw_org_id t = org \<and> tw_provider t = provider \<and> tw_artifact_type t = ty \<and> tw_external_id t = ext"

definition find_twin :: "string \<Rightarrow> string \<Rightarrow> string \<Rightarrow> string \<Rightarrow> 'z ingest_store_scheme \<Rightarrow> twin option" where
  "find_twin org provider ty ext st = find (is_twin org provider ty ext) (twins st)"

definition node_input :: "connector_row \<Rightarrow> provider_record \<Rightarrow> jsval" where
  "node_input c p = JObj [(''system'', JStr (cr_provider c)), (''entity_type'', JStr (pv_artifact_type p)),
     (''immutable_id'', JStr (pv_external_id p)),
     (''display_key'', JStr (case or_null (pv_native_key p) of Some k \<Rightarrow> k | None \<Rightarrow> pv_external_id p)),
     (''url'', (case pv_native_url p of Some u \<Rightarrow> JStr u | None \<Rightarrow> JUndef))]"

definition refreshed_twin :: "(string \<Rightarrow> string) \<Rightarrow> time option \<Rightarrow> time \<Rightarrow> uuid \<Rightarrow> provider_record \<Rightarrow> twin \<Rightarrow> twin" where
  "refreshed_twin sha stamp now node p t = t\<lparr>tw_native_key := or_null (pv_native_key p), tw_native_url := or_null (pv_native_url p),
     tw_title := json_clone (pv_title p), tw_native_status := pv_status p, tw_authority := json_clone (or_empty_obj (pv_authority p)),
     tw_payload := pv_fields p, tw_content_hash := record_hash sha p, tw_source_updated_at := stamp,
     tw_node_id := Some node, tw_sync_state := ''synced'', tw_updated_at := now\<rparr>"

definition new_twin ::
  "(string \<Rightarrow> string) \<Rightarrow> uuid \<Rightarrow> time option \<Rightarrow> time \<Rightarrow> string \<Rightarrow> connector_row \<Rightarrow> uuid \<Rightarrow> provider_record \<Rightarrow> twin" where
  "new_twin sha i stamp now org c node p =
     \<lparr>tw_id = i, tw_org_id = org, tw_connector_id = cr_id c, tw_provider = cr_provider c, tw_artifact_type = pv_artifact_type p,
      tw_external_id = pv_external_id p, tw_native_key = or_null (pv_native_key p), tw_native_url = or_null (pv_native_url p),
      tw_title = json_clone (pv_title p), tw_native_status = pv_status p, tw_sync_state = ''synced'',
      tw_authority = json_clone (or_empty_obj (pv_authority p)), tw_payload = pv_fields p, tw_content_hash = record_hash sha p,
      tw_source_updated_at = stamp, tw_node_id = Some node, tw_updated_at = now\<rparr>"

definition twin_event :: "string \<Rightarrow> connector_row \<Rightarrow> bool \<Rightarrow> uuid \<Rightarrow> uuid \<Rightarrow> bool \<Rightarrow> bool \<Rightarrow> provider_record \<Rightarrow> outbox_input" where
  "twin_event org c known i node state_changed fields_changed p =
     connector_event org i (''connector:'' @ cr_id c) (if known then ''CanonicalTwinUpdated'' else ''CanonicalTwinMaterialized'')
       [(''twin_id'', JStr i), (''connector_id'', JStr (cr_id c)),
        (''identity'', JObj [(''system'', JStr (cr_provider c)), (''entity_type'', JStr (pv_artifact_type p)), (''immutable_id'', JStr (pv_external_id p))]),
        (''native_key'', jopt (or_null (pv_native_key p))), (''native_status'', JStr (pv_status p)), (''correlation_node_id'', JStr node),
        (''source_updated_at'', JStr (pv_updated_at p)), (''state_changed'', JBool state_changed), (''fields_changed'', JBool fields_changed),
        (''title'', pv_title p), (''fields'', JObj (pv_fields p)),
        (''updated_by'', JStr (case or_null (pv_updated_by p) of Some u \<Rightarrow> u | None \<Rightarrow> cr_provider c @ '':unattributed''))]"

definition prior_twin :: "string \<Rightarrow> connector_row \<Rightarrow> provider_record \<Rightarrow> 'z ingest_store_scheme \<Rightarrow> twin option" where
  "prior_twin org c p st = find (\<lambda>t. is_twin org (cr_provider c) (pv_artifact_type p) (pv_external_id p) t \<and>
     find_connector org (tw_connector_id t) st \<noteq> None) (twins st)"

text \<open>\<open>source_updated_at\<close> takes what PostgreSQL reads as a timestamp; the write fails on anything else. A
  new twin that meets the unique key of an old one fails too.\<close>

definition lift_record :: "db_error + 'a \<Rightarrow> process_error + 'a" where
  "lift_record r = (case r of Inl e \<Rightarrow> Inl (RecordFailed (show_db_error e)) | Inr x \<Rightarrow> Inr x)"

lemma lift_record_Inr [simp]: "lift_record r = Inr x \<longleftrightarrow> r = Inr x"
  by (simp add: lift_record_def split: sum.splits)

definition write_twin ::
  "(string \<Rightarrow> string) \<Rightarrow> 'z ingest_store_scheme handler \<Rightarrow> (string \<Rightarrow> time option) \<Rightarrow> uuid \<Rightarrow> uuid \<Rightarrow> time \<Rightarrow> string \<Rightarrow> connector_row
   \<Rightarrow> uuid \<Rightarrow> provider_record \<Rightarrow> twin option \<Rightarrow> 'z ingest_store_scheme \<Rightarrow> process_error + 'z ingest_store_scheme" where
  "write_twin sha pub instant fresh i now org c node p prior st =
     (case instant (pv_updated_at p) of
        None \<Rightarrow> Inl (RecordFailed (''invalid input syntax for type timestamp with time zone: '' @ json_quote (pv_updated_at p)))
      | Some stamp \<Rightarrow>
          (let state_changed = (case prior of None \<Rightarrow> True | Some t \<Rightarrow> \<not> same_state (tw_native_status t) (pv_status p));
               fields_changed = (case prior of None \<Rightarrow> True | Some t \<Rightarrow> fields_differ (tw_payload t) (pv_fields p));
               rows = (case prior of
                   Some t \<Rightarrow> Inr (update_where (\<lambda>x. tw_id x = tw_id t \<and> tw_org_id x = org) (refreshed_twin sha (Some stamp) now node p) (twins st))
                 | None \<Rightarrow> if find_twin org (cr_provider c) (pv_artifact_type p) (pv_external_id p) st \<noteq> None
                     then Inl (RecordFailed ''duplicate key value violates unique constraint'')
                     else Inr (twins st @ [new_twin sha i (Some stamp) now org c node p]))
           in and_then rows (\<lambda>ts.
              and_then (lift_record (with_event sha pub fresh now
                  (twin_event org c (prior \<noteq> None) (case prior of Some t \<Rightarrow> tw_id t | None \<Rightarrow> i) node state_changed fields_changed p)
                  (st\<lparr>twins := ts\<rparr>))) (\<lambda>(_, st1). Inr st1))))"

text \<open>The node is upserted before the transaction, so it stays when the transaction fails.\<close>

definition show_corr_error :: "corr_error \<Rightarrow> string" where
  "show_corr_error e = (case e of InvalidCorrelation m \<Rightarrow> m | CorrelationNotFound m \<Rightarrow> m | CorrDb d \<Rightarrow> show_db_error d)"

definition materialise ::
  "(string \<Rightarrow> string) \<Rightarrow> 'z ingest_store_scheme handler \<Rightarrow> (string \<Rightarrow> time option) \<Rightarrow> (nat \<Rightarrow> uuid) \<Rightarrow> time \<Rightarrow> string \<Rightarrow> connector_row
   \<Rightarrow> provider_record \<Rightarrow> twin option \<Rightarrow> 'z ingest_store_scheme \<Rightarrow> (process_error + record_outcome) \<times> 'z ingest_store_scheme" where
  "materialise sha pub instant ids now org c p prior st =
     (case upsert_node (ids 0) now org (node_input c p) st of
        Inl e \<Rightarrow> (Inl (RecordFailed (show_corr_error e)), st)
      | Inr (n, st1) \<Rightarrow>
          (case write_twin sha pub instant (ids 1) (ids 2) now org c (cn_id n) p prior st1 of
             Inl e \<Rightarrow> (Inl e, st1)
           | Inr st2 \<Rightarrow> (Inr (if prior = None then RecordCreated else RecordUpdated), st2)))"

definition stale :: "(string \<Rightarrow> time option) \<Rightarrow> provider_record \<Rightarrow> twin \<Rightarrow> bool" where
  "stale instant p t \<longleftrightarrow> (case (instant (pv_updated_at p), tw_source_updated_at t) of (Some a, Some b) \<Rightarrow> a < b | _ \<Rightarrow> False)"

definition process_record ::
  "(string \<Rightarrow> string) \<Rightarrow> 'z ingest_store_scheme handler \<Rightarrow> (string \<Rightarrow> time option) \<Rightarrow> (nat \<Rightarrow> uuid) \<Rightarrow> time \<Rightarrow> string \<Rightarrow> connector_row
   \<Rightarrow> provider_record \<Rightarrow> 'z ingest_store_scheme \<Rightarrow> (process_error + record_outcome) \<times> 'z ingest_store_scheme" where
  "process_record sha pub instant ids now org c p st =
     (if pv_external_id p = [] then (Inl (RecordFailed ''Provider record has no immutable id''), st)
      else case prior_twin org c p st of
             None \<Rightarrow> materialise sha pub instant ids now org c p None st
           | Some t \<Rightarrow>
               if tw_connector_id t \<noteq> cr_id c
               then (Inl (RecordFailed (cr_provider c @ ''/'' @ pv_artifact_type p @ ''/'' @ pv_external_id p @ '' is already managed by connector '' @
                      [CHR 0x22] @ (case find_connector org (tw_connector_id t) st of Some d \<Rightarrow> cr_name d | None \<Rightarrow> []) @ [CHR 0x22])), st)
               else if stale instant p t \<or> tw_content_hash t = record_hash sha p then (Inr RecordUnchanged, st)
               else materialise sha pub instant ids now org c p (Some t) st)"

text \<open>Records processed one after the other, none failing.\<close>

fun process_records ::
  "(string \<Rightarrow> string) \<Rightarrow> 'z ingest_store_scheme handler \<Rightarrow> (string \<Rightarrow> time option) \<Rightarrow> string \<Rightarrow> connector_row
   \<Rightarrow> ((nat \<Rightarrow> uuid) \<times> time \<times> provider_record) list \<Rightarrow> 'z ingest_store_scheme \<Rightarrow> process_error + 'z ingest_store_scheme" where
  "process_records sha pub instant org c [] st = Inr st"
| "process_records sha pub instant org c ((ids, now, p) # xs) st =
     (case process_record sha pub instant ids now org c p st of
        (Inl e, _) \<Rightarrow> Inl e | (Inr _, st1) \<Rightarrow> process_records sha pub instant org c xs st1)"

subsection \<open>The queue\<close>

definition max_work_order_attempts :: int where
  "max_work_order_attempts = 5"

definition work_order_base_backoff_ms :: int where
  "work_order_base_backoff_ms = 30000"

definition work_order_max_backoff_ms :: int where
  "work_order_max_backoff_ms = 60 * 60000"

definition work_order_claim_ms :: int where
  "work_order_claim_ms = 2 * 60000"

definition retry_backoff :: "int \<Rightarrow> int" where
  "retry_backoff attempt = min (work_order_base_backoff_ms * 2 ^ nat (attempt - 1)) work_order_max_backoff_ms"

definition unfinished :: "ingest_row \<Rightarrow> bool" where
  "unfinished q \<longleftrightarrow> iq_status q \<in> {''pending'', ''retry'', ''processing'', ''dead''}"

definition claim_expired :: "time \<Rightarrow> time option \<Rightarrow> bool" where
  "claim_expired now t \<longleftrightarrow> (case t of None \<Rightarrow> True | Some e \<Rightarrow> e \<le> now)"

definition claimable :: "time \<Rightarrow> ingest_row \<Rightarrow> bool" where
  "claimable now q \<longleftrightarrow> iq_status q \<in> {''pending'', ''retry''} \<or> iq_status q = ''processing'' \<and> claim_expired now (iq_claim_expires_at q)"

definition older_in_partition :: "ingest_row \<Rightarrow> ingest_row \<Rightarrow> bool" where
  "older_in_partition o' q \<longleftrightarrow> iq_org_id o' = iq_org_id q \<and> iq_connector_id o' = iq_connector_id q \<and>
     iq_partition_key o' = iq_partition_key q \<and> iq_position o' < iq_position q"

definition due_entries :: "time \<Rightarrow> string \<Rightarrow> uuid \<Rightarrow> 'z ingest_store_scheme \<Rightarrow> ingest_row list" where
  "due_entries now org c st = take 50 (sort_key iq_position (filter (\<lambda>q. iq_org_id q = org \<and> iq_connector_id q = c \<and>
     claimable now q \<and> claim_expired now (iq_next_attempt_at q) \<and>
     \<not> (\<exists>o' \<in> set (ingestion st). older_in_partition o' q \<and> unfinished o')) (ingestion st)))"

definition set_entry :: "string \<Rightarrow> uuid \<Rightarrow> (ingest_row \<Rightarrow> ingest_row) \<Rightarrow> 'z ingest_store_scheme \<Rightarrow> 'z ingest_store_scheme" where
  "set_entry org i f st = st\<lparr>ingestion := update_where (\<lambda>q. iq_id q = i \<and> iq_org_id q = org) f (ingestion st)\<rparr>"

definition claimed_row :: "time \<Rightarrow> string \<Rightarrow> ingest_row \<Rightarrow> ingest_row" where
  "claimed_row now claim q = q\<lparr>iq_status := ''processing'', iq_attempts := iq_attempts q + 1, iq_claimed_by := Some claim,
     iq_claim_expires_at := Some (now + work_order_claim_ms)\<rparr>"

definition claim_entry ::
  "time \<Rightarrow> string \<Rightarrow> string \<Rightarrow> uuid \<Rightarrow> 'z ingest_store_scheme \<Rightarrow> (ingest_row \<times> 'z ingest_store_scheme) option" where
  "claim_entry now claim org i st =
     (case find (\<lambda>q. iq_id q = i \<and> iq_org_id q = org \<and> claimable now q) (ingestion st) of
        None \<Rightarrow> None
      | Some q \<Rightarrow> Some (claimed_row now claim q,
          st\<lparr>ingestion := update_where (\<lambda>q. iq_id q = i \<and> iq_org_id q = org \<and> claimable now q) (claimed_row now claim) (ingestion st)\<rparr>))"

definition attempt_entry :: "int \<Rightarrow> time \<Rightarrow> time \<Rightarrow> string \<Rightarrow> jsobj \<Rightarrow> jsval" where
  "attempt_entry n started done outcome error =
     JObj ([(''attempt'', JInt n), (''startedAt'', JStr (iso_string started)), (''completedAt'', JStr (iso_string done)),
       (''outcome'', JStr outcome)] @ error)"

definition completed_row :: "time \<Rightarrow> time \<Rightarrow> uuid option \<Rightarrow> ingest_row \<Rightarrow> ingest_row \<Rightarrow> ingest_row" where
  "completed_row started done twin_id job q = q\<lparr>iq_status := ''completed'', iq_twin_id := twin_id,
     iq_history := iq_history job @ [attempt_entry (iq_attempts job) started done ''completed'' []],
     iq_last_error := None, iq_next_attempt_at := None, iq_claimed_by := None, iq_claim_expires_at := None, iq_completed_at := Some done\<rparr>"

definition failed_row_status :: "int \<Rightarrow> string" where
  "failed_row_status attempt = (if attempt < max_work_order_attempts then ''retry'' else ''dead'')"

definition failed_entry_row :: "time \<Rightarrow> time \<Rightarrow> string \<Rightarrow> ingest_row \<Rightarrow> ingest_row \<Rightarrow> ingest_row" where
  "failed_entry_row started done message job q =
     (let s = failed_row_status (iq_attempts job)
      in q\<lparr>iq_status := s,
           iq_history := iq_history job @ [attempt_entry (iq_attempts job) started done
             (if s = ''dead'' then ''dead_lettered'' else ''retry_scheduled'') [(''error'', JStr message)]],
           iq_last_error := Some (take 500 message),
           iq_next_attempt_at := (if s = ''retry'' then Some (done + retry_backoff (iq_attempts job)) else None),
           iq_claimed_by := None, iq_claim_expires_at := None\<rparr>)"

definition deferred_row :: "time \<Rightarrow> string \<Rightarrow> ingest_row \<Rightarrow> ingest_row" where
  "deferred_row until_t message q = q\<lparr>iq_status := ''retry'', iq_attempts := max (iq_attempts q - 1) 0,
     iq_last_error := Some (take 500 (''Deferred: '' @ message)), iq_next_attempt_at := Some until_t,
     iq_claimed_by := None, iq_claim_expires_at := None\<rparr>"

definition defer_shed_entry :: "string \<Rightarrow> uuid \<Rightarrow> string \<Rightarrow> time \<Rightarrow> string \<Rightarrow> 'z ingest_store_scheme \<Rightarrow> 'z ingest_store_scheme" where
  "defer_shed_entry org i claim until_t message st =
     st\<lparr>ingestion := update_where (\<lambda>q. iq_id q = i \<and> iq_org_id q = org \<and> iq_claimed_by q = Some claim) (deferred_row until_t message) (ingestion st)\<rparr>"

definition pause_twin :: "time \<Rightarrow> string \<Rightarrow> connector_row \<Rightarrow> provider_record \<Rightarrow> 'z ingest_store_scheme \<Rightarrow> 'z ingest_store_scheme" where
  "pause_twin now org c p st = st\<lparr>twins := update_where (is_twin org (cr_provider c) (pv_artifact_type p) (pv_external_id p))
     (\<lambda>t. t\<lparr>tw_sync_state := ''paused'', tw_updated_at := now\<rparr>) (twins st)\<rparr>"

definition failure_event :: "string \<Rightarrow> connector_row \<Rightarrow> ingest_row \<Rightarrow> string \<Rightarrow> outbox_input" where
  "failure_event org c job message =
     connector_event org (iq_id job) (''connector:'' @ cr_id c) ''TwinQueueAttemptFailed''
       [(''queue_entry_id'', JStr (iq_id job)), (''connector_id'', JStr (cr_id c)), (''partition_key'', JStr (iq_partition_key job)),
        (''kind'', JStr ''ingestion''), (''attempts'', JInt (iq_attempts job)),
        (''final'', JBool (failed_row_status (iq_attempts job) = ''dead'')), (''error'', JStr message)]"

definition fail_entry ::
  "(string \<Rightarrow> string) \<Rightarrow> 'z ingest_store_scheme handler \<Rightarrow> uuid \<Rightarrow> time \<Rightarrow> time \<Rightarrow> string \<Rightarrow> connector_row \<Rightarrow> provider_record
   \<Rightarrow> ingest_row \<Rightarrow> string \<Rightarrow> 'z ingest_store_scheme \<Rightarrow> db_error + 'z ingest_store_scheme" where
  "fail_entry sha pub fresh started done org c p job message st =
     (let st1 = set_entry org (iq_id job) (failed_entry_row started done message job) st;
          st2 = (if failed_row_status (iq_attempts job) = ''dead'' then pause_twin done org c p st1 else st1)
      in and_then (with_event sha pub fresh done (failure_event org c job message) st2) (\<lambda>(_, st3). Inr st3))"

text \<open>One attempt at an entry, as the world has it: the clock, the ids it draws, what reading the comments
  of the record does, and what others commit while the record is processed.\<close>

record 's entry_run =
  er_claimed_at :: time
  er_claim :: string
  er_ids :: "nat \<Rightarrow> uuid"
  er_comments :: "provider_record \<Rightarrow> uuid \<Rightarrow> 's \<Rightarrow> (process_error + unit) \<times> 's"
  er_race :: "'s \<Rightarrow> 's"
  er_done_at :: time

record drain_counts =
  dc_created :: nat
  dc_updated :: nat
  dc_unchanged :: nat
  dc_errors :: "(string \<times> string \<times> string) list"

definition count_outcome :: "record_outcome \<Rightarrow> drain_counts \<Rightarrow> drain_counts" where
  "count_outcome o' n = (case o' of RecordCreated \<Rightarrow> n\<lparr>dc_created := dc_created n + 1\<rparr> | RecordUpdated \<Rightarrow> n\<lparr>dc_updated := dc_updated n + 1\<rparr>
     | RecordUnchanged \<Rightarrow> n\<lparr>dc_unchanged := dc_unchanged n + 1\<rparr>)"

definition or_text :: "string \<Rightarrow> string \<Rightarrow> string" where
  "or_text a b = (if a = [] then b else a)"

definition process_claimed ::
  "(string \<Rightarrow> string) \<Rightarrow> 'z ingest_store_scheme handler \<Rightarrow> (string \<Rightarrow> time option) \<Rightarrow> string \<Rightarrow> connector_row
   \<Rightarrow> 'z ingest_store_scheme entry_run \<Rightarrow> provider_record \<Rightarrow> drain_counts \<times> 'z ingest_store_scheme
   \<Rightarrow> (process_error + uuid option) \<times> drain_counts \<times> 'z ingest_store_scheme" where
  "process_claimed sha pub instant org c run p = (\<lambda>(n, st).
     case process_record sha pub instant (er_ids run) (er_claimed_at run) org c p st of
       (Inl e, st1) \<Rightarrow> (Inl e, n, st1)
     | (Inr out, st1) \<Rightarrow>
         (case find_twin org (cr_provider c) (pv_artifact_type p) (pv_external_id p) st1 of
            None \<Rightarrow> (Inr None, count_outcome out n, st1)
          | Some t \<Rightarrow>
              (case er_comments run p (tw_id t) st1 of
                 (Inl e, st2) \<Rightarrow> (Inl e, count_outcome out n, st2)
               | (Inr _, st2) \<Rightarrow> (Inr (Some (tw_id t)), count_outcome out n, st2))))"

definition process_entry ::
  "(string \<Rightarrow> string) \<Rightarrow> 'z ingest_store_scheme handler \<Rightarrow> (string \<Rightarrow> time option) \<Rightarrow> string \<Rightarrow> connector_row
   \<Rightarrow> 'z ingest_store_scheme entry_run \<Rightarrow> uuid \<Rightarrow> drain_counts \<times> 'z ingest_store_scheme
   \<Rightarrow> db_error + drain_counts \<times> 'z ingest_store_scheme" where
  "process_entry sha pub instant org c run i = (\<lambda>(n, st).
     case claim_entry (er_claimed_at run) (er_claim run) org i st of
       None \<Rightarrow> Inr (n, st)
     | Some (job, st1) \<Rightarrow>
         (let p = read_payload (iq_payload job)
          in case process_claimed sha pub instant org c run p (n, st1) of
               (Inr twin_id, n1, st2) \<Rightarrow>
                 Inr (n1, set_entry org (iq_id job) (completed_row (er_claimed_at run) (er_done_at run) twin_id job) (er_race run st2))
             | (Inl (RecordShed until_t m), n1, st2) \<Rightarrow> Inr (n1, defer_shed_entry org (iq_id job) (er_claim run) until_t m (er_race run st2))
             | (Inl (RecordFailed m), n1, st2) \<Rightarrow>
                 and_then (fail_entry sha pub (er_ids run 3) (er_claimed_at run) (er_done_at run) org c p job m (er_race run st2)) (\<lambda>st3.
                   Inr (n1\<lparr>dc_errors := dc_errors n1 @ [(or_text (pv_external_id p) (iq_external_id job),
                                or_text (pv_artifact_type p) (iq_entity_type job), m)]\<rparr>, st3))))"

subsection \<open>The drain\<close>

record 's drain_turn =
  dt_shedding :: bool
  dt_now :: time
  dt_run :: "uuid \<Rightarrow> 's entry_run"

fun process_all ::
  "(string \<Rightarrow> string) \<Rightarrow> 'z ingest_store_scheme handler \<Rightarrow> (string \<Rightarrow> time option) \<Rightarrow> string \<Rightarrow> connector_row
   \<Rightarrow> (uuid \<Rightarrow> 'z ingest_store_scheme entry_run) \<Rightarrow> ingest_row list \<Rightarrow> drain_counts \<times> 'z ingest_store_scheme
   \<Rightarrow> db_error + drain_counts \<times> 'z ingest_store_scheme" where
  "process_all sha pub instant org c run [] s = Inr s"
| "process_all sha pub instant org c run (q # qs) s =
     and_then (process_entry sha pub instant org c (run (iq_id q)) (iq_id q) s) (process_all sha pub instant org c run qs)"

text \<open>\<open>turns k\<close> is the \<open>k\<close>-th turn of the loop; every turn that goes on processes at least one entry.\<close>

function drain_entries ::
  "(string \<Rightarrow> string) \<Rightarrow> 'z ingest_store_scheme handler \<Rightarrow> (string \<Rightarrow> time option) \<Rightarrow> string \<Rightarrow> connector_row
   \<Rightarrow> (nat \<Rightarrow> 'z ingest_store_scheme drain_turn) \<Rightarrow> nat \<Rightarrow> nat \<Rightarrow> drain_counts \<times> 'z ingest_store_scheme
   \<Rightarrow> db_error + drain_counts \<times> 'z ingest_store_scheme" where
  "drain_entries sha pub instant org c turns k processed (n, st) =
     (if processed \<ge> 1000 \<or> dt_shedding (turns k) then Inr (n, st)
      else case due_entries (dt_now (turns k)) org (cr_id c) st of
             [] \<Rightarrow> Inr (n, st)
           | q # qs \<Rightarrow>
               and_then (process_all sha pub instant org c (dt_run (turns k)) (q # qs) (n, st))
                 (drain_entries sha pub instant org c turns (Suc k) (processed + length (q # qs))))"
  by pat_completeness auto
termination by (relation "measure (\<lambda>(sha, pub, instant, org, c, turns, k, processed, s). 1000 - processed)") auto

declare drain_entries.simps [simp del]

subsection \<open>What a subscriber of the connector's events may do\<close>

text \<open>The content of a twin, without the marks that queues put on it.\<close>

definition twin_core :: "twin \<Rightarrow> twin" where
  "twin_core t = t\<lparr>tw_sync_state := [], tw_updated_at := 0\<rparr>"

definition cores :: "'z ingest_store_scheme \<Rightarrow> twin list" where
  "cores st = map twin_core (twins st)"

lemma core_fields [simp]:
  "tw_id (twin_core t) = tw_id t" "tw_connector_id (twin_core t) = tw_connector_id t" "tw_content_hash (twin_core t) = tw_content_hash t"
  "tw_source_updated_at (twin_core t) = tw_source_updated_at t" "tw_payload (twin_core t) = tw_payload t"
  "tw_native_status (twin_core t) = tw_native_status t" "tw_title (twin_core t) = tw_title t" "is_twin org provider ty ext (twin_core t) = is_twin org provider ty ext t"
  by (simp_all add: twin_core_def is_twin_def)

text \<open>One record against the twin it names.\<close>

definition holds_record :: "(string \<Rightarrow> string) \<Rightarrow> (string \<Rightarrow> time option) \<Rightarrow> provider_record \<Rightarrow> connector_row \<Rightarrow> twin \<Rightarrow> bool" where
  "holds_record sha instant p c t \<longleftrightarrow> tw_connector_id t = cr_id c \<and> tw_content_hash t = record_hash sha p \<and> tw_payload t = pv_fields p \<and>
     tw_native_status t = pv_status p \<and> tw_source_updated_at t = instant (pv_updated_at p) \<and> instant (pv_updated_at p) \<noteq> None"

lemma find_core_map: "find (is_twin org pr ty ext) (map twin_core ts) = map_option twin_core (find (is_twin org pr ty ext) ts)"
  by (induction ts) auto

lemma find_first_match: "find P xs = Some x \<Longrightarrow> Q x \<Longrightarrow> find (\<lambda>t. P t \<and> Q t) xs = Some x"
  by (induction xs) (auto split: if_splits)

lemma cores_find: "map_option twin_core (find_twin org pr ty ext st) = find (is_twin org pr ty ext) (cores st)"
  by (simp add: find_twin_def cores_def find_core_map)

locale delivery =
  fixes pub :: "'z ingest_store_scheme handler"
  assumes keeps_queue: "ingestion (snd (pub ev st)) = ingestion st"
    and keeps_content: "cores (snd (pub ev st)) = cores st"
    and keeps_connectors: "connectors (snd (pub ev st)) = connectors st"
begin

lemma event_frame:
  assumes "with_event sha pub fresh now i st = Inr (ev, st')"
  shows "ingestion st' = ingestion st" "cores st' = cores st" "connectors st' = connectors st"
proof -
  obtain st1 where enq: "enqueue sha quiet fresh now i st = Inr (ev, st1)" and st': "st' = snd (dispatch_envelope pub now ev st1)"
    using assms by (auto simp: with_event_def and_then_Inr)
  have "store.more st1 = store.more st" using enq append_frame by (fastforce simp: enqueue_Inr)
  then have st1: "ingestion st1 = ingestion st" "twins st1 = twins st" "connectors st1 = connectors st"
    by (cases st1; cases st; simp)+
  have "ingestion st' = ingestion (snd (pub ev st1)) \<and> twins st' = twins (snd (pub ev st1)) \<and> connectors st' = connectors (snd (pub ev st1))"
    by (auto simp: st' dispatch_envelope_def split: prod.splits option.splits)
  then show "ingestion st' = ingestion st" "cores st' = cores st" "connectors st' = connectors st"
    using keeps_queue keeps_content keeps_connectors st1 by (auto simp: cores_def)
qed

lemma write_twin_effect:
  assumes "write_twin sha pub instant fresh i now org c node p prior st = Inr st'"
  shows "ingestion st' = ingestion st" "connectors st' = connectors st" and
    "\<exists>stamp. instant (pv_updated_at p) = Some stamp \<and>
       (case prior of
          Some t \<Rightarrow> cores st' = map twin_core (update_where (\<lambda>x. tw_id x = tw_id t \<and> tw_org_id x = org) (refreshed_twin sha (Some stamp) now node p) (twins st))
        | None \<Rightarrow> find_twin org (cr_provider c) (pv_artifact_type p) (pv_external_id p) st = None \<and>
            cores st' = cores st @ [twin_core (new_twin sha i (Some stamp) now org c node p)])"
proof -
  obtain stamp where stamp: "instant (pv_updated_at p) = Some stamp" using assms by (auto simp: write_twin_def split: option.splits)
  obtain ts ev e where ts: "case prior of
        Some t \<Rightarrow> ts = update_where (\<lambda>x. tw_id x = tw_id t \<and> tw_org_id x = org) (refreshed_twin sha (Some stamp) now node p) (twins st)
      | None \<Rightarrow> find_twin org (cr_provider c) (pv_artifact_type p) (pv_external_id p) st = None \<and> ts = twins st @ [new_twin sha i (Some stamp) now org c node p]"
    and ev: "with_event sha pub fresh now ev (st\<lparr>twins := ts\<rparr>) = Inr (e, st')"
    using assms stamp by (cases prior) (auto simp: write_twin_def Let_def and_then_Inr split: if_splits)
  note f = event_frame [OF ev]
  show "ingestion st' = ingestion st" "connectors st' = connectors st" using f by simp_all
  show "\<exists>stamp. instant (pv_updated_at p) = Some stamp \<and>
       (case prior of
          Some t \<Rightarrow> cores st' = map twin_core (update_where (\<lambda>x. tw_id x = tw_id t \<and> tw_org_id x = org) (refreshed_twin sha (Some stamp) now node p) (twins st))
        | None \<Rightarrow> find_twin org (cr_provider c) (pv_artifact_type p) (pv_external_id p) st = None \<and>
            cores st' = cores st @ [twin_core (new_twin sha i (Some stamp) now org c node p)])"
    using stamp ts f(2) by (auto simp: cores_def split: option.splits)
qed

lemma materialise_effect:
  assumes "materialise sha pub instant ids now org c p prior st = (r, st')"
  shows "ingestion st' = ingestion st" "connectors st' = connectors st" and
    "(\<exists>e. r = Inl e \<and> twins st' = twins st) \<or>
     (\<exists>rows node. r = Inr (if prior = None then RecordCreated else RecordUpdated) \<and>
        write_twin sha pub instant (ids 1) (ids 2) now org c node p prior (st\<lparr>corr_nodes := rows\<rparr>) = Inr st')"
proof -
  have node: "\<exists>rows. st1 = st\<lparr>corr_nodes := rows\<rparr>" if "upsert_node (ids 0) now org (node_input c p) st = Inr (n, st1)" for n st1
    using that by (auto simp: upsert_node_def and_then_Inr Let_def split_beta)
  consider e where "r = Inl e" "st' = st"
    | rows e where "r = Inl e" "st' = st\<lparr>corr_nodes := rows\<rparr>"
    | node rows where "r = Inr (if prior = None then RecordCreated else RecordUpdated)"
        "write_twin sha pub instant (ids 1) (ids 2) now org c node p prior (st\<lparr>corr_nodes := rows\<rparr>) = Inr st'"
  proof (cases "upsert_node (ids 0) now org (node_input c p) st")
    case (Inl e)
    then show ?thesis using assms by (auto simp: materialise_def intro: that(1))
  next
    case (Inr x)
    obtain n st1 where x: "x = (n, st1)" by (rule prod.exhaust)
    obtain rows where rows: "st1 = st\<lparr>corr_nodes := rows\<rparr>" using node Inr x by blast
    show ?thesis
    proof (cases "write_twin sha pub instant (ids 1) (ids 2) now org c (cn_id n) p prior st1")
      case (Inl e)
      then show ?thesis using assms Inr x rows \<open>upsert_node _ _ _ _ _ = _\<close> by (auto simp: materialise_def intro: that(2))
    next
      case (Inr st2)
      then show ?thesis using assms \<open>upsert_node _ _ _ _ _ = _\<close> x rows by (intro that(3) [of "cn_id n" rows]) (auto simp: materialise_def)
    qed
  qed
  then have "ingestion st' = ingestion st \<and> connectors st' = connectors st \<and> ((\<exists>e. r = Inl e \<and> twins st' = twins st) \<or>
     (\<exists>rows node. r = Inr (if prior = None then RecordCreated else RecordUpdated) \<and>
        write_twin sha pub instant (ids 1) (ids 2) now org c node p prior (st\<lparr>corr_nodes := rows\<rparr>) = Inr st'))"
  proof cases
    case (3 node rows)
    then show ?thesis using write_twin_effect(1,2) [OF 3(2)] by auto
  qed simp_all
  then show "ingestion st' = ingestion st" "connectors st' = connectors st"
    "(\<exists>e. r = Inl e \<and> twins st' = twins st) \<or>
     (\<exists>rows node. r = Inr (if prior = None then RecordCreated else RecordUpdated) \<and>
        write_twin sha pub instant (ids 1) (ids 2) now org c node p prior (st\<lparr>corr_nodes := rows\<rparr>) = Inr st')"
    by blast+
qed

lemma process_record_frame:
  assumes "process_record sha pub instant ids now org c p st = (r, st')"
  shows "ingestion st' = ingestion st" "connectors st' = connectors st"
  using assms materialise_effect(1,2) by (auto simp: process_record_def split: if_splits option.splits)

lemma materialised_record:
  assumes "materialise sha pub instant ids now org c p prior st = (Inr out, st')"
    and "prior = find_twin org (cr_provider c) (pv_artifact_type p) (pv_external_id p) st"
    and "\<And>t. prior = Some t \<Longrightarrow> tw_connector_id t = cr_id c"
  shows "\<exists>t. find_twin org (cr_provider c) (pv_artifact_type p) (pv_external_id p) st' = Some t \<and> holds_record sha instant p c t \<and>
    tw_id t = (case prior of None \<Rightarrow> ids 2 | Some u \<Rightarrow> tw_id u)"
proof -
  let ?P = "is_twin org (cr_provider c) (pv_artifact_type p) (pv_external_id p)"
  obtain rows node where w: "write_twin sha pub instant (ids 1) (ids 2) now org c node p prior (st\<lparr>corr_nodes := rows\<rparr>) = Inr st'"
    using materialise_effect(3) [OF assms(1)] by auto
  obtain stamp where stamp: "instant (pv_updated_at p) = Some stamp"
      "case prior of
          Some t \<Rightarrow> cores st' = map twin_core (update_where (\<lambda>x. tw_id x = tw_id t \<and> tw_org_id x = org) (refreshed_twin sha (Some stamp) now node p) (twins st))
        | None \<Rightarrow> find_twin org (cr_provider c) (pv_artifact_type p) (pv_external_id p) (st\<lparr>corr_nodes := rows\<rparr>) = None \<and>
            cores st' = map twin_core (twins st) @ [twin_core (new_twin sha (ids 2) (Some stamp) now org c node p)]"
    using write_twin_effect(3) [OF w] by (auto simp: cores_def split: option.splits)
  have "\<exists>t. find ?P (cores st') = Some (twin_core t) \<and> holds_record sha instant p c t \<and>
      tw_id t = (case prior of None \<Rightarrow> ids 2 | Some u \<Rightarrow> tw_id u)"
  proof (cases prior)
    case None
    let ?n = "new_twin sha (ids 2) (Some stamp) now org c node p"
    have "find ?P (map twin_core (twins st)) = None"
      using assms(2) [symmetric] None by (simp add: find_twin_def find_None_iff)
    moreover have "?P ?n" by (simp add: new_twin_def is_twin_def)
    ultimately have "find ?P (cores st') = Some (twin_core ?n)"
      using stamp(2) None by (simp add: find_append)
    moreover have "holds_record sha instant p c ?n" "tw_id ?n = ids 2" using stamp(1) by (simp_all add: holds_record_def new_twin_def)
    ultimately show ?thesis using None by auto
  next
    case (Some t)
    let ?f = "refreshed_twin sha (Some stamp) now node p"
    have t: "find ?P (twins st) = Some t" "tw_org_id t = org" using assms(2) [symmetric] Some by (auto simp: find_twin_def is_twin_def dest: find_SomeD)
    have "find ?P (update_where (\<lambda>x. tw_id x = tw_id t \<and> tw_org_id x = org) ?f (twins st)) = Some (?f t)"
      using t by (subst find_update_where) (auto simp: refreshed_twin_def is_twin_def)
    then have "find ?P (cores st') = Some (twin_core (?f t))"
      using stamp(2) Some by (simp add: find_core_map)
    moreover have "holds_record sha instant p c (?f t)" "tw_id (?f t) = tw_id t"
      using stamp(1) assms(3) [OF Some] by (simp_all add: holds_record_def refreshed_twin_def)
    ultimately show ?thesis using Some by auto
  qed
  then obtain t where t: "find ?P (cores st') = Some (twin_core t)" "holds_record sha instant p c t"
    "tw_id t = (case prior of None \<Rightarrow> ids 2 | Some u \<Rightarrow> tw_id u)" by blast
  then obtain t' where "find_twin org (cr_provider c) (pv_artifact_type p) (pv_external_id p) st' = Some t'" "twin_core t' = twin_core t"
    by (auto simp: cores_find [symmetric])
  moreover have "holds_record sha instant p c t'"
    using t(2) arg_cong [OF \<open>twin_core t' = twin_core t\<close>, of tw_connector_id] arg_cong [OF \<open>twin_core t' = twin_core t\<close>, of tw_content_hash]
      arg_cong [OF \<open>twin_core t' = twin_core t\<close>, of tw_payload] arg_cong [OF \<open>twin_core t' = twin_core t\<close>, of tw_native_status]
      arg_cong [OF \<open>twin_core t' = twin_core t\<close>, of tw_source_updated_at] by (simp add: holds_record_def)
  moreover have "tw_id t' = tw_id t" using arg_cong [OF \<open>twin_core t' = twin_core t\<close>, of tw_id] by simp
  ultimately show ?thesis using t(3) by auto
qed

lemma process_record_step:
  assumes "process_record sha pub instant ids now org c p st = (Inr out, st')" "find_connector org (cr_id c) st \<noteq> None"
    and "\<forall>t. find_twin org (cr_provider c) (pv_artifact_type p) (pv_external_id p) st = Some t \<longrightarrow> tw_connector_id t = cr_id c"
  shows "(\<exists>t. find_twin org (cr_provider c) (pv_artifact_type p) (pv_external_id p) st = Some t \<and>
        (stale instant p t \<or> tw_content_hash t = record_hash sha p) \<and> st' = st) \<or>
     ((\<forall>t. find_twin org (cr_provider c) (pv_artifact_type p) (pv_external_id p) st = Some t \<longrightarrow>
        \<not> stale instant p t \<and> tw_content_hash t \<noteq> record_hash sha p) \<and>
      (\<exists>t. find_twin org (cr_provider c) (pv_artifact_type p) (pv_external_id p) st' = Some t \<and> holds_record sha instant p c t))"
proof -
  let ?find = "find_twin org (cr_provider c) (pv_artifact_type p) (pv_external_id p)"
  have prior: "prior_twin org c p st = ?find st"
  proof (cases "?find st")
    case None
    then have "prior_twin org c p st = None" by (auto simp: prior_twin_def find_twin_def find_None_iff)
    with None show ?thesis by simp
  next
    case (Some t)
    show ?thesis unfolding prior_twin_def Some
      by (rule find_first_match) (use Some assms(2,3) in \<open>auto simp: find_twin_def\<close>)
  qed
  have ne: "pv_external_id p \<noteq> []" using assms(1) by (auto simp: process_record_def split: if_splits)
  show ?thesis
  proof (cases "?find st")
    case None
    then have m: "materialise sha pub instant ids now org c p None st = (Inr out, st')"
      using assms(1) ne prior by (simp add: process_record_def)
    show ?thesis using materialised_record [OF m] None by auto
  next
    case (Some t)
    have t: "tw_connector_id t = cr_id c" using assms(3) Some by blast
    show ?thesis
    proof (cases "stale instant p t \<or> tw_content_hash t = record_hash sha p")
      case True
      then show ?thesis using assms(1) ne prior Some t by (simp add: process_record_def)
    next
      case False
      then have m: "materialise sha pub instant ids now org c p (Some t) st = (Inr out, st')"
        using assms(1) ne prior Some t by (simp add: process_record_def)
      show ?thesis using materialised_record [OF m] Some t False by auto
    qed
  qed
qed

end

interpretation tq: delivery "publish_envelope (store_bus sha quiet)" for sha
proof
  fix ev :: envelope and st :: "'a ingest_store_scheme"
  have m: "store.more (snd (publish_envelope (store_bus sha quiet) ev st)) = store.more st" using bus_tables by blast
  show "ingestion (snd (publish_envelope (store_bus sha quiet) ev st)) = ingestion st"
    "cores (snd (publish_envelope (store_bus sha quiet) ev st)) = cores st"
    "connectors (snd (publish_envelope (store_bus sha quiet) ev st)) = connectors st"
    using m by (cases "snd (publish_envelope (store_bus sha quiet) ev st)"; cases st; simp add: cores_def)+
qed

subsection \<open>The newest record wins\<close>

lemma records_step:
  assumes "process_records sha (store_pub sha) instant org c ((ids, now, p) # xs) st = Inr st'"
  obtains out st1 where "process_record sha (store_pub sha) instant ids now org c p st = (Inr out, st1)"
    "process_records sha (store_pub sha) instant org c xs st1 = Inr st'"
    "find_connector org' i st1 = find_connector org' i st"
proof -
  obtain out st1 where one: "process_record sha (store_pub sha) instant ids now org c p st = (Inr out, st1)"
    "process_records sha (store_pub sha) instant org c xs st1 = Inr st'"
    using assms by (auto split: prod.splits sum.splits)
  show ?thesis using that [OF one] tq.process_record_frame(2) [OF one(1)] by (simp add: find_connector_def)
qed

lemma newest_wins_from:
  assumes "process_records sha (store_pub sha) instant org c xs st = Inr st'" "find_connector org (cr_id c) st \<noteq> None"
    and "\<forall>(ids, now, p) \<in> set xs. pv_artifact_type p = ty \<and> pv_external_id p = ext \<and> p \<in> R"
    and "p0 \<in> R" "instant (pv_updated_at p0) = Some t0" "\<forall>p \<in> R - {p0}. \<exists>s < t0. instant (pv_updated_at p) = Some s"
      "inj_on (record_hash sha) R"
    and "case find_twin org (cr_provider c) ty ext st of None \<Rightarrow> p0 \<in> (snd \<circ> snd) ` set xs
      | Some t \<Rightarrow> \<exists>q \<in> R. holds_record sha instant q c t \<and> (q = p0 \<or> p0 \<in> (snd \<circ> snd) ` set xs)"
  shows "\<exists>t. find_twin org (cr_provider c) ty ext st' = Some t \<and> holds_record sha instant p0 c t"
  using assms(1-3,8)
proof (induction xs arbitrary: st)
  case Nil
  then show ?case by (auto split: option.splits)
next
  case (Cons x xs)
  obtain ids now p where x: "x = (ids, now, p)" by (rule prod_cases3)
  obtain out st1 where step: "process_record sha (store_pub sha) instant ids now org c p st = (Inr out, st1)"
      "process_records sha (store_pub sha) instant org c xs st1 = Inr st'" "find_connector org (cr_id c) st1 = find_connector org (cr_id c) st"
    using records_step [OF Cons.prems(1) [unfolded x], of org "cr_id c"] by blast
  have p: "pv_artifact_type p = ty" "pv_external_id p = ext" "p \<in> R" using Cons.prems(3) by (auto simp: x)
  have own: "\<forall>t. find_twin org (cr_provider c) (pv_artifact_type p) (pv_external_id p) st = Some t \<longrightarrow> tw_connector_id t = cr_id c"
    using Cons.prems(4) p by (auto simp: holds_record_def)
  have nxt: "case find_twin org (cr_provider c) ty ext st1 of None \<Rightarrow> p0 \<in> (snd \<circ> snd) ` set xs
      | Some t \<Rightarrow> \<exists>q \<in> R. holds_record sha instant q c t \<and> (q = p0 \<or> p0 \<in> (snd \<circ> snd) ` set xs)"
    using tq.process_record_step [OF step(1) Cons.prems(2) own]
  proof (rule disjE, goal_cases)
    case 1
    then obtain t where t: "find_twin org (cr_provider c) (pv_artifact_type p) (pv_external_id p) st = Some t"
      and keep: "stale instant p t \<or> tw_content_hash t = record_hash sha p" "st1 = st" by blast
    obtain q where q: "q \<in> R" "holds_record sha instant q c t" "q = p0 \<or> p0 \<in> (snd \<circ> snd) ` set (x # xs)"
      using Cons.prems(4) t p by auto
    have time: "q = p0 \<or> (\<exists>s < t0. instant (pv_updated_at q) = Some s)" using q(1) assms(6) by blast
    have "q = p0 \<or> p \<noteq> p0"
    proof (rule disjCI)
      assume "\<not> p \<noteq> p0"
      then have "tw_content_hash t = record_hash sha p0 \<or> q = p0"
        using keep(1) q(2) time assms(5) by (auto simp: stale_def holds_record_def)
      then show "q = p0" using q(1,2) assms(4,7) by (auto simp: holds_record_def inj_on_def)
    qed
    then show ?thesis using q t p keep(2) by (auto simp: x)
  next
    case 2
    then obtain t where t: "find_twin org (cr_provider c) (pv_artifact_type p) (pv_external_id p) st1 = Some t" and h: "holds_record sha instant p c t"
      and fresh: "\<forall>t. find_twin org (cr_provider c) (pv_artifact_type p) (pv_external_id p) st = Some t \<longrightarrow> \<not> stale instant p t \<and> tw_content_hash t \<noteq> record_hash sha p"
      by blast
    have "p = p0 \<or> p0 \<in> (snd \<circ> snd) ` set xs"
    proof (cases "find_twin org (cr_provider c) ty ext st")
      case None
      then show ?thesis using Cons.prems(4) by (auto simp: x)
    next
      case (Some u)
      then obtain q where q: "q \<in> R" "holds_record sha instant q c u" "q = p0 \<or> p0 \<in> (snd \<circ> snd) ` set (x # xs)"
        using Cons.prems(4) by auto
      have "p = p0 \<or> (\<exists>s < t0. instant (pv_updated_at p) = Some s)" using p(3) assms(6) by blast
      then have "q \<noteq> p0 \<or> p = p0"
        using fresh Some p(1,2) q(2) assms(5) by (auto simp: stale_def holds_record_def)
      then show ?thesis using q(3) by (auto simp: x)
    qed
    then show ?thesis using t h p by auto
  qed
  have rest: "\<forall>(ids, now, p) \<in> set xs. pv_artifact_type p = ty \<and> pv_external_id p = ext \<and> p \<in> R" using Cons.prems(3) by auto
  show ?case by (rule Cons.IH [OF step(2) _ rest nxt]) (use Cons.prems(2) step(3) in simp)
qed

text \<open>C30. Records of a twin may reach the queue in any order: whatever the order in which the records read
  from one provider record are processed, and however often each is, the twin ends with the content of
  the one with the newest source timestamp, provided that no two of them have the same content.\<close>

theorem newest_record_wins:
  assumes "process_records sha (store_pub sha) instant org c xs st = Inr st'" "find_connector org (cr_id c) st \<noteq> None"
    and "\<forall>(ids, now, p) \<in> set xs. pv_artifact_type p = ty \<and> pv_external_id p = ext"
    and "p0 \<in> (snd \<circ> snd) ` set xs" "instant (pv_updated_at p0) = Some t0"
      "\<forall>p \<in> (snd \<circ> snd) ` set xs - {p0}. \<exists>s < t0. instant (pv_updated_at p) = Some s"
      "inj_on (record_hash sha) ((snd \<circ> snd) ` set xs)"
    and "find_twin org (cr_provider c) ty ext st = None"
  shows "\<exists>t. find_twin org (cr_provider c) ty ext st' = Some t \<and> holds_record sha instant p0 c t"
  by (rule newest_wins_from [OF assms(1,2) _ assms(4,5,6,7)]) (use assms(3,4,8) in \<open>force+\<close>)

text \<open>Without that proviso an old state comes back: a newer record that changes nothing does not advance
  the twin's source timestamp, so a record older than it, but not older than the one that was applied,
  is applied after it, although the source has left that state since.\<close>

lemma unchanged_record_lets_older_back:
  assumes "process_records sha (store_pub sha) instant org c [(ids1, n1, p1), (ids2, n2, p2), (ids3, n3, p3)] st = Inr st'"
    and "find_connector org (cr_id c) st \<noteq> None" "find_twin org (cr_provider c) ty ext st = None"
    and "\<forall>p \<in> {p1, p2, p3}. pv_artifact_type p = ty \<and> pv_external_id p = ext"
    and "instant (pv_updated_at p1) = Some t1" "instant (pv_updated_at p2) = Some t2" "instant (pv_updated_at p3) = Some t3"
      "t1 \<le> t3" "t3 < t2"
    and "record_hash sha p2 = record_hash sha p1" "record_hash sha p3 \<noteq> record_hash sha p1"
  shows "\<exists>t. find_twin org (cr_provider c) ty ext st' = Some t \<and> holds_record sha instant p3 c t \<and> tw_content_hash t \<noteq> record_hash sha p2"
proof -
  have key: "pv_artifact_type p1 = ty" "pv_external_id p1 = ext" "pv_artifact_type p2 = ty" "pv_external_id p2 = ext"
    "pv_artifact_type p3 = ty" "pv_external_id p3 = ext" using assms(4) by auto
  obtain o1 st1 where s1: "process_record sha (store_pub sha) instant ids1 n1 org c p1 st = (Inr o1, st1)"
      "process_records sha (store_pub sha) instant org c [(ids2, n2, p2), (ids3, n3, p3)] st1 = Inr st'"
      "find_connector org (cr_id c) st1 = find_connector org (cr_id c) st"
    using records_step [OF assms(1), of org "cr_id c"] by blast
  obtain o2 st2 where s2: "process_record sha (store_pub sha) instant ids2 n2 org c p2 st1 = (Inr o2, st2)"
      "process_records sha (store_pub sha) instant org c [(ids3, n3, p3)] st2 = Inr st'"
      "find_connector org (cr_id c) st2 = find_connector org (cr_id c) st1"
    using records_step [OF s1(2), of org "cr_id c"] by blast
  obtain o3 st3 where s3: "process_record sha (store_pub sha) instant ids3 n3 org c p3 st2 = (Inr o3, st3)"
      "process_records sha (store_pub sha) instant org c [] st3 = Inr st'"
    using records_step [OF s2(2), of org "cr_id c"] by blast
  obtain t where t: "find_twin org (cr_provider c) ty ext st1 = Some t" "holds_record sha instant p1 c t"
    using tq.process_record_step [OF s1(1) assms(2)] assms(3) unfolding key by auto
  have st2: "st2 = st1"
    using tq.process_record_step [OF s2(1)] s1(3) assms(2,10) t unfolding key by (auto simp: holds_record_def)
  have "\<not> stale instant p3 t" "tw_content_hash t \<noteq> record_hash sha p3"
    using t(2) assms(5,7,8,11) by (auto simp: stale_def holds_record_def)
  then obtain t' where "find_twin org (cr_provider c) ty ext st3 = Some t'" "holds_record sha instant p3 c t'"
    using tq.process_record_step [OF s3(1)] s1(3) assms(2) t st2 unfolding key by (auto simp: holds_record_def)
  then show ?thesis using s3(2) assms(10,11) by (auto simp: holds_record_def)
qed

subsection \<open>Records that are accepted\<close>

lemma base_of_ingest [simp]:
  "chain_state sha (st\<lparr>corr_nodes := x\<rparr>) = chain_state sha st" "used (st\<lparr>corr_nodes := x\<rparr>) = used st"
  "chain_state sha (st\<lparr>twins := y\<rparr>) = chain_state sha st" "used (st\<lparr>twins := y\<rparr>) = used st"
  by (rule chain_state_base used_base; simp)+

lemma with_event_total:
  assumes "growing sha" "chain_state sha st" "\<not> used st fresh" "oi_event_id i = None" "oi_work_item_id i \<noteq> []"
  obtains ev st' where "with_event sha (store_pub sha) fresh now i st = Inr (ev, st')" "chain_state sha st'"
    "\<And>e. used st' e = (e = fresh \<or> used st e)"
  using enqueue_dispatch_total [OF assms, of now now] by (auto simp: with_event_def Let_def)

lemma materialise_total:
  assumes "growing sha" "chain_state sha st" "\<not> used st (ids 1)" "normalize_entity (node_input c p) ''node'' = Inr e"
    and "instant (pv_updated_at p) = Some stamp" "ids 2 \<noteq> []"
    and "case prior of None \<Rightarrow> find_twin org (cr_provider c) (pv_artifact_type p) (pv_external_id p) st = None | Some t \<Rightarrow> tw_id t \<noteq> []"
  shows "\<exists>st'. materialise sha (store_pub sha) instant ids now org c p prior st =
      (Inr (if prior = None then RecordCreated else RecordUpdated), st') \<and>
    chain_state sha st' \<and> (\<forall>e. used st' e = (e = ids 1 \<or> used st e))"
proof -
  obtain n rows where node: "upsert_node_row (ids 0) now org e (corr_nodes st) = (n, rows)" by (rule prod.exhaust)
  let ?st1 = "st\<lparr>corr_nodes := rows\<rparr>"
  have up: "upsert_node (ids 0) now org (node_input c p) st = Inr (n, ?st1)"
    using assms(4) node by (simp add: upsert_node_def)
  let ?ts = "case prior of
      Some t \<Rightarrow> update_where (\<lambda>x. tw_id x = tw_id t \<and> tw_org_id x = org) (refreshed_twin sha (Some stamp) now (cn_id n) p) (twins st)
    | None \<Rightarrow> twins st @ [new_twin sha (ids 2) (Some stamp) now org c (cn_id n) p]"
  let ?sc = "case prior of None \<Rightarrow> True | Some t \<Rightarrow> \<not> same_state (tw_native_status t) (pv_status p)"
  let ?fc = "case prior of None \<Rightarrow> True | Some t \<Rightarrow> fields_differ (tw_payload t) (pv_fields p)"
  let ?ev = "twin_event org c (prior \<noteq> None) (case prior of Some t \<Rightarrow> tw_id t | None \<Rightarrow> ids 2) (cn_id n) ?sc ?fc p"
  obtain ev st' where e: "with_event sha (store_pub sha) (ids 1) now ?ev (?st1\<lparr>twins := ?ts\<rparr>) = Inr (ev, st')" "chain_state sha st'"
      "\<And>e. used st' e = (e = ids 1 \<or> used (?st1\<lparr>twins := ?ts\<rparr>) e)"
    by (rule with_event_total [of sha "?st1\<lparr>twins := ?ts\<rparr>" "ids 1" ?ev now])
      (use assms(1-3,6,7) in \<open>auto simp: twin_event_def connector_event_def split: option.splits\<close>)
  have "write_twin sha (store_pub sha) instant (ids 1) (ids 2) now org c (cn_id n) p prior ?st1 = Inr st'"
    using e(1) assms(5,7) by (cases prior) (simp_all add: write_twin_def find_twin_def Let_def lift_record_def)
  then show ?thesis using up e(2,3) by (simp add: materialise_def)
qed

definition sample_pv :: "string \<Rightarrow> string \<Rightarrow> provider_record" where
  "sample_pv status updated = \<lparr>pv_external_id = ''1'', pv_artifact_type = ''issue'', pv_title = JStr ''Login'', pv_native_key = Some ''K-1'',
     pv_native_url = None, pv_status = status, pv_fields = [], pv_authority = JUndef, pv_updated_at = updated, pv_updated_by = None\<rparr>"

definition sample_instant :: "string \<Rightarrow> time option" where
  "sample_instant s = (if s = ''1'' then Some 1 else if s = ''2'' then Some 2 else if s = ''3'' then Some 3 else None)"

definition sample_draw :: "char \<Rightarrow> nat \<Rightarrow> uuid" where
  "sample_draw c n = c # replicate n CHR ''x''"

lemma sample_pv_node: "\<exists>e. normalize_entity (node_input sample_connector (sample_pv status updated)) ''node'' = Inr e"
proof -
  have t: "token_pattern (lower ''jira'')" "token_pattern (lower ''issue'')" by code_simp+
  have w: "trim ''jira'' = ''jira''" "trim ''issue'' = ''issue''" "trim ''1'' = ''1''" "trim ''K-1'' = ''K-1''" by code_simp+
  show ?thesis
    by (simp add: normalize_entity_def node_input_def sample_connector_def sample_pv_def jprop_def jget_def required_token_def
        corr_required_text_def corr_optional_text_def or_null_def t w)
qed

lemma sample_ingest_facts [simp]:
  "chain_state sha sample_ingest" "\<not> used sample_ingest e" "twins sample_ingest = []"
  "find_connector ''o1'' ''c1'' sample_ingest = Some sample_connector" "find_twin org pr ty ext sample_ingest = None"
  by (rule chain_state_no_links)
    (simp_all add: sample_ingest_def used_def has_event_def logged_def find_connector_def sample_connector_def find_twin_def)

lemma sample_connector_fields [simp]: "cr_id sample_connector = ''c1''" "cr_provider sample_connector = ''jira''"
  by (simp_all add: sample_connector_def)

lemma sample_created:
  assumes "sample_instant u = Some v"
  shows "\<exists>st1 t. process_record sample_sha (store_pub sample_sha) sample_instant (sample_draw CHR ''a'') 0 ''o1'' sample_connector (sample_pv s u) sample_ingest =
      (Inr RecordCreated, st1) \<and> chain_state sample_sha st1 \<and> (\<forall>e. used st1 e = (e = sample_draw CHR ''a'' 1)) \<and>
      find_twin ''o1'' ''jira'' ''issue'' ''1'' st1 = Some t \<and> holds_record sample_sha sample_instant (sample_pv s u) sample_connector t \<and> tw_id t \<noteq> [] \<and>
      find_connector ''o1'' ''c1'' st1 = Some sample_connector"
proof -
  let ?p = "sample_pv s u" and ?ids = "sample_draw CHR ''a''"
  obtain e where e: "normalize_entity (node_input sample_connector ?p) ''node'' = Inr e" using sample_pv_node by blast
  have f: "pv_external_id ?p = ''1''" "pv_artifact_type ?p = ''issue''" "sample_instant (pv_updated_at ?p) = Some v" "?ids 2 \<noteq> []"
    using assms by (simp_all add: sample_pv_def sample_draw_def)
  have prior: "prior_twin ''o1'' sample_connector ?p sample_ingest = None" by (simp add: prior_twin_def)
  have none: "case None of None \<Rightarrow> find_twin ''o1'' (cr_provider sample_connector) (pv_artifact_type ?p) (pv_external_id ?p) sample_ingest = None
      | Some t \<Rightarrow> tw_id t \<noteq> []" by simp
  obtain st1 where st1: "materialise sample_sha (store_pub sample_sha) sample_instant ?ids 0 ''o1'' sample_connector ?p None sample_ingest = (Inr RecordCreated, st1)"
      "chain_state sample_sha st1" "\<forall>e. used st1 e = (e = ?ids 1 \<or> used sample_ingest e)"
    using materialise_total [where ids = "?ids" and prior = None and now = 0 and instant = sample_instant,
        OF growing_sample sample_ingest_facts(1) sample_ingest_facts(2) e f(3,4) none] by auto
  have run: "process_record sample_sha (store_pub sample_sha) sample_instant ?ids 0 ''o1'' sample_connector ?p sample_ingest = (Inr RecordCreated, st1)"
    using st1(1) f prior by (simp add: process_record_def)
  have "connectors st1 = connectors sample_ingest" by (rule tq.process_record_frame(2) [OF run])
  then have c: "find_connector ''o1'' ''c1'' st1 = Some sample_connector"
    using sample_ingest_facts(4) by (simp add: find_connector_def)
  have "\<exists>t. find_twin ''o1'' ''jira'' ''issue'' ''1'' st1 = Some t \<and> holds_record sample_sha sample_instant ?p sample_connector t \<and> tw_id t \<noteq> []"
    using tq.materialised_record [OF st1(1)] f by fastforce
  then show ?thesis using run st1(2,3) c by simp
qed

lemma records_run:
  "process_record sha pub instant ids now org c p st = (Inr out, st1) \<Longrightarrow>
   process_records sha pub instant org c ((ids, now, p) # xs) st = process_records sha pub instant org c xs st1"
  by simp

lemma sample_kept:
  assumes "find_twin ''o1'' ''jira'' ''issue'' ''1'' st = Some t" "tw_connector_id t = ''c1''"
    "find_connector ''o1'' ''c1'' st = Some sample_connector"
    "stale sample_instant (sample_pv s u) t \<or> tw_content_hash t = record_hash sample_sha (sample_pv s u)"
  shows "process_record sample_sha (store_pub sample_sha) sample_instant ids 0 ''o1'' sample_connector (sample_pv s u) st = (Inr RecordUnchanged, st)"
proof -
  let ?p = "sample_pv s u"
  have "prior_twin ''o1'' sample_connector ?p st = Some t"
    unfolding prior_twin_def using assms by (intro find_first_match) (auto simp: find_twin_def sample_pv_def)
  then show ?thesis using assms(2,4) by (simp add: process_record_def) (simp add: sample_pv_def)
qed

lemma newest_record_wins_witness:
  "\<exists>st' t. process_records sample_sha (store_pub sample_sha) sample_instant ''o1'' sample_connector
       [(sample_draw CHR ''a'', 0, sample_pv ''Done'' ''2''), (sample_draw CHR ''b'', 0, sample_pv ''Open'' ''1'')] sample_ingest = Inr st' \<and>
     find_twin ''o1'' ''jira'' ''issue'' ''1'' st' = Some t \<and> tw_native_status t = ''Done''"
proof -
  let ?xs = "[(sample_draw CHR ''a'', 0 :: time, sample_pv ''Done'' ''2''), (sample_draw CHR ''b'', 0, sample_pv ''Open'' ''1'')]"
  obtain st1 t1 where s1: "process_record sample_sha (store_pub sample_sha) sample_instant (sample_draw CHR ''a'') 0 ''o1'' sample_connector (sample_pv ''Done'' ''2'') sample_ingest =
        (Inr RecordCreated, st1)"
      "find_twin ''o1'' ''jira'' ''issue'' ''1'' st1 = Some t1" "holds_record sample_sha sample_instant (sample_pv ''Done'' ''2'') sample_connector t1"
      "find_connector ''o1'' ''c1'' st1 = Some sample_connector"
    using sample_created [of "''2''" 2 "''Done''"] by (auto simp: sample_instant_def)
  have old: "stale sample_instant (sample_pv ''Open'' ''1'') t1" "tw_connector_id t1 = ''c1''"
    using s1(3) by (simp_all add: stale_def holds_record_def sample_pv_def sample_instant_def)
  have s2: "process_record sample_sha (store_pub sample_sha) sample_instant (sample_draw CHR ''b'') 0 ''o1'' sample_connector (sample_pv ''Open'' ''1'') st1 =
      (Inr RecordUnchanged, st1)"
    by (rule sample_kept [OF s1(2) old(2) s1(4)]) (use old(1) in blast)
  have run: "process_records sample_sha (store_pub sample_sha) sample_instant ''o1'' sample_connector ?xs sample_ingest = Inr st1"
    using s1(1) s2 by simp
  have two: "record_hash sample_sha (sample_pv ''Done'' ''2'') \<noteq> record_hash sample_sha (sample_pv ''Open'' ''1'')"
    unfolding record_hash_def sample_sha_def by code_simp
  have "\<exists>t. find_twin ''o1'' (cr_provider sample_connector) ''issue'' ''1'' st1 = Some t \<and> holds_record sample_sha sample_instant (sample_pv ''Done'' ''2'') sample_connector t"
    by (rule newest_record_wins [OF run, where ?t0.0 = 2]) (use two in \<open>auto simp: sample_instant_def sample_pv_def inj_on_def\<close>)
  then show ?thesis using run by (auto simp: holds_record_def sample_pv_def)
qed

subsection \<open>First in, first out\<close>

definition queue_status :: "string \<Rightarrow> bool" where
  "queue_status s \<longleftrightarrow> s \<in> {''pending'', ''retry'', ''processing'', ''dead'', ''completed''}"

text \<open>No entry is completed before an older one of its twin.\<close>

definition queue_ok :: "'z ingest_store_scheme \<Rightarrow> bool" where
  "queue_ok st \<longleftrightarrow> distinct (map iq_id (ingestion st)) \<and> (\<forall>q \<in> set (ingestion st). queue_status (iq_status q)) \<and>
     (\<forall>q \<in> set (ingestion st). \<forall>o' \<in> set (ingestion st). older_in_partition o' q \<longrightarrow> iq_status q = ''completed'' \<longrightarrow> iq_status o' = ''completed'')"

text \<open>Others may accept records into the queue meanwhile.\<close>

definition later_rows :: "ingest_row list \<Rightarrow> ingest_row list \<Rightarrow> bool" where
  "later_rows xs new \<longleftrightarrow> distinct (map iq_id new) \<and> set (map iq_id new) \<inter> set (map iq_id xs) = {} \<and>
     (\<forall>x \<in> set new. iq_status x = ''pending'' \<and> (\<forall>n \<in> set (map iq_position xs). n < iq_position x))"

definition only_accepts :: "('z ingest_store_scheme \<Rightarrow> 'z ingest_store_scheme) \<Rightarrow> bool" where
  "only_accepts w \<longleftrightarrow> (\<forall>st. \<exists>new. ingestion (w st) = ingestion st @ new \<and> later_rows (ingestion st) new)"

definition fair_run :: "'z ingest_store_scheme entry_run \<Rightarrow> bool" where
  "fair_run r \<longleftrightarrow> only_accepts (er_race r) \<and> (\<forall>p i st. ingestion (snd (er_comments r p i st)) = ingestion st)"

definition place :: "ingest_row \<Rightarrow> uuid \<times> string \<times> uuid \<times> string \<times> int" where
  "place q = (iq_id q, iq_org_id q, iq_connector_id q, iq_partition_key q, iq_position q)"

lemma place_older: "place x = place x' \<Longrightarrow> place y = place y' \<Longrightarrow> older_in_partition x y = older_in_partition x' y'"
  by (simp add: place_def older_in_partition_def)

lemma places [simp]: "place (claimed_row now claim q) = place q" "place (completed_row t1 t2 i job q) = place q"
  "place (failed_entry_row t1 t2 m job q) = place q" "place (deferred_row until_t m q) = place q"
  by (simp_all add: place_def claimed_row_def completed_row_def failed_entry_row_def deferred_row_def Let_def)

definition head_of_partition :: "ingest_row list \<Rightarrow> ingest_row \<Rightarrow> bool" where
  "head_of_partition xs q \<longleftrightarrow> \<not> (\<exists>o' \<in> set xs. older_in_partition o' q \<and> unfinished o')"

text \<open>What one attempt does to the queue: it moves its own entry, and others may have been added.\<close>

definition entry_step :: "uuid \<Rightarrow> ingest_row list \<Rightarrow> ingest_row list \<Rightarrow> bool" where
  "entry_step i xs ys \<longleftrightarrow> ys = xs \<or>
     (\<exists>f new q. ys = map (\<lambda>x. if iq_id x = i then f x else x) xs @ new \<and> later_rows xs new \<and> q \<in> set xs \<and> iq_id q = i \<and>
        iq_status q \<noteq> ''dead'' \<and> iq_status q \<noteq> ''completed'' \<and> (\<forall>x. place (f x) = place x) \<and> queue_status (iq_status (f q)))"

lemma claimable_status: "claimable now q \<Longrightarrow> iq_status q \<noteq> ''dead'' \<and> iq_status q \<noteq> ''completed'' \<and> unfinished q"
  by (auto simp: claimable_def unfinished_def)

lemma later_places: "map place xs = map place ys \<Longrightarrow> later_rows xs new = later_rows ys new"
proof -
  assume m: "map place xs = map place ys"
  have id: "map iq_id xs = map iq_id ys" and pos: "map iq_position xs = map iq_position ys"
    using arg_cong [OF m, of "map fst"] arg_cong [OF m, of "map (snd \<circ> snd \<circ> snd \<circ> snd)"] by (simp_all add: place_def comp_def)
  show ?thesis unfolding later_rows_def id pos by (rule refl)
qed

lemma map_later:
  assumes "later_rows xs new" "q \<in> set xs" "iq_id q = i"
  shows "map (\<lambda>x. if iq_id x = i then f x else x) new = new"
  using assms by (intro map_idI) (force simp: later_rows_def)


lemma entry_step_ok:
  assumes "entry_step i xs ys" "distinct (map iq_id xs)" "\<forall>q \<in> set xs. queue_status (iq_status q)"
    and fifo: "\<forall>q \<in> set xs. \<forall>o' \<in> set xs. older_in_partition o' q \<longrightarrow> iq_status q = ''completed'' \<longrightarrow> iq_status o' = ''completed''"
    and head: "\<forall>q \<in> set xs. iq_id q = i \<longrightarrow> head_of_partition xs q"
  shows "distinct (map iq_id ys) \<and> (\<forall>q \<in> set ys. queue_status (iq_status q)) \<and>
    (\<forall>q \<in> set ys. \<forall>o' \<in> set ys. older_in_partition o' q \<longrightarrow> iq_status q = ''completed'' \<longrightarrow> iq_status o' = ''completed'') \<and>
    (\<forall>q \<in> set xs. iq_id q \<noteq> i \<longrightarrow> q \<in> set ys \<and> (head_of_partition xs q \<longrightarrow> head_of_partition ys q))"
proof (cases "ys = xs")
  case True
  then show ?thesis using assms(2-4) by blast
next
  case False
  then obtain f new q where ys: "ys = map (\<lambda>x. if iq_id x = i then f x else x) xs @ new" and new: "later_rows xs new"
    and q: "q \<in> set xs" "iq_id q = i" "iq_status q \<noteq> ''dead''" "iq_status q \<noteq> ''completed''"
    and f: "\<forall>x. place (f x) = place x" "queue_status (iq_status (f q))"
    using assms(1) by (auto simp: entry_step_def)
  let ?g = "\<lambda>x. if iq_id x = i then f x else x"
  have only: "x = q" if "x \<in> set xs" "iq_id x = i" for x
    using that q(1,2) assms(2) by (metis distinct_map inj_onD)
  have pl: "place (?g x) = place x" for x using f(1) by simp
  have ids: "iq_id (?g x) = iq_id x" for x using pl [of x] by (simp add: place_def split: if_splits)
  have mem: "\<exists>x \<in> set xs. y = ?g x" if "y \<in> set ys" "y \<notin> set new" for y using that by (auto simp: ys)
  have new_pending: "iq_status x = ''pending''" if "x \<in> set new" for x using that new by (auto simp: later_rows_def)
  have not_older: "\<not> older_in_partition x y" if "x \<in> set new" "place y = place y'" "y' \<in> set xs" for x y y'
    using that new by (force simp: later_rows_def older_in_partition_def place_def)
  have "map iq_id ys = map iq_id xs @ map iq_id new" by (simp add: ys comp_def ids)
  then have d: "distinct (map iq_id ys)" using new assms(2) by (auto simp: later_rows_def)
  have st: "queue_status (iq_status y)" if y: "y \<in> set ys" for y
  proof (cases "y \<in> set new")
    case True then show ?thesis by (simp add: new_pending queue_status_def)
  next
    case False
    then obtain x where "x \<in> set xs" "y = ?g x" using mem y by blast
    then show ?thesis using only f(2) assms(3) by auto
  qed
  have order: "iq_status o' = ''completed''"
    if y: "y \<in> set ys" "o' \<in> set ys" "older_in_partition o' y" "iq_status y = ''completed''" for y o'
  proof -
    have "y \<notin> set new" using y(4) new_pending by auto
    then obtain x where x: "x \<in> set xs" "y = ?g x" using mem y(1) by blast
    have "o' \<notin> set new" using not_older [of o' y x] y(3) x pl by blast
    then obtain z where z: "z \<in> set xs" "o' = ?g z" using mem y(2) by blast
    have old: "older_in_partition z x" using y(3) place_older [of o' z y x] pl x(2) z(2) by metis
    show ?thesis
    proof (cases "iq_id x = i")
      case True
      then have "x = q" using only x(1) by blast
      then have "\<not> unfinished z" using head old z(1) q(1,2) by (auto simp: head_of_partition_def)
      then have "iq_status z = ''completed''" using assms(3) z(1) by (auto simp: unfinished_def queue_status_def)
      moreover have "z \<noteq> q" using old \<open>x = q\<close> by (auto simp: older_in_partition_def)
      ultimately show ?thesis using z only by auto
    next
      case False
      then have "iq_status z = ''completed''" using fifo old x z(1) y(4) by auto
      then have "z \<noteq> q" using q(4) by blast
      then show ?thesis using z only \<open>iq_status z = ''completed''\<close> by auto
    qed
  qed
  have keep: "x \<in> set ys" if "x \<in> set xs" "iq_id x \<noteq> i" for x using that by (force simp: ys)
  have heads: "head_of_partition ys x" if x: "x \<in> set xs" "iq_id x \<noteq> i" "head_of_partition xs x" for x
    unfolding head_of_partition_def
  proof (rule notI)
    assume "\<exists>o' \<in> set ys. older_in_partition o' x \<and> unfinished o'"
    then obtain o' where o': "o' \<in> set ys" "older_in_partition o' x" "unfinished o'" by blast
    have "o' \<notin> set new" using not_older [of o' x x] o'(2) x(1) by blast
    then obtain z where z: "z \<in> set xs" "o' = ?g z" using mem o'(1) by blast
    have old: "older_in_partition z x" using o'(2) place_older [of o' z x x] pl z(2) by metis
    then have nz: "\<not> unfinished z" using x(3) z(1) by (auto simp: head_of_partition_def)
    have "unfinished q" using q(3,4) assms(3) q(1) by (auto simp: queue_status_def unfinished_def)
    then have "z \<noteq> q" using nz by blast
    then have "o' = z" using z only by auto
    with nz o'(3) show False by simp
  qed
  show ?thesis using d st order keep heads by blast
qed

lemma map_places: "(\<And>x. place (g x) = place x) \<Longrightarrow> map place (map g xs) = map place xs"
  by simp

lemma entry_rows:
  assumes "distinct (map iq_id xs)" "job \<in> set xs" "iq_id job = i" "iq_org_id job = org" "claimable now job"
    and "later_rows (update_where (\<lambda>q. iq_id q = i \<and> iq_org_id q = org \<and> claimable now q) (claimed_row now claim) xs) new"
    and "\<And>x. place (g x) = place x" "\<And>x. queue_status (iq_status x) \<Longrightarrow> queue_status (iq_status (g x))"
  shows "entry_step i xs (update_where (\<lambda>q. iq_id q = i \<and> iq_org_id q = org) g
     (update_where (\<lambda>q. iq_id q = i \<and> iq_org_id q = org \<and> claimable now q) (claimed_row now claim) xs @ new))"
proof -
  let ?c = "claimed_row now claim"
  let ?f = "\<lambda>x. if iq_id x = i \<and> iq_org_id x = org then g (if claimable now x then ?c x else x) else x"
  have c: "iq_id (?c x) = iq_id x" "iq_org_id (?c x) = iq_org_id x" for x by (simp_all add: claimed_row_def)
  let ?xs1 = "update_where (\<lambda>q. iq_id q = i \<and> iq_org_id q = org \<and> claimable now q) ?c xs"
  have "map place ?xs1 = map place xs" unfolding update_where_def by (rule map_places) simp
  then have new: "later_rows xs new" using later_places [of ?xs1 xs new] assms(6) by simp
  have org: "iq_org_id x = org" if "x \<in> set xs" "iq_id x = i" for x
    using that assms(1-4) by (metis distinct_map inj_onD)
  have "update_where (\<lambda>q. iq_id q = i \<and> iq_org_id q = org) g ?xs1 = map (\<lambda>x. if iq_id x = i then ?f x else x) xs"
    unfolding update_where_def using org by (simp add: c cong: map_cong)
  moreover have "update_where (\<lambda>q. iq_id q = i \<and> iq_org_id q = org) g new = new"
    unfolding update_where_def using new assms(2,3) by (intro map_idI) (force simp: later_rows_def)
  moreover have "update_where P h (as @ bs) = update_where P h as @ update_where P h bs" for P h and as bs :: "ingest_row list"
    by (simp add: update_where_def)
  moreover have "place (?f x) = place x" for x using assms(7) by simp
  moreover have "queue_status (iq_status (?f job))" using assms(3-5,8) by (simp add: claimed_row_def queue_status_def)
  ultimately show ?thesis unfolding entry_step_def
    using new assms(2,3) claimable_status [OF assms(5)] by (intro disjI2 exI [of _ ?f] exI [of _ new] exI [of _ job]) simp
qed

lemma due_entries_head:
  assumes "q \<in> set (due_entries now org c st)"
  shows "q \<in> set (ingestion st)" "head_of_partition (ingestion st) q" "claimable now q"
  using in_set_takeD [OF assms [unfolded due_entries_def]] by (auto simp: head_of_partition_def)

lemma distinct_due: "distinct (map iq_id (ingestion st)) \<Longrightarrow> distinct (map iq_id (due_entries now org c st))"
  by (auto simp: due_entries_def distinct_map intro!: inj_on_subset [of iq_id "set (ingestion st)"] distinct_take dest!: in_set_takeD)

context delivery
begin

lemma fail_entry_rows:
  assumes "fail_entry sha pub fresh started done org c p job message st = Inr st'"
  shows "ingestion st' = update_where (\<lambda>q. iq_id q = iq_id job \<and> iq_org_id q = org) (failed_entry_row started done message job) (ingestion st)"
  using assms event_frame(1)
  by (auto simp: fail_entry_def Let_def and_then_Inr set_entry_def pause_twin_def split: if_splits)

lemma process_claimed_rows:
  assumes "process_claimed sha pub instant org c run p (n, st) = (r, n', st')" "fair_run run"
  shows "ingestion st' = ingestion st"
proof -
  have quiet: "\<And>p i s r s'. er_comments run p i s = (r, s') \<Longrightarrow> ingestion s' = ingestion s"
    using assms(2) by (metis fair_run_def snd_conv)
  show ?thesis
    using assms(1) process_record_frame(1) quiet
    by (auto simp: process_claimed_def split: prod.splits sum.splits option.splits)
qed

lemma process_entry_step:
  assumes "process_entry sha pub instant org c run i (n, st) = Inr (n', st')" "fair_run run" "distinct (map iq_id (ingestion st))"
  shows "entry_step i (ingestion st) (ingestion st')"
proof (cases "claim_entry (er_claimed_at run) (er_claim run) org i st")
  case None
  then show ?thesis using assms(1) by (simp add: process_entry_def entry_step_def)
next
  case (Some x)
  let ?now = "er_claimed_at run" and ?claim = "er_claim run"
  let ?P = "\<lambda>q. iq_id q = i \<and> iq_org_id q = org"
  let ?xs1 = "update_where (\<lambda>q. iq_id q = i \<and> iq_org_id q = org \<and> claimable ?now q) (claimed_row ?now ?claim) (ingestion st)"
  obtain q st1 where q: "find (\<lambda>q. iq_id q = i \<and> iq_org_id q = org \<and> claimable ?now q) (ingestion st) = Some q"
    and x: "x = (claimed_row ?now ?claim q, st1)" and st1: "ingestion st1 = ?xs1"
    using Some by (auto simp: claim_entry_def split: option.splits)
  have job: "q \<in> set (ingestion st)" "iq_id q = i" "iq_org_id q = org" "claimable ?now q" using find_SomeD [OF q] by auto
  let ?job = "claimed_row ?now ?claim q"
  have id: "iq_id ?job = i" using job(2) by (simp add: claimed_row_def)
  obtain r n1 st2 where run: "process_claimed sha pub instant org c run (read_payload (iq_payload ?job)) (n, st1) = (r, n1, st2)"
    by (rule prod_cases3)
  have st2: "ingestion st2 = ?xs1" using process_claimed_rows [OF run assms(2)] st1 by simp
  obtain new where new: "ingestion (er_race run st2) = ?xs1 @ new" "later_rows ?xs1 new"
    using assms(2) st2 by (metis fair_run_def only_accepts_def)
  note rows = entry_rows [OF assms(3) job new(2)]
  show ?thesis
  proof (cases r)
    case (Inr twin_id)
    then have "ingestion st' = update_where ?P (completed_row ?now (er_done_at run) twin_id ?job) (?xs1 @ new)"
      using assms(1) Some x run id new(1) Inr by (auto simp: process_entry_def set_entry_def Let_def)
    then show ?thesis using rows by (simp add: completed_row_def [abs_def] queue_status_def place_def)
  next
    case (Inl e)
    show ?thesis
    proof (cases e)
      case (RecordFailed m)
      obtain st3 where "fail_entry sha pub (er_ids run 3) ?now (er_done_at run) org c (read_payload (iq_payload ?job)) ?job m (er_race run st2) = Inr st3"
          "st' = st3"
        using assms(1) Some x run id Inl RecordFailed by (auto simp: process_entry_def Let_def and_then_Inr)
      from fail_entry_rows [OF this(1)] this(2)
      have "ingestion st' = update_where ?P (failed_entry_row ?now (er_done_at run) m ?job) (?xs1 @ new)"
        using id new(1) by simp
      moreover have "queue_status (iq_status (failed_entry_row ?now (er_done_at run) m ?job y))" for y
        by (simp add: failed_entry_row_def Let_def failed_row_status_def queue_status_def)
      ultimately show ?thesis using rows by simp
    next
      case (RecordShed until_t m)
      let ?g = "\<lambda>y. if iq_claimed_by y = Some ?claim then deferred_row until_t m y else y"
      have "ingestion st' = update_where ?P ?g (?xs1 @ new)"
        using assms(1) Some x run id Inl RecordShed new(1)
        by (auto simp: process_entry_def Let_def defer_shed_entry_def update_where_def)
      moreover have "place (?g y) = place y" "queue_status (iq_status y) \<Longrightarrow> queue_status (iq_status (?g y))" for y
        by (simp_all add: deferred_row_def queue_status_def place_def)
      ultimately show ?thesis using rows by simp
    qed
  qed
qed

lemma process_all_ok:
  assumes "\<And>i. fair_run (run i)"
  shows "process_all sha pub instant org c run qs (n, st) = Inr (n', st') \<Longrightarrow> queue_ok st \<Longrightarrow> distinct (map iq_id qs) \<Longrightarrow>
    \<forall>q \<in> set qs. q \<in> set (ingestion st) \<and> head_of_partition (ingestion st) q \<Longrightarrow>
    queue_ok st' \<and> (\<forall>q \<in> set (ingestion st). iq_id q \<notin> iq_id ` set qs \<longrightarrow> q \<in> set (ingestion st'))"
proof (induction qs arbitrary: n st)
  case (Cons q qs)
  obtain n1 st1 where one: "process_entry sha pub instant org c (run (iq_id q)) (iq_id q) (n, st) = Inr (n1, st1)"
    and rest: "process_all sha pub instant org c run qs (n1, st1) = Inr (n', st')"
    using Cons.prems(1) by (auto simp: and_then_Inr)
  have ok: "distinct (map iq_id (ingestion st))" "\<forall>q \<in> set (ingestion st). queue_status (iq_status q)"
      "\<forall>q \<in> set (ingestion st). \<forall>o' \<in> set (ingestion st). older_in_partition o' q \<longrightarrow> iq_status q = ''completed'' \<longrightarrow> iq_status o' = ''completed''"
    using Cons.prems(2) by (simp_all add: queue_ok_def)
  have head: "\<forall>x \<in> set (ingestion st). iq_id x = iq_id q \<longrightarrow> head_of_partition (ingestion st) x"
    using Cons.prems(4) ok(1) by (metis distinct_id_eq list.set_intros(1))
  note step = entry_step_ok [OF process_entry_step [OF one assms ok(1)] ok head]
  have "queue_ok st1" using step by (simp add: queue_ok_def)
  moreover have "iq_id x \<noteq> iq_id q" if "x \<in> set qs" for x using that Cons.prems(3) by (auto simp: image_iff)
  then have "\<forall>x \<in> set qs. x \<in> set (ingestion st1) \<and> head_of_partition (ingestion st1) x"
    using step Cons.prems(4) by simp
  ultimately have "queue_ok st' \<and> (\<forall>x \<in> set (ingestion st1). iq_id x \<notin> iq_id ` set qs \<longrightarrow> x \<in> set (ingestion st'))"
    using Cons.IH [OF rest] Cons.prems(3) by auto
  then show ?case using step by auto
qed simp

lemma drain_ok:
  assumes "\<And>k i. fair_run (dt_run (turns k) i)"
  shows "drain_entries sha pub instant org c turns k processed (n, st) = Inr (n', st') \<Longrightarrow> queue_ok st \<Longrightarrow>
    queue_ok st' \<and> (\<forall>q \<in> set (ingestion st). \<forall>o' \<in> set (ingestion st).
      older_in_partition o' q \<and> iq_status o' = ''dead'' \<longrightarrow> q \<in> set (ingestion st'))"
proof (induction "1000 - processed" arbitrary: k processed n st rule: less_induct)
  case less
  show ?case
  proof (cases "processed \<ge> 1000 \<or> dt_shedding (turns k) \<or> due_entries (dt_now (turns k)) org (cr_id c) st = []")
    case True
    then show ?thesis using less.prems by (auto simp: drain_entries.simps split: if_splits)
  next
    case False
    let ?qs = "due_entries (dt_now (turns k)) org (cr_id c) st"
    obtain n1 st1 where all: "process_all sha pub instant org c (dt_run (turns k)) ?qs (n, st) = Inr (n1, st1)"
      and rest: "drain_entries sha pub instant org c turns (Suc k) (processed + length ?qs) (n1, st1) = Inr (n', st')"
      using less.prems(1) False by (auto simp: drain_entries.simps [of _ _ _ _ _ _ k] and_then_Inr split: list.splits)
    have ids: "distinct (map iq_id (ingestion st))" using less.prems(2) by (simp add: queue_ok_def)
    note due = due_entries_head [of _ "dt_now (turns k)" org "cr_id c" st]
    have heads: "\<forall>q \<in> set ?qs. q \<in> set (ingestion st) \<and> head_of_partition (ingestion st) q" using due by blast
    have step: "queue_ok st1 \<and> (\<forall>q \<in> set (ingestion st). iq_id q \<notin> iq_id ` set ?qs \<longrightarrow> q \<in> set (ingestion st1))"
      by (rule process_all_ok [where run = "dt_run (turns k)", OF assms all less.prems(2) distinct_due [OF ids] heads])
    have still: "q \<in> set (ingestion st1) \<and> o' \<in> set (ingestion st1)"
      if "q \<in> set (ingestion st)" "o' \<in> set (ingestion st)" "older_in_partition o' q" "iq_status o' = ''dead''" for q o'
    proof -
      have "iq_id q \<notin> iq_id ` set ?qs"
      proof
        assume "iq_id q \<in> iq_id ` set ?qs"
        then obtain y where y: "y \<in> set ?qs" "iq_id y = iq_id q" by auto
        then have "q \<in> set ?qs" using due(1) distinct_id_eq [OF ids] that(1) by metis
        then show False using due(2) that by (auto simp: head_of_partition_def unfinished_def)
      qed
      moreover have "iq_id o' \<notin> iq_id ` set ?qs"
      proof
        assume "iq_id o' \<in> iq_id ` set ?qs"
        then obtain y where y: "y \<in> set ?qs" "iq_id y = iq_id o'" by auto
        then have "o' \<in> set ?qs" using due(1) distinct_id_eq [OF ids] that(2) by metis
        then show False using claimable_status [OF due(3)] that(4) by blast
      qed
      ultimately show ?thesis using step that(1,2) by blast
    qed
    have less': "1000 - (processed + length ?qs) < 1000 - processed" using False by (cases ?qs) auto
    note IH = less.hyps [OF less' rest conjunct1 [OF step]]
    then show ?thesis using still by blast
  qed
qed

end

text \<open>C29. A drain never lets the entries of one external record overtake each other: no entry is completed before an
  older entry of its record is, and an entry that has given up holds back every younger entry of its record,
  untouched, whatever else the drain does and whatever is accepted meanwhile.\<close>

theorem drain_keeps_fifo:
  assumes "drain_entries sha (store_pub sha) instant org c turns k processed (n, st) = Inr (n', st')"
    and "queue_ok st" "\<forall>k i. fair_run (dt_run (turns k) i)"
  shows "queue_ok st' \<and> (\<forall>q \<in> set (ingestion st). \<forall>o' \<in> set (ingestion st).
    older_in_partition o' q \<and> iq_status o' = ''dead'' \<longrightarrow> q \<in> set (ingestion st'))"
  by (rule tq.drain_ok [OF _ assms(1,2)]) (use assms(3) in blast)

definition sample_entry :: "uuid \<Rightarrow> string \<Rightarrow> int \<Rightarrow> string \<Rightarrow> ingest_row" where
  "sample_entry i k n s = \<lparr>iq_id = i, iq_org_id = ''o1'', iq_connector_id = ''c1'', iq_partition_key = k, iq_entity_type = ''issue'',
     iq_external_id = k, iq_dedupe_key = i, iq_payload = JObj [], iq_position = n, iq_status = s, iq_attempts = 0, iq_last_error = None,
     iq_job_id = None, iq_twin_id = None, iq_history = [], iq_claimed_by = None, iq_claim_expires_at = None, iq_next_attempt_at = None,
     iq_completed_at = None\<rparr>"

definition sample_queue :: ingest_store where
  "sample_queue = sample_ingest\<lparr>ingestion := [sample_entry ''q1'' ''p'' 0 ''dead'', sample_entry ''q2'' ''p'' 1 ''pending'',
     sample_entry ''q3'' ''z'' 2 ''pending'']\<rparr>"

definition sample_run :: "ingest_store entry_run" where
  "sample_run = \<lparr>er_claimed_at = 0, er_claim = ''w'', er_ids = sample_draw CHR ''a'', er_comments = \<lambda>_ _ s. (Inr (), s), er_race = \<lambda>s. s,
     er_done_at = 1\<rparr>"

definition sample_turn :: "nat \<Rightarrow> ingest_store drain_turn" where
  "sample_turn k = \<lparr>dt_shedding = (k > 0), dt_now = 0, dt_run = \<lambda>_. sample_run\<rparr>"

lemma base_of_queue [simp]:
  "chain_state sha (st\<lparr>ingestion := x\<rparr>) = chain_state sha st" "used (st\<lparr>ingestion := x\<rparr>) = used st"
  by (rule chain_state_base used_base; simp)+

lemma drain_keeps_fifo_witness:
  "\<exists>n' st'. drain_entries sample_sha (store_pub sample_sha) sample_instant ''o1'' sample_connector sample_turn 0 0
       (\<lparr>dc_created = 0, dc_updated = 0, dc_unchanged = 0, dc_errors = []\<rparr>, sample_queue) = Inr (n', st') \<and>
     queue_ok st' \<and> sample_entry ''q2'' ''p'' 1 ''pending'' \<in> set (ingestion st')"
proof -
  let ?n = "\<lparr>dc_created = 0, dc_updated = 0, dc_unchanged = 0, dc_errors = []\<rparr>"
  let ?q = "sample_entry ''q3'' ''z'' 2 ''pending''" and ?job = "claimed_row 0 ''w'' (sample_entry ''q3'' ''z'' 2 ''pending'')"
  have due: "due_entries 0 ''o1'' ''c1'' sample_queue = [?q]"
    by (simp add: due_entries_def sample_queue_def sample_entry_def claimable_def claim_expired_def older_in_partition_def unfinished_def)
  have iq: "iq_id ?q = ''q3''" by (simp add: sample_entry_def)
  let ?c = "\<lambda>q. if iq_id q = ''q3'' \<and> iq_org_id q = ''o1'' \<and> claimable 0 q then claimed_row 0 ''w'' q else q"
  let ?st1 = "sample_ingest\<lparr>ingestion := map ?c (ingestion sample_queue)\<rparr>"
  have claim: "claim_entry 0 ''w'' ''o1'' ''q3'' sample_queue = Some (?job, ?st1)"
    by (simp add: claim_entry_def sample_queue_def sample_entry_def claimable_def update_where_def)
  let ?p = "read_payload (JObj [])"
  have run: "process_claimed sample_sha (store_pub sample_sha) sample_instant ''o1'' sample_connector sample_run ?p (?n, ?st1) =
      (Inl (RecordFailed ''Provider record has no immutable id''), ?n, ?st1)"
    by (simp add: process_claimed_def process_record_def read_payload_def text_prop_def jprop_def jget_def)
  let ?st2 = "set_entry ''o1'' ''q3'' (failed_entry_row 0 1 ''Provider record has no immutable id'' ?job) ?st1"
  have fresh: "chain_state sample_sha ?st2" "\<not> used ?st2 (sample_draw CHR ''a'' 3)" by (simp_all add: set_entry_def)
  let ?e = "failure_event ''o1'' sample_connector ?job ''Provider record has no immutable id''"
  have e: "oi_event_id ?e = None" "oi_work_item_id ?e \<noteq> []"
    by (simp_all add: failure_event_def connector_event_def claimed_row_def sample_entry_def)
  obtain ev st3 where st3: "with_event sample_sha (store_pub sample_sha) (sample_draw CHR ''a'' 3) 1 ?e ?st2 = Inr (ev, st3)"
    by (rule with_event_total [OF growing_sample fresh e])
  have job: "iq_id ?job = ''q3''" "iq_payload ?job = JObj []" "failed_row_status (iq_attempts ?job) = ''retry''"
      "or_text (pv_external_id ?p) (iq_external_id ?job) = ''z''" "or_text (pv_artifact_type ?p) (iq_entity_type ?job) = ''issue''"
    by (simp_all add: claimed_row_def sample_entry_def failed_row_status_def max_work_order_attempts_def or_text_def read_payload_def
        text_prop_def jprop_def jget_def)
  have r: "er_claimed_at sample_run = 0" "er_claim sample_run = ''w''" "er_ids sample_run = sample_draw CHR ''a''" "er_race sample_run = (\<lambda>s. s)"
      "er_done_at sample_run = 1" by (simp_all add: sample_run_def)
  have one: "process_entry sample_sha (store_pub sample_sha) sample_instant ''o1'' sample_connector sample_run ''q3'' (?n, sample_queue) =
      Inr (?n\<lparr>dc_errors := [(''z'', ''issue'', ''Provider record has no immutable id'')]\<rparr>, st3)"
    unfolding process_entry_def r using claim run st3 job
    by (simp add: fail_entry_def)
  have "drain_entries sample_sha (store_pub sample_sha) sample_instant ''o1'' sample_connector sample_turn 0 0 (?n, sample_queue) =
      Inr (?n\<lparr>dc_errors := [(''z'', ''issue'', ''Provider record has no immutable id'')]\<rparr>, st3)"
    using one due by (simp add: drain_entries.simps sample_turn_def iq)
  moreover have "queue_ok sample_queue"
    by (simp add: queue_ok_def sample_queue_def sample_entry_def queue_status_def)
  moreover have "fair_run (dt_run (sample_turn k) i)" for k i
    by (simp add: fair_run_def sample_turn_def sample_run_def only_accepts_def later_rows_def)
  ultimately show ?thesis
    using drain_keeps_fifo [of sample_sha sample_instant "''o1''" sample_connector sample_turn 0 0 ?n sample_queue]
    by (simp add: sample_queue_def sample_entry_def older_in_partition_def)
qed

end
