(* ===== verification/WorkOrders.thy ===== *)
theory WorkOrders
  imports TwinQueue
begin

text \<open>
  The outbound work orders of \<^verbatim>\<open>src/modules/connectors/connector.service.ts\<close>: the durable queue of
  each twin, \<^verbatim>\<open>executeWorkOrder\<close> with the translation of a propagated change, the write to the provider
  and its settlement, and the claim with its heartbeat.

  The markers of the echo guard travel beside the store. The provider behind an adapter, the isolate,
  the clock and the ids a run draws, and what other workers commit between two of its statements, are the
  record \<open>order_run\<close>. A column of JSON text is its value.
\<close>

subsection \<open>Orders\<close>

datatype order_status =
    OrderPending | OrderProcessing | OrderExecuted | OrderFailed | OrderDead | OrderHeld | OrderNoop

datatype order_origin = StateTranslation | StatePropagation | OperatorEdit

record work_order =
  wo_id :: uuid
  wo_org_id :: string
  wo_transaction :: "uuid option"
  wo_origin :: order_origin
  wo_requested_by :: "string option"
  wo_source_event :: "uuid option"
  wo_source_payload :: jsval
  wo_source_connector :: "uuid option"
  wo_target_connector :: uuid
  wo_target_twin :: uuid
  wo_entity_type :: string
  wo_external_id :: string
  wo_target_state :: "string option"
  wo_fields :: jsobj
  wo_status :: order_status
  wo_attempts :: int
  wo_history :: "jsval list"
  wo_last_error :: "string option"
  wo_next_attempt_at :: "time option"
  wo_claimed_by :: "string option"
  wo_claim_expires_at :: "time option"
  wo_executed_at :: "time option"
  wo_position :: int
  wo_created_at :: time
  wo_updated_at :: time

record propagation =
  pg_event :: uuid
  pg_org_id :: string
  pg_twin :: uuid
  pg_status :: string
  pg_echoes :: int
  pg_updated_at :: time

text \<open>Both queues draw their positions from one sequence, \<open>ingest_position\<close>.\<close>

record wo_store = ingest_store +
  work_orders :: "work_order list"
  propagations :: "propagation list"

definition is_order :: "string \<Rightarrow> uuid \<Rightarrow> work_order \<Rightarrow> bool" where
  "is_order org i w \<longleftrightarrow> wo_id w = i \<and> wo_org_id w = org"

definition order_done :: "work_order \<Rightarrow> bool" where
  "order_done w \<longleftrightarrow> wo_status w \<in> {OrderExecuted, OrderNoop}"

definition order_open :: "work_order \<Rightarrow> bool" where
  "order_open w \<longleftrightarrow> wo_status w \<in> {OrderPending, OrderProcessing, OrderFailed, OrderDead, OrderHeld}"

definition older_order :: "work_order \<Rightarrow> work_order \<Rightarrow> bool" where
  "older_order o' w \<longleftrightarrow> wo_org_id o' = wo_org_id w \<and> wo_target_twin o' = wo_target_twin w \<and> wo_position o' < wo_position w"

definition order_blocked :: "work_order \<Rightarrow> 'z wo_store_scheme \<Rightarrow> bool" where
  "order_blocked w st \<longleftrightarrow> (\<exists>o' \<in> set (work_orders st). older_order o' w \<and> order_open o')"

definition order_claimable :: "time \<Rightarrow> work_order \<Rightarrow> bool" where
  "order_claimable now w \<longleftrightarrow> wo_status w \<in> {OrderPending, OrderFailed} \<or>
     wo_status w = OrderProcessing \<and> claim_expired now (wo_claim_expires_at w)"

definition set_orders :: "(work_order \<Rightarrow> bool) \<Rightarrow> (work_order \<Rightarrow> work_order) \<Rightarrow> 'z wo_store_scheme \<Rightarrow> 'z wo_store_scheme" where
  "set_orders P f st = st\<lparr>work_orders := update_where P f (work_orders st)\<rparr>"

definition set_twin :: "time \<Rightarrow> string \<Rightarrow> uuid \<Rightarrow> string \<Rightarrow> 'z wo_store_scheme \<Rightarrow> 'z wo_store_scheme" where
  "set_twin now org i state st = st\<lparr>twins := update_where (\<lambda>t. tw_id t = i \<and> tw_org_id t = org)
     (\<lambda>t. t\<lparr>tw_sync_state := state, tw_updated_at := now\<rparr>) (twins st)\<rparr>"

subsection \<open>Claims\<close>

definition claimed_order :: "time \<Rightarrow> string \<Rightarrow> work_order \<Rightarrow> work_order" where
  "claimed_order now claim w = w\<lparr>wo_status := OrderProcessing, wo_attempts := wo_attempts w + 1, wo_claimed_by := Some claim,
     wo_claim_expires_at := Some (now + work_order_claim_ms), wo_updated_at := now\<rparr>"

definition claim_order ::
  "time \<Rightarrow> string \<Rightarrow> string \<Rightarrow> uuid \<Rightarrow> int \<Rightarrow> 'z wo_store_scheme \<Rightarrow> (work_order \<times> 'z wo_store_scheme) option" where
  "claim_order now claim org i attempts st =
     (let P = (\<lambda>w. is_order org i w \<and> wo_attempts w = attempts \<and> order_claimable now w)
      in case find P (work_orders st) of
           None \<Rightarrow> None
         | Some w \<Rightarrow> Some (claimed_order now claim w, set_orders P (claimed_order now claim) st))"

definition holds_claim :: "string \<Rightarrow> uuid \<Rightarrow> string \<Rightarrow> work_order \<Rightarrow> bool" where
  "holds_claim org i claim w \<longleftrightarrow> is_order org i w \<and> wo_claimed_by w = Some claim"

definition renew_order_claim :: "time \<Rightarrow> uuid \<Rightarrow> string \<Rightarrow> 'z wo_store_scheme \<Rightarrow> 'z wo_store_scheme" where
  "renew_order_claim now i claim st =
     set_orders (\<lambda>w. wo_id w = i \<and> wo_claimed_by w = Some claim \<and> wo_status w = OrderProcessing)
       (\<lambda>w. w\<lparr>wo_claim_expires_at := Some (now + work_order_claim_ms)\<rparr>) st"

definition release :: "time \<Rightarrow> work_order \<Rightarrow> work_order" where
  "release now w = w\<lparr>wo_claimed_by := None, wo_claim_expires_at := None, wo_updated_at := now\<rparr>"

definition deferred_order :: "time \<Rightarrow> time \<Rightarrow> string \<Rightarrow> work_order \<Rightarrow> work_order" where
  "deferred_order now until_t message w = (release now w)\<lparr>wo_status := OrderPending, wo_attempts := max (wo_attempts w - 1) 0,
     wo_last_error := Some (take 500 (''Deferred: '' @ message)), wo_next_attempt_at := Some until_t\<rparr>"

definition held_order :: "time \<Rightarrow> uuid option \<Rightarrow> string \<Rightarrow> jsval list \<Rightarrow> work_order \<Rightarrow> work_order" where
  "held_order now tx message history w = (release now w)\<lparr>wo_transaction := tx, wo_status := OrderHeld,
     wo_last_error := Some (take 500 message), wo_history := history\<rparr>"

definition translated_order :: "time \<Rightarrow> uuid option \<Rightarrow> string option \<Rightarrow> jsobj \<Rightarrow> work_order \<Rightarrow> work_order" where
  "translated_order now tx state fs w =
     w\<lparr>wo_transaction := tx, wo_target_state := state, wo_fields := fs, wo_updated_at := now\<rparr>"

definition noop_order :: "time \<Rightarrow> uuid option \<Rightarrow> string option \<Rightarrow> jsobj \<Rightarrow> jsval list \<Rightarrow> work_order \<Rightarrow> work_order" where
  "noop_order now tx state fs history w =
     (release now (translated_order now tx state fs w))\<lparr>wo_status := OrderNoop, wo_history := history\<rparr>"

definition executed_order :: "time \<Rightarrow> jsval list \<Rightarrow> work_order \<Rightarrow> work_order" where
  "executed_order now history w = (release now w)\<lparr>wo_status := OrderExecuted, wo_executed_at := Some now, wo_last_error := None,
     wo_next_attempt_at := None, wo_history := history\<rparr>"

definition failed_order :: "time \<Rightarrow> order_status \<Rightarrow> string \<Rightarrow> time option \<Rightarrow> jsval list \<Rightarrow> work_order \<Rightarrow> work_order" where
  "failed_order now s message nxt history w = (release now w)\<lparr>wo_status := s, wo_last_error := Some (take 500 message),
     wo_next_attempt_at := nxt, wo_history := history\<rparr>"

text \<open>Start of the process: claims that ran out while no worker lived are failed attempts.\<close>

definition recover_orders :: "time \<Rightarrow> 'z wo_store_scheme \<Rightarrow> 'z wo_store_scheme" where
  "recover_orders now st =
     set_orders (\<lambda>w. wo_status w = OrderProcessing \<and> claim_expired now (wo_claim_expires_at w))
       (\<lambda>w. (release now w)\<lparr>wo_status := OrderFailed, wo_next_attempt_at := Some now\<rparr>) st"

definition recover_entries :: "time \<Rightarrow> 'z ingest_store_scheme \<Rightarrow> 'z ingest_store_scheme" where
  "recover_entries now st =
     st\<lparr>ingestion := update_where (\<lambda>q. iq_status q = ''processing'' \<and> claim_expired now (iq_claim_expires_at q))
       (\<lambda>q. q\<lparr>iq_status := ''retry'', iq_claimed_by := None, iq_claim_expires_at := None, iq_next_attempt_at := Some now\<rparr>)
       (ingestion st)\<rparr>"

subsection \<open>One attempt\<close>

record push_request =
  pu_entity_type :: string
  pu_external_id :: string
  pu_state :: "string option"
  pu_fields :: jsobj

datatype push_outcome =
    Pushed string
  | PushShed time string
  | PushRemote bool "int option" string
  | PushCredential string
  | PushRefused string

text \<open>What a failed attempt threw: load shedding, or an error that may be retried, with the seconds the
  provider asked for.\<close>

datatype attempt_error =
    AttemptShed time string
  | AttemptFailed bool "int option" string

record attempt =
  at_transaction :: "uuid option"
  at_state :: "string option"
  at_fields :: jsobj
  at_translating :: bool

record 's order_run =
  ow_loaded_at :: time
  ow_claimed_at :: time
  ow_done_at :: time
  ow_claim :: string
  ow_ids :: "nat \<Rightarrow> uuid"
  ow_vm :: isolate
  ow_reads :: bool
  ow_push :: "push_request \<Rightarrow> push_outcome"
  ow_race :: "nat \<Rightarrow> 's \<Rightarrow> 's"

datatype order_plan = HoldOrder string string | SkipOrder | WriteOrder

definition start_attempt :: "work_order \<Rightarrow> attempt" where
  "start_attempt w = \<lparr>at_transaction = wo_transaction w, at_state = wo_target_state w, at_fields = wo_fields w,
     at_translating = (wo_origin w = StatePropagation \<and> wo_transaction w = None)\<rparr>"

definition map_error_text :: "map_error \<Rightarrow> string" where
  "map_error_text e = (case e of InvalidMapping m \<Rightarrow> m | MappingNotFound m \<Rightarrow> m | MappingConflict m \<Rightarrow> m
     | IdentityMissing m \<Rightarrow> m | MapDb d \<Rightarrow> show_db_error d)"

definition guard_error_text :: "guard_error \<Rightarrow> string" where
  "guard_error_text e = (case e of InvalidGuard m \<Rightarrow> m | IdentityNotFound m \<Rightarrow> m | GuardDb d \<Rightarrow> show_db_error d)"

definition pick_paths :: "jsobj \<Rightarrow> string list \<Rightarrow> jsobj" where
  "pick_paths src ps = fold (\<lambda>p o'. let v = get_path src p in if v = JUndef then o' else set_path p v o') ps []"

text \<open>The state the target will have once the older orders of its queue have run.\<close>

definition effective_status :: "work_order \<Rightarrow> twin \<Rightarrow> 'z wo_store_scheme \<Rightarrow> string" where
  "effective_status w t st =
     (case rev (sort_key wo_position (filter (\<lambda>p. older_order p w \<and> order_done p \<and> wo_target_state p \<noteq> None) (work_orders st))) of
        p # _ \<Rightarrow> the (wo_target_state p)
      | [] \<Rightarrow> tw_native_status t)"

definition twin_identity :: "twin \<Rightarrow> sync_identity" where
  "twin_identity t = \<lparr>sy_system = tw_provider t, sy_entity_type = tw_artifact_type t, sy_immutable_id = tw_external_id t\<rparr>"

definition payload_fields :: "jsval \<Rightarrow> jsobj" where
  "payload_fields v = (case jprop v ''fields'' of JObj o' \<Rightarrow> o' | _ \<Rightarrow> [])"

definition payload_endpoint :: "jsval \<Rightarrow> endpoint" where
  "payload_endpoint v = \<lparr>ep_system = text_prop v ''system'', ep_entity_type = text_prop v ''entity_type''\<rparr>"

definition translation_dto :: "jsval \<Rightarrow> twin \<Rightarrow> string \<Rightarrow> jsobj \<Rightarrow> jsval" where
  "translation_dto src t effective target_fields =
     JObj [(''source_identity'', jprop src ''identity''), (''target_identity'', identity_value (twin_identity t)),
       (''source_state'', jprop src ''state''), (''current_target_state'', jopt (or_null (Some effective))),
       (''target_fields'', JObj target_fields), (''dry_run'', JBool False)]"

definition ready_fields :: "(field_result \<times> field_mapping) option \<Rightarrow> jsobj" where
  "ready_fields ft = (case ft of Some (res, _) \<Rightarrow> if fe_ready res then fe_fields res else [] | None \<Rightarrow> [])"

definition required_paths :: "uuid \<Rightarrow> string \<Rightarrow> 'z smap_store_scheme \<Rightarrow> string list" where
  "required_paths i org st = (case find (\<lambda>t. st_id t = i \<and> st_org_id t = org) (sync_transactions st) of
     None \<Rightarrow> [] | Some t \<Rightarrow> st_required t)"

definition incomplete_hint :: "connector_row \<Rightarrow> string" where
  "incomplete_hint c = ''. The '' @ cr_provider c @ '' record was not changed. Supply the field(s), either by adding a published field mapping that provides them or by re-injecting this held entry from the twin dead-letter queue with a corrected sourcePayload.''"

text \<open>The verdict of the field mapping, once the state translation did not hold the order.\<close>

definition with_fields :: "(field_result \<times> field_mapping) option \<Rightarrow> attempt \<Rightarrow> order_plan option \<times> attempt" where
  "with_fields ft a = (case ft of
     None \<Rightarrow> (None, a)
   | Some (res, _) \<Rightarrow>
       if fe_ready res then (None, a\<lparr>at_fields := jspread (at_fields a) (fe_fields res)\<rparr>)
       else (Some (HoldOrder ''field_mapping_held''
         (case find (\<lambda>ro. is_held (snd ro)) (fe_outcomes res) of
            Some (_, RuleHeld _ m) \<Rightarrow> or_text m ''Field mapping requires operator review''
          | _ \<Rightarrow> ''Field mapping requires operator review'')), a))"

definition nothing_to_write :: "string \<Rightarrow> attempt \<Rightarrow> bool" where
  "nothing_to_write effective a \<longleftrightarrow>
     (case or_null (at_state a) of None \<Rightarrow> True | Some s \<Rightarrow> same_state effective s) \<and> at_fields a = []"

definition state_translation ::
  "(string \<Rightarrow> string) \<Rightarrow> 'z wo_store_scheme handler \<Rightarrow> (markers \<times> 'z wo_store_scheme) order_run \<Rightarrow> string \<Rightarrow> work_order
   \<Rightarrow> connector_row \<Rightarrow> twin \<Rightarrow> string \<Rightarrow> (field_result \<times> field_mapping) option \<Rightarrow> attempt \<Rightarrow> 'z wo_store_scheme
   \<Rightarrow> string + (order_plan option \<times> attempt) \<times> 'z wo_store_scheme" where
  "state_translation sha pub run org w c t effective ft a st =
     (let src = wo_source_payload w
      in if \<not> (js_truthy (jprop src ''stateChanged'') \<and> js_truthy (jprop src ''state'')) then Inr ((None, a), st)
         else case translate_state sha pub (ow_ids run) (ow_claimed_at run) org
                  (translation_dto src t effective (jspread (payload_fields src) (ready_fields ft)))
                  (''connector:'' @ (case wo_source_connector w of Some s \<Rightarrow> s | None \<Rightarrow> cr_id c)) st of
                Inl e \<Rightarrow> Inl (map_error_text e)
              | Inr (d, st1) \<Rightarrow>
                  (let e = sd_evaluation d; a1 = a\<lparr>at_transaction := sd_transaction d\<rparr>
                   in case (sd_transaction d, or_null (se_mapped e)) of
                        (Some i, Some to_s) \<Rightarrow>
                          if se_ready e
                          then Inr ((None, a1\<lparr>at_state := Some to_s,
                            at_fields := jspread (at_fields a) (pick_paths (payload_fields src) (required_paths i org st1))\<rparr>), st1)
                          else Inr ((Some (HoldOrder (state_reason_text (se_reason e))
                            (or_text (se_message e) ''State translation requires operator review'' @
                             (if se_reason e = MissingRequiredFields then incomplete_hint c else []))), a1), st1)
                      | _ \<Rightarrow> Inr ((Some (HoldOrder (state_reason_text (se_reason e))
                            (or_text (se_message e) ''State translation requires operator review'' @
                             (if se_reason e = MissingRequiredFields then incomplete_hint c else []))), a1), st1)))"

definition translate_order ::
  "(string \<Rightarrow> string) \<Rightarrow> 'z wo_store_scheme handler \<Rightarrow> (markers \<times> 'z wo_store_scheme) order_run \<Rightarrow> string \<Rightarrow> work_order
   \<Rightarrow> connector_row \<Rightarrow> 'z wo_store_scheme \<Rightarrow> string + (order_plan \<times> attempt) \<times> 'z wo_store_scheme" where
  "translate_order sha pub run org w c st =
     (let src = wo_source_payload w; a = start_attempt w
      in case find (\<lambda>t. tw_id t = wo_target_twin w \<and> tw_org_id t = org) (twins st) of
           None \<Rightarrow> Inl (''Target twin '' @ wo_target_twin w @ '' no longer exists'')
         | Some t \<Rightarrow>
             if \<not> is_object (jprop src ''identity'') then Inl ''Cannot read properties of undefined (reading 'system')''
             else
              (let effective = effective_status w t st;
                   ft = translate_fields (ow_vm run) org (payload_endpoint (jprop src ''identity'')) (endpoint_of (twin_identity t))
                     \<lparr>fi_fields = payload_fields src, fi_source_state = or_null (opt_prop src ''state''), fi_target_state = or_null (Some effective)\<rparr> st
               in and_then (state_translation sha pub run org w c t effective ft a st) (\<lambda>((held, a1), st1).
                    case held of
                      Some h \<Rightarrow> Inr ((h, a1), st1)
                    | None \<Rightarrow>
                        (case with_fields ft a1 of
                           (Some h, a2) \<Rightarrow> Inr ((h, a2), st1)
                         | (None, a2) \<Rightarrow> Inr ((if nothing_to_write effective a2 then SkipOrder else WriteOrder, a2), st1)))))"

subsection \<open>Settlement\<close>

definition order_attempt :: "work_order \<Rightarrow> time \<Rightarrow> time \<Rightarrow> string \<Rightarrow> string option \<Rightarrow> jsval list" where
  "order_attempt w started done outcome error = wo_history w @ [attempt_entry (wo_attempts w) started done outcome
     (case error of None \<Rightarrow> [] | Some m \<Rightarrow> [(''error'', JStr m)])]"

definition held_event :: "string \<Rightarrow> connector_row \<Rightarrow> work_order \<Rightarrow> attempt \<Rightarrow> string \<Rightarrow> string \<Rightarrow> outbox_input" where
  "held_event org c w a reason message =
     connector_event org (wo_id w) (''connector:'' @ cr_id c) ''ConnectorWorkOrderHeld''
       [(''work_order_id'', JStr (wo_id w)), (''transaction_id'', jopt (at_transaction a)), (''target_twin_id'', JStr (wo_target_twin w)),
        (''reason'', JStr reason), (''error'', JStr message)]"

definition operator_entries :: "connector_row \<Rightarrow> work_order \<Rightarrow> attempt \<Rightarrow> jsobj" where
  "operator_entries c w a =
     [(''twin_id'', JStr (wo_target_twin w)),
      (''identity'', identity_value \<lparr>sy_system = cr_provider c, sy_entity_type = wo_entity_type w, sy_immutable_id = wo_external_id w\<rparr>),
      (''native_status'', (case at_state a of None \<Rightarrow> JUndef | Some s \<Rightarrow> JStr s)),
      (''state_changed'', JBool (or_null (at_state a) \<noteq> None)), (''fields_changed'', JBool (at_fields a \<noteq> [])),
      (''updated_by'', JStr (''connector:'' @ cr_id c)), (''fields'', or_empty_obj (jprop (wo_source_payload w) ''fields''))]"

definition executed_event :: "string \<Rightarrow> connector_row \<Rightarrow> work_order \<Rightarrow> attempt \<Rightarrow> string \<Rightarrow> outbox_input" where
  "executed_event org c w a message =
     (let edit = (wo_origin w = OperatorEdit)
      in connector_event org (if edit then wo_target_twin w else wo_id w) (''connector:'' @ cr_id c)
           (if edit then ''ConnectorOperatorStateWritten'' else ''ConnectorWorkOrderExecuted'')
           ([(''work_order_id'', JStr (wo_id w)), (''transaction_id'', jopt (at_transaction a)), (''target_connector_id'', JStr (cr_id c)),
             (''target_twin_id'', JStr (wo_target_twin w)), (''target_external_id'', JStr (wo_external_id w)),
             (''target_state'', (case at_state a of None \<Rightarrow> JUndef | Some s \<Rightarrow> JStr s))]
            @ (if edit then operator_entries c w a else [])
            @ [(''attempts'', JInt (wo_attempts w)), (''message'', JStr message)]))"

definition order_failed_event :: "string \<Rightarrow> connector_row \<Rightarrow> work_order \<Rightarrow> attempt \<Rightarrow> bool \<Rightarrow> bool \<Rightarrow> string \<Rightarrow> outbox_input" where
  "order_failed_event org c w a retryable final message =
     connector_event org (wo_id w) (''connector:'' @ cr_id c) ''ConnectorWorkOrderFailed''
       [(''work_order_id'', JStr (wo_id w)), (''transaction_id'', jopt (at_transaction a)), (''target_connector_id'', JStr (cr_id c)),
        (''target_twin_id'', JStr (wo_target_twin w)), (''target_external_id'', JStr (wo_external_id w)),
        (''target_state'', (case at_state a of None \<Rightarrow> JUndef | Some s \<Rightarrow> JStr s)), (''attempts'', JInt (wo_attempts w)),
        (''retryable'', JBool retryable), (''final'', JBool final), (''error'', JStr message)]"

text \<open>A write with its event; what it throws is an error that is not retried.\<close>

definition settle_with ::
  "(string \<Rightarrow> string) \<Rightarrow> 'z wo_store_scheme handler \<Rightarrow> uuid \<Rightarrow> time \<Rightarrow> outbox_input \<Rightarrow> ('z wo_store_scheme \<Rightarrow> 'z wo_store_scheme)
   \<Rightarrow> 'z wo_store_scheme \<Rightarrow> attempt_error + 'z wo_store_scheme" where
  "settle_with sha pub fresh now ev write st =
     (case with_event sha pub fresh now ev (write st) of
        Inl e \<Rightarrow> Inl (AttemptFailed False None (show_db_error e)) | Inr (_, st1) \<Rightarrow> Inr st1)"

definition hold_order ::
  "(string \<Rightarrow> string) \<Rightarrow> 'z wo_store_scheme handler \<Rightarrow> (markers \<times> 'z wo_store_scheme) order_run \<Rightarrow> string \<Rightarrow> connector_row \<Rightarrow> work_order
   \<Rightarrow> attempt \<Rightarrow> string \<Rightarrow> string \<Rightarrow> 'z wo_store_scheme \<Rightarrow> attempt_error + 'z wo_store_scheme" where
  "hold_order sha pub run org c w a reason message =
     settle_with sha pub (ow_ids run 2) (ow_done_at run) (held_event org c w a reason message)
       (\<lambda>st. set_twin (ow_done_at run) org (wo_target_twin w) ''paused''
          (set_orders (holds_claim org (wo_id w) (ow_claim run)) (held_order (ow_done_at run) (at_transaction a) message
             (order_attempt w (ow_claimed_at run) (ow_done_at run) ''held'' (or_null (Some message)))) st))"

definition resume_twin :: "time \<Rightarrow> string \<Rightarrow> work_order \<Rightarrow> 'z wo_store_scheme \<Rightarrow> 'z wo_store_scheme" where
  "resume_twin now org w st =
     (if \<exists>b \<in> set (work_orders st). wo_org_id b = org \<and> wo_target_twin b = wo_target_twin w \<and> wo_id b \<noteq> wo_id w \<and>
           wo_status b \<in> {OrderDead, OrderHeld}
      then st else set_twin now org (wo_target_twin w) ''synced'' st)"

definition finish_order ::
  "(string \<Rightarrow> string) \<Rightarrow> 'z wo_store_scheme handler \<Rightarrow> (markers \<times> 'z wo_store_scheme) order_run \<Rightarrow> string \<Rightarrow> connector_row \<Rightarrow> work_order
   \<Rightarrow> attempt \<Rightarrow> string \<Rightarrow> 'z wo_store_scheme \<Rightarrow> attempt_error + 'z wo_store_scheme" where
  "finish_order sha pub run org c w a message =
     settle_with sha pub (ow_ids run 4) (ow_done_at run) (executed_event org c w a message)
       (\<lambda>st. resume_twin (ow_done_at run) org w
          (set_orders (holds_claim org (wo_id w) (ow_claim run)) (executed_order (ow_done_at run)
             (order_attempt w (ow_claimed_at run) (ow_done_at run) ''executed'' None)) st))"

subsection \<open>The write\<close>

definition push_of :: "work_order \<Rightarrow> attempt \<Rightarrow> push_request" where
  "push_of w a = \<lparr>pu_entity_type = wo_entity_type w, pu_external_id = wo_external_id w, pu_state = at_state a, pu_fields = at_fields a\<rparr>"

definition write_dto :: "connector_row \<Rightarrow> work_order \<Rightarrow> attempt \<Rightarrow> jsval" where
  "write_dto c w a = JObj
     [(''identity'', identity_value \<lparr>sy_system = cr_provider c, sy_entity_type = wo_entity_type w, sy_immutable_id = wo_external_id w\<rparr>),
      (''service_account_id'', JStr (''connector:'' @ cr_id c)),
      (''payload'', JObj ((case or_null (at_state a) of None \<Rightarrow> [] | Some s \<Rightarrow> [(''state'', JStr s)]) @
         (if at_fields a = [] then [] else [(''fields'', JObj (at_fields a))])))]"

definition write_order ::
  "(string \<Rightarrow> string) \<Rightarrow> 'z wo_store_scheme handler \<Rightarrow> (markers \<times> 'z wo_store_scheme) order_run \<Rightarrow> string \<Rightarrow> connector_row \<Rightarrow> work_order
   \<Rightarrow> attempt \<Rightarrow> markers \<times> 'z wo_store_scheme \<Rightarrow> (attempt_error + order_status) \<times> markers \<times> 'z wo_store_scheme" where
  "write_order sha pub run org c w a s =
     (let s1 = ow_race run 3 s
      in case ow_push run (push_of w a) of
           PushShed until_t m \<Rightarrow> (Inl (AttemptShed until_t m), s1)
         | PushRemote retryable after m \<Rightarrow> (Inl (AttemptFailed retryable after m), s1)
         | PushCredential m \<Rightarrow> (Inl (AttemptFailed True None m), s1)
         | PushRefused m \<Rightarrow> (Inl (AttemptFailed False None m), s1)
         | Pushed m \<Rightarrow>
             (case record_integration_write sha quiet pub (ow_ids run 3) (ow_done_at run) org (write_dto c w a) s1 of
                Inl e \<Rightarrow> (Inl (AttemptFailed False None (guard_error_text e)), s1)
              | Inr (_, s2) \<Rightarrow>
                  (let s3 = ow_race run 4 s2
                   in case finish_order sha pub run org c w a m (snd s3) of
                        Inl e \<Rightarrow> (Inl e, s3) | Inr st4 \<Rightarrow> (Inr OrderExecuted, fst s3, st4))))"

definition attempt_order ::
  "(string \<Rightarrow> string) \<Rightarrow> 'z wo_store_scheme handler \<Rightarrow> (markers \<times> 'z wo_store_scheme) order_run \<Rightarrow> string \<Rightarrow> connector_row \<Rightarrow> work_order
   \<Rightarrow> markers \<times> 'z wo_store_scheme \<Rightarrow> (attempt_error + order_status) \<times> attempt \<times> markers \<times> 'z wo_store_scheme" where
  "attempt_order sha pub run org c w = (\<lambda>(m, st).
     let a = start_attempt w
     in if \<not> at_translating a then (let (r, s1) = write_order sha pub run org c w a (m, st) in (r, a, s1))
        else case translate_order sha pub run org w c st of
               Inl e \<Rightarrow> (Inl (AttemptFailed True None e), a, m, st)
             | Inr ((HoldOrder reason message, a1), st1) \<Rightarrow>
                 (case hold_order sha pub run org c w a1 reason message st1 of
                    Inl (AttemptFailed _ after e) \<Rightarrow> (Inl (AttemptFailed True after e), a1, m, st1)
                  | Inl (AttemptShed u e) \<Rightarrow> (Inl (AttemptShed u e), a1, m, st1)
                  | Inr st2 \<Rightarrow> (Inr OrderHeld, a1, m, st2))
             | Inr ((SkipOrder, a1), st1) \<Rightarrow>
                 (Inr OrderNoop, a1, m, set_orders (holds_claim org (wo_id w) (ow_claim run))
                    (noop_order (ow_done_at run) (at_transaction a1) (at_state a1) (at_fields a1)
                       (order_attempt w (ow_claimed_at run) (ow_done_at run) ''completed'' None)) st1)
             | Inr ((WriteOrder, a1), st1) \<Rightarrow>
                 (let a2 = a1\<lparr>at_translating := False\<rparr>;
                      (r, s2) = write_order sha pub run org c w a2 (m, set_orders (holds_claim org (wo_id w) (ow_claim run))
                        (translated_order (ow_claimed_at run) (at_transaction a1) (at_state a1) (at_fields a1)) st1)
                  in (r, a2, s2)))"

subsection \<open>Failure\<close>

definition retry_at :: "time \<Rightarrow> int \<Rightarrow> int option \<Rightarrow> time" where
  "retry_at now attempts after = now + (case after of
     Some s \<Rightarrow> if s = 0 then retry_backoff attempts else s * 1000 | None \<Rightarrow> retry_backoff attempts)"

definition fail_order ::
  "(string \<Rightarrow> string) \<Rightarrow> 'z wo_store_scheme handler \<Rightarrow> (markers \<times> 'z wo_store_scheme) order_run \<Rightarrow> string \<Rightarrow> connector_row \<Rightarrow> work_order
   \<Rightarrow> attempt \<Rightarrow> attempt_error \<Rightarrow> 'z wo_store_scheme \<Rightarrow> db_error + order_status \<times> 'z wo_store_scheme" where
  "fail_order sha pub run org c w a e st =
     (case e of
        AttemptShed until_t m \<Rightarrow>
          Inr (OrderPending, set_orders (holds_claim org (wo_id w) (ow_claim run)) (deferred_order (ow_done_at run) until_t m) st)
      | AttemptFailed retryable after m \<Rightarrow>
          (let now = ow_done_at run;
               message = or_text m ''Connector write failed'';
               s = (if retryable \<and> wo_attempts w < max_work_order_attempts then OrderFailed else OrderDead);
               nxt = (if s = OrderFailed then Some (retry_at now (wo_attempts w) after) else None);
               history = order_attempt w (ow_claimed_at run) now (if s = OrderDead then ''dead_lettered'' else ''retry_scheduled'') (Some message);
               st1 = set_orders (holds_claim org (wo_id w) (ow_claim run)) (failed_order now s message nxt history) st;
               st2 = (if s = OrderDead then set_twin now org (wo_target_twin w) ''paused'' st1 else st1)
           in and_then (with_event sha pub (ow_ids run 5) now (order_failed_event org c w a retryable (s = OrderDead) message) st2)
                (\<lambda>(_, st3). Inr (s, st3))))"

subsection \<open>The whole run\<close>

datatype order_error =
    OrderNotFound string
  | ClaimedReadFailed
  | OrderDb db_error

definition execute_claimed ::
  "(string \<Rightarrow> string) \<Rightarrow> 'z wo_store_scheme handler \<Rightarrow> (markers \<times> 'z wo_store_scheme) order_run \<Rightarrow> string \<Rightarrow> connector_row \<Rightarrow> work_order
   \<Rightarrow> markers \<times> 'z wo_store_scheme \<Rightarrow> (order_error + order_status) \<times> markers \<times> 'z wo_store_scheme" where
  "execute_claimed sha pub run org c w s =
     (case attempt_order sha pub run org c w s of
        (Inr r, _, s1) \<Rightarrow> (Inr r, s1)
      | (Inl e, a, s1) \<Rightarrow>
          (let s2 = ow_race run 5 s1
           in case fail_order sha pub run org c w a e (snd s2) of
                Inl d \<Rightarrow> (Inl (OrderDb d), s2)
              | Inr (r, st3) \<Rightarrow> (Inr r, fst s2, st3)))"

text \<open>\<open>ow_reads\<close>: the connector and its adapter are read between the claim and the \<^verbatim>\<open>try\<close>.\<close>

definition execute_order ::
  "(string \<Rightarrow> string) \<Rightarrow> 'z wo_store_scheme handler \<Rightarrow> (markers \<times> 'z wo_store_scheme) order_run \<Rightarrow> string \<Rightarrow> uuid
   \<Rightarrow> markers \<times> 'z wo_store_scheme \<Rightarrow> (order_error + order_status) \<times> markers \<times> 'z wo_store_scheme" where
  "execute_order sha pub run org i s =
     (case find (is_order org i) (work_orders (snd s)) of
        None \<Rightarrow> (Inl (OrderNotFound (''Work order '' @ i @ '' not found'')), s)
      | Some w \<Rightarrow>
        case find_connector org (wo_target_connector w) (snd s) of
          None \<Rightarrow> (Inl (OrderNotFound (''Work order '' @ i @ '' not found'')), s)
        | Some c \<Rightarrow>
          if wo_status w \<notin> {OrderPending, OrderFailed, OrderProcessing} then (Inr (wo_status w), s)
          else if wo_status w = OrderProcessing \<and> \<not> claim_expired (ow_loaded_at run) (wo_claim_expires_at w) then (Inr OrderProcessing, s)
          else if cr_activated_at c = None \<or> cr_status c = ''paused'' then (Inr (wo_status w), s)
          else let s0 = ow_race run 0 s
               in if order_blocked w (snd s0) then (Inr (wo_status w), s0)
                  else let s1 = ow_race run 1 s0
                       in case claim_order (ow_claimed_at run) (ow_claim run) org i (wo_attempts w) (snd s1) of
                            None \<Rightarrow> (Inr (wo_status w), s1)
                          | Some (work, st2) \<Rightarrow>
                              let s3 = ow_race run 2 (fst s1, st2)
                              in case (if ow_reads run then find_connector org (wo_target_connector work) (snd s3) else None) of
                                   None \<Rightarrow> (Inl ClaimedReadFailed, s3)
                                 | Some target \<Rightarrow> execute_claimed sha pub run org target work s3)"

subsection \<open>The order of a twin's queue\<close>

text \<open>What every operation on the orders keeps: an event has at most one order per twin, and an order that is
  done, or that a worker has claimed, has no unfinished elder in the queue of its twin.\<close>

definition same_cause :: "work_order \<Rightarrow> work_order \<Rightarrow> bool" where
  "same_cause v w \<longleftrightarrow> wo_source_event v \<noteq> None \<and> wo_source_event w = wo_source_event v \<and> wo_target_twin w = wo_target_twin v"

definition orders_fifo :: "'z wo_store_scheme \<Rightarrow> bool" where
  "orders_fifo st \<longleftrightarrow> distinct (map wo_id (work_orders st)) \<and>
     (\<forall>v \<in> set (work_orders st). \<forall>w \<in> set (work_orders st). same_cause v w \<longrightarrow> v = w) \<and>
     (\<forall>w \<in> set (work_orders st). wo_position w < ingest_position st \<and> (wo_claimed_by w \<noteq> None \<longrightarrow> wo_status w = OrderProcessing) \<and>
        (order_done w \<or> wo_status w = OrderProcessing \<longrightarrow> \<not> order_blocked w st))"

definition same_place :: "work_order \<Rightarrow> work_order \<Rightarrow> bool" where
  "same_place w w' \<longleftrightarrow> wo_id w' = wo_id w \<and> wo_org_id w' = wo_org_id w \<and> wo_target_twin w' = wo_target_twin w \<and>
     wo_source_event w' = wo_source_event w \<and> wo_position w' = wo_position w"

definition grown_from :: "work_order \<Rightarrow> work_order \<Rightarrow> bool" where
  "grown_from w w' \<longleftrightarrow> same_place w w' \<and> (order_done w \<longrightarrow> order_done w')"

text \<open>What workers may rely on between two statements: orders stay, keep their place, stay done once done,
  and new ones queue behind all that exist.\<close>

definition orders_later :: "'z wo_store_scheme \<Rightarrow> 'z wo_store_scheme \<Rightarrow> bool" where
  "orders_later st st' \<longleftrightarrow> ingest_position st \<le> ingest_position st' \<and>
     (\<forall>w \<in> set (work_orders st). \<exists>w' \<in> set (work_orders st'). grown_from w w') \<and>
     (\<forall>w' \<in> set (work_orders st'). (\<exists>w \<in> set (work_orders st). grown_from w w') \<or> ingest_position st \<le> wo_position w')"

definition fair :: "'z wo_store_scheme \<Rightarrow> 'z wo_store_scheme \<Rightarrow> bool" where
  "fair st st' \<longleftrightarrow> (orders_fifo st \<longrightarrow> orders_later st st' \<and> orders_fifo st')"

lemma open_not_done: "order_open w \<longleftrightarrow> \<not> order_done w"
  by (cases "wo_status w") (simp_all add: order_open_def order_done_def)

lemma same_place_refl [simp]: "same_place w w"
  by (simp add: same_place_def)

lemma grown_from_refl [simp]: "grown_from w w"
  by (simp add: grown_from_def)

lemma grown_from_trans: "grown_from u v \<Longrightarrow> grown_from v w \<Longrightarrow> grown_from u w"
  by (auto simp: grown_from_def same_place_def)

lemma later_refl: "orders_later st st"
  unfolding orders_later_def using grown_from_refl by blast

lemma later_trans:
  assumes "orders_later st st1" "orders_later st1 st2"
  shows "orders_later st st2"
  unfolding orders_later_def
proof (intro conjI ballI)
  show "ingest_position st \<le> ingest_position st2" using assms by (simp add: orders_later_def)
next
  fix w assume "w \<in> set (work_orders st)"
  then obtain w1 where "w1 \<in> set (work_orders st1)" "grown_from w w1" using assms(1) by (auto simp: orders_later_def)
  moreover from this(1) obtain w2 where "w2 \<in> set (work_orders st2)" "grown_from w1 w2" using assms(2) by (auto simp: orders_later_def)
  ultimately show "\<exists>w2 \<in> set (work_orders st2). grown_from w w2" using grown_from_trans by blast
next
  fix w2 assume "w2 \<in> set (work_orders st2)"
  then consider w1 where "w1 \<in> set (work_orders st1)" "grown_from w1 w2" | "ingest_position st1 \<le> wo_position w2"
    using assms(2) by (auto simp: orders_later_def)
  then show "(\<exists>w \<in> set (work_orders st). grown_from w w2) \<or> ingest_position st \<le> wo_position w2"
  proof cases
    case 1
    then have "(\<exists>w \<in> set (work_orders st). grown_from w w1) \<or> ingest_position st \<le> wo_position w1"
      using assms(1) unfolding orders_later_def by blast
    moreover have "wo_position w2 = wo_position w1" using 1(2) by (simp add: grown_from_def same_place_def)
    ultimately show ?thesis using grown_from_trans [OF _ 1(2)] by auto
  next
    case 2
    then show ?thesis using assms(1) by (simp add: orders_later_def)
  qed
qed

lemma fair_refl [simp]: "fair st st"
  by (simp add: fair_def later_refl)

lemma fair_trans [trans]: "fair st st1 \<Longrightarrow> fair st1 st2 \<Longrightarrow> fair st st2"
  unfolding fair_def using later_trans by blast

lemma blocked_same: "work_orders st' = work_orders st \<Longrightarrow> order_blocked w st' = order_blocked w st"
  by (simp add: order_blocked_def)

lemma fair_same: "work_orders st' = work_orders st \<Longrightarrow> ingest_position st' = ingest_position st \<Longrightarrow> fair st st'"
  unfolding fair_def orders_later_def orders_fifo_def order_blocked_def by (simp only:) (use grown_from_refl in blast)

lemma unblocked_later:
  assumes "orders_later st st'" "\<not> order_blocked w st" "same_place w w'" "wo_position w < ingest_position st"
  shows "\<not> order_blocked w' st'"
proof
  assume "order_blocked w' st'"
  then obtain o' where o': "o' \<in> set (work_orders st')" "older_order o' w'" "\<not> order_done o'"
    by (auto simp: order_blocked_def open_not_done)
  then have "\<not> ingest_position st \<le> wo_position o'" using assms(3,4) by (auto simp: older_order_def same_place_def)
  then obtain v where v: "v \<in> set (work_orders st)" "grown_from v o'" using assms(1) o'(1) by (auto simp: orders_later_def)
  then have "older_order v w" "\<not> order_done v" using o'(2,3) assms(3) by (auto simp: grown_from_def older_order_def same_place_def)
  then show False using v(1) assms(2) by (auto simp: order_blocked_def open_not_done)
qed

lemma id_unique: "distinct (map wo_id rows) \<Longrightarrow> v \<in> set rows \<Longrightarrow> w \<in> set rows \<Longrightarrow> wo_id v = wo_id w \<Longrightarrow> v = w"
  by (metis (mono_tags) distinct_map inj_onD)

lemma position_of [simp]: "ingest_position (set_orders P f st) = ingest_position st"
  "work_orders (set_orders P f st) = update_where P f (work_orders st)"
  by (simp_all add: set_orders_def)

text \<open>An update of rows is fair when it keeps places, unfinishes nothing, and leaves nothing claimed or done
  that has an unfinished elder.\<close>

lemma fair_set_orders:
  assumes "\<And>w. orders_fifo st \<Longrightarrow> w \<in> set (work_orders st) \<Longrightarrow> P w \<Longrightarrow> grown_from w (f w) \<and>
      (wo_claimed_by (f w) \<noteq> None \<longrightarrow> wo_status (f w) = OrderProcessing) \<and>
      (order_done (f w) \<or> wo_status (f w) = OrderProcessing \<longrightarrow> \<not> order_blocked w st)"
  shows "fair st (set_orders P f st)"
  unfolding fair_def
proof (intro impI conjI)
  assume fifo: "orders_fifo st"
  note step = assms [OF fifo]
  have grown: "grown_from w (if P w then f w else w)" if "w \<in> set (work_orders st)" for w
    using step [OF that] by simp
  show later: "orders_later st (set_orders P f st)"
    unfolding orders_later_def position_of
  proof (intro conjI ballI)
    fix w assume "w \<in> set (work_orders st)"
    then show "\<exists>w' \<in> set (update_where P f (work_orders st)). grown_from w w'"
      using grown set_update_where [of _ P f "work_orders st"] by blast
  next
    fix w' assume "w' \<in> set (update_where P f (work_orders st))"
    then show "(\<exists>w \<in> set (work_orders st). grown_from w w') \<or> ingest_position st \<le> wo_position w'"
      using grown unfolding set_update_where by blast
  qed simp
  have "distinct (map wo_id (update_where P f (work_orders st)))"
  proof -
    have "map wo_id (update_where P f (work_orders st)) = map wo_id (work_orders st)"
      using step by (auto simp: update_where_def grown_from_def same_place_def)
    then show ?thesis using fifo by (simp add: orders_fifo_def)
  qed
  moreover have "v = w" if "v \<in> set (update_where P f (work_orders st))" "w \<in> set (update_where P f (work_orders st))" "same_cause v w" for v w
  proof -
    from that(1) [unfolded set_update_where] obtain v0 where v0: "v0 \<in> set (work_orders st)" "v = (if P v0 then f v0 else v0)" by blast
    from that(2) [unfolded set_update_where] obtain w0 where w0: "w0 \<in> set (work_orders st)" "w = (if P w0 then f w0 else w0)" by blast
    have "same_place v0 v" "same_place w0 w" using grown v0 w0 by (auto simp: grown_from_def)
    then have "same_cause v0 w0" using that(3) by (simp add: same_cause_def same_place_def)
    then show ?thesis using fifo v0 w0 by (auto simp: orders_fifo_def)
  qed
  moreover have "wo_position w' < ingest_position st \<and> (wo_claimed_by w' \<noteq> None \<longrightarrow> wo_status w' = OrderProcessing) \<and>
      (order_done w' \<or> wo_status w' = OrderProcessing \<longrightarrow> \<not> order_blocked w' (set_orders P f st))"
    if "w' \<in> set (update_where P f (work_orders st))" for w'
  proof -
    obtain w where w: "w \<in> set (work_orders st)" "w' = (if P w then f w else w)" using \<open>w' \<in> _\<close> by (auto simp: set_update_where)
    have place: "same_place w w'" using step w by (auto simp: grown_from_def)
    have "\<not> order_blocked w st" if "order_done w' \<or> wo_status w' = OrderProcessing"
      using that step [of w] w fifo by (auto simp: orders_fifo_def split: if_splits)
    then show ?thesis using unblocked_later [OF later _ place] step [of w] w fifo place
      by (auto simp: orders_fifo_def same_place_def split: if_splits)
  qed
  ultimately show "orders_fifo (set_orders P f st)" by (simp add: orders_fifo_def)
qed

lemmas order_rows = deferred_order_def held_order_def translated_order_def noop_order_def executed_order_def failed_order_def release_def

lemma fair_settle:
  assumes "\<And>w. same_place w (f w)" "\<And>w. wo_claimed_by (f w) = None \<or> wo_status (f w) = wo_status w"
    "\<And>w. wo_status (f w) \<noteq> OrderProcessing \<or> wo_status (f w) = wo_status w"
  shows "fair st (set_orders (holds_claim org i claim) f st)"
proof (rule fair_set_orders)
  fix w assume "orders_fifo st" "w \<in> set (work_orders st)" "holds_claim org i claim w"
  then have "wo_status w = OrderProcessing" "\<not> order_blocked w st" by (auto simp: orders_fifo_def holds_claim_def)
  then show "grown_from w (f w) \<and> (wo_claimed_by (f w) \<noteq> None \<longrightarrow> wo_status (f w) = OrderProcessing) \<and>
      (order_done (f w) \<or> wo_status (f w) = OrderProcessing \<longrightarrow> \<not> order_blocked w st)"
    using assms [of w] by (auto simp: grown_from_def order_done_def)
qed

lemma fair_settled:
  "fair st (set_orders (holds_claim org i claim) (deferred_order now u m) st)"
  "fair st (set_orders (holds_claim org i claim) (held_order now tx m h) st)"
  "fair st (set_orders (holds_claim org i claim) (translated_order now tx s fs) st)"
  "fair st (set_orders (holds_claim org i claim) (noop_order now tx s fs h) st)"
  "fair st (set_orders (holds_claim org i claim) (executed_order now h) st)"
  "s' \<noteq> OrderProcessing \<Longrightarrow> fair st (set_orders (holds_claim org i claim) (failed_order now s' m nxt h) st)"
  by (rule fair_settle; simp add: order_rows same_place_def)+

lemma fair_renewed: "fair st (renew_order_claim now i claim st)"
  unfolding renew_order_claim_def
  by (rule fair_set_orders) (auto simp: grown_from_def same_place_def order_done_def orders_fifo_def)

lemma fair_recovered: "fair st (recover_orders now st)"
  unfolding recover_orders_def
  by (rule fair_set_orders) (auto simp: grown_from_def same_place_def order_done_def release_def)

lemma twin_frame [simp]: "work_orders (set_twin now org i x st) = work_orders st" "ingest_position (set_twin now org i x st) = ingest_position st"
  by (simp_all add: set_twin_def)

lemma fair_twin: "fair st (set_twin now org i x st)"
  by (rule fair_same) simp_all

lemma fair_resumed: "fair st (resume_twin now org w st)"
  by (auto simp: resume_twin_def fair_twin)

text \<open>A claim is fair because the order had no unfinished elder when it was checked, and none can appear since.\<close>

lemma fair_claim:
  assumes "claim_order now claim org i attempts st1 = Some (work, st2)" "w \<in> set (work_orders st)" "wo_id w = i"
    "orders_fifo st" "\<not> order_blocked w st" "orders_later st st1" "orders_fifo st1"
  shows "fair st1 st2"
proof -
  let ?P = "\<lambda>w. is_order org i w \<and> wo_attempts w = attempts \<and> order_claimable now w"
  have st2: "st2 = set_orders ?P (claimed_order now claim) st1"
    using assms(1) by (auto simp: claim_order_def Let_def split: option.splits)
  have "\<not> order_blocked x st1" if "x \<in> set (work_orders st1)" "wo_id x = i" for x
  proof -
    obtain w' where w': "w' \<in> set (work_orders st1)" "grown_from w w'" using assms(2,6) by (auto simp: orders_later_def)
    then have "w' = x" using id_unique [of "work_orders st1" w' x] that assms(3,7)
      by (auto simp: orders_fifo_def grown_from_def same_place_def)
    then show ?thesis using unblocked_later [OF assms(6,5), of x] w'(2) assms(2,4) by (auto simp: orders_fifo_def grown_from_def)
  qed
  then show ?thesis unfolding st2
    by (intro fair_set_orders) (auto simp: is_order_def claimed_order_def grown_from_def same_place_def order_done_def order_claimable_def)
qed

lemma more_fair: "store.more st' = store.more st \<Longrightarrow> fair (st :: 'z wo_store_scheme) st'"
  by (rule fair_same; cases st; cases st'; simp)

lemma enqueue_fair: "enqueue sha quiet fresh now i st = Inr (ev, st') \<Longrightarrow> fair st st'"
  by (rule more_fair) (rule enqueue_more)

locale fair_delivery =
  fixes pub :: "'z wo_store_scheme handler"
  assumes pub_fair: "fair st (snd (pub ev st))"
begin

lemma dispatch_fair: "fair st (snd (dispatch_envelope pub now ev st))"
proof -
  have "fair (snd (pub ev st)) (snd (dispatch_envelope pub now ev st))"
    by (rule fair_same) (auto simp: dispatch_envelope_def split: prod.splits option.splits)
  then show ?thesis using pub_fair fair_trans by blast
qed

lemma event_fair: "with_event sha pub fresh now i st = Inr (ev, st') \<Longrightarrow> fair st st'"
  unfolding with_event_def and_then_Inr by (auto intro: fair_trans [OF enqueue_fair dispatch_fair])

lemma mapping_tx_fair: "mapping_tx sha pub fresh now i st = Inr st' \<Longrightarrow> fair st st'"
  unfolding mapping_tx_def by (auto intro: fair_trans [OF enqueue_fair dispatch_fair] split: sum.splits)

lemma translate_fair:
  assumes "translate_state sha pub ids now org dto actor st = Inr (d, st')"
  shows "fair st st'"
proof -
  have "fair st (st\<lparr>sync_transactions := rows\<rparr>)" for rows by (rule fair_same) simp_all
  then have "fair st st2" if "mapping_tx sha pub fresh now ev (st\<lparr>sync_transactions := rows\<rparr>) = Inr st2" for fresh now ev rows st2
    using mapping_tx_fair [OF that] fair_trans by blast
  then show ?thesis using assms by (auto simp: translate_state_def and_then_Inr Let_def split: if_splits)
qed

lemma translate_order_fair: "translate_order sha pub run org w c st = Inr (p, st') \<Longrightarrow> fair st st'"
  by (auto simp: translate_order_def state_translation_def and_then_Inr Let_def dest: translate_fair
      split: option.splits if_splits sum.splits prod.splits)

lemma record_fair:
  assumes "record_integration_write sha quiet pub fresh now org dto s = Inr (r, s')"
  shows "fair (snd s) (snd s')"
proof -
  have rows: "fair st (st\<lparr>snapshots := rows\<rparr>)" for st :: "'z wo_store_scheme" and rows by (rule fair_same) simp_all
  have "fair st (snd (dispatch_envelope pub now e st2))"
    if "enqueue sha quiet fresh now ev (st\<lparr>snapshots := rows\<rparr>) = Inr (e, st2)" for st ev rows e st2
    using fair_trans [OF rows fair_trans [OF enqueue_fair [OF that] dispatch_fair]] .
  then show ?thesis using assms
    by (cases s) (auto simp: record_integration_write_def and_then_Inr Let_def case_error_Inr)
qed

lemma webhook_fair:
  assumes "evaluate_webhook sha quiet pub fresh now org dto s = Inr (d, s')"
  shows "fair (snd s) (snd s')"
proof -
  have rows: "fair st (st\<lparr>snapshots := rows\<rparr>)" for st :: "'z wo_store_scheme" and rows by (rule fair_same) simp_all
  have "fair st (snd (dispatch_envelope pub now e st2))"
    if "enqueue sha quiet fresh now ev (if b then st else st\<lparr>snapshots := rows\<rparr>) = Inr (e, st2)" for st ev rows e st2 b
    using fair_trans [OF _ fair_trans [OF enqueue_fair [OF that] dispatch_fair]] rows by auto
  then show ?thesis using assms
    by (cases s) (fastforce simp: evaluate_webhook_def and_then_Inr Let_def case_error_Inr)
qed

lemma settle_fair: "settle_with sha pub fresh now ev write st = Inr st' \<Longrightarrow> fair st (write st) \<Longrightarrow> fair st st'"
  by (auto simp: settle_with_def dest: event_fair intro: fair_trans split: sum.splits)

lemma hold_fair: "hold_order sha pub run org c w a reason message st = Inr st' \<Longrightarrow> fair st st'"
  unfolding hold_order_def by (erule settle_fair) (rule fair_trans [OF fair_settled(2) fair_twin])

lemma finish_fair: "finish_order sha pub run org c w a message st = Inr st' \<Longrightarrow> fair st st'"
  unfolding finish_order_def by (erule settle_fair) (rule fair_trans [OF fair_settled(5) fair_resumed])

lemma fail_fair:
  assumes "fail_order sha pub run org c w a e st = Inr (r, st')"
  shows "fair st st'"
proof (cases e)
  case (AttemptShed u m)
  then show ?thesis using assms by (auto simp: fail_order_def fair_settled)
next
  case (AttemptFailed retryable after m)
  let ?s = "if retryable \<and> wo_attempts w < max_work_order_attempts then OrderFailed else OrderDead"
  let ?st1 = "\<lambda>msg nxt h. set_orders (holds_claim org (wo_id w) (ow_claim run)) (failed_order (ow_done_at run) ?s msg nxt h) st"
  have st1: "fair st (?st1 msg nxt h)" for msg nxt h by (rule fair_settled(6)) simp
  then have "fair st (set_twin now org i x (?st1 msg nxt h))" for msg nxt h now i x using fair_trans fair_twin by blast
  with st1 have "fair st (if b then set_twin now org i x (?st1 msg nxt h) else ?st1 msg nxt h)" for b msg nxt h now i x by simp
  moreover obtain ev now' b i x msg nxt h fresh y where "with_event sha pub fresh now' ev
      (if b then set_twin now' org i x (?st1 msg nxt h) else ?st1 msg nxt h) = Inr (y, st')"
    using assms AttemptFailed by (auto simp: fail_order_def Let_def and_then_Inr)
  ultimately show ?thesis using event_fair fair_trans by blast
qed

end

locale fair_world = fair_delivery pub for pub :: "'z wo_store_scheme handler" +
  fixes race :: "nat \<Rightarrow> markers \<times> 'z wo_store_scheme \<Rightarrow> markers \<times> 'z wo_store_scheme"
  assumes race_fair: "fair (snd s) (snd (race n s))"
begin

lemma write_fair:
  assumes "write_order sha pub run org c w a s = (r, s')" "ow_race run = race"
  shows "fair (snd s) (snd s')"
proof -
  have after: "fair (snd s1) (snd s')"
    if "record_integration_write sha quiet pub fresh now org dto s1 = Inr (x, s2)"
      "(case finish_order sha pub run org c w a m (snd (race 4 s2)) of Inl e \<Rightarrow> (Inl e, race 4 s2)
        | Inr st4 \<Rightarrow> (Inr OrderExecuted, fst (race 4 s2), st4)) = (r, s')" for fresh now dto s1 x s2 m
  proof -
    have "fair (snd s1) (snd (race 4 s2))" using fair_trans [OF record_fair [OF that(1)] race_fair] .
    moreover have "fair (snd (race 4 s2)) (snd s')" using that(2) by (auto dest: finish_fair split: sum.splits)
    ultimately show ?thesis by (rule fair_trans)
  qed
  have "fair (snd (race 3 s)) (snd s')"
    using assms by (auto simp: write_order_def Let_def dest: after split: push_outcome.splits sum.splits)
  with race_fair show ?thesis by (rule fair_trans)
qed

lemma attempt_fair:
  assumes "attempt_order sha pub run org c w s = (r, a, s')" "ow_race run = race"
  shows "fair (snd s) (snd s')"
proof (cases "at_translating (start_attempt w)")
  case False
  then show ?thesis using assms
    by (cases "write_order sha pub run org c w (start_attempt w) s")
      (auto simp: attempt_order_def Let_def split_beta dest: write_fair)
next
  case True
  show ?thesis
  proof (cases "translate_order sha pub run org w c (snd s)")
    case (Inl e)
    then show ?thesis using assms True by (auto simp: attempt_order_def Let_def split_beta)
  next
    case (Inr x)
    obtain p a1 st1 where x: "x = ((p, a1), st1)" by (metis prod.exhaust)
    have st1: "fair (snd s) st1" using translate_order_fair Inr x by blast
    have "fair st1 (snd s')"
    proof (cases p)
      case (HoldOrder reason message)
      then show ?thesis using assms True Inr x
        by (auto simp: attempt_order_def Let_def split_beta dest: hold_fair split: sum.splits attempt_error.splits)
    next
      case SkipOrder
      then show ?thesis using assms True Inr x by (auto simp: attempt_order_def Let_def split_beta fair_settled)
    next
      case WriteOrder
      let ?st2 = "set_orders (holds_claim org (wo_id w) (ow_claim run))
          (translated_order (ow_claimed_at run) (at_transaction a1) (at_state a1) (at_fields a1)) st1"
      have "write_order sha pub run org c w (a1\<lparr>at_translating := False\<rparr>) (fst s, ?st2) = (r, s')"
        using assms(1) True Inr x WriteOrder by (auto simp: attempt_order_def Let_def split_beta)
      then have "fair ?st2 (snd s')" using write_fair assms(2) by fastforce
      with fair_settled(3) show ?thesis by (rule fair_trans)
    qed
    with st1 show ?thesis by (rule fair_trans)
  qed
qed

lemma claimed_fair:
  assumes "execute_claimed sha pub run org c w s = (r, s')" "ow_race run = race"
  shows "fair (snd s) (snd s')"
proof -
  obtain x a s1 where att: "attempt_order sha pub run org c w s = (x, a, s1)" by (metis prod.exhaust)
  have s1: "fair (snd s) (snd s1)" by (rule attempt_fair [OF att assms(2)])
  have "fair (snd s1) (snd s')"
  proof (cases x)
    case (Inr y)
    then show ?thesis using assms att by (auto simp: execute_claimed_def)
  next
    case (Inl e)
    have "fair (snd (race 5 s1)) (snd s')"
      using assms att Inl by (auto simp: execute_claimed_def Let_def dest: fail_fair split: sum.splits)
    with race_fair show ?thesis by (rule fair_trans)
  qed
  with s1 show ?thesis by (rule fair_trans)
qed

lemma execute_fair:
  assumes "execute_order sha pub run org i s = (r, s')" "ow_race run = race"
  shows "fair (snd s) (snd s')"
proof (cases "snd s' = snd s")
  case False
  let ?s0 = "race 0 s"
  let ?s1 = "race 1 ?s0"
  obtain w c where w: "find (is_order org i) (work_orders (snd s)) = Some w" "find_connector org (wo_target_connector w) (snd s) = Some c"
    using False assms(1) by (auto simp: execute_order_def split: option.splits)
  have s0: "fair (snd s) (snd ?s0)" and s1: "fair (snd ?s0) (snd ?s1)" by (rule race_fair)+
  show ?thesis
  proof (cases "order_blocked w (snd ?s0)")
    case True
    then show ?thesis using assms w s0 by (auto simp: execute_order_def Let_def split: if_splits)
  next
    case free: False
    show ?thesis
    proof (cases "claim_order (ow_claimed_at run) (ow_claim run) org i (wo_attempts w) (snd ?s1)")
      case None
      then show ?thesis using assms w free fair_trans [OF s0 s1] by (auto simp: execute_order_def Let_def split: if_splits)
    next
      case (Some y)
      obtain work st2 where y: "y = (work, st2)" by (rule prod.exhaust)
      have "fair (snd s) st2"
        unfolding fair_def
      proof (intro impI)
        assume fifo: "orders_fifo (snd s)"
        have mem: "w \<in> set (work_orders (snd s))" "wo_id w = i" using find_SomeD [OF w(1)] by (auto simp: is_order_def)
        have l0: "orders_later (snd s) (snd ?s0)" "orders_fifo (snd ?s0)" using s0 fifo by (auto simp: fair_def)
        have l1: "orders_later (snd ?s0) (snd ?s1)" "orders_fifo (snd ?s1)" using s1 l0(2) by (auto simp: fair_def)
        obtain v where v: "v \<in> set (work_orders (snd ?s0))" "grown_from w v" using l0(1) mem by (auto simp: orders_later_def)
        have "\<not> order_blocked v (snd ?s0)"
          using free v(2) by (auto simp: order_blocked_def older_order_def grown_from_def same_place_def)
        moreover have "wo_id v = i" using v(2) mem(2) by (simp add: grown_from_def same_place_def)
        ultimately have "fair (snd ?s1) st2"
          using fair_claim [OF Some [unfolded y] v(1) _ l0(2)] l1 by blast
        then show "orders_later (snd s) st2 \<and> orders_fifo st2"
          using l0 l1 later_trans unfolding fair_def by blast
      qed
      moreover have "fair st2 (snd (race 2 (fst ?s1, st2)))" using race_fair [of "(fst ?s1, st2)" 2] by simp
      moreover have "fair (snd (race 2 (fst ?s1, st2))) (snd s')"
        using assms w free Some y False
        by (auto simp: execute_order_def Let_def intro: claimed_fair split: if_splits option.splits)
      ultimately show ?thesis by (blast intro: fair_trans)
    qed
  qed
qed (simp add: fair_same)

end

text \<open>The bus of the process, and a worker that runs whole orders between two statements of another.\<close>

interpretation bus: fair_delivery "store_pub sha" for sha
proof
  fix st :: "'a wo_store_scheme" and ev
  have "store.more (snd (store_pub sha ev st)) = store.more st" using bus_tables by blast
  then show "fair st (snd (store_pub sha ev st))" by (rule more_fair)
qed

interpretation alone: fair_world "store_pub sha" "\<lambda>n s. s" for sha
  by unfold_locales (rule fair_refl)

interpretation rival: fair_world "store_pub sha"
  "\<lambda>n s. snd (execute_order sha (store_pub sha) ((run n)\<lparr>ow_race := \<lambda>n s. s\<rparr>) (org n) (i n) s)" for sha run org i
proof
  fix n and s :: "markers \<times> 'a wo_store_scheme"
  obtain r s' where run: "execute_order sha (store_pub sha) ((run n)\<lparr>ow_race := \<lambda>n s. s\<rparr>) (org n) (i n) s = (r, s')" by (rule prod.exhaust)
  have "fair (snd s) (snd s')" by (rule alone.execute_fair [OF run]) simp
  then show "fair (snd s) (snd (snd (execute_order sha (store_pub sha) ((run n)\<lparr>ow_race := \<lambda>n s. s\<rparr>) (org n) (i n) s)))" using run by simp
qed

end
