(* ===== verification/Propagation.thy ===== *)
theory Propagation
  imports WorkOrders
begin

text \<open>
  How a change of one twin reaches its counterparts, in \<^verbatim>\<open>src/modules/connectors/connector.service.ts\<close>:
  \<^verbatim>\<open>acceptPropagationEvent\<close> turns an event into one work order per counterpart, \<^verbatim>\<open>processDueWorkOrders\<close>
  drains the orders of a connector, and the dead-letter operations show what is stuck in the two queues of
  a twin and put it back.

  A counterpart that is handled by several orders of one drain is handled in turn; what the others do
  meanwhile is part of each run. \<open>truthy\<close> values that the code converts with \<^verbatim>\<open>String\<close> are texts.
\<close>

subsection \<open>The drain\<close>

record order_counts =
  oc_executed :: nat
  oc_held :: nat
  oc_failed :: nat

definition no_orders :: order_counts where
  "no_orders = \<lparr>oc_executed = 0, oc_held = 0, oc_failed = 0\<rparr>"

definition count_order :: "order_status \<Rightarrow> order_counts \<Rightarrow> order_counts" where
  "count_order s n = (case s of
     OrderExecuted \<Rightarrow> n\<lparr>oc_executed := oc_executed n + 1\<rparr> | OrderHeld \<Rightarrow> n\<lparr>oc_held := oc_held n + 1\<rparr>
   | OrderFailed \<Rightarrow> n\<lparr>oc_failed := oc_failed n + 1\<rparr> | OrderDead \<Rightarrow> n\<lparr>oc_failed := oc_failed n + 1\<rparr> | _ \<Rightarrow> n)"

definition due_orders :: "time \<Rightarrow> time \<Rightarrow> string \<Rightarrow> uuid \<Rightarrow> 'z wo_store_scheme \<Rightarrow> work_order list" where
  "due_orders started now org c st = take 50 (sort_key wo_position (filter (\<lambda>w. wo_org_id w = org \<and> wo_target_connector w = c \<and>
     order_claimable now w \<and> claim_expired now (wo_next_attempt_at w) \<and> wo_updated_at w \<le> started \<and> \<not> order_blocked w st) (work_orders st)))"

record 's order_turn =
  ot_shedding :: bool
  ot_now :: time
  ot_run :: "uuid \<Rightarrow> 's order_run"

fun execute_all ::
  "(string \<Rightarrow> string) \<Rightarrow> 'z wo_store_scheme handler \<Rightarrow> (uuid \<Rightarrow> (markers \<times> 'z wo_store_scheme) order_run) \<Rightarrow> string \<Rightarrow> uuid list
   \<Rightarrow> order_counts \<times> markers \<times> 'z wo_store_scheme \<Rightarrow> (order_error + order_counts) \<times> markers \<times> 'z wo_store_scheme" where
  "execute_all sha pub run org [] (n, s) = (Inr n, s)"
| "execute_all sha pub run org (i # is) (n, s) =
     (case execute_order sha pub (run i) org i s of
        (Inl e, s1) \<Rightarrow> (Inl e, s1) | (Inr r, s1) \<Rightarrow> execute_all sha pub run org is (count_order r n, s1))"

text \<open>\<open>turns k\<close> is the \<open>k\<close>-th turn of the loop; every turn that goes on tries at least one order.\<close>

function drain_orders ::
  "(string \<Rightarrow> string) \<Rightarrow> 'z wo_store_scheme handler \<Rightarrow> string \<Rightarrow> uuid \<Rightarrow> time \<Rightarrow> (nat \<Rightarrow> (markers \<times> 'z wo_store_scheme) order_turn)
   \<Rightarrow> nat \<Rightarrow> nat \<Rightarrow> order_counts \<times> markers \<times> 'z wo_store_scheme \<Rightarrow> (order_error + order_counts) \<times> markers \<times> 'z wo_store_scheme" where
  "drain_orders sha pub org c started turns k processed (n, s) =
     (if processed \<ge> 500 \<or> ot_shedding (turns k) then (Inr n, s)
      else case due_orders started (ot_now (turns k)) org c (snd s) of
             [] \<Rightarrow> (Inr n, s)
           | w # ws \<Rightarrow>
               (case execute_all sha pub (ot_run (turns k)) org (map wo_id (w # ws)) (n, s) of
                  (Inl e, s1) \<Rightarrow> (Inl e, s1)
                | (Inr n1, s1) \<Rightarrow> drain_orders sha pub org c started turns (Suc k) (processed + length (w # ws)) (n1, s1)))"
  by pat_completeness auto
termination by (relation "measure (\<lambda>(sha, pub, org, c, started, turns, k, processed, s). 500 - processed)") auto

declare drain_orders.simps [simp del]

subsection \<open>Accepting an event\<close>

datatype accept_error =
    AcceptFailed string
  | AcceptOrder order_error

definition text_or :: "jsval \<Rightarrow> string \<Rightarrow> string" where
  "text_or v d = (if js_truthy v then js_text v else d)"

definition source_identity :: "jsval \<Rightarrow> twin \<Rightarrow> jsval" where
  "source_identity p t = (if js_truthy (jprop p ''identity'') then jprop p ''identity'' else identity_value (twin_identity t))"

definition event_state :: "jsval \<Rightarrow> twin \<Rightarrow> string" where
  "event_state p t = text_or (jprop p ''native_status'') (text_or (jprop p ''state'') (tw_native_status t))"

definition event_fields :: "jsval \<Rightarrow> twin \<Rightarrow> jsobj" where
  "event_fields p t = (case jprop p ''fields'' of JObj o' \<Rightarrow> o' | _ \<Rightarrow> tw_payload t)"

definition state_changed :: "jsval \<Rightarrow> bool" where
  "state_changed p \<longleftrightarrow> jprop p ''state_changed'' = JBool True"

definition watched_fields :: "string \<Rightarrow> jsval \<Rightarrow> twin \<Rightarrow> 'z fmap_store_scheme \<Rightarrow> jsobj" where
  "watched_fields org p t st = pick_paths (event_fields p t)
     (written_field_names org \<lparr>ep_system = tw_provider t, ep_entity_type = tw_artifact_type t\<rparr> st)"

definition echo_dto :: "string \<Rightarrow> jsval \<Rightarrow> twin \<Rightarrow> 'z fmap_store_scheme \<Rightarrow> jsval" where
  "echo_dto org p t st = JObj
     [(''identity'', source_identity p t),
      (''actor_id'', JStr (text_or (jprop p ''updated_by'') (tw_provider t @ '':unattributed''))),
      (''payload'', JObj ((if state_changed p \<and> event_state p t \<noteq> [] then [(''state'', JStr (event_state p t))] else []) @
         (if watched_fields org p t st = [] then [] else [(''fields'', JObj (watched_fields org p t st))])))]"

definition set_propagation :: "time \<Rightarrow> uuid \<Rightarrow> string \<Rightarrow> int option \<Rightarrow> 'z wo_store_scheme \<Rightarrow> 'z wo_store_scheme" where
  "set_propagation now e status echoes st = st\<lparr>propagations := update_where (\<lambda>p. pg_event p = e)
     (\<lambda>p. p\<lparr>pg_status := status, pg_echoes := (case echoes of None \<Rightarrow> pg_echoes p | Some n \<Rightarrow> n), pg_updated_at := now\<rparr>) (propagations st)\<rparr>"

definition open_propagation :: "time \<Rightarrow> uuid \<Rightarrow> string \<Rightarrow> uuid \<Rightarrow> 'z wo_store_scheme \<Rightarrow> 'z wo_store_scheme" where
  "open_propagation now e org t st =
     (if \<exists>p \<in> set (propagations st). pg_event p = e then st
      else st\<lparr>propagations := propagations st @
        [\<lparr>pg_event = e, pg_org_id = org, pg_twin = t, pg_status = ''processing'', pg_echoes = 0, pg_updated_at = now\<rparr>]\<rparr>)"

definition settled_propagation :: "uuid \<Rightarrow> string \<Rightarrow> 'z wo_store_scheme \<Rightarrow> bool" where
  "settled_propagation e org st \<longleftrightarrow> (case find (\<lambda>p. pg_event p = e \<and> pg_org_id p = org) (propagations st) of
     None \<Rightarrow> False | Some p \<Rightarrow> pg_status p \<in> {''completed'', ''echo_suppressed''})"

definition counterpart_twins :: "string \<Rightarrow> uuid option \<Rightarrow> 'z wo_store_scheme \<Rightarrow> twin list" where
  "counterpart_twins org node st = (case node of None \<Rightarrow> [] | Some n \<Rightarrow>
     sort_key tw_id (concat (map (\<lambda>l. filter (\<lambda>t. tw_org_id t = org \<and>
         tw_node_id t = Some (if ck_source l = n then ck_target l else ck_source l)) (twins st))
       (filter (\<lambda>l. ck_org_id l = org \<and> ck_relationship l = ''counterpart'' \<and> (ck_source l = n \<or> ck_target l = n)) (corr_links st)))))"

definition propagated_order ::
  "time \<Rightarrow> uuid \<Rightarrow> string \<Rightarrow> uuid \<Rightarrow> jsval \<Rightarrow> twin \<Rightarrow> twin \<Rightarrow> int \<Rightarrow> work_order" where
  "propagated_order now i org e p t target position =
     \<lparr>wo_id = i, wo_org_id = org, wo_transaction = None, wo_origin = StatePropagation, wo_requested_by = None, wo_source_event = Some e,
      wo_source_payload = json_clone (JObj [(''identity'', source_identity p t), (''state'', jopt (or_null (Some (event_state p t)))),
         (''stateChanged'', JBool (state_changed p)), (''fields'', JObj (event_fields p t)),
         (''title'', if js_truthy (jprop p ''title'') then jprop p ''title'' else tw_title t)]),
      wo_source_connector = Some (tw_connector_id t), wo_target_connector = tw_connector_id target, wo_target_twin = tw_id target,
      wo_entity_type = tw_artifact_type target, wo_external_id = tw_external_id target,
      wo_target_state = (if state_changed p then or_null (Some (event_state p t)) else None), wo_fields = [],
      wo_status = OrderPending, wo_attempts = 0, wo_history = [], wo_last_error = None, wo_next_attempt_at = None, wo_claimed_by = None,
      wo_claim_expires_at = None, wo_executed_at = None, wo_position = position, wo_created_at = now, wo_updated_at = now\<rparr>"

text \<open>The default of \<^verbatim>\<open>queue_position\<close> draws from its sequence also when the insert meets a conflict.\<close>

definition insert_order :: "work_order \<Rightarrow> 'z wo_store_scheme \<Rightarrow> accept_error + 'z wo_store_scheme" where
  "insert_order w st =
     (let st1 = st\<lparr>ingest_position := ingest_position st + 1\<rparr>
      in if \<exists>v \<in> set (work_orders st). same_cause v w then Inr st1
         else if \<exists>v \<in> set (work_orders st). wo_id v = wo_id w
           then Inl (AcceptFailed ''duplicate key value violates unique constraint'')
         else Inr (st1\<lparr>work_orders := work_orders st @ [w]\<rparr>))"

fun insert_orders ::
  "(nat \<Rightarrow> uuid) \<Rightarrow> time \<Rightarrow> string \<Rightarrow> uuid \<Rightarrow> jsval \<Rightarrow> twin \<Rightarrow> twin list \<Rightarrow> 'z wo_store_scheme
   \<Rightarrow> (accept_error + unit) \<times> 'z wo_store_scheme" where
  "insert_orders ids now org e p t [] st = (Inr (), st)"
| "insert_orders ids now org e p t (x # xs) st =
     (case insert_order (propagated_order now (ids 0) org e p t x (ingest_position st)) st of
        Inl err \<Rightarrow> (Inl err, st) | Inr st1 \<Rightarrow> insert_orders (\<lambda>n. ids (Suc n)) now org e p t xs st1)"

record 's propagation_run =
  pr_now :: time
  pr_guard_id :: uuid
  pr_ids :: "nat \<Rightarrow> uuid"
  pr_race :: "nat \<Rightarrow> 's \<Rightarrow> 's"
  pr_turns :: "uuid \<Rightarrow> nat \<Rightarrow> 's order_turn"

text \<open>\<open>uuid_pattern\<close>: the connector of a twin is looked up by \<^verbatim>\<open>getConnector\<close>.\<close>

fun drain_targets ::
  "(string \<Rightarrow> string) \<Rightarrow> 'z wo_store_scheme handler \<Rightarrow> (markers \<times> 'z wo_store_scheme) propagation_run \<Rightarrow> string \<Rightarrow> uuid list
   \<Rightarrow> markers \<times> 'z wo_store_scheme \<Rightarrow> (accept_error + unit) \<times> markers \<times> 'z wo_store_scheme" where
  "drain_targets sha pub run org [] s = (Inr (), s)"
| "drain_targets sha pub run org (c # cs) s =
     (if find_connector org c (snd s) = None then (Inl (AcceptFailed (''Connector '' @ c @ '' not found'')), s)
      else case drain_orders sha pub org c (pr_now run) (pr_turns run c) 0 0 (no_orders, s) of
             (Inl e, s1) \<Rightarrow> (Inl (AcceptOrder e), s1) | (Inr _, s1) \<Rightarrow> drain_targets sha pub run org cs s1)"

definition propagate_to ::
  "(string \<Rightarrow> string) \<Rightarrow> 'z wo_store_scheme handler \<Rightarrow> (markers \<times> 'z wo_store_scheme) propagation_run \<Rightarrow> string \<Rightarrow> uuid \<Rightarrow> jsval
   \<Rightarrow> twin \<Rightarrow> markers \<times> 'z wo_store_scheme \<Rightarrow> (accept_error + unit) \<times> markers \<times> 'z wo_store_scheme" where
  "propagate_to sha pub run org e p t s =
     (let targets = counterpart_twins org (tw_node_id t) (snd s)
      in case insert_orders (pr_ids run) (pr_now run) org e p t targets (snd s) of
           (Inl x, st1) \<Rightarrow> (Inl x, fst s, st1)
         | (Inr _, st1) \<Rightarrow>
             (case drain_targets sha pub run org (dedupe_by (\<lambda>c. c) [] (map tw_connector_id targets)) (pr_race run 1 (fst s, st1)) of
                (Inl x, s3) \<Rightarrow> (Inl x, s3)
              | (Inr _, s3) \<Rightarrow> (Inr (), fst s3, set_propagation (pr_now run) e ''completed'' None (snd s3))))"

definition event_payload :: "envelope \<Rightarrow> jsval" where
  "event_payload ev = or_empty_obj (ev_payload ev)"

definition event_org :: "envelope \<Rightarrow> string" where
  "event_org ev = text_or (jprop (event_payload ev) ''org_id'') []"

definition event_twin :: "envelope \<Rightarrow> string" where
  "event_twin ev = text_or (jprop (event_payload ev) ''twin_id'') (ev_work_item_id ev)"

definition irrelevant :: "envelope \<Rightarrow> bool" where
  "irrelevant ev \<longleftrightarrow> event_org ev = [] \<or> event_twin ev = [] \<or>
     jprop (event_payload ev) ''state_changed'' = JBool False \<and> jprop (event_payload ev) ''fields_changed'' = JBool False"

definition source_twin :: "envelope \<Rightarrow> 'z wo_store_scheme \<Rightarrow> twin option" where
  "source_twin ev st = find (\<lambda>t. tw_id t = event_twin ev \<and> tw_org_id t = event_org ev \<and>
     find_connector (event_org ev) (tw_connector_id t) st \<noteq> None) (twins st)"

definition accept_propagation ::
  "(string \<Rightarrow> string) \<Rightarrow> 'z wo_store_scheme handler \<Rightarrow> (markers \<times> 'z wo_store_scheme) propagation_run \<Rightarrow> envelope
   \<Rightarrow> markers \<times> 'z wo_store_scheme \<Rightarrow> (accept_error + unit) \<times> markers \<times> 'z wo_store_scheme" where
  "accept_propagation sha pub run ev s =
     (let p = event_payload ev; org = event_org ev
      in if irrelevant ev then (Inr (), s)
         else if settled_propagation (ev_id ev) org (snd s) then (Inr (), s)
         else case source_twin ev (snd s) of
                None \<Rightarrow> (Inl (AcceptFailed (''Source twin '' @ event_twin ev @ '' no longer exists'')), s)
              | Some t \<Rightarrow>
                  (let s1 = (fst s, open_propagation (pr_now run) (ev_id ev) org (event_twin ev) (snd s))
                   in if ev_type ev = ''ConnectorOperatorStateWritten'' then propagate_to sha pub run org (ev_id ev) p t s1
                      else case evaluate_webhook sha quiet pub (pr_guard_id run) (pr_now run) org (echo_dto org p t (snd s1)) s1 of
                             Inl e \<Rightarrow> (Inl (AcceptFailed (guard_error_text e)), s1)
                           | Inr (d, s2) \<Rightarrow>
                               if gd_suppressed d
                               then (Inr (), fst s2, set_propagation (pr_now run) (ev_id ev) ''echo_suppressed'' (Some 1) (snd s2))
                               else propagate_to sha pub run org (ev_id ev) p t (pr_race run 0 s2)))"

definition event_counts :: "uuid \<Rightarrow> 'z wo_store_scheme \<Rightarrow> int \<times> nat \<times> nat \<times> nat \<times> nat" where
  "event_counts e st =
     (let n = (\<lambda>P. length (filter (\<lambda>w. wo_source_event w = Some e \<and> P (wo_status w)) (work_orders st)))
      in (case find (\<lambda>p. pg_event p = e) (propagations st) of None \<Rightarrow> 0 | Some p \<Rightarrow> pg_echoes p,
          n (\<lambda>s. s \<noteq> OrderHeld), n (\<lambda>s. s = OrderHeld), n (\<lambda>s. s = OrderExecuted), n (\<lambda>s. s \<in> {OrderFailed, OrderDead})))"

subsection \<open>Every operation keeps the queues in order\<close>

definition fair_run :: "(markers \<times> 'z wo_store_scheme) order_run \<Rightarrow> bool" where
  "fair_run run \<longleftrightarrow> (\<forall>n s. fair (snd s) (snd (ow_race run n s)))"

definition fair_turns :: "(nat \<Rightarrow> (markers \<times> 'z wo_store_scheme) order_turn) \<Rightarrow> bool" where
  "fair_turns turns \<longleftrightarrow> (\<forall>k i. fair_run (ot_run (turns k) i))"

definition fair_propagation :: "(markers \<times> 'z wo_store_scheme) propagation_run \<Rightarrow> bool" where
  "fair_propagation run \<longleftrightarrow> (\<forall>n s. fair (snd s) (snd (pr_race run n s))) \<and> (\<forall>c. fair_turns (pr_turns run c))"

lemma fair_position: "fair st (st\<lparr>ingest_position := ingest_position st + 1\<rparr>)"
  unfolding fair_def
proof (intro impI conjI)
  let ?st = "st\<lparr>ingest_position := ingest_position st + 1\<rparr>"
  assume "orders_fifo st"
  moreover have "order_blocked w ?st = order_blocked w st" for w by (rule blocked_same) simp
  ultimately show "orders_fifo ?st" by (force simp: orders_fifo_def)
  show "orders_later st ?st" unfolding orders_later_def by simp (use grown_from_refl in blast)
qed

text \<open>A new order queues behind all others.\<close>

lemma fair_append:
  assumes "wo_position w = ingest_position st" "wo_status w = OrderPending" "wo_claimed_by w = None"
    "\<not> (\<exists>v \<in> set (work_orders st). same_cause v w)" "\<not> (\<exists>v \<in> set (work_orders st). wo_id v = wo_id w)"
  shows "fair st (st\<lparr>ingest_position := ingest_position st + 1, work_orders := work_orders st @ [w]\<rparr>)"
  unfolding fair_def
proof (intro impI conjI)
  let ?st = "st\<lparr>ingest_position := ingest_position st + 1, work_orders := work_orders st @ [w]\<rparr>"
  assume fifo: "orders_fifo st"
  show "orders_later st ?st" unfolding orders_later_def using assms(1) by simp (use grown_from_refl in blast)
  have "order_blocked v ?st = order_blocked v st" if "v \<in> set (work_orders st)" for v
  proof -
    have "\<not> older_order w v" using that fifo assms(1) by (auto simp: orders_fifo_def older_order_def)
    then show ?thesis by (auto simp: order_blocked_def)
  qed
  moreover have "\<not> (\<exists>v \<in> set (work_orders st). same_cause w v)" using assms(4) by (auto simp: same_cause_def)
  ultimately show "orders_fifo ?st" using fifo assms by (fastforce simp: orders_fifo_def order_done_def)
qed

lemma insert_order_fair:
  assumes "insert_order w st = Inr st'" "wo_position w = ingest_position st" "wo_status w = OrderPending" "wo_claimed_by w = None"
  shows "fair st st'"
  using assms fair_position [of st] fair_append [OF assms(2-4)] by (auto simp: insert_order_def Let_def split: if_splits)

lemma propagated_new [simp]:
  "wo_position (propagated_order now i org e p t x n) = n" "wo_status (propagated_order now i org e p t x n) = OrderPending"
  "wo_claimed_by (propagated_order now i org e p t x n) = None" "wo_source_event (propagated_order now i org e p t x n) = Some e"
  "wo_target_twin (propagated_order now i org e p t x n) = tw_id x"
  by (simp_all add: propagated_order_def)

lemma insert_orders_fair: "fair st (snd (insert_orders ids now org e p t xs st))"
proof (induction xs arbitrary: ids st)
  case (Cons x xs)
  show ?case
    by (auto intro!: fair_trans [OF insert_order_fair Cons.IH] split: sum.splits)
qed simp

lemma propagation_fair:
  "fair st (set_propagation now e x n st)" "fair st (open_propagation now e org t st)"
  by (rule fair_same; simp add: set_propagation_def open_propagation_def)+

lemma executed_fair:
  assumes "\<And>ev st. fair st (snd (pub ev st))" "fair_run run"
  shows "fair (snd s) (snd (snd (execute_order sha pub run org i s)))"
proof -
  have "fair_world pub (ow_race run)" using assms by unfold_locales (auto simp: fair_run_def)
  then show ?thesis using fair_world.execute_fair [of pub "ow_race run"] by (metis prod.collapse)
qed

context fair_delivery
begin

lemma all_fair: "(\<And>i. fair_run (run i)) \<Longrightarrow> fair (snd s) (snd (snd (execute_all sha pub run org is (n, s))))"
proof (induction "is" arbitrary: n s)
  case (Cons i js)
  have "fair (snd s) (snd (snd (execute_order sha pub (run i) org i s)))" using executed_fair pub_fair Cons.prems by blast
  then show ?case using Cons by (auto split: prod.splits sum.splits intro: fair_trans)
qed simp

lemma drain_fair:
  assumes "fair_turns turns"
  shows "fair (snd (snd ns)) (snd (snd (drain_orders sha pub org c started turns k processed ns)))"
proof (induction "500 - processed" arbitrary: k processed ns rule: less_induct)
  case less
  obtain n s where ns: "ns = (n, s)" by (rule prod.exhaust)
  show ?case
  proof (cases "processed \<ge> 500 \<or> ot_shedding (turns k) \<or> due_orders started (ot_now (turns k)) org c (snd s) = []")
    case True
    then show ?thesis by (auto simp: ns drain_orders.simps)
  next
    case False
    then obtain w ws where due: "due_orders started (ot_now (turns k)) org c (snd s) = w # ws" by (auto simp: neq_Nil_conv)
    obtain r s1 where run: "execute_all sha pub (ot_run (turns k)) org (map wo_id (w # ws)) (n, s) = (r, s1)" by (rule prod.exhaust)
    have "fair (snd s) (snd s1)" using all_fair [of "ot_run (turns k)" s sha org "map wo_id (w # ws)" n] run assms by (simp add: fair_turns_def)
    moreover have "fair (snd s1) (snd (snd (drain_orders sha pub org c started turns (Suc k) (processed + length (w # ws)) (n1, s1))))" for n1
      using less [of "processed + length (w # ws)" "(n1, s1)"] False by auto
    ultimately show ?thesis using False due run
      by (auto simp: ns drain_orders.simps simp del: execute_all.simps intro: fair_trans split: sum.splits)
  qed
qed

lemma targets_fair: "fair_propagation run \<Longrightarrow> fair (snd s) (snd (snd (drain_targets sha pub run org cs s)))"
proof (induction cs arbitrary: s)
  case (Cons c cs)
  have "fair (snd s) (snd (snd (drain_orders sha pub org c (pr_now run) (pr_turns run c) 0 0 (no_orders, s))))"
    using drain_fair [of "pr_turns run c" "(no_orders, s)"] Cons.prems by (simp add: fair_propagation_def)
  then show ?case using Cons by (auto split: prod.splits sum.splits intro: fair_trans)
qed simp

lemma propagate_fair:
  assumes "fair_propagation run"
  shows "fair (snd s) (snd (snd (propagate_to sha pub run org e p t s)))"
proof -
  obtain r st1 where ins: "insert_orders (pr_ids run) (pr_now run) org e p t (counterpart_twins org (tw_node_id t) (snd s)) (snd s) = (r, st1)"
    by (rule prod.exhaust)
  have st1: "fair (snd s) st1" using insert_orders_fair [of "snd s"] ins by (metis snd_conv)
  let ?cs = "dedupe_by (\<lambda>c. c) [] (map tw_connector_id (counterpart_twins org (tw_node_id t) (snd s)))"
  obtain x s3 where dr: "drain_targets sha pub run org ?cs (pr_race run 1 (fst s, st1)) = (x, s3)" by (rule prod.exhaust)
  have "fair st1 (snd (pr_race run 1 (fst s, st1)))" using assms unfolding fair_propagation_def by (metis snd_conv)
  moreover have "fair (snd (pr_race run 1 (fst s, st1))) (snd s3)" using targets_fair [OF assms] dr by (metis snd_conv)
  ultimately have "fair (snd s) (snd s3)" using st1 fair_trans by blast
  then show ?thesis using st1 ins dr fair_trans [OF _ propagation_fair(1)]
    by (auto simp: propagate_to_def Let_def split: sum.splits)
qed

lemma accept_fair:
  assumes "fair_propagation run"
  shows "fair (snd s) (snd (snd (accept_propagation sha pub run ev s)))"
proof -
  let ?p = "event_payload ev" and ?org = "event_org ev" and ?i = "event_twin ev"
  let ?s1 = "(fst s, open_propagation (pr_now run) (ev_id ev) ?org ?i (snd s))"
  have s1: "fair (snd s) (snd ?s1)" by (simp add: propagation_fair)
  have go: "fair (snd s1) (snd (snd (propagate_to sha pub run ?org (ev_id ev) ?p t s1)))" for t s1 by (rule propagate_fair [OF assms])
  have race: "fair (snd x) (snd (pr_race run 0 x))" for x using assms unfolding fair_propagation_def by blast
  have web: "fair (snd ?s1) (snd s2) \<and> fair (snd ?s1) (set_propagation n e x y (snd s2)) \<and>
      fair (snd ?s1) (snd (snd (propagate_to sha pub run ?org (ev_id ev) ?p t (pr_race run 0 s2))))"
    if "evaluate_webhook sha quiet pub f n' o' dto ?s1 = Inr (d, s2)" for f n' o' dto d s2 n e x y t
    using webhook_fair [OF that] fair_trans [OF webhook_fair [OF that] propagation_fair(1)]
      fair_trans [OF webhook_fair [OF that] fair_trans [OF race go]] by blast
  show ?thesis
    by (auto simp: accept_propagation_def Let_def intro!: fair_trans [OF s1] go propagation_fair
        dest: web [THEN conjunct1] web [THEN conjunct2, THEN conjunct1] web [THEN conjunct2, THEN conjunct2]
        split: option.splits sum.splits)
qed

subsection \<open>One order per counterpart\<close>

lemma insert_orders_present:
  assumes "insert_orders ids now org e p t xs st = (Inr (), st')" "orders_fifo st" "x \<in> set xs"
  shows "\<exists>w \<in> set (work_orders st'). wo_source_event w = Some e \<and> wo_target_twin w = tw_id x"
  using assms
proof (induction xs arbitrary: ids st)
  case (Cons y ys)
  let ?w = "propagated_order now (ids 0) org e p t y (ingest_position st)"
  obtain st1 where st1: "insert_order ?w st = Inr st1" "insert_orders (\<lambda>n. ids (Suc n)) now org e p t ys st1 = (Inr (), st')"
    using Cons.prems(1) by (auto split: sum.splits)
  have "fair st st1" using insert_order_fair [OF st1(1)] by simp
  then have ok: "orders_fifo st1" using Cons.prems(2) by (simp add: fair_def)
  show ?case
  proof (cases "x \<in> set ys")
    case True
    then show ?thesis using Cons.IH [OF st1(2) ok] by blast
  next
    case False
    then have x: "x = y" using Cons.prems(3) by simp
    have "\<exists>w \<in> set (work_orders st1). wo_source_event w = Some e \<and> wo_target_twin w = tw_id x"
      using st1(1) by (auto simp: insert_order_def Let_def x same_cause_def split: if_splits)
    moreover have "orders_later st1 st'" using insert_orders_fair [of st1] st1(2) ok unfolding fair_def by (metis snd_conv)
    ultimately show ?thesis unfolding orders_later_def grown_from_def same_place_def by metis
  qed
qed simp

lemma propagated_once:
  assumes "propagate_to sha pub run org e p t s = (Inr (), s')" "fair_propagation run" "orders_fifo (snd s)"
    and "x \<in> set (counterpart_twins org (tw_node_id t) (snd s))"
  shows "\<exists>!w. w \<in> set (work_orders (snd s')) \<and> wo_source_event w = Some e \<and> wo_target_twin w = tw_id x"
proof -
  let ?xs = "counterpart_twins org (tw_node_id t) (snd s)"
  obtain st1 where ins: "insert_orders (pr_ids run) (pr_now run) org e p t ?xs (snd s) = (Inr (), st1)"
    using assms(1) by (auto simp: propagate_to_def Let_def split: prod.splits sum.splits)
  then obtain s3 where dr: "drain_targets sha pub run org (dedupe_by (\<lambda>c. c) [] (map tw_connector_id ?xs)) (pr_race run 1 (fst s, st1)) = (Inr (), s3)"
    and s': "snd s' = set_propagation (pr_now run) e ''completed'' None (snd s3)"
    using assms(1) by (auto simp: propagate_to_def Let_def split: prod.splits sum.splits)
  have "fair (snd s) st1" using insert_orders_fair [of "snd s"] ins by (metis snd_conv)
  then have ok: "orders_fifo st1" using assms(3) by (simp add: fair_def)
  have "fair st1 (snd (pr_race run 1 (fst s, st1)))" using assms(2) unfolding fair_propagation_def by (metis snd_conv)
  moreover have "fair (snd (pr_race run 1 (fst s, st1))) (snd s3)" using targets_fair [OF assms(2)] dr by (metis snd_conv)
  moreover have "fair (snd s3) (snd s')" unfolding s' by (rule propagation_fair)
  ultimately have "fair st1 (snd s')" using fair_trans by blast
  then have end_state: "orders_later st1 (snd s')" "orders_fifo (snd s')" using ok by (simp_all add: fair_def)
  obtain v where "v \<in> set (work_orders st1)" "wo_source_event v = Some e" "wo_target_twin v = tw_id x"
    using insert_orders_present [OF ins assms(3,4)] by blast
  then obtain w where w: "w \<in> set (work_orders (snd s'))" "wo_source_event w = Some e" "wo_target_twin w = tw_id x"
    using end_state(1) unfolding orders_later_def grown_from_def same_place_def by metis
  moreover have "u = w" if "u \<in> set (work_orders (snd s'))" "wo_source_event u = Some e" "wo_target_twin u = tw_id x" for u
    using end_state(2) that w unfolding orders_fifo_def same_cause_def by (metis option.distinct(1))
  ultimately show ?thesis by blast
qed

end

lemma more_tables:
  assumes "store.more st' = store.more (st :: 'z wo_store_scheme)"
  shows "twins st' = twins st" "corr_links st' = corr_links st" "work_orders st' = work_orders st" "snapshots st' = snapshots st"
    "corr_nodes st' = corr_nodes st" "propagations st' = propagations st" "field_mappings st' = field_mappings st"
    "connectors st' = connectors st" "ingest_position st' = ingest_position st" "ingestion st' = ingestion st"
  using assms by (cases st; cases st'; simp)+

lemma webhook_tables:
  assumes "evaluate_webhook sha quiet (store_pub sha) fresh now org dto (m, st) = Inr (d, m', st')"
  shows "twins st' = twins st" "corr_links st' = corr_links st" "work_orders st' = work_orders (st :: 'z wo_store_scheme)"
proof -
  have enq: "store.more (snd (dispatch_envelope (store_pub sha) now e st2)) = store.more st1"
    if "enqueue sha quiet fresh now ev st1 = Inr (e, st2)" for ev e and st1 st2 :: "'z wo_store_scheme"
    using enqueue_more [OF that] dispatch_more by metis
  have "store.more st' = store.more st \<or> (\<exists>rows. store.more st' = store.more (st\<lparr>snapshots := rows\<rparr>))"
    using assms unfolding evaluate_webhook_def
    by (auto simp: and_then_Inr Let_def case_error_Inr dest!: enq split: if_splits)
  moreover have "st\<lparr>snapshots := snapshots st\<rparr> = st" by simp
  ultimately obtain rows where "store.more st' = store.more (st\<lparr>snapshots := rows\<rparr>)" by metis
  from more_tables [OF this] show "twins st' = twins st" "corr_links st' = corr_links st" "work_orders st' = work_orders st" by simp_all
qed

text \<open>C32. An accepted change is queued once for every counterpart of its twin: when the acceptance of an event that is
  not an echo returns, each counterpart has exactly one order of this event, whatever part of it an earlier, aborted
  delivery has queued and whatever other workers do meanwhile, as long as they keep the queues in order.\<close>

theorem one_order_per_counterpart:
  assumes "accept_propagation sha (store_pub sha) run ev (m, st) = (Inr (), m', st')" "fair_propagation run" "orders_fifo st"
    and "\<forall>s. twins (snd (pr_race run 0 s)) = twins (snd s) \<and> corr_links (snd (pr_race run 0 s)) = corr_links (snd s)"
    and "\<not> irrelevant ev" "\<not> settled_propagation (ev_id ev) (event_org ev) st" "source_twin ev st = Some t"
  shows "orders_fifo st' \<and>
    (let st1 = open_propagation (pr_now run) (ev_id ev) (event_org ev) (event_twin ev) st
     in ev_type ev \<noteq> ''ConnectorOperatorStateWritten'' \<and>
       (\<exists>d s2. guard_webhook sha (pr_guard_id run) (pr_now run) (event_org ev)
         (echo_dto (event_org ev) (event_payload ev) t st1) (m, st1) = Inr (d, s2) \<and> gd_suppressed d) \<and> work_orders st' = work_orders st \<or>
     (\<forall>x \<in> set (counterpart_twins (event_org ev) (tw_node_id t) st).
        \<exists>!w. w \<in> set (work_orders st') \<and> wo_source_event w = Some (ev_id ev) \<and> wo_target_twin w = tw_id x))"
proof -
  let ?st1 = "open_propagation (pr_now run) (ev_id ev) (event_org ev) (event_twin ev) st"
  have same: "counterpart_twins org n s2 = counterpart_twins org n st"
    if "twins s2 = twins st" "corr_links s2 = corr_links st" for org n s2 unfolding counterpart_twins_def that ..
  have st1: "twins ?st1 = twins st" "corr_links ?st1 = corr_links st" "work_orders ?st1 = work_orders st" by (simp_all add: open_propagation_def)
  have "fair st st'" using bus.accept_fair [OF assms(2), where s = "(m, st)"] assms(1) by (metis snd_conv)
  then have ok: "orders_fifo st'" using assms(3) by (simp add: fair_def)
  have fifo1: "orders_fifo ?st1" using propagation_fair(2) assms(3) unfolding fair_def by blast
  have queued: ?thesis
    if go: "propagate_to sha (store_pub sha) run (event_org ev) (ev_id ev) (event_payload ev) t s2 = (Inr (), m', st')"
      and s2: "orders_fifo (snd s2)" "twins (snd s2) = twins st" "corr_links (snd s2) = corr_links st" for s2
    using bus.propagated_once [OF go assms(2) s2(1)] ok same [OF s2(2,3)] unfolding Let_def by simp
  show ?thesis
  proof (cases "ev_type ev = ''ConnectorOperatorStateWritten''")
    case True
    then show ?thesis using assms(1,5-7) st1 fifo1 by (intro queued [of "(m, ?st1)"]) (simp_all add: accept_propagation_def Let_def)
  next
    case False
    let ?dto = "echo_dto (event_org ev) (event_payload ev) t ?st1"
    obtain d m2 st2 where web: "evaluate_webhook sha quiet (store_pub sha) (pr_guard_id run) (pr_now run) (event_org ev) ?dto (m, ?st1) = Inr (d, m2, st2)"
      using assms(1,5-7) False by (auto simp: accept_propagation_def Let_def split: sum.splits)
    note tabs = webhook_tables [OF web]
    show ?thesis
    proof (cases "gd_suppressed d")
      case True
      then have "st' = set_propagation (pr_now run) (ev_id ev) ''echo_suppressed'' (Some 1) st2"
        using assms(1,5-7) False web by (simp add: accept_propagation_def Let_def)
      then have "work_orders st' = work_orders st" using tabs(3) st1(3) by (simp add: set_propagation_def)
      then show ?thesis using ok True web False unfolding Let_def by blast
    next
      case ext: False
      let ?s3 = "pr_race run 0 (m2, st2)"
      have "orders_fifo st2" using bus.webhook_fair [OF web] fifo1 by (simp add: fair_def)
      moreover have "fair st2 (snd ?s3)" using assms(2) unfolding fair_propagation_def by (metis snd_conv)
      ultimately have "orders_fifo (snd ?s3)" by (simp add: fair_def)
      moreover have "twins (snd ?s3) = twins st" "corr_links (snd ?s3) = corr_links st" using assms(4) tabs st1 by simp_all
      ultimately show ?thesis using assms(1,5-7) False ext web by (intro queued [of ?s3]) (simp_all add: accept_propagation_def Let_def)
    qed
  qed
qed

subsection \<open>A written record comes back as an echo\<close>

definition keeps_content :: "(markers \<times> 'z wo_store_scheme \<Rightarrow> markers \<times> 'z wo_store_scheme) \<Rightarrow> bool" where
  "keeps_content race \<longleftrightarrow> (\<forall>s. snapshots (snd (race s)) = snapshots (snd s) \<and> corr_nodes (snd (race s)) = corr_nodes (snd s))"

text \<open>The provider accepted what the order says, and the guard knows it.\<close>

lemma executed_write:
  assumes "write_order sha (store_pub sha) run org c w a (m, st) = (Inr OrderExecuted, m1, st1)"
  obtains msg r m2 st2 s3 where "ow_push run (push_of w a) = Pushed msg"
    "guard_write sha (ow_ids run 3) (ow_done_at run) org (write_dto c w a) (ow_race run 3 (m, st)) = Inr (r, m2, st2)"
    "s3 = ow_race run 4 (m2, st2)" "snapshots st1 = snapshots (snd s3)" "corr_nodes st1 = corr_nodes (snd s3)"
proof -
  obtain msg s2 r where push: "ow_push run (push_of w a) = Pushed msg"
    and rec: "guard_write sha (ow_ids run 3) (ow_done_at run) org (write_dto c w a) (ow_race run 3 (m, st)) = Inr (r, s2)"
    and fin: "finish_order sha (store_pub sha) run org c w a msg (snd (ow_race run 4 s2)) = Inr st1"
    using assms by (auto simp: write_order_def Let_def split: push_outcome.splits sum.splits)
  obtain upd ev e where ev: "with_event sha (store_pub sha) (ow_ids run 4) (ow_done_at run) ev (upd (snd (ow_race run 4 s2))) = Inr (e, st1)"
      and upd: "upd = (\<lambda>st. resume_twin (ow_done_at run) org w (set_orders (holds_claim org (wo_id w) (ow_claim run))
        (executed_order (ow_done_at run) (order_attempt w (ow_claimed_at run) (ow_done_at run) ''executed'' None)) st))"
    using fin by (auto simp: finish_order_def settle_with_def split: sum.splits)
  have "snapshots (upd x) = snapshots x" "corr_nodes (upd x) = corr_nodes x" for x
    by (simp_all add: upd resume_twin_def set_twin_def set_orders_def)
  then have "snapshots st1 = snapshots (snd (ow_race run 4 s2))" "corr_nodes st1 = corr_nodes (snd (ow_race run 4 s2))"
    using more_tables(4,5) [OF with_event_more [OF ev]] by simp_all
  then show ?thesis using that [of msg r "fst s2" "snd s2" "ow_race run 4 s2"] push rec by simp
qed

text \<open>C33. What Cadena wrote does not come back as a change: after an order has been executed, the twin event of the
  written record that carries the written state and, of the fields that mappings write, the written values is
  suppressed as an echo and queues no order, with whatever markers and under whatever actor.\<close>

theorem written_record_queues_nothing:
  assumes "write_order sha (store_pub sha) run org c w a (m, st) = (Inr OrderExecuted, m1, st1)"
    and "keeps_content (ow_race run 3)" "keeps_content (ow_race run 4)" "hashes_match sha st"
    and "snapshots st2 = snapshots st1" "corr_nodes st2 = corr_nodes st1"
    and "accept_propagation sha (store_pub sha) prun ev (m2, st2) = (Inr (), m3, st3)" "ev_type ev \<noteq> ''ConnectorOperatorStateWritten''"
    and "event_org ev = org" "source_twin ev st2 = Some t"
    and "normalize_identity (source_identity (event_payload ev) t) = normalize_identity (jprop (write_dto c w a) ''identity'')"
    and "(if state_changed (event_payload ev) then or_null (Some (event_state (event_payload ev) t)) else None) = or_null (at_state a)"
      "watched_fields org (event_payload ev) t st2 = at_fields a"
  shows "work_orders st3 = work_orders st2"
proof (cases "irrelevant ev \<or> settled_propagation (ev_id ev) org st2")
  case True
  then show ?thesis using assms(7,9) by (auto simp: accept_propagation_def Let_def split: if_splits)
next
  case False
  let ?st4 = "open_propagation (pr_now prun) (ev_id ev) org (event_twin ev) st2"
  let ?dto = "echo_dto org (event_payload ev) t ?st4"
  have st4: "snapshots ?st4 = snapshots st2" "corr_nodes ?st4 = corr_nodes st2" "work_orders ?st4 = work_orders st2" "field_mappings ?st4 = field_mappings st2"
    by (simp_all add: open_propagation_def)
  obtain d m5 st5 where web: "guard_webhook sha (pr_guard_id prun) (pr_now prun) org ?dto (m2, ?st4) = Inr (d, m5, st5)"
    using assms(7-10) False by (auto simp: accept_propagation_def Let_def split: sum.splits)
  obtain r m6 st6 s7 where w: "guard_write sha (ow_ids run 3) (ow_done_at run) org (write_dto c w a) (ow_race run 3 (m, st)) = Inr (r, m6, st6)"
      "s7 = ow_race run 4 (m6, st6)" "snapshots st1 = snapshots (snd s7)" "corr_nodes st1 = corr_nodes (snd s7)"
    by (rule executed_write [OF assms(1)])
  obtain m0 st0 where r3: "ow_race run 3 (m, st) = (m0, st0)" by (rule prod.exhaust)
  have "hashes_match sha st0" using assms(2,4) r3 unfolding keeps_content_def hashes_match_def by (metis snd_conv)
  from guard_refines_step(1) [OF this w(1) [unfolded r3]] have written: "hashes_match sha st6" "content st6 (org, wr_node_id r) = Some (payload_text (write_dto c w a))" by auto
  have kept: "snapshots ?st4 = snapshots st6" "corr_nodes ?st4 = corr_nodes st6"
    using assms(3,5,6) w(2-4) st4 unfolding keeps_content_def by (metis snd_conv)+
  have content: "hashes_match sha ?st4" "content ?st4 (org, wr_node_id r) = Some (payload_text (write_dto c w a))"
    using written kept by (simp_all add: hashes_match_def content_def)
  have ident: "normalize_identity (jprop ?dto ''identity'') = normalize_identity (jprop (write_dto c w a) ''identity'')"
    using assms(11) by (simp add: echo_dto_def jprop_def jget_def)
  have node: "gd_node_id d = wr_node_id r"
    by (rule guard_write_Inr [OF w(1) [unfolded r3]], rule guard_webhook_Inr [OF web])
      (use ident kept(2) in \<open>auto simp: require_node_def\<close>)
  have "watched_fields org (event_payload ev) t ?st4 = at_fields a"
    using assms(13) st4(4) by (simp add: watched_fields_def written_field_names_def)
  then have "payload_text ?dto = payload_text (write_dto c w a)"
    using assms(12) by (auto simp: payload_text_def echo_dto_def write_dto_def jprop_def jget_def or_null_def simp del: json_clone.simps split: if_splits option.splits)
  then have "gd_suppressed d" using webhook_judged(1) [OF content(1) web] content(2) node by simp
  then have "st3 = set_propagation (pr_now prun) (ev_id ev) ''echo_suppressed'' (Some 1) st5"
    using assms(7-10) False web by (auto simp: accept_propagation_def Let_def)
  then show ?thesis using webhook_tables(3) [OF web] st4(3) by (simp add: set_propagation_def)
qed

subsection \<open>Concrete runs\<close>

definition sample_twin :: "string \<Rightarrow> string \<Rightarrow> string \<Rightarrow> string \<Rightarrow> twin" where
  "sample_twin i c system node = \<lparr>tw_id = i, tw_org_id = ''o1'', tw_connector_id = c, tw_provider = system, tw_artifact_type = ''issue'',
     tw_external_id = ''7'', tw_native_key = None, tw_native_url = None, tw_title = JStr ''x'', tw_native_status = ''Open'',
     tw_sync_state = ''synced'', tw_authority = JObj [], tw_payload = [], tw_content_hash = ''h'', tw_source_updated_at = None,
     tw_node_id = Some node, tw_updated_at = 0\<rparr>"

definition sample_target :: "string \<Rightarrow> string \<Rightarrow> connector_row" where
  "sample_target i system = sample_connector\<lparr>cr_id := i, cr_provider := system\<rparr>"

definition sample_orders :: "work_order list \<Rightarrow> wo_store" where
  "sample_orders ws = \<lparr>work_items = [], domain_events = [], audit_events = [], integrity = [], integrity_seq = 1, outbox = [], emitted = [],
     corr_nodes = [sample_node ''a'' ''jira'', sample_node ''b'' ''snow''], corr_links = [sample_link ''1'' ''a'' ''b''], snapshots = [],
     connectors = [sample_target ''c1'' ''jira'', sample_target ''c2'' ''snow''],
     state_mappings = [], sync_transactions = [], field_mappings = [],
     twins = [sample_twin ''t1'' ''c1'' ''jira'' ''a'', sample_twin ''t2'' ''c2'' ''snow'' ''b''], ingestion = [], ingest_position = 1,
     work_orders = ws, propagations = []\<rparr>"

definition sample_push :: "(push_request \<Rightarrow> push_outcome) \<Rightarrow> 's order_run" where
  "sample_push push = \<lparr>ow_loaded_at = 0, ow_claimed_at = 0, ow_done_at = 1, ow_claim = ''k'', ow_ids = (\<lambda>n. replicate (Suc n) CHR ''e''),
     ow_vm = sample_vm, ow_reads = True, ow_push = push, ow_race = (\<lambda>n s. s)\<rparr>"

definition sample_propagation :: "'s propagation_run" where
  "sample_propagation = \<lparr>pr_now = 5, pr_guard_id = ''g1'', pr_ids = (\<lambda>n. replicate (Suc n) CHR ''w''), pr_race = (\<lambda>n s. s),
     pr_turns = (\<lambda>c k. \<lparr>ot_shedding = True, ot_now = 5, ot_run = (\<lambda>i. sample_push (\<lambda>_. Pushed ''ok''))\<rparr>)\<rparr>"

definition sample_change_event :: "string \<Rightarrow> envelope" where
  "sample_change_event ty = \<lparr>ev_id = ''v1'', ev_type = ty, ev_schema_version = 1, ev_timestamp = 0, ev_actor_type = ''integration'',
     ev_actor_id = ''c'', ev_work_item_id = ''t1'',
     ev_payload = JObj [(''org_id'', JStr ''o1''), (''twin_id'', JStr ''t1''), (''state_changed'', JBool True), (''native_status'', JStr ''Done'')]\<rparr>"

lemma sample_run_reads [simp]:
  "pr_now sample_propagation = 5" "pr_race sample_propagation n s = s" "ot_shedding (pr_turns sample_propagation c k)"
  "pr_guard_id sample_propagation = ''g1''"
  by (simp_all add: sample_propagation_def)

lemma sample_event_reads:
  "event_org (sample_change_event ty) = ''o1''" "event_twin (sample_change_event ty) = ''t1''" "\<not> irrelevant (sample_change_event ty)"
  "ev_id (sample_change_event ty) = ''v1''" "ev_type (sample_change_event ty) = ty"
  "state_changed (event_payload (sample_change_event ty))" "event_state (event_payload (sample_change_event ty)) t = ''Done''"
  "source_identity (event_payload (sample_change_event ty)) t = identity_value (twin_identity t)"
  by (simp_all add: event_org_def event_twin_def irrelevant_def sample_change_event_def event_payload_def or_empty_obj_def js_truthy_def
      jprop_def jget_def text_or_def state_changed_def event_state_def source_identity_def)

lemma sample_orders_reads:
  "source_twin (sample_change_event ty) (sample_orders ws) = Some (sample_twin ''t1'' ''c1'' ''jira'' ''a'')"
  "\<not> settled_propagation e org (sample_orders ws)" "orders_fifo (sample_orders [])"
  "counterpart_twins ''o1'' (Some ''a'') (sample_orders ws) = [sample_twin ''t2'' ''c2'' ''snow'' ''b'']"
  "find_connector ''o1'' ''c2'' (sample_orders ws) = Some (sample_target ''c2'' ''snow'')"
  by (simp_all add: source_twin_def sample_event_reads sample_orders_def sample_twin_def find_connector_def sample_target_def
      sample_connector_def settled_propagation_def orders_fifo_def counterpart_twins_def sample_link_def)

lemma sample_fair: "fair_propagation (sample_propagation :: (markers \<times> wo_store) propagation_run)"
  by (simp add: fair_propagation_def fair_turns_def fair_run_def) (simp add: sample_propagation_def sample_push_def)

lemma sample_accept:
  "\<exists>m' st'. accept_propagation sample_sha (store_pub sample_sha) sample_propagation (sample_change_event ''ConnectorOperatorStateWritten'')
       (Map.empty, sample_orders []) = (Inr (), m', st') \<and> (\<exists>w. w \<in> set (work_orders st') \<and> wo_target_twin w = ''t2'')"
proof -
  let ?ev = "sample_change_event ''ConnectorOperatorStateWritten''"
  let ?t = "sample_twin ''t1'' ''c1'' ''jira'' ''a''"
  let ?s1 = "open_propagation 5 ''v1'' ''o1'' ''t1'' (sample_orders [])"
  let ?run = "sample_propagation :: (markers \<times> wo_store) propagation_run"
  have t: "tw_node_id ?t = Some ''a''" "tw_connector_id (sample_twin ''t2'' ''c2'' ''snow'' ''b'') = ''c2''" "tw_id (sample_twin ''t2'' ''c2'' ''snow'' ''b'') = ''t2''"
    by (simp_all add: sample_twin_def)
  have cp: "counterpart_twins ''o1'' (Some ''a'') ?s1 = [sample_twin ''t2'' ''c2'' ''snow'' ''b'']"
    using sample_orders_reads(4) [of "[]"] by (simp add: counterpart_twins_def open_propagation_def)
  have "work_orders ?s1 = []" "connectors ?s1 = connectors (sample_orders [])"
    by (simp_all add: open_propagation_def sample_orders_def)
  then obtain st1 where ins: "insert_orders (pr_ids ?run) 5 ''o1'' ''v1'' (event_payload ?ev) ?t [sample_twin ''t2'' ''c2'' ''snow'' ''b''] ?s1 = (Inr (), st1)"
      "connectors st1 = connectors (sample_orders [])" "\<exists>w. w \<in> set (work_orders st1) \<and> wo_target_twin w = ''t2''"
    using t(3) by (simp add: insert_order_def Let_def)
  have "find_connector ''o1'' ''c2'' st1 = Some (sample_target ''c2'' ''snow'')" using ins(2) sample_orders_reads(5) by (simp add: find_connector_def)
  then have "\<exists>m' st'. propagate_to sample_sha (store_pub sample_sha) sample_propagation ''o1'' ''v1'' (event_payload ?ev) ?t (Map.empty, ?s1) = (Inr (), m', st') \<and>
      work_orders st' = work_orders st1"
    using ins(1) cp t by (simp add: propagate_to_def Let_def drain_orders.simps set_propagation_def del: insert_orders.simps)
  then obtain m' st' where "accept_propagation sample_sha (store_pub sample_sha) sample_propagation ?ev (Map.empty, sample_orders []) = (Inr (), m', st')"
      "work_orders st' = work_orders st1"
    using sample_event_reads sample_orders_reads(1,2) by (auto simp: accept_propagation_def Let_def)
  then show ?thesis using ins(3) by auto
qed

lemma one_order_per_counterpart_witness:
  "\<exists>m' st'. accept_propagation sample_sha (store_pub sample_sha) sample_propagation (sample_change_event ''ConnectorOperatorStateWritten'')
       (Map.empty, sample_orders []) = (Inr (), m', st') \<and> orders_fifo st' \<and>
     (\<exists>!w. w \<in> set (work_orders st') \<and> wo_source_event w = Some ''v1'' \<and> wo_target_twin w = ''t2'')"
proof -
  let ?ev = "sample_change_event ''ConnectorOperatorStateWritten''"
  obtain m' and st' :: wo_store where run: "accept_propagation sample_sha (store_pub sample_sha) sample_propagation ?ev (Map.empty, sample_orders []) = (Inr (), m', st')"
    using sample_accept by blast
  have t: "tw_node_id (sample_twin ''t1'' ''c1'' ''jira'' ''a'') = Some ''a''" "tw_id (sample_twin ''t2'' ''c2'' ''snow'' ''b'') = ''t2''"
    by (simp_all add: sample_twin_def)
  have ev: "ev_type ?ev = ''ConnectorOperatorStateWritten''" by (rule sample_event_reads)
  show ?thesis
    using one_order_per_counterpart [OF run sample_fair sample_orders_reads(3) _ sample_event_reads(3) sample_orders_reads(2) sample_orders_reads(1)] run
      ev t sample_orders_reads(4) sample_event_reads(1,4) by (simp add: Let_def)
qed

text \<open>Writes.\<close>

lemma sample_base [simp]: "chain_state sha (sample_orders ws)" "\<not> used (sample_orders ws) e"
  by (rule chain_state_no_links) (simp_all add: sample_orders_def used_def has_event_def logged_def)

lemma wo_base [simp]:
  "chain_state sha (st\<lparr>work_orders := x\<rparr>) = chain_state sha st" "used (st\<lparr>work_orders := x\<rparr>) = used st"
  "chain_state sha (st\<lparr>propagations := y\<rparr>) = chain_state sha st" "used (st\<lparr>propagations := y\<rparr>) = used st"
  by (rule chain_state_base used_base; simp)+

definition sample_order :: work_order where
  "sample_order = \<lparr>wo_id = ''w1'', wo_org_id = ''o1'', wo_transaction = None, wo_origin = OperatorEdit, wo_requested_by = Some ''u1'',
     wo_source_event = None, wo_source_payload = JObj [], wo_source_connector = None, wo_target_connector = ''c1'', wo_target_twin = ''t1'',
     wo_entity_type = ''issue'', wo_external_id = ''7'', wo_target_state = Some ''Done'', wo_fields = [], wo_status = OrderProcessing,
     wo_attempts = 1, wo_history = [], wo_last_error = None, wo_next_attempt_at = None, wo_claimed_by = Some ''k'',
     wo_claim_expires_at = Some 9, wo_executed_at = None, wo_position = 0, wo_created_at = 0, wo_updated_at = 0\<rparr>"

lemma written_record_queues_nothing_witness:
  "\<exists>m1 st1 (st2 :: wo_store) m3 st3. write_order sample_sha (store_pub sample_sha) (sample_push (\<lambda>_. Pushed ''ok'')) ''o1'' (sample_target ''c1'' ''jira'') sample_order
       (start_attempt sample_order) (Map.empty, sample_orders []) = (Inr OrderExecuted, m1, st1) \<and>
     accept_propagation sample_sha (store_pub sample_sha) sample_propagation (sample_change_event ''CanonicalTwinUpdated'') (m1, st2) =
       (Inr (), m3, st3) \<and> snapshots st2 = snapshots st1 \<and> work_orders st3 = work_orders st2"
proof -
  let ?run = "sample_push (\<lambda>_. Pushed ''ok'') :: (markers \<times> wo_store) order_run" and ?c = "sample_target ''c1'' ''jira''"
  let ?a = "start_attempt sample_order" and ?st = "sample_orders []"
  let ?dto = "write_dto ?c sample_order ?a"
  have run: "ow_race ?run n s = s" "ow_push ?run r = Pushed ''ok''" "ow_ids ?run n = replicate (Suc n) CHR ''e''" "ow_done_at ?run = 1" for n s r
    by (simp_all add: sample_push_def)
  have a: "at_state ?a = Some ''Done''" "at_fields ?a = []" by (simp_all add: start_attempt_def sample_order_def)
  have dto: "jprop ?dto ''identity'' = identity_value jira_issue" "jprop ?dto ''payload'' = JObj [(''state'', JStr ''Done'')]"
      "jprop ?dto ''service_account_id'' = JStr ''connector:c1''"
    using a by (simp_all add: write_dto_def jprop_def jget_def or_null_def sample_target_def sample_connector_def sample_order_def)
  have norm: "normalize_identity (identity_value jira_issue) = Inr jira_issue" by code_simp
  have ok: "normalize_identity (jprop ?dto ''identity'') = Inr jira_issue" "normalize_payload (jprop ?dto ''payload'') = Inr (JObj [(''state'', JStr ''Done'')])"
      "guard_text (jprop ?dto ''service_account_id'') ''service_account_id'' 256 = Inr ''connector:c1''"
    unfolding dto norm by (simp, code_simp, code_simp)
  have nodes: "corr_nodes ?st = corr_nodes guarded" by (simp add: sample_orders_def guarded_def)
  then have node: "require_node ''o1'' jira_issue ?st = Inr (sample_node ''a'' ''jira'')" "cn_id (sample_node ''a'' ''jira'') \<noteq> []"
    using guarded_ready(5) by (simp_all add: require_node_def sample_node_def)
  obtain r m1 st1 where w: "guard_write sample_sha (ow_ids ?run 3) 1 ''o1'' ?dto (Map.empty, ?st) = Inr (r, m1, st1)"
      "chain_state sample_sha st1" "\<forall>e. used st1 e = (e = ow_ids ?run 3 \<or> used ?st e)"
    using guard_totals(1) [OF growing_sample sample_base(1,2) ok(1,2) node ok(3), of "ow_ids ?run 3" 1 Map.empty] by blast
  let ?upd = "\<lambda>st. resume_twin 1 ''o1'' sample_order (set_orders (holds_claim ''o1'' (wo_id sample_order) (ow_claim ?run))
      (executed_order 1 (order_attempt sample_order (ow_claimed_at ?run) 1 ''executed'' None)) st)"
  have base: "chain_state sample_sha (?upd st1)" "used (?upd st1) = used st1"
  proof -
    have more: "domain_events (?upd st1) = domain_events st1" "audit_events (?upd st1) = audit_events st1" "integrity (?upd st1) = integrity st1"
      "integrity_seq (?upd st1) = integrity_seq st1" "outbox (?upd st1) = outbox st1" "work_items (?upd st1) = work_items st1"
      by (simp_all add: resume_twin_def set_twin_def set_orders_def)
    show "chain_state sample_sha (?upd st1)" using chain_state_base [of "?upd st1" st1] more w(2) by simp
    show "used (?upd st1) = used st1" using used_base [of "?upd st1" st1] more by simp
  qed
  have new: "\<not> used (?upd st1) (ow_ids ?run 4)" using w(3) unfolding base(2) by (simp add: run)
  have e: "oi_event_id (executed_event ''o1'' ?c sample_order ?a ''ok'') = None" "oi_work_item_id (executed_event ''o1'' ?c sample_order ?a ''ok'') \<noteq> []"
    by (simp_all add: executed_event_def connector_event_def sample_order_def Let_def)
  obtain ev st5 where fin: "with_event sample_sha (store_pub sample_sha) (ow_ids ?run 4) 1 (executed_event ''o1'' ?c sample_order ?a ''ok'') (?upd st1) = Inr (ev, st5)"
      "chain_state sample_sha st5" "\<And>x. used st5 x = (x = ow_ids ?run 4 \<or> used (?upd st1) x)"
    using with_event_total [OF growing_sample base(1) new e, where now = 1] by blast
  have done_at: "ow_done_at ?run = 1" "ow_race ?run n s = s" for n s by (simp_all add: run)
  have wr: "write_order sample_sha (store_pub sample_sha) ?run ''o1'' ?c sample_order ?a (Map.empty, ?st) = (Inr OrderExecuted, m1, st5)"
    using w(1) fin(1) by (simp add: write_order_def run(2) done_at Let_def finish_order_def settle_with_def)
  have rows: "snapshots st5 = snapshots st1" "corr_nodes st5 = corr_nodes st1" "twins (?upd st1) = twins st5" "connectors st5 = connectors st1"
      "propagations st5 = propagations st1"
    using more_tables [OF with_event_more [OF fin(1)]] by (simp_all add: resume_twin_def set_twin_def set_orders_def)
  let ?ev = "sample_change_event ''CanonicalTwinUpdated''" and ?t = "sample_twin ''t1'' ''c1'' ''jira'' ''a''"
  let ?st2 = "?st\<lparr>snapshots := snapshots st5\<rparr>"
  let ?st6 = "open_propagation 5 ''v1'' ''o1'' ''t1'' ?st2"
  have st1: "corr_nodes st1 = corr_nodes ?st" by (rule guard_write_Inr [OF w(1)]) simp
  have reads: "source_twin ?ev ?st2 = Some ?t" "\<not> settled_propagation ''v1'' ''o1'' ?st2" "corr_nodes ?st2 = corr_nodes st5"
      "watched_fields ''o1'' (event_payload ?ev) ?t ?st6 = []" "watched_fields ''o1'' (event_payload ?ev) ?t ?st2 = []"
    using sample_orders_reads(1,2) rows(2) st1
    by (simp_all add: source_twin_def find_connector_def settled_propagation_def watched_fields_def written_field_names_def
        open_propagation_def sample_orders_def pick_paths_def)
  have ready: "chain_state sample_sha ?st6" "\<not> used ?st6 ''g1''" "require_node ''o1'' jira_issue ?st6 = Inr (sample_node ''a'' ''jira'')"
  proof -
    have more: "domain_events ?st6 = domain_events ?st" "audit_events ?st6 = audit_events ?st" "integrity ?st6 = integrity ?st"
      "integrity_seq ?st6 = integrity_seq ?st" "outbox ?st6 = outbox ?st" "work_items ?st6 = work_items ?st" "corr_nodes ?st6 = corr_nodes ?st"
      by (simp_all add: open_propagation_def)
    show "chain_state sample_sha ?st6" using chain_state_base [of ?st6 ?st] more by simp
    show "\<not> used ?st6 ''g1''" using used_base [of ?st6 ?st] more by simp
    show "require_node ''o1'' jira_issue ?st6 = Inr (sample_node ''a'' ''jira'')" using node(1) more(7) by (simp add: require_node_def)
  qed
  let ?echo = "echo_dto ''o1'' (event_payload ?ev) ?t ?st6"
  have echo: "jprop ?echo ''identity'' = identity_value jira_issue" "jprop ?echo ''payload'' = JObj [(''state'', JStr ''Done'')]"
      "jprop ?echo ''actor_id'' = JStr ''jira:unattributed''"
    using reads(4) sample_event_reads(6-8)
    by (simp_all add: echo_dto_def jprop_def jget_def twin_identity_def sample_twin_def text_or_def js_truthy_def
        sample_change_event_def event_payload_def or_empty_obj_def)
  have okE: "normalize_identity (jprop ?echo ''identity'') = Inr jira_issue" "normalize_payload (jprop ?echo ''payload'') = Inr (JObj [(''state'', JStr ''Done'')])"
      "guard_text (jprop ?echo ''actor_id'') ''actor_id'' 256 = Inr ''jira:unattributed''"
    unfolding echo norm by (simp, code_simp, code_simp)
  obtain d m6 st7 where web: "guard_webhook sample_sha ''g1'' 5 ''o1'' ?echo (m1, ?st6) = Inr (d, m6, st7)"
    using guard_totals(2) [OF growing_sample ready(1,2) okE(1,2) ready(3) node(2) okE(3)] by blast
  have ty: "ev_type ?ev \<noteq> ''ConnectorOperatorStateWritten''" by (simp add: sample_event_reads)
  have h: "hashes_match sample_sha ?st" by (simp add: hashes_match_def sample_orders_def)
  have written: "hashes_match sample_sha st1" "content st1 (''o1'', wr_node_id r) = Some (payload_text ?dto)"
    using guard_refines_step(1) [OF h w(1)] by auto
  have "snapshots ?st6 = snapshots st1" using rows(1) by (simp add: open_propagation_def)
  then have content: "hashes_match sample_sha ?st6" "content ?st6 (''o1'', wr_node_id r) = Some (payload_text ?dto)"
    using written by (simp_all add: hashes_match_def content_def)
  have "gd_node_id d = wr_node_id r"
    by (rule guard_write_Inr [OF w(1)], rule guard_webhook_Inr [OF web]) (use ok(1) okE(1) node(1) ready(3) in auto)
  then have "gd_suppressed d"
    using webhook_judged(1) [OF content(1) web] content(2) by (simp add: payload_text_def dto(2) echo(2))
  then obtain m3 st3 where acc: "accept_propagation sample_sha (store_pub sample_sha) sample_propagation ?ev (m1, ?st2) = (Inr (), m3, st3)"
    using web reads(1,2) sample_event_reads(1-5) by (simp add: accept_propagation_def Let_def)
  have race: "keeps_content (ow_race ?run n)" for n by (simp add: keeps_content_def run(1))
  have ident: "normalize_identity (source_identity (event_payload ?ev) ?t) = normalize_identity (jprop ?dto ''identity'')"
    using dto(1) sample_event_reads(8) by (simp add: twin_identity_def sample_twin_def)
  have "snapshots ?st2 = snapshots st5" by simp
  then have "work_orders st3 = work_orders ?st2"
    using written_record_queues_nothing [OF wr race race h _ reads(3) acc ty sample_event_reads(1) reads(1) ident]
      a reads(5) sample_event_reads(6,7) by (simp add: or_null_def)
  with wr acc \<open>snapshots ?st2 = snapshots st5\<close> show ?thesis by blast
qed

end
