(* ===== verification/TwinDeadLetters.thy ===== *)
theory TwinDeadLetters
  imports Propagation
begin

text \<open>
  The dead-letter operations on the two queues of a twin, \<^verbatim>\<open>listTwinDeadLetters\<close>, \<^verbatim>\<open>getTwinDeadLetter\<close> and
  \<^verbatim>\<open>reinjectTwinDeadLetter\<close> of \<^verbatim>\<open>src/modules/connectors/connector.service.ts\<close>.
\<close>

datatype entry_kind = IngestionEntry | WriteEntry | TranslationEntry

record queue_entry =
  qe_id :: uuid
  qe_twin :: "uuid option"
  qe_partition :: string
  qe_kind :: entry_kind
  qe_held :: bool
  qe_payload :: jsval
  qe_attempts :: int
  qe_history :: "jsval list"
  qe_last_error :: string
  qe_position :: int

fun kind_text :: "entry_kind \<Rightarrow> string" where
  "kind_text IngestionEntry = ''ingestion''"
| "kind_text WriteEntry = ''state_write''"
| "kind_text TranslationEntry = ''state_translation''"

definition ingestion_entry :: "ingest_row \<Rightarrow> queue_entry" where
  "ingestion_entry q = \<lparr>qe_id = iq_id q, qe_twin = or_null (iq_twin_id q), qe_partition = iq_partition_key q, qe_kind = IngestionEntry,
     qe_held = False, qe_payload = iq_payload q, qe_attempts = iq_attempts q, qe_history = iq_history q,
     qe_last_error = (case or_null (iq_last_error q) of Some m \<Rightarrow> m | None \<Rightarrow> ''Ingestion failed''), qe_position = iq_position q\<rparr>"

definition order_entry :: "work_order \<Rightarrow> twin \<Rightarrow> queue_entry" where
  "order_entry w t =
     (let translation = (wo_origin w = StatePropagation);
          rest = [(''targetState'', jopt (wo_target_state w)), (''fields'', JObj (wo_fields w))]
      in \<lparr>qe_id = wo_id w, qe_twin = Some (wo_target_twin w),
          qe_partition = twin_partition_key (tw_provider t) (tw_artifact_type t) (wo_external_id w),
          qe_kind = (if translation then TranslationEntry else WriteEntry), qe_held = (wo_status w = OrderHeld),
          qe_payload = JObj (if translation then (''sourcePayload'', wo_source_payload w) # rest else rest),
          qe_attempts = wo_attempts w, qe_history = wo_history w,
          qe_last_error = (case or_null (wo_last_error w) of Some m \<Rightarrow> m | None \<Rightarrow> ''Queue entry requires operator review''),
          qe_position = wo_position w\<rparr>)"

datatype reinject_error =
    EntryMissing string
  | BadReinjection string
  | ReinjectDb db_error

definition connector_or_missing :: "string \<Rightarrow> uuid \<Rightarrow> 'z conn_store_scheme \<Rightarrow> reinject_error + connector_row" where
  "connector_or_missing org c st =
     (if \<not> uuid_pattern c then Inl (EntryMissing (''Connector '' @ c @ '' not found''))
      else case find_connector org c st of None \<Rightarrow> Inl (EntryMissing (''Connector '' @ c @ '' not found'')) | Some x \<Rightarrow> Inr x)"

definition list_twin_dead_letters :: "string \<Rightarrow> uuid \<Rightarrow> 'z wo_store_scheme \<Rightarrow> reinject_error + queue_entry list" where
  "list_twin_dead_letters org c st =
     and_then (connector_or_missing org c st) (\<lambda>_.
       Inr (sort_key qe_position
         (map ingestion_entry (sort_key iq_position (filter (\<lambda>q. iq_org_id q = org \<and> iq_connector_id q = c \<and> iq_status q = ''dead'') (ingestion st))) @
          List.map_filter (\<lambda>w. map_option (order_entry w) (find (\<lambda>t. tw_id t = wo_target_twin w \<and> tw_org_id t = wo_org_id w) (twins st)))
            (sort_key wo_position (filter (\<lambda>w. wo_org_id w = org \<and> wo_target_connector w = c \<and> wo_status w \<in> {OrderDead, OrderHeld}) (work_orders st))))))"

definition get_twin_dead_letter :: "string \<Rightarrow> uuid \<Rightarrow> uuid \<Rightarrow> 'z wo_store_scheme \<Rightarrow> reinject_error + queue_entry" where
  "get_twin_dead_letter org c i st =
     (if \<not> uuid_pattern i then Inl (EntryMissing (''Twin queue entry '' @ i @ '' not found''))
      else and_then (list_twin_dead_letters org c st) (\<lambda>es.
        case find (\<lambda>e. qe_id e = i) es of
          None \<Rightarrow> Inl (EntryMissing (''Twin queue entry '' @ i @ '' not found'')) | Some e \<Rightarrow> Inr e))"

subsection \<open>Re-injection\<close>

definition trimmed_text :: "jsval \<Rightarrow> string" where
  "trimmed_text v = (case v of JStr s \<Rightarrow> trim s | _ \<Rightarrow> [])"

definition requeued_history :: "time \<Rightarrow> queue_entry \<Rightarrow> jsval list" where
  "requeued_history now e = qe_history e @ [attempt_entry (qe_attempts e) now now ''requeued'' []]"

definition requeued_row :: "connector_row \<Rightarrow> time \<Rightarrow> queue_entry \<Rightarrow> jsval \<Rightarrow> ingest_row \<Rightarrow> ingest_row" where
  "requeued_row c now e p q =
     (let ext = trimmed_text (jprop p ''externalId''); ty = trimmed_text (jprop p ''artifactType'')
      in q\<lparr>iq_payload := json_clone p, iq_external_id := ext, iq_entity_type := ty, iq_partition_key := twin_partition_key (cr_provider c) ty ext,
           iq_status := ''pending'', iq_attempts := 0, iq_history := requeued_history now e, iq_last_error := None,
           iq_next_attempt_at := None, iq_completed_at := None\<rparr>)"

definition reinject_ingestion ::
  "time \<Rightarrow> string \<Rightarrow> connector_row \<Rightarrow> queue_entry \<Rightarrow> jsval \<Rightarrow> 'z wo_store_scheme \<Rightarrow> reinject_error + 'z wo_store_scheme" where
  "reinject_ingestion now org c e corrected st =
     (let p = (if corrected = JUndef then qe_payload e else corrected);
          ext = trimmed_text (jprop p ''externalId''); ty = trimmed_text (jprop p ''artifactType'');
          old = qe_payload e
      in if ext = [] \<or> ty = [] then Inl (BadReinjection ''ingestion payload requires externalId and artifactType'')
         else if js_truthy (jprop old ''externalId'') \<and> jprop old ''externalId'' \<noteq> JStr ext
           then Inl (BadReinjection ''a corrected payload cannot change an existing immutable externalId'')
         else if js_truthy (jprop old ''artifactType'') \<and> jprop old ''artifactType'' \<noteq> JStr ty
           then Inl (BadReinjection ''a corrected payload cannot change artifactType'')
         else Inr (st\<lparr>ingestion := update_where (\<lambda>q. iq_id q = qe_id e \<and> iq_org_id q = org \<and> iq_connector_id q = cr_id c \<and> iq_status q = ''dead'')
           (requeued_row c now e p) (ingestion st)\<rparr>))"

definition given_state :: "queue_entry \<Rightarrow> jsval \<Rightarrow> string" where
  "given_state e corrected = (let v = jprop corrected ''targetState''
     in if v = JUndef then text_or (jprop (qe_payload e) ''targetState'') [] else trim (js_text v))"

definition given_fields :: "queue_entry \<Rightarrow> jsval \<Rightarrow> jsval" where
  "given_fields e corrected = (let v = jprop corrected ''fields'' in if v = JUndef then or_empty_obj (jprop (qe_payload e) ''fields'') else v)"

definition given_source :: "queue_entry \<Rightarrow> jsval \<Rightarrow> jsval" where
  "given_source e corrected =
     (if qe_kind e = TranslationEntry
      then (let v = jprop corrected ''sourcePayload'' in if v = JUndef then jprop (qe_payload e) ''sourcePayload'' else v)
      else JObj [])"

definition requeued_order :: "time \<Rightarrow> queue_entry \<Rightarrow> jsval \<Rightarrow> string \<Rightarrow> jsobj \<Rightarrow> work_order \<Rightarrow> work_order" where
  "requeued_order now e src state fs w = (release now w)\<lparr>wo_source_payload := json_clone src, wo_target_state := Some state, wo_fields := fs,
     wo_transaction := (if wo_origin w = StatePropagation then None else wo_transaction w), wo_status := OrderPending, wo_attempts := 0,
     wo_history := requeued_history now e, wo_last_error := None, wo_next_attempt_at := None, wo_executed_at := None\<rparr>"

definition plain_object :: "jsval \<Rightarrow> bool" where
  "plain_object v \<longleftrightarrow> (case v of JObj _ \<Rightarrow> True | _ \<Rightarrow> False)"

definition reinject_order ::
  "time \<Rightarrow> string \<Rightarrow> connector_row \<Rightarrow> queue_entry \<Rightarrow> jsval \<Rightarrow> 'z wo_store_scheme \<Rightarrow> reinject_error + 'z wo_store_scheme" where
  "reinject_order now org c e corrected st =
     (let state = given_state e corrected; src = given_source e corrected; before = jprop (jprop (qe_payload e) ''sourcePayload'') ''identity''
      in if state = [] then Inl (BadReinjection ''payload.targetState must be a non-empty string'')
         else case given_fields e corrected of
           JObj fs \<Rightarrow>
             if qe_kind e = TranslationEntry \<and> \<not> plain_object src then Inl (BadReinjection ''payload.sourcePayload must be a JSON object'')
             else if qe_kind e = TranslationEntry \<and> js_truthy before \<and> stable_stringify before \<noteq> stable_stringify (jprop src ''identity'')
               then Inl (BadReinjection ''a corrected payload cannot change its immutable source identity'')
             else Inr (set_orders (\<lambda>w. wo_id w = qe_id e \<and> wo_org_id w = org \<and> wo_target_connector w = cr_id c \<and>
               wo_status w \<in> {OrderDead, OrderHeld}) (requeued_order now e src state fs) st)
         | _ \<Rightarrow> Inl (BadReinjection ''payload.fields must be a JSON object''))"

definition reinjected_event :: "string \<Rightarrow> string \<Rightarrow> connector_row \<Rightarrow> queue_entry \<Rightarrow> bool \<Rightarrow> outbox_input" where
  "reinjected_event org actor c e corrected =
     connector_event org (qe_id e) actor ''TwinQueueEntryReinjected''
       [(''queue_entry_id'', JStr (qe_id e)), (''connector_id'', JStr (cr_id c)), (''twin_id'', jopt (qe_twin e)),
        (''partition_key'', JStr (qe_partition e)), (''kind'', JStr (kind_text (qe_kind e))), (''corrected'', JBool corrected)]"

definition reinject_twin_dead_letter ::
  "(string \<Rightarrow> string) \<Rightarrow> 'z wo_store_scheme handler \<Rightarrow> uuid \<Rightarrow> time \<Rightarrow> string \<Rightarrow> uuid \<Rightarrow> uuid \<Rightarrow> jsval \<Rightarrow> string
   \<Rightarrow> 'z wo_store_scheme \<Rightarrow> reinject_error + queue_entry \<times> 'z wo_store_scheme" where
  "reinject_twin_dead_letter sha pub fresh now org ci i corrected actor st =
     and_then (get_twin_dead_letter org ci i st) (\<lambda>e.
     and_then (connector_or_missing org ci st) (\<lambda>c.
       if corrected \<noteq> JUndef \<and> \<not> plain_object corrected then Inl (BadReinjection ''payload must be a JSON object when supplied'')
       else and_then (if qe_kind e = IngestionEntry then reinject_ingestion now org c e corrected st else reinject_order now org c e corrected st) (\<lambda>st1.
         let st2 = (case qe_twin e of None \<Rightarrow> st1 | Some t \<Rightarrow> set_twin now org t ''synced'' st1)
         in case with_event sha pub fresh now (reinjected_event org actor c e (corrected \<noteq> JUndef)) st2 of
              Inl x \<Rightarrow> Inl (ReinjectDb x) | Inr (_, st3) \<Rightarrow> Inr (e, st3))))"

lemma reinject_order_fair: "reinject_order now org c e corrected st = Inr st' \<Longrightarrow> fair st st'"
  by (auto simp: reinject_order_def Let_def grown_from_def same_place_def order_done_def requeued_order_def release_def
      intro!: fair_set_orders split: jsval.splits if_splits)

lemma reinject_ingestion_fair: "reinject_ingestion now org c e corrected st = Inr st' \<Longrightarrow> fair st st'"
  by (auto simp: reinject_ingestion_def Let_def intro!: fair_same split: if_splits)

lemma case_event_Inr:
  "(case x of Inl a \<Rightarrow> Inl (f a) | Inr (u, v) \<Rightarrow> Inr (e, v)) = Inr (e', v') \<longleftrightarrow> (\<exists>u. x = Inr (u, v')) \<and> e' = e"
  by (auto split: sum.splits)

lemma reinject_Inr:
  assumes "reinject_twin_dead_letter sha pub fresh now org ci i corrected actor st = Inr (e, st')"
  obtains c st1 x where "get_twin_dead_letter org ci i st = Inr e" "connector_or_missing org ci st = Inr c"
    "(if qe_kind e = IngestionEntry then reinject_ingestion now org c e corrected st else reinject_order now org c e corrected st) = Inr st1"
    "with_event sha pub fresh now (reinjected_event org actor c e (corrected \<noteq> JUndef))
      (case qe_twin e of None \<Rightarrow> st1 | Some t \<Rightarrow> set_twin now org t ''synced'' st1) = Inr (x, st')"
  using assms unfolding reinject_twin_dead_letter_def and_then_Inr Let_def
  by (auto simp: and_then_Inr case_event_Inr split: if_splits)

context fair_delivery
begin

lemma reinject_fair:
  assumes "reinject_twin_dead_letter sha pub fresh now org ci i corrected actor st = Inr (e, st')"
  shows "fair st st'"
  using assms
proof (rule reinject_Inr)
  fix c st1 x
  assume st1: "(if qe_kind e = IngestionEntry then reinject_ingestion now org c e corrected st else reinject_order now org c e corrected st) = Inr st1"
    and ev: "with_event sha pub fresh now (reinjected_event org actor c e (corrected \<noteq> JUndef))
      (case qe_twin e of None \<Rightarrow> st1 | Some t \<Rightarrow> set_twin now org t ''synced'' st1) = Inr (x, st')"
  have "fair st st1" using st1 reinject_order_fair reinject_ingestion_fair by (auto split: if_splits)
  moreover have "fair st1 (case qe_twin e of None \<Rightarrow> st1 | Some t \<Rightarrow> set_twin now org t ''synced'' st1)"
    using fair_twin by (auto split: option.splits)
  ultimately show ?thesis using event_fair [OF ev] fair_trans by blast
qed

end

subsection \<open>A change of fields that is stuck\<close>

lemma dead_letter_order:
  assumes "get_twin_dead_letter org ci i st = Inr e" "qe_kind e \<noteq> IngestionEntry"
  obtains c w t where "connector_or_missing org ci st = Inr c" "w \<in> set (work_orders st)" "is_order org i w" "wo_target_connector w = cr_id c"
    "wo_status w \<in> {OrderDead, OrderHeld}" "e = order_entry w t"
proof -
  obtain c es where c: "connector_or_missing org ci st = Inr c" and es: "list_twin_dead_letters org ci st = Inr es" and e: "find (\<lambda>e. qe_id e = i) es = Some e"
    using assms(1) by (auto simp: get_twin_dead_letter_def list_twin_dead_letters_def and_then_Inr split: if_splits option.splits)
  have "cr_id c = ci" using c by (auto simp: connector_or_missing_def find_connector_def dest: find_SomeD split: if_splits option.splits)
  moreover have "e \<in> set es" "qe_id e = i" using find_SomeD [OF e] by auto
  moreover have "e \<notin> ingestion_entry ` X" for X using assms(2) by (auto simp: ingestion_entry_def)
  ultimately obtain w t where "w \<in> set (work_orders st)" "wo_org_id w = org" "wo_target_connector w = ci" "wo_status w \<in> {OrderDead, OrderHeld}" "e = order_entry w t"
    using es by (auto simp: list_twin_dead_letters_def and_then_Inr List.map_filter_def)
  moreover from this(5) \<open>qe_id e = i\<close> have "wo_id w = i" by (simp add: order_entry_def Let_def)
  ultimately show ?thesis using that c \<open>cr_id c = ci\<close> by (auto simp: is_order_def)
qed

lemma state_untranslated:
  assumes "translate_order sha pub run org w c st = Inr ((p, a), st')" "\<not> js_truthy (jprop (wo_source_payload w) ''stateChanged'')"
  shows "at_state a = wo_target_state w"
proof -
  have "at_state a2 = at_state a1" if "with_fields ft a1 = (h, a2)" for ft a1 h a2
    using that by (auto simp: with_fields_def split: option.splits prod.splits if_splits)
  then show ?thesis using assms
    by (fastforce simp: translate_order_def state_translation_def and_then_Inr Let_def start_attempt_def
        split: option.splits if_splits prod.splits)
qed

text \<open>C35. A work order that only carries fields cannot be put back as it is: it has no target state, so its re-injection
  is refused unless the operator supplies one, also when the payload corrects only its fields or its source, and
  the state that is then supplied goes to the provider as it is, without the state mapping between the two records.\<close>

theorem fields_only_entry_needs_a_state:
  assumes "get_twin_dead_letter org ci i st = Inr e" "qe_kind e = TranslationEntry" "jprop (qe_payload e) ''targetState'' = JNull" "orders_fifo st"
  shows "(corrected = JUndef \<or> plain_object corrected \<and> jprop corrected ''targetState'' = JUndef \<longrightarrow>
      reinject_twin_dead_letter sha (store_pub sha) fresh now org ci i corrected actor st =
        Inl (BadReinjection ''payload.targetState must be a non-empty string'')) \<and>
    (reinject_twin_dead_letter sha (store_pub sha) fresh now org ci i corrected actor st = Inr (e', st') \<longrightarrow>
      (\<exists>s w. s \<noteq> [] \<and> s = trim (js_text (jprop corrected ''targetState'')) \<and> w \<in> set (work_orders st') \<and> is_order org i w \<and> wo_status w = OrderPending \<and>
        (\<not> js_truthy (jprop (wo_source_payload w) ''stateChanged'') \<longrightarrow>
          (\<forall>pub run c a (st2 :: 'y wo_store_scheme) st3. translate_order sha pub run org w c st2 = Inr ((WriteOrder, a), st3) \<longrightarrow> pu_state (push_of w a) = Some s))))"
proof (intro conjI impI)
  obtain c w t where c: "connector_or_missing org ci st = Inr c" and w: "w \<in> set (work_orders st)" "is_order org i w" "wo_target_connector w = cr_id c"
      "wo_status w \<in> {OrderDead, OrderHeld}" and e: "e = order_entry w t"
    by (rule dead_letter_order [OF assms(1)]) (use assms(2) in simp)
  have none: "text_or (jprop (qe_payload e) ''targetState'') [] = []" using assms(3) by (simp add: text_or_def js_truthy_def)
  show "reinject_twin_dead_letter sha (store_pub sha) fresh now org ci i corrected actor st =
        Inl (BadReinjection ''payload.targetState must be a non-empty string'')"
    if "corrected = JUndef \<or> plain_object corrected \<and> jprop corrected ''targetState'' = JUndef"
  proof -
    have "jprop corrected ''targetState'' = JUndef" using that by (auto simp: jprop_def)
    then have "reinject_order now org c e corrected st = Inl (BadReinjection ''payload.targetState must be a non-empty string'')"
      using none by (simp add: reinject_order_def given_state_def)
    then show ?thesis using assms(1,2) c that by (auto simp: reinject_twin_dead_letter_def)
  qed
  show "\<exists>s w. s \<noteq> [] \<and> s = trim (js_text (jprop corrected ''targetState'')) \<and> w \<in> set (work_orders st') \<and> is_order org i w \<and> wo_status w = OrderPending \<and>
        (\<not> js_truthy (jprop (wo_source_payload w) ''stateChanged'') \<longrightarrow>
          (\<forall>pub run c a (st2 :: 'y wo_store_scheme) st3. translate_order sha pub run org w c st2 = Inr ((WriteOrder, a), st3) \<longrightarrow> pu_state (push_of w a) = Some s))"
    if run: "reinject_twin_dead_letter sha (store_pub sha) fresh now org ci i corrected actor st = Inr (e', st')"
    using run
  proof (rule reinject_Inr)
    fix c' st1 x
    assume "get_twin_dead_letter org ci i st = Inr e'" "connector_or_missing org ci st = Inr c'"
      and st1: "(if qe_kind e' = IngestionEntry then reinject_ingestion now org c' e' corrected st else reinject_order now org c' e' corrected st) = Inr st1"
      and ev: "with_event sha (store_pub sha) fresh now (reinjected_event org actor c' e' (corrected \<noteq> JUndef))
        (case qe_twin e' of None \<Rightarrow> st1 | Some t \<Rightarrow> set_twin now org t ''synced'' st1) = Inr (x, st')"
    then have same: "e' = e" "c' = c" using assms(1) c by simp_all
    let ?s = "given_state e corrected"
    have ne: "?s \<noteq> []" and rows: "\<exists>src fs. st1 = set_orders (\<lambda>w. wo_id w = qe_id e \<and> wo_org_id w = org \<and> wo_target_connector w = cr_id c \<and>
               wo_status w \<in> {OrderDead, OrderHeld}) (requeued_order now e src ?s fs) st"
      using st1 same assms(2) by (auto simp: reinject_order_def Let_def split: if_splits jsval.splits)
    have s: "?s = trim (js_text (jprop corrected ''targetState''))" using ne none by (auto simp: given_state_def Let_def split: if_splits)
    obtain src fs where st1': "st1 = set_orders (\<lambda>w. wo_id w = qe_id e \<and> wo_org_id w = org \<and> wo_target_connector w = cr_id c \<and>
               wo_status w \<in> {OrderDead, OrderHeld}) (requeued_order now e src ?s fs) st" using rows by blast
    let ?w = "requeued_order now e src ?s fs w"
    have "qe_id e = i" using e w(2) by (simp add: order_entry_def Let_def is_order_def)
    then have "?w \<in> set (work_orders st1)" using w unfolding st1' position_of set_update_where by (auto simp: is_order_def)
    moreover have "work_orders st' = work_orders st1"
      using more_tables(3) [OF with_event_more [OF ev]] by (simp split: option.splits)
    moreover have "is_order org i ?w" "wo_status ?w = OrderPending" "wo_target_state ?w = Some ?s"
      using w(2) by (simp_all add: requeued_order_def release_def is_order_def)
    moreover have "pu_state (push_of ?w a) = Some ?s"
      if "\<not> js_truthy (jprop (wo_source_payload ?w) ''stateChanged'')" "translate_order sha pub run org ?w c st2 = Inr ((WriteOrder, a), st3)"
      for pub run c a and st2 st3 :: "'y wo_store_scheme"
      using state_untranslated [OF that(2,1)] calculation(5) by (simp add: push_of_def)
    ultimately show ?thesis using ne s by (intro exI [of _ ?s] exI [of _ ?w] conjI impI allI) simp_all
  qed
qed

subsection \<open>A claim that nobody gives back\<close>

definition heartbeat_ms :: int where
  "heartbeat_ms = work_order_claim_ms div 3"

text \<open>The interval that \<^verbatim>\<open>executeWorkOrder\<close> starts before it reads the connector, and that only its \<^verbatim>\<open>finally\<close> clears.\<close>

fun beats :: "time \<Rightarrow> uuid \<Rightarrow> string \<Rightarrow> nat \<Rightarrow> 'z wo_store_scheme \<Rightarrow> 'z wo_store_scheme" where
  "beats t0 i claim 0 st = st"
| "beats t0 i claim (Suc n) st = renew_order_claim (t0 + int (Suc n) * heartbeat_ms) i claim (beats t0 i claim n st)"

lemma beats_ids: "map wo_id (work_orders (beats t0 i claim n st)) = map wo_id (work_orders st)"
  by (induction n) (simp_all add: renew_order_claim_def map_update_where)

lemma beats_claim:
  assumes "w \<in> set (work_orders st)" "wo_id w = i" "wo_claimed_by w = Some claim" "wo_status w = OrderProcessing"
    "wo_claim_expires_at w = Some (t0 + work_order_claim_ms)"
  shows "\<exists>w' \<in> set (work_orders (beats t0 i claim n st)). same_place w w' \<and> wo_claimed_by w' = Some claim \<and> wo_status w' = OrderProcessing \<and>
    wo_claim_expires_at w' = Some (t0 + int n * heartbeat_ms + work_order_claim_ms)"
proof (induction n)
  case 0
  then show ?case using assms same_place_refl by force
next
  case (Suc n)
  then obtain w' where w': "w' \<in> set (work_orders (beats t0 i claim n st))" "same_place w w'" "wo_claimed_by w' = Some claim" "wo_status w' = OrderProcessing"
    by blast
  let ?v = "w'\<lparr>wo_claim_expires_at := Some (t0 + int (Suc n) * heartbeat_ms + work_order_claim_ms)\<rparr>"
  have "?v \<in> set (work_orders (beats t0 i claim (Suc n) st))"
    using w' assms(2) by (auto simp: renew_order_claim_def set_update_where same_place_def)
  moreover have "same_place w ?v" using w'(2) by (simp add: same_place_def)
  ultimately show ?case using w'(3,4) by (intro bexI [of _ ?v]) simp_all
qed

text \<open>C34. A read that fails right after an order was claimed stops the queue of its twin for as long as the process lives:
  the heartbeat that was started for the claim keeps renewing it, so from then on neither the order nor any younger
  order of its twin ever becomes due, on this or any other worker.\<close>

theorem failed_read_stops_queue:
  assumes "execute_order sha pub run org i (m, st) = (Inl ClaimedReadFailed, m', st')" "\<forall>s. ow_race run 2 s = s"
    and "distinct (map wo_id (work_orders st'))"
  shows "\<exists>w \<in> set (work_orders st'). is_order org i w \<and> wo_status w = OrderProcessing \<and> wo_claimed_by w = Some (ow_claim run) \<and>
    (\<forall>now started org' c. ow_claimed_at run \<le> now \<longrightarrow>
      (\<forall>v \<in> set (due_orders started now org' c
          (beats (ow_claimed_at run) i (ow_claim run) (nat ((now - ow_claimed_at run) div heartbeat_ms)) st')).
        wo_id v \<noteq> i \<and> \<not> older_order w v))"
proof -
  have "\<exists>w0 st1 work. claim_order (ow_claimed_at run) (ow_claim run) org i (wo_attempts (w0 :: work_order)) st1 = Some (work, st')"
    using assms(1,2)
    by (auto simp: execute_order_def Let_def execute_claimed_def split: option.splits if_splits prod.splits sum.splits)
  then obtain w0 :: work_order and st1 work where
    claim: "claim_order (ow_claimed_at run) (ow_claim run) org i (wo_attempts w0) st1 = Some (work, st')" by blast
  then obtain w1 where w1: "w1 \<in> set (work_orders st1)" "is_order org i w1" "order_claimable (ow_claimed_at run) w1" "wo_attempts w1 = wo_attempts w0"
      and st': "st' = set_orders (\<lambda>w. is_order org i w \<and> wo_attempts w = wo_attempts w0 \<and> order_claimable (ow_claimed_at run) w)
        (claimed_order (ow_claimed_at run) (ow_claim run)) st1"
    by (auto simp: claim_order_def Let_def split: option.splits dest: find_SomeD)
  let ?w = "claimed_order (ow_claimed_at run) (ow_claim run) w1"
  have mem: "?w \<in> set (work_orders st')" unfolding st' position_of set_update_where using w1 by auto
  have w: "is_order org i ?w" "wo_id ?w = i" "wo_status ?w = OrderProcessing" "wo_claimed_by ?w = Some (ow_claim run)"
      "wo_claim_expires_at ?w = Some (ow_claimed_at run + work_order_claim_ms)"
    using w1(2) by (simp_all add: claimed_order_def is_order_def)
  have "wo_id v \<noteq> i \<and> \<not> older_order ?w v"
    if now: "ow_claimed_at run \<le> now"
      and v: "v \<in> set (due_orders started now org' c (beats (ow_claimed_at run) i (ow_claim run) (nat ((now - ow_claimed_at run) div heartbeat_ms)) st'))"
    for now started org' c v
  proof -
    let ?n = "nat ((now - ow_claimed_at run) div heartbeat_ms)"
    let ?st = "beats (ow_claimed_at run) i (ow_claim run) ?n st'"
    obtain w' where w': "w' \<in> set (work_orders ?st)" "same_place ?w w'" "wo_status w' = OrderProcessing"
        "wo_claim_expires_at w' = Some (ow_claimed_at run + int ?n * heartbeat_ms + work_order_claim_ms)"
      using beats_claim [OF mem w(2,4,3,5)] by blast
    have "0 < heartbeat_ms" "heartbeat_ms < work_order_claim_ms" by (simp_all add: heartbeat_ms_def work_order_claim_ms_def)
    then have "now - ow_claimed_at run < (now - ow_claimed_at run) div heartbeat_ms * heartbeat_ms + work_order_claim_ms"
      using pos_mod_bound [of heartbeat_ms "now - ow_claimed_at run"] div_mult_mod_eq [of "now - ow_claimed_at run" heartbeat_ms] by linarith
    moreover have "int ?n = (now - ow_claimed_at run) div heartbeat_ms" using now \<open>0 < heartbeat_ms\<close> by (simp add: pos_imp_zdiv_nonneg_iff)
    ultimately have busy: "\<not> order_claimable now w'" using w'(3,4) by (simp add: order_claimable_def claim_expired_def)
    have due: "v \<in> set (work_orders ?st)" "order_claimable now v" "\<not> order_blocked v ?st"
      using v by (auto simp: due_orders_def dest: in_set_takeD)
    have "distinct (map wo_id (work_orders ?st))" using assms(3) by (simp add: beats_ids)
    then have "wo_id v \<noteq> i" using id_unique [OF _ due(1) w'(1)] w'(2) w(2) busy due(2) by (auto simp: same_place_def)
    moreover have "\<not> older_order ?w v"
      using due(3) w'(1-3) by (auto simp: order_blocked_def older_order_def same_place_def open_not_done order_done_def)
    ultimately show ?thesis ..
  qed
  then show ?thesis using mem w by blast
qed

subsection \<open>Concrete runs\<close>

definition sample_waiting :: work_order where
  "sample_waiting = sample_order\<lparr>wo_status := OrderPending, wo_attempts := 0, wo_claimed_by := None, wo_claim_expires_at := None\<rparr>"

lemma failed_read_stops_queue_witness:
  "\<exists>m' st'. execute_order sample_sha (store_pub sample_sha) ((sample_push (\<lambda>_. Pushed ''ok''))\<lparr>ow_reads := False\<rparr>) ''o1'' ''w1''
       (Map.empty, sample_orders [sample_waiting]) = (Inl ClaimedReadFailed, m', st') \<and>
     (\<forall>now \<ge> 0. \<forall>v \<in> set (due_orders now now ''o1'' ''c1'' (beats 0 ''w1'' ''k'' (nat (now div heartbeat_ms)) st')). wo_id v \<noteq> ''w1'')"
proof -
  let ?run = "(sample_push (\<lambda>_. Pushed ''ok''))\<lparr>ow_reads := False\<rparr> :: (markers \<times> wo_store) order_run"
  have r: "ow_race ?run n s = s" "ow_claimed_at ?run = 0" "ow_claim ?run = ''k''" for n s by (simp_all add: sample_push_def)
  have "\<exists>st'. execute_order sample_sha (store_pub sample_sha) ?run ''o1'' ''w1'' (Map.empty, sample_orders [sample_waiting]) = (Inl ClaimedReadFailed, Map.empty, st') \<and>
      distinct (map wo_id (work_orders st'))"
    by (simp add: execute_order_def sample_orders_def sample_waiting_def sample_order_def sample_push_def is_order_def find_connector_def
        sample_target_def sample_connector_def order_blocked_def older_order_def claim_order_def order_claimable_def set_orders_def
        claimed_order_def Let_def)
  then obtain st' where run: "execute_order sample_sha (store_pub sample_sha) ?run ''o1'' ''w1'' (Map.empty, sample_orders [sample_waiting]) = (Inl ClaimedReadFailed, Map.empty, st')"
      "distinct (map wo_id (work_orders st'))" by blast
  show ?thesis using failed_read_stops_queue [OF run(1) _ run(2)] r run(1) by force
qed

definition sample_stuck :: work_order where
  "sample_stuck = sample_waiting\<lparr>wo_id := sample_uuid, wo_origin := StatePropagation, wo_target_connector := sample_uuid, wo_target_twin := ''t2'',
     wo_target_state := None, wo_status := OrderHeld\<rparr>"

definition sample_dead :: wo_store where
  "sample_dead = (sample_orders [sample_stuck])\<lparr>connectors := [sample_target sample_uuid ''snow'']\<rparr>"

lemma fields_only_entry_needs_a_state_witness:
  "\<exists>e. get_twin_dead_letter ''o1'' sample_uuid sample_uuid sample_dead = Inr e \<and>
     reinject_twin_dead_letter sample_sha (store_pub sample_sha) ''r1'' 9 ''o1'' sample_uuid sample_uuid (JObj [(''fields'', JObj [])]) ''u1'' sample_dead =
       Inl (BadReinjection ''payload.targetState must be a non-empty string'')"
proof -
  have i: "uuid_pattern sample_uuid" by code_simp
  let ?e = "order_entry sample_stuck (sample_twin ''t2'' ''c2'' ''snow'' ''b'')"
  have e: "get_twin_dead_letter ''o1'' sample_uuid sample_uuid sample_dead = Inr ?e"
    using i by (simp add: get_twin_dead_letter_def list_twin_dead_letters_def connector_or_missing_def find_connector_def sample_dead_def
        sample_orders_def sample_target_def sample_connector_def sample_stuck_def sample_waiting_def sample_order_def sample_twin_def
        map_filter_simps order_entry_def Let_def)
  have k: "qe_kind ?e = TranslationEntry" "jprop (qe_payload ?e) ''targetState'' = JNull"
    by (simp_all add: order_entry_def sample_stuck_def jprop_def jget_def jopt_def Let_def)
  have "orders_fifo sample_dead"
    by (simp add: orders_fifo_def sample_dead_def sample_orders_def sample_stuck_def sample_waiting_def sample_order_def order_done_def)
  moreover have "plain_object (JObj [(''fields'', JObj [])]) \<and> jprop (JObj [(''fields'', JObj [])]) ''targetState'' = JUndef"
    by (simp add: plain_object_def jprop_def jget_def)
  ultimately show ?thesis using e fields_only_entry_needs_a_state [OF e k] by blast
qed

end
