(* ===== verification/TwinEdit.thy ===== *)
theory TwinEdit
  imports TwinDeadLetters
begin

text \<open>
  Edits of externally owned fields in \<^verbatim>\<open>src/modules/connectors/connector.service.ts\<close>: which fields of a twin
  an operator may edit (\<^verbatim>\<open>fieldPolicies\<close>) and what becomes of an edit (\<^verbatim>\<open>routeTwinEdit\<close>), and all operations
  on the work orders together.

  Discovery metadata and authorities are JSON; a property of another type than declared reads as missing.
\<close>

subsection \<open>Policies\<close>

datatype edit_reason =
    WriteBackEnabled | NoOutboundMapping | WriteBackDisabled | ConnectorUnavailable | CapabilityMissing | StateValuesUnknown

fun edit_reason_text :: "edit_reason \<Rightarrow> string" where
  "edit_reason_text WriteBackEnabled = ''write_back_enabled''"
| "edit_reason_text NoOutboundMapping = ''no_outbound_mapping''"
| "edit_reason_text WriteBackDisabled = ''write_back_disabled''"
| "edit_reason_text ConnectorUnavailable = ''connector_unavailable''"
| "edit_reason_text CapabilityMissing = ''capability_missing''"
| "edit_reason_text StateValuesUnknown = ''state_values_unknown''"

record field_policy =
  fp_field :: string
  fp_native :: string
  fp_label :: string
  fp_value :: jsval
  fp_authority :: string
  fp_reason :: edit_reason
  fp_message :: string
  fp_allowed :: "string list option"

definition fp_editable :: "field_policy \<Rightarrow> bool" where
  "fp_editable p \<longleftrightarrow> fp_reason p = WriteBackEnabled"

definition provider_name :: "string \<Rightarrow> string" where
  "provider_name s = (if s = ''jira'' then ''Jira'' else if s = ''servicenow'' then ''ServiceNow'' else s)"

definition texts_of :: "jsval \<Rightarrow> string list" where
  "texts_of v = (case v of JArr vs \<Rightarrow> List.map_filter (\<lambda>x. case x of JStr s \<Rightarrow> Some s | _ \<Rightarrow> None) vs | _ \<Rightarrow> [])"

definition array_of :: "jsval \<Rightarrow> jsval list" where
  "array_of v = (case v of JArr vs \<Rightarrow> vs | _ \<Rightarrow> [])"

definition entity_schema :: "connector_row \<Rightarrow> string \<Rightarrow> jsval" where
  "entity_schema c ty = (case cr_discovery c of None \<Rightarrow> JUndef | Some d \<Rightarrow>
     (case find (\<lambda>e. jprop e ''entityType'' = JStr ty) (array_of (jprop d ''entities'')) of None \<Rightarrow> JUndef | Some e \<Rightarrow> e))"

definition field_schema :: "connector_row \<Rightarrow> string \<Rightarrow> string \<Rightarrow> jsval" where
  "field_schema c ty f =
     (case find (\<lambda>x. jprop x ''id'' = JStr f) (array_of (jprop (entity_schema c ty) ''fields'')) of None \<Rightarrow> JUndef | Some x \<Rightarrow> x)"

definition allowed_values :: "jsval \<Rightarrow> string list option" where
  "allowed_values schema = (case texts_of (jprop schema ''allowedValues'') of [] \<Rightarrow> None | vs \<Rightarrow> Some vs)"

definition native_state :: "string \<Rightarrow> string" where
  "native_state provider = (if provider = ''servicenow'' then ''state'' else ''status'')"

definition connector_available :: "connector_row \<Rightarrow> bool" where
  "connector_available c \<longleftrightarrow> cr_activated_at c \<noteq> None \<and> cr_status c \<in> {''active'', ''degraded''}"

definition can_write :: "connector_row \<Rightarrow> bool" where
  "can_write c \<longleftrightarrow> (case cr_discovery c of None \<Rightarrow> False | Some d \<Rightarrow> ''state_write'' \<in> set (texts_of (jprop d ''supportedCapabilities'')))"

definition write_back :: "connector_row \<Rightarrow> jsval" where
  "write_back c = or_empty_obj (jprop (cr_config c) ''writeBack'')"

definition authorities :: "twin \<Rightarrow> (string \<times> string) list" where
  "authorities t = (case tw_authority t of JObj o' \<Rightarrow> map (\<lambda>(k, v). (k, js_text v)) o' | _ \<Rightarrow> [])"

definition state_policy :: "twin \<Rightarrow> connector_row \<Rightarrow> field_policy" where
  "state_policy t c =
     (let p = provider_name (tw_provider t); native = native_state (tw_provider t);
          allowed = allowed_values (field_schema c (tw_artifact_type t) native);
          (reason, message) =
            (if \<not> js_truthy (jprop (write_back c) ''state'')
             then (WriteBackDisabled, p @ '' owns this state. State write-back is disabled for '' @ cr_name c @ ''; change it in '' @ p @
               '' or ask an administrator to enable write-back.'')
             else if \<not> can_write c then (CapabilityMissing, cr_name c @ '' cannot write states back to '' @ p @ ''.'')
             else if allowed = None
             then (StateValuesUnknown, ''No '' @ p @ '' state values were discovered for '' @ tw_artifact_type t @ ''; run discovery before editing.'')
             else if \<not> connector_available c
             then (ConnectorUnavailable, cr_name c @ '' is '' @ cr_status c @ ''; state changes are refused until it is active.'')
             else (WriteBackEnabled, ''Changes are written to '' @ p @ '' through an audited connector work order.''))
      in \<lparr>fp_field = ''state'', fp_native = native, fp_label = ''State'',
          fp_value = (if tw_native_status t = [] then JUndef else JStr (tw_native_status t)),
          fp_authority = (case map_of (authorities t) native of Some a \<Rightarrow> or_text a (tw_provider t) | None \<Rightarrow> tw_provider t),
          fp_reason = reason, fp_message = message, fp_allowed = allowed\<rparr>)"

definition other_policy :: "twin \<Rightarrow> connector_row \<Rightarrow> string \<times> string \<Rightarrow> field_policy" where
  "other_policy t c fa =
     (let (f, authority) = fa; p = provider_name (tw_provider t);
          schema = field_schema c (tw_artifact_type t) f; label = or_text (text_prop schema ''name'') f;
          base = \<lparr>fp_field = f, fp_native = f, fp_label = label, fp_value = or_jnull (jget (tw_payload t) f), fp_authority = authority,
            fp_reason = NoOutboundMapping,
            fp_message = provider_name authority @ '' owns '' @ label @ ''. Cadena has no outbound mapping for it; change it in '' @ provider_name authority @ ''.'',
            fp_allowed = None\<rparr>
      in if f \<notin> set (texts_of (jprop (write_back c) ''fields'')) then base
         else if \<not> can_write c
           then base\<lparr>fp_reason := CapabilityMissing, fp_message := cr_name c @ '' cannot write fields back to '' @ p @ ''.'', fp_allowed := allowed_values schema\<rparr>
         else if \<not> connector_available c
           then base\<lparr>fp_reason := ConnectorUnavailable, fp_message := cr_name c @ '' is '' @ cr_status c @ ''; field changes are refused until it is active.'',
             fp_allowed := allowed_values schema\<rparr>
         else base\<lparr>fp_reason := WriteBackEnabled, fp_message := ''Changes are written to '' @ p @ '' through an audited connector work order.'',
             fp_allowed := allowed_values schema\<rparr>)"

definition field_policies :: "twin \<Rightarrow> connector_row \<Rightarrow> field_policy list" where
  "field_policies t c = state_policy t c # map (other_policy t c) (filter (\<lambda>(f, _). f \<noteq> native_state (tw_provider t)) (authorities t))"

subsection \<open>Edits\<close>

datatype edit_error =
    EditMissing string
  | EditBad string
  | EditBlocked string string string
  | EditOrder order_error
  | EditDb db_error

datatype edit_result =
    EditNoop string string
  | EditRouted string string uuid order_status "int \<times> nat \<times> nat \<times> nat \<times> nat"

definition requested_policy :: "twin \<Rightarrow> connector_row \<Rightarrow> string \<Rightarrow> field_policy" where
  "requested_policy t c requested =
     (case find (\<lambda>p. fp_field p = requested \<or> fp_native p = requested \<or> requested = ''status'' \<and> fp_field p = ''state'') (field_policies t c) of
        Some p \<Rightarrow> p
      | None \<Rightarrow> \<lparr>fp_field = requested, fp_native = requested, fp_label = requested, fp_value = JUndef, fp_authority = tw_provider t,
          fp_reason = NoOutboundMapping,
          fp_message = provider_name (tw_provider t) @ '' owns '' @ quoted requested @ ''. Cadena has no outbound mapping for it; change it in '' @
            provider_name (tw_provider t) @ ''.'', fp_allowed = None\<rparr>)"

definition edit_value :: "field_policy \<Rightarrow> string \<Rightarrow> string option" where
  "edit_value p v = or_null (case fp_allowed p of Some vs \<Rightarrow> find (\<lambda>x. same_state x v) vs | None \<Rightarrow> Some v)"

definition unchanged_value :: "twin \<Rightarrow> field_policy \<Rightarrow> string \<Rightarrow> bool" where
  "unchanged_value t p v \<longleftrightarrow>
     (if fp_field p = ''state'' then tw_native_status t \<noteq> [] \<and> same_state (tw_native_status t) v
      else stable_stringify (or_jnull (jget (tw_payload t) (fp_native p))) = stable_stringify (JStr v))"

definition edit_order :: "time \<Rightarrow> uuid \<Rightarrow> string \<Rightarrow> string \<Rightarrow> twin \<Rightarrow> field_policy \<Rightarrow> string \<Rightarrow> int \<Rightarrow> work_order" where
  "edit_order now i org actor t p v position =
     (let is_state = (fp_field p = ''state'');
          edited = (if is_state then tw_payload t else jspread (tw_payload t) [(fp_native p, JStr v)])
      in \<lparr>wo_id = i, wo_org_id = org, wo_transaction = None, wo_origin = OperatorEdit, wo_requested_by = Some actor, wo_source_event = None,
          wo_source_payload = json_clone (JObj [(''title'', if js_truthy (tw_title t) then tw_title t else JStr []), (''fields'', JObj edited)]),
          wo_source_connector = None, wo_target_connector = tw_connector_id t, wo_target_twin = tw_id t,
          wo_entity_type = tw_artifact_type t, wo_external_id = tw_external_id t,
          wo_target_state = (if is_state then Some v else None), wo_fields = (if is_state then [] else [(fp_native p, JStr v)]),
          wo_status = OrderPending, wo_attempts = 0, wo_history = [], wo_last_error = None, wo_next_attempt_at = None, wo_claimed_by = None,
          wo_claim_expires_at = None, wo_executed_at = None, wo_position = position, wo_created_at = now, wo_updated_at = now\<rparr>)"

definition blocked_event :: "string \<Rightarrow> string \<Rightarrow> twin \<Rightarrow> field_policy \<Rightarrow> outbox_input" where
  "blocked_event org actor t p = connector_event org (tw_id t) actor ''TwinEditBlocked''
     [(''twin_id'', JStr (tw_id t)), (''connector_id'', JStr (tw_connector_id t)), (''field'', JStr (fp_field p)),
      (''authority'', JStr (fp_authority p)), (''reason'', JStr (edit_reason_text (fp_reason p)))]"

definition routed_event :: "string \<Rightarrow> string \<Rightarrow> uuid \<Rightarrow> twin \<Rightarrow> field_policy \<Rightarrow> string \<Rightarrow> outbox_input" where
  "routed_event org actor i t p v = connector_event org (tw_id t) actor ''TwinEditRouted''
     [(''twin_id'', JStr (tw_id t)), (''work_order_id'', JStr i), (''connector_id'', JStr (tw_connector_id t)), (''field'', JStr (fp_field p)),
      (''before'', fp_value p), (''after'', JStr v)]"

definition written_event :: "string \<Rightarrow> uuid \<Rightarrow> 'z store_scheme \<Rightarrow> uuid option" where
  "written_event org i st = map_option de_event_id (find (\<lambda>d. de_org_id d = Some org \<and> de_event_type d = ''ConnectorOperatorStateWritten'' \<and>
     jprop (de_payload d) ''work_order_id'' = JStr i) (rev (sort_key de_occurred_at (domain_events st))))"

definition edited_twin :: "string \<Rightarrow> uuid \<Rightarrow> 'z wo_store_scheme \<Rightarrow> edit_error + twin \<times> connector_row" where
  "edited_twin org i st =
     (if \<not> uuid_pattern i then Inl (EditMissing (''Twin '' @ i @ '' not found''))
      else case find (\<lambda>t. tw_org_id t = org \<and> tw_id t = i \<and> find_connector org (tw_connector_id t) st \<noteq> None) (twins st) of
             None \<Rightarrow> Inl (EditMissing (''Twin '' @ i @ '' not found''))
           | Some t \<Rightarrow> (case connector_or_missing org (tw_connector_id t) st of
               Inl _ \<Rightarrow> Inl (EditMissing (''Connector '' @ tw_connector_id t @ '' not found'')) | Inr c \<Rightarrow> Inr (t, c)))"

definition send_edit ::
  "(string \<Rightarrow> string) \<Rightarrow> 'z wo_store_scheme handler \<Rightarrow> (markers \<times> 'z wo_store_scheme) order_run \<Rightarrow> (nat \<Rightarrow> uuid) \<Rightarrow> time \<Rightarrow> string
   \<Rightarrow> string \<Rightarrow> twin \<Rightarrow> field_policy \<Rightarrow> string \<Rightarrow> markers \<times> 'z wo_store_scheme \<Rightarrow> (edit_error + edit_result) \<times> markers \<times> 'z wo_store_scheme" where
  "send_edit sha pub run ids now org actor t p v s =
     (let w = edit_order now (ids 0) org actor t p v (ingest_position (snd s))
      in if \<exists>x \<in> set (work_orders (snd s)). wo_id x = ids 0
         then (Inl (EditDb (UniqueViolation ''integration_connector_work_orders_pkey'')), s)
         else case with_event sha pub (ids 1) now (routed_event org actor (ids 0) t p v)
                  ((snd s)\<lparr>ingest_position := ingest_position (snd s) + 1, work_orders := work_orders (snd s) @ [w]\<rparr>) of
                Inl e \<Rightarrow> (Inl (EditDb e), s)
              | Inr (_, st1) \<Rightarrow>
                  (case execute_order sha pub run org (ids 0) (fst s, st1) of
                     (Inl e, s2) \<Rightarrow> (Inl (EditOrder e), s2)
                   | (Inr r, s2) \<Rightarrow>
                       (Inr (EditRouted (fp_field p) v (ids 0) r
                          (case (if r = OrderExecuted then written_event org (ids 0) (snd s2) else None) of
                             None \<Rightarrow> (0, 0, 0, 0, 0) | Some e \<Rightarrow> event_counts e (snd s2))), s2)))"

definition route_twin_edit ::
  "(string \<Rightarrow> string) \<Rightarrow> 'z wo_store_scheme handler \<Rightarrow> (markers \<times> 'z wo_store_scheme) order_run \<Rightarrow> (nat \<Rightarrow> uuid) \<Rightarrow> time \<Rightarrow> string
   \<Rightarrow> uuid \<Rightarrow> jsval \<Rightarrow> jsval \<Rightarrow> string \<Rightarrow> markers \<times> 'z wo_store_scheme \<Rightarrow> (edit_error + edit_result) \<times> markers \<times> 'z wo_store_scheme" where
  "route_twin_edit sha pub run ids now org i field_in value_in actor s =
     (case edited_twin org i (snd s) of
        Inl e \<Rightarrow> (Inl e, s)
      | Inr (t, c) \<Rightarrow>
          (let requested = trimmed_text field_in; given = trimmed_text value_in; p = requested_policy t c requested
           in if requested = [] then (Inl (EditBad ''field is required''), s)
              else if given = [] then (Inl (EditBad ''value must be a non-empty string''), s)
              else if \<not> fp_editable p
                then (case with_event sha pub (ids 1) now (blocked_event org actor t p) (snd s) of
                        Inl e \<Rightarrow> (Inl (EditDb e), s)
                      | Inr (_, st1) \<Rightarrow> (Inl (EditBlocked (fp_field p) (edit_reason_text (fp_reason p)) (fp_message p)), fst s, st1))
              else case edit_value p given of
                     None \<Rightarrow> (Inl (EditBlocked (fp_field p) ''invalid_value''
                       (quoted given @ '' is not a '' @ provider_name (tw_provider t) @ '' '' @ lower (fp_label p) @ ''. Allowed: '' @
                        join '', '' (case fp_allowed p of None \<Rightarrow> [] | Some vs \<Rightarrow> vs))), s)
                   | Some v \<Rightarrow>
                       if unchanged_value t p v then (Inr (EditNoop (fp_field p) v), s)
                       else send_edit sha pub run ids now org actor t p v s))"

subsection \<open>What an edit may do\<close>

text \<open>The governance an operator's edit is under, field by field.\<close>

definition may_edit :: "twin \<Rightarrow> connector_row \<Rightarrow> string \<Rightarrow> string \<Rightarrow> bool" where
  "may_edit t c f v \<longleftrightarrow> connector_available c \<and> can_write c \<and> v \<noteq> [] \<and>
     (f = ''state'' \<and> js_truthy (jprop (write_back c) ''state'') \<and>
        (\<exists>vs. allowed_values (field_schema c (tw_artifact_type t) (native_state (tw_provider t))) = Some vs \<and> v \<in> set vs) \<or>
      f \<in> fst ` set (authorities t) \<and> f \<noteq> native_state (tw_provider t) \<and> f \<in> set (texts_of (jprop (write_back c) ''fields'')) \<and>
        (case allowed_values (field_schema c (tw_artifact_type t) f) of None \<Rightarrow> True | Some vs \<Rightarrow> v \<in> set vs))"

lemma state_policy_editable:
  assumes "fp_editable (state_policy t c)"
  shows "connector_available c" "can_write c" "js_truthy (jprop (write_back c) ''state'')" "fp_allowed (state_policy t c) \<noteq> None"
  using assms by (auto simp: state_policy_def fp_editable_def Let_def split: if_splits)

lemma state_policy_reads:
  "fp_field (state_policy t c) = ''state''"
  "fp_allowed (state_policy t c) = allowed_values (field_schema c (tw_artifact_type t) (native_state (tw_provider t)))"
  by (simp_all add: state_policy_def Let_def split: prod.splits)

lemma other_policy_editable:
  assumes "fp_editable (other_policy t c fa)"
  shows "connector_available c" "can_write c" "fst fa \<in> set (texts_of (jprop (write_back c) ''fields''))"
    "fp_field (other_policy t c fa) = fst fa" "fp_allowed (other_policy t c fa) = allowed_values (field_schema c (tw_artifact_type t) (fst fa))"
  using assms by (auto simp: other_policy_def fp_editable_def Let_def split: if_splits prod.splits)

lemma editable_permitted:
  assumes "fp_editable (requested_policy t c requested)" "edit_value (requested_policy t c requested) given = Some v"
  shows "may_edit t c (fp_field (requested_policy t c requested)) v"
proof -
  let ?p = "requested_policy t c requested"
  have v: "v \<noteq> []" "fp_allowed ?p = None \<or> (\<exists>vs. fp_allowed ?p = Some vs \<and> v \<in> set vs)"
    using assms(2) by (auto simp: edit_value_def or_null_def split: option.splits if_splits dest: find_SomeD)
  consider "?p = state_policy t c" | fa where "fa \<in> set (authorities t)" "fst fa \<noteq> native_state (tw_provider t)" "?p = other_policy t c fa"
  proof (cases "find (\<lambda>p. fp_field p = requested \<or> fp_native p = requested \<or> requested = ''status'' \<and> fp_field p = ''state'') (field_policies t c)")
    case (Some q)
    then have "?p = q" "q \<in> set (field_policies t c)" using find_SomeD [OF Some] by (simp_all add: requested_policy_def)
    then show ?thesis using that by (auto simp: field_policies_def)
  qed (use assms(1) in \<open>simp add: requested_policy_def fp_editable_def\<close>)
  then show ?thesis
  proof cases
    case 1
    then show ?thesis using v state_policy_editable [of t c] assms(1) by (auto simp: may_edit_def state_policy_reads)
  next
    case 2
    then show ?thesis using v other_policy_editable [of t c fa] assms(1) by (auto simp: may_edit_def split: option.splits)
  qed
qed

lemma event_orders: "with_event sha (store_pub sha) fresh now ev st = Inr (e, st') \<Longrightarrow> work_orders st' = work_orders st"
  by (drule with_event_more) (rule more_tables)

text \<open>C36. No edit bypasses its governance: an edit changes the queue of work orders only when the connector of the twin is
  active, can write, and allows this field to be edited, and with a value that the provider listed for it, if it
  lists any; then exactly one order is queued, for this twin and this field, and executed.\<close>

theorem edit_sent_only_if_permitted:
  assumes "route_twin_edit sha (store_pub sha) run ids now org i field_in value_in actor (m, st) = (r, m', st')"
    and "work_orders st' \<noteq> work_orders st"
  shows "\<exists>t c p v st1. edited_twin org i st = Inr (t, c) \<and> p = requested_policy t c (trimmed_text field_in) \<and> may_edit t c (fp_field p) v \<and>
    work_orders st1 = work_orders st @ [edit_order now (ids 0) org actor t p v (ingest_position st)] \<and>
    snd (execute_order sha (store_pub sha) run org (ids 0) (m, st1)) = (m', st')"
proof -
  obtain t c where t: "edited_twin org i st = Inr (t, c)"
    using assms by (auto simp: route_twin_edit_def split: sum.splits)
  let ?p = "requested_policy t c (trimmed_text field_in)"
  have ed: "fp_editable ?p"
    using assms t by (auto simp: route_twin_edit_def Let_def dest: event_orders split: if_splits sum.splits)
  obtain v where v: "edit_value ?p (trimmed_text value_in) = Some v"
    using assms t ed by (auto simp: route_twin_edit_def Let_def split: if_splits option.splits)
  have "send_edit sha (store_pub sha) run ids now org actor t ?p v (m, st) = (r, m', st')"
    using assms t ed v by (auto simp: route_twin_edit_def Let_def split: if_splits)
  then obtain e st1 where ev: "with_event sha (store_pub sha) (ids 1) now (routed_event org actor (ids 0) t ?p v)
      (st\<lparr>ingest_position := ingest_position st + 1, work_orders := work_orders st @ [edit_order now (ids 0) org actor t ?p v (ingest_position st)]\<rparr>) = Inr (e, st1)"
    and run: "snd (execute_order sha (store_pub sha) run org (ids 0) (m, st1)) = (m', st')"
    using assms(2) by (auto simp: send_edit_def Let_def split: if_splits sum.splits prod.splits)
  have "work_orders st1 = work_orders st @ [edit_order now (ids 0) org actor t ?p v (ingest_position st)]" using event_orders [OF ev] by simp
  then show ?thesis using t editable_permitted [OF ed v] run by blast
qed

subsection \<open>All operations on the queues of the twins\<close>

context fair_delivery
begin

lemma edit_fair:
  assumes "fair_run run"
  shows "fair (snd s) (snd (snd (route_twin_edit sha pub run ids now org i field_in value_in actor s)))"
proof -
  have send: "fair (snd s) (snd (snd (send_edit sha pub run ids now org actor t p v s)))" for t p v
  proof (cases "\<exists>x \<in> set (work_orders (snd s)). wo_id x = ids 0")
    case False
    let ?w = "edit_order now (ids 0) org actor t p v (ingest_position (snd s))"
    let ?st = "(snd s)\<lparr>ingest_position := ingest_position (snd s) + 1, work_orders := work_orders (snd s) @ [?w]\<rparr>"
    have "fair (snd s) ?st"
      by (rule fair_append) (use False in \<open>auto simp: edit_order_def same_cause_def Let_def\<close>)
    moreover have "fair st1 (snd (snd (execute_order sha pub run org (ids 0) (fst s, st1))))" for st1
      using executed_fair [OF pub_fair assms, where s = "(fst s, st1)"] by simp
    ultimately have "fair (snd s) (snd (snd (execute_order sha pub run org (ids 0) (fst s, st1))))"
      if "with_event sha pub (ids 1) now ev ?st = Inr (e, st1)" for ev e st1
      using event_fair [OF that] fair_trans by blast
    then show ?thesis using False
      by (auto simp: send_edit_def Let_def split: sum.splits prod.splits) (metis prod.sel(2))+
  qed (auto simp: send_edit_def Let_def)
  show ?thesis
    using send by (auto simp: route_twin_edit_def Let_def dest: event_fair split: sum.splits prod.splits option.splits)
qed

end

text \<open>The work of any number of workers, operators and restarts; what others do during one operation is part of its run.\<close>

inductive order_step :: "(string \<Rightarrow> string) \<Rightarrow> 'z wo_store_scheme \<Rightarrow> 'z wo_store_scheme \<Rightarrow> bool" for sha where
  execute: "fair_run run \<Longrightarrow> execute_order sha (store_pub sha) run org i (m, st) = (r, m', st') \<Longrightarrow> order_step sha st st'"
| drain: "fair_turns turns \<Longrightarrow> drain_orders sha (store_pub sha) org c started turns k 0 (n, m, st) = (r, m', st') \<Longrightarrow> order_step sha st st'"
| accept: "fair_propagation prun \<Longrightarrow> accept_propagation sha (store_pub sha) prun ev (m, st) = (x, m', st') \<Longrightarrow> order_step sha st st'"
| edit: "fair_run run \<Longrightarrow> route_twin_edit sha (store_pub sha) run ids now org i f v actor (m, st) = (y, m', st') \<Longrightarrow> order_step sha st st'"
| reinject: "reinject_twin_dead_letter sha (store_pub sha) fresh now org ci i corrected actor st = Inr (e, st') \<Longrightarrow> order_step sha st st'"
| heartbeat: "order_step sha st (renew_order_claim now i claim st)"
| restart: "order_step sha st (recover_orders now st)"

lemma step_fair: "order_step sha st st' \<Longrightarrow> fair st st'"
proof (induction rule: order_step.induct)
  case (execute run org i m st r m' st')
  have "fair (snd (m, st)) (snd (snd (execute_order sha (store_pub sha) run org i (m, st))))"
    by (rule executed_fair [OF bus.pub_fair execute(1)])
  then show ?case by (simp add: execute(2))
next
  case (drain turns org c started k n m st r m' st')
  have "fair (snd (snd (n, m, st))) (snd (snd (drain_orders sha (store_pub sha) org c started turns k 0 (n, m, st))))"
    by (rule bus.drain_fair [OF drain(1)])
  then show ?case by (simp add: drain(2))
next
  case (accept prun ev m st x m' st')
  have "fair (snd (m, st)) (snd (snd (accept_propagation sha (store_pub sha) prun ev (m, st))))" by (rule bus.accept_fair [OF accept(1)])
  then show ?case by (simp add: accept(2))
next
  case (edit run ids now org i f v actor m st y m' st')
  have "fair (snd (m, st)) (snd (snd (route_twin_edit sha (store_pub sha) run ids now org i f v actor (m, st))))"
    by (rule bus.edit_fair [OF edit(1)])
  then show ?case by (simp add: edit(2))
next
  case (reinject fresh now org ci i corrected actor st e st')
  then show ?case by (rule bus.reinject_fair)
qed (rule fair_renewed fair_recovered)+

lemma steps_fair: "(order_step sha)\<^sup>*\<^sup>* st st' \<Longrightarrow> fair st st'"
  by (induction rule: rtranclp_induct) (auto intro: fair_trans step_fair)

text \<open>C31. The orders of one twin run strictly one after the other, in the order in which they were queued: whatever workers,
  operators, restarts and redeliveries do, no order is claimed or done while an older one of its twin is unfinished, an
  event never has two orders for one twin, and an order that is done stays done in its place.\<close>

theorem orders_run_in_sequence:
  assumes "(order_step sha)\<^sup>*\<^sup>* st st'" "work_orders st = []"
  shows "orders_fifo st' \<and>
    (\<forall>w \<in> set (work_orders st'). \<forall>o' \<in> set (work_orders st').
       older_order o' w \<and> (order_done w \<or> wo_status w = OrderProcessing) \<longrightarrow> order_done o') \<and>
    (\<forall>st2. (order_step sha)\<^sup>*\<^sup>* st' st2 \<longrightarrow> orders_later st' st2)"
proof -
  have "orders_fifo st" using assms(2) by (simp add: orders_fifo_def)
  then have ok: "orders_fifo st'" using steps_fair [OF assms(1)] by (simp add: fair_def)
  moreover have "order_done o'"
    if "w \<in> set (work_orders st')" "o' \<in> set (work_orders st')" "older_order o' w" "order_done w \<or> wo_status w = OrderProcessing" for w o'
  proof -
    have "\<not> order_blocked w st'" using ok that(1,4) unfolding orders_fifo_def by blast
    then show ?thesis using that(2,3) by (auto simp: order_blocked_def open_not_done)
  qed
  moreover have "orders_later st' st2" if "(order_step sha)\<^sup>*\<^sup>* st' st2" for st2
    using steps_fair [OF that] ok by (simp add: fair_def)
  ultimately show ?thesis by blast
qed

subsection \<open>Concrete runs\<close>

lemma orders_run_in_sequence_witness:
  "\<exists>st' w. (order_step sample_sha)\<^sup>*\<^sup>* (sample_orders []) st' \<and> orders_fifo st' \<and> w \<in> set (work_orders st') \<and> wo_target_twin w = ''t2''"
proof -
  obtain m' and st' :: wo_store where acc: "accept_propagation sample_sha (store_pub sample_sha) sample_propagation
      (sample_change_event ''ConnectorOperatorStateWritten'') (Map.empty, sample_orders []) = (Inr (), m', st')"
      and w: "\<exists>w. w \<in> set (work_orders st') \<and> wo_target_twin w = ''t2''"
    using sample_accept by blast
  have "order_step sample_sha (sample_orders []) st'" by (rule order_step.accept [OF sample_fair acc])
  then have run: "(order_step sample_sha)\<^sup>*\<^sup>* (sample_orders []) st'" by blast
  have "work_orders (sample_orders []) = []" by (simp add: sample_orders_def)
  from orders_run_in_sequence [OF run this] run w show ?thesis by blast
qed

definition sample_editable :: connector_row where
  "sample_editable = sample_connector\<lparr>cr_id := sample_uuid, cr_config := JObj [(''writeBack'', JObj [(''state'', JBool True)])],
     cr_discovery := Some (JObj [(''supportedCapabilities'', JArr [JStr ''state_write'']),
       (''entities'', JArr [JObj [(''entityType'', JStr ''issue''), (''fields'', JArr [JObj [(''id'', JStr ''status''), (''allowedValues'', JArr [JStr ''Open'', JStr ''Done''])]])]])])\<rparr>"

definition sample_edited :: wo_store where
  "sample_edited = (sample_orders [])\<lparr>connectors := [sample_editable], twins := [sample_twin sample_uuid sample_uuid ''jira'' ''a'']\<rparr>"

lemma edit_sent_only_if_permitted_witness:
  "\<exists>r m' st' t c. route_twin_edit sample_sha (store_pub sample_sha) ((sample_push (\<lambda>_. Pushed ''ok''))\<lparr>ow_reads := False\<rparr>) (\<lambda>n. replicate (Suc n) CHR ''x'') 1
       ''o1'' sample_uuid (JStr ''state'') (JStr ''done'') ''u1'' (Map.empty, sample_edited) = (r, m', st') \<and>
     edited_twin ''o1'' sample_uuid sample_edited = Inr (t, c) \<and> may_edit t c ''state'' ''Done''"
proof -
  let ?run = "(sample_push (\<lambda>_. Pushed ''ok''))\<lparr>ow_reads := False\<rparr> :: (markers \<times> wo_store) order_run"
  let ?t = "sample_twin sample_uuid sample_uuid ''jira'' ''a''" and ?c = sample_editable
  let ?p = "requested_policy ?t ?c ''state''"
  have i: "uuid_pattern sample_uuid" by code_simp
  have t: "edited_twin ''o1'' sample_uuid sample_edited = Inr (?t, ?c)"
    using i by (simp add: edited_twin_def sample_edited_def sample_orders_def sample_twin_def find_connector_def sample_editable_def
        sample_connector_def connector_or_missing_def)
  have p: "fp_editable ?p" "edit_value ?p ''done'' = Some ''Done''" "\<not> unchanged_value ?t ?p ''Done''" "fp_field ?p = ''state''"
    by code_simp+
  have tr: "trimmed_text (JStr ''state'') = ''state''" "trimmed_text (JStr ''done'') = ''done''" by code_simp+
  let ?w = "edit_order 1 ''x'' ''o1'' ''u1'' ?t ?p ''Done'' (ingest_position sample_edited)"
  let ?st = "sample_edited\<lparr>ingest_position := ingest_position sample_edited + 1, work_orders := work_orders sample_edited @ [?w]\<rparr>"
  have base: "chain_state sample_sha ?st" "\<not> used ?st ''xx''"
    by (rule chain_state_no_links) (simp_all add: sample_edited_def sample_orders_def used_def has_event_def logged_def)
  have e: "oi_event_id (routed_event ''o1'' ''u1'' ''x'' ?t ?p ''Done'') = None" "oi_work_item_id (routed_event ''o1'' ''u1'' ''x'' ?t ?p ''Done'') \<noteq> []"
    by (simp_all add: routed_event_def connector_event_def sample_twin_def sample_uuid_def)
  obtain ev st1 where ev: "with_event sample_sha (store_pub sample_sha) ''xx'' 1 (routed_event ''o1'' ''u1'' ''x'' ?t ?p ''Done'') ?st = Inr (ev, st1)"
    using with_event_total [OF growing_sample base e, where now = 1] by blast
  have rows: "work_orders st1 = [?w]" "connectors st1 = [?c]"
    using more_tables [OF with_event_more [OF ev]] by (simp_all add: sample_edited_def sample_orders_def)
  have "\<exists>m2 st2. execute_order sample_sha (store_pub sample_sha) ?run ''o1'' ''x'' (Map.empty, st1) = (Inl ClaimedReadFailed, m2, st2) \<and> work_orders st2 \<noteq> []"
    using rows by (simp add: execute_order_def edit_order_def is_order_def find_connector_def sample_twin_def sample_editable_def sample_connector_def
        sample_push_def order_blocked_def older_order_def claim_order_def order_claimable_def set_orders_def Let_def)
  then obtain m2 st2 where run: "execute_order sample_sha (store_pub sample_sha) ?run ''o1'' ''x'' (Map.empty, st1) = (Inl ClaimedReadFailed, m2, st2)"
      "work_orders st2 \<noteq> []" by blast
  have none: "work_orders sample_edited = []" by (simp add: sample_edited_def sample_orders_def)
  have r: "route_twin_edit sample_sha (store_pub sample_sha) ?run (\<lambda>n. replicate (Suc n) CHR ''x'') 1
       ''o1'' sample_uuid (JStr ''state'') (JStr ''done'') ''u1'' (Map.empty, sample_edited) = (Inl (EditOrder ClaimedReadFailed), m2, st2)"
    using t p tr ev run(1) none by (simp add: route_twin_edit_def send_edit_def Let_def)
  have "\<exists>v. may_edit ?t ?c ''state'' v" using edit_sent_only_if_permitted [OF r] run(2) none t tr p(4) by auto
  moreover have "may_edit ?t ?c ''state'' ''Done''" using editable_permitted [OF p(1,2)] p(4) by simp
  ultimately show ?thesis using r t by blast
qed

end
