(* ===== verification/PublicComments.thy ===== *)
theory PublicComments
  imports TwinEdit
begin

text \<open>
  Public comments of twins in \<^verbatim>\<open>src/modules/connectors/connector.service.ts\<close>: which comments of a record
  are stored, which counterparts each is delivered to, and one attempt at a delivery with its claim, its
  marker and its settlement; with it the text of comments in the two adapters
  (\<^verbatim>\<open>jira-connector.adapter.ts\<close>, \<^verbatim>\<open>servicenow-connector.adapter.ts\<close>).

  A provider is a state and what reading and writing the comments of a record do with it. \<open>instant\<close> is
  \<^verbatim>\<open>Date.parse\<close>. A character above 255 is written as the bytes of its UTF-8 form.
\<close>

subsection \<open>Policies\<close>

record comment_policy =
  cp_enabled :: bool
  cp_direction :: string
  cp_allow :: "string list"
  cp_block :: "string list"

definition string_list :: "jsval \<Rightarrow> string list" where
  "string_list v = dedupe_by (\<lambda>x. x) [] (filter (\<lambda>s. s \<noteq> []) (map trim (texts_of v)))"

definition no_comments :: comment_policy where
  "no_comments = \<lparr>cp_enabled = False, cp_direction = ''bidirectional'', cp_allow = [], cp_block = []\<rparr>"

definition comment_policy_keys :: "string list" where
  "comment_policy_keys = [''enabled'', ''direction'', ''authorAllowList'', ''authorBlockList'']"

definition account_list :: "jsval \<Rightarrow> string \<Rightarrow> string + string list" where
  "account_list v k = (case jprop v k of
     JUndef \<Rightarrow> Inr [] | JArr vs \<Rightarrow> Inr (string_list (JArr vs))
   | _ \<Rightarrow> Inl (''commentSync.'' @ k @ '' must be an array of stable provider account ids''))"

definition validate_comment_sync :: "jsval \<Rightarrow> string + comment_policy" where
  "validate_comment_sync v = (case v of
     JUndef \<Rightarrow> Inr no_comments
   | JNull \<Rightarrow> Inr no_comments
   | JObj kvs \<Rightarrow>
       (let unknown = filter (\<lambda>k. k \<notin> set comment_policy_keys) (map fst kvs);
            direction = (if jget kvs ''direction'' = JUndef then ''bidirectional'' else js_text (jget kvs ''direction''))
        in if unknown \<noteq> [] then Inl (''commentSync does not support '' @ join '', '' unknown)
           else if jget kvs ''enabled'' \<notin> {JUndef, JBool True, JBool False} then Inl ''commentSync.enabled must be true or false''
           else if direction \<notin> {''from_source'', ''to_source'', ''bidirectional''}
             then Inl ''commentSync.direction must be from_source, to_source or bidirectional''
           else and_then (account_list v ''authorAllowList'') (\<lambda>allow.
                and_then (account_list v ''authorBlockList'') (\<lambda>block.
                  Inr \<lparr>cp_enabled = (jget kvs ''enabled'' = JBool True), cp_direction = direction, cp_allow = allow, cp_block = block\<rparr>)))
   | _ \<Rightarrow> Inl ''commentSync must be an object'')"

definition policy_of :: "connector_row \<Rightarrow> string + comment_policy" where
  "policy_of c = validate_comment_sync (jprop (cr_config c) ''commentSync'')"

definition comment_can_read :: "comment_policy \<Rightarrow> bool" where
  "comment_can_read p \<longleftrightarrow> cp_enabled p \<and> cp_direction p \<in> {''from_source'', ''bidirectional''}"

definition comment_can_write :: "comment_policy \<Rightarrow> bool" where
  "comment_can_write p \<longleftrightarrow> cp_enabled p \<and> cp_direction p \<in> {''to_source'', ''bidirectional''}"

definition comment_author_permitted :: "comment_policy \<Rightarrow> string \<Rightarrow> bool" where
  "comment_author_permitted p author =
     (let i = lower (trim author)
      in i \<noteq> [] \<and> i \<notin> set (map lower (cp_block p)) \<and> (cp_allow p = [] \<or> i \<in> set (map lower (cp_allow p))))"

subsection \<open>Markers\<close>

definition marker_char :: "char \<Rightarrow> bool" where
  "marker_char c \<longleftrightarrow> c \<in> set ''0123456789abcdef-''"

definition marker_head :: string where
  "marker_head = ''[cadena-comment:''"

text \<open>The regular expression of both adapters, tried at every position from the left.\<close>

definition marker_at :: "string \<Rightarrow> string option" where
  "marker_at s =
     (let t = map lower_char s; m = take 36 (drop 16 t)
      in if take 16 t = marker_head \<and> length m = 36 \<and> list_all marker_char m \<and> take 1 (drop 52 t) = '']'' then Some m else None)"

fun comment_marker :: "string \<Rightarrow> string option" where
  "comment_marker [] = None"
| "comment_marker (c # cs) = (case marker_at (c # cs) of Some m \<Rightarrow> Some m | None \<Rightarrow> comment_marker cs)"

text \<open>What \<^verbatim>\<open>transferredCommentBody\<close> puts between the text and the author: the bytes of the dash as the source file has them.\<close>

definition attribution_dash :: string where
  "attribution_dash = [CHR 0xC3, CHR 0xA2, CHR 0xE2, CHR 0x82, CHR 0xAC, CHR 0xE2, CHR 0x80, CHR 0x9D]"

definition attributed :: "string \<Rightarrow> string \<Rightarrow> string \<Rightarrow> string \<Rightarrow> string" where
  "attributed body name author sys = trim body @ [CHR 0x0A, CHR 0x0A] @ attribution_dash @ '' Originally posted by '' @
     (if name = [] then author else name) @ '' ('' @ author @ '') in '' @ provider_name sys @ [CHR 0x0A]"

definition transferred_comment_body :: "string \<Rightarrow> string \<Rightarrow> string \<Rightarrow> string \<Rightarrow> string \<Rightarrow> string" where
  "transferred_comment_body body name author sys marker =
     attributed body name author sys @ marker_head @ marker @ '']''"

subsection \<open>Comment texts in Jira\<close>

text \<open>\<^verbatim>\<open>split(/\r?\n/)\<close>: a carriage return before a line feed belongs to the separator.\<close>

fun text_lines :: "string \<Rightarrow> string list" where
  "text_lines [] = [[]]"
| "text_lines (c # cs) =
     (if c = CHR 0x0A then [] # text_lines cs
      else if c = CHR 0x0D \<and> take 1 cs = [CHR 0x0A] then text_lines cs
      else case text_lines cs of [] \<Rightarrow> [[c]] | l # ls \<Rightarrow> (c # l) # ls)"

definition jira_comment_adf :: "string \<Rightarrow> jsval" where
  "jira_comment_adf s = JObj [(''type'', JStr ''doc''), (''version'', JInt 1),
     (''content'', JArr (map (\<lambda>l. JObj [(''type'', JStr ''paragraph''),
        (''content'', JArr (if l = [] then [] else [JObj [(''type'', JStr ''text''), (''text'', JStr l)]]))]) (text_lines s)))]"

definition block_node :: "jsval \<Rightarrow> bool" where
  "block_node v \<longleftrightarrow> v \<in> JStr ` {''paragraph'', ''heading'', ''blockquote'', ''listItem''}"

lemma jprop_smaller: "jprop v k = JArr vs \<Longrightarrow> x \<in> set vs \<Longrightarrow> size x < size v"
proof -
  assume a: "jprop v k = JArr vs" "x \<in> set vs"
  then obtain kvs where v: "v = JObj kvs" and m: "map_of kvs k = Some (JArr vs)"
    by (cases v) (auto simp: jprop_def jget_def split: option.splits)
  have "(k, JArr vs) \<in> set kvs" using m by (rule map_of_SomeD)
  then have "size (JArr vs) < size v" unfolding v by (auto simp: size_list_estimation' less_Suc_eq_le intro!: size_list_estimation' [where x = "(k, JArr vs)"])
  moreover have "size x < size (JArr vs)" using a(2) by (simp add: size_list_estimation' less_Suc_eq_le)
  ultimately show ?thesis by simp
qed

function (sequential) jira_comment_text :: "jsval \<Rightarrow> string" where
  "jira_comment_text (JStr s) = s"
| "jira_comment_text (JObj kvs) =
     (let v = JObj kvs
      in if jprop v ''type'' = JStr ''text'' then (if js_truthy (jprop v ''text'') then js_text (jprop v ''text'') else [])
         else (case jprop v ''content'' of JArr vs \<Rightarrow> concat (map jira_comment_text vs) | _ \<Rightarrow> []) @
              (if block_node (jprop v ''type'') then [CHR 0x0A] else []))"
| "jira_comment_text v = []"
  by pat_completeness auto
termination by (relation "measure size") (auto dest: jprop_smaller)

subsection \<open>Stored comments and deliveries\<close>

record public_comment =
  pc_external_id :: string
  pc_body :: string
  pc_author_id :: string
  pc_author_name :: string
  pc_created_at :: string
  pc_url :: "string option"
  pc_marker :: "string option"

record stored_comment =
  sm_id :: uuid
  sm_org_id :: string
  sm_twin :: uuid
  sm_connector :: uuid
  sm_provider_id :: string
  sm_body :: string
  sm_author_id :: string
  sm_author_name :: string
  sm_system :: string
  sm_created_at :: time
  sm_url :: "string option"

datatype delivery_status = DeliveryPending | DeliveryProcessing | DeliveryExecuted | DeliveryFailed | DeliveryDead | DeliverySkipped

record comment_delivery =
  dy_id :: uuid
  dy_org_id :: string
  dy_comment :: uuid
  dy_connector :: uuid
  dy_twin :: uuid
  dy_marker :: string
  dy_status :: delivery_status
  dy_attempts :: int
  dy_target_comment :: "string option"
  dy_last_error :: "string option"
  dy_next_attempt_at :: "time option"
  dy_claimed_by :: "string option"
  dy_claim_expires_at :: "time option"
  dy_executed_at :: "time option"
  dy_created_at :: time

record comment_store = wo_store +
  public_comments :: "stored_comment list"
  deliveries_of :: "comment_delivery list"

record comment_counts =
  cc_fetched :: nat
  cc_stored :: nat
  cc_filtered :: nat
  cc_transferred :: nat
  cc_failed :: nat

definition set_delivery :: "(comment_delivery \<Rightarrow> bool) \<Rightarrow> (comment_delivery \<Rightarrow> comment_delivery) \<Rightarrow> 'z comment_store_scheme \<Rightarrow> 'z comment_store_scheme" where
  "set_delivery P f st = st\<lparr>deliveries_of := update_where P f (deliveries_of st)\<rparr>"

definition other_end :: "uuid \<Rightarrow> corr_link \<Rightarrow> uuid" where
  "other_end n l = (if ck_source l = n then ck_target l else ck_source l)"

definition delivery_targets :: "string \<Rightarrow> uuid \<Rightarrow> 'z comment_store_scheme \<Rightarrow> (twin \<times> connector_row) list" where
  "delivery_targets org n st = concat (map (\<lambda>l. concat (map (\<lambda>t.
       case find_connector org (tw_connector_id t) st of Some c \<Rightarrow> [(t, c)] | None \<Rightarrow> [])
     (filter (\<lambda>t. tw_org_id t = org \<and> tw_node_id t = Some (other_end n l)) (twins st))))
     (filter (\<lambda>l. ck_org_id l = org \<and> ck_relationship l = ''counterpart'' \<and> (ck_source l = n \<or> ck_target l = n)) (corr_links st)))"

definition new_delivery :: "uuid \<Rightarrow> time \<Rightarrow> string \<Rightarrow> uuid \<Rightarrow> twin \<Rightarrow> connector_row \<Rightarrow> comment_delivery" where
  "new_delivery i now org comment t c = \<lparr>dy_id = i, dy_org_id = org, dy_comment = comment, dy_connector = cr_id c, dy_twin = tw_id t,
     dy_marker = i, dy_status = DeliveryPending, dy_attempts = 0, dy_target_comment = None, dy_last_error = None, dy_next_attempt_at = None,
     dy_claimed_by = None, dy_claim_expires_at = None, dy_executed_at = None, dy_created_at = now\<rparr>"

definition insert_delivery :: "comment_delivery \<Rightarrow> 'z comment_store_scheme \<Rightarrow> 'z comment_store_scheme" where
  "insert_delivery d st =
     (if \<exists>e \<in> set (deliveries_of st). dy_comment e = dy_comment d \<and> dy_twin e = dy_twin d then st
      else st\<lparr>deliveries_of := deliveries_of st @ [d]\<rparr>)"

fun deliver_to ::
  "(nat \<Rightarrow> uuid) \<Rightarrow> time \<Rightarrow> string \<Rightarrow> uuid \<Rightarrow> (twin \<times> connector_row) list \<Rightarrow> 'z comment_store_scheme \<Rightarrow> string option \<times> 'z comment_store_scheme" where
  "deliver_to ids now org comment [] st = (None, st)"
| "deliver_to ids now org comment ((t, c) # ts) st =
     (case policy_of c of
        Inl e \<Rightarrow> (Some e, st)
      | Inr p \<Rightarrow> deliver_to (\<lambda>n. ids (Suc n)) now org comment ts
          (if comment_can_write p then insert_delivery (new_delivery (ids 0) now org comment t c) st else st))"

definition ensure_comment_deliveries ::
  "(nat \<Rightarrow> uuid) \<Rightarrow> time \<Rightarrow> string \<Rightarrow> uuid \<Rightarrow> uuid \<Rightarrow> 'z comment_store_scheme \<Rightarrow> string option \<times> 'z comment_store_scheme" where
  "ensure_comment_deliveries ids now org comment source st =
     (case find (\<lambda>t. tw_id t = source \<and> tw_org_id t = org) (twins st) of
        None \<Rightarrow> (None, st)
      | Some t \<Rightarrow> (case tw_node_id t of None \<Rightarrow> (None, st) | Some n \<Rightarrow> deliver_to ids now org comment (delivery_targets org n st) st))"

fun ensure_all :: "(nat \<Rightarrow> nat \<Rightarrow> uuid) \<Rightarrow> time \<Rightarrow> string \<Rightarrow> stored_comment list \<Rightarrow> 'z comment_store_scheme \<Rightarrow> string option \<times> 'z comment_store_scheme" where
  "ensure_all ids now org [] st = (None, st)"
| "ensure_all ids now org (m # ms) st =
     (case ensure_comment_deliveries (ids 0) now org (sm_id m) (sm_twin m) st of
        (Some e, st1) \<Rightarrow> (Some e, st1) | (None, st1) \<Rightarrow> ensure_all (\<lambda>n. ids (Suc n)) now org ms st1)"

definition ensure_connector_comment_deliveries ::
  "(nat \<Rightarrow> nat \<Rightarrow> uuid) \<Rightarrow> time \<Rightarrow> string \<Rightarrow> uuid \<Rightarrow> 'z comment_store_scheme \<Rightarrow> string option \<times> 'z comment_store_scheme" where
  "ensure_connector_comment_deliveries ids now org c st =
     ensure_all ids now org (take 10000 (sort_key sm_created_at
       (filter (\<lambda>m. sm_org_id m = org \<and> sm_connector m = c) (public_comments st)))) st"

definition list_public_comments :: "string \<Rightarrow> uuid list \<Rightarrow> 'z comment_store_scheme \<Rightarrow> stored_comment list" where
  "list_public_comments org ts st = take 1000 (sort_key sm_created_at (sort_key sm_id
     (filter (\<lambda>m. sm_org_id m = org \<and> sm_twin m \<in> set ts) (public_comments st))))"

subsection \<open>Reading the comments of a record\<close>

definition valid_public_comment :: "(string \<Rightarrow> time option) \<Rightarrow> public_comment \<Rightarrow> bool" where
  "valid_public_comment instant c \<longleftrightarrow> trim (pc_external_id c) \<noteq> [] \<and> trim (pc_body c) \<noteq> [] \<and> trim (pc_author_id c) \<noteq> [] \<and>
     trim (pc_author_name c) \<noteq> [] \<and> instant (pc_created_at c) \<noteq> None"

definition is_comment_echo :: "string \<Rightarrow> uuid \<Rightarrow> uuid \<Rightarrow> public_comment \<Rightarrow> 'z comment_store_scheme \<Rightarrow> bool" where
  "is_comment_echo org c t m st = (case or_null (pc_marker m) of None \<Rightarrow> False
     | Some mk \<Rightarrow> \<exists>d \<in> set (deliveries_of st). dy_org_id d = org \<and> dy_connector d = c \<and> dy_twin d = t \<and> dy_marker d = lower mk)"

definition stored_comment_of :: "uuid \<Rightarrow> time \<Rightarrow> string \<Rightarrow> connector_row \<Rightarrow> uuid \<Rightarrow> public_comment \<Rightarrow> stored_comment" where
  "stored_comment_of i created org c t m = \<lparr>sm_id = i, sm_org_id = org, sm_twin = t, sm_connector = cr_id c, sm_provider_id = pc_external_id m,
     sm_body = trim (pc_body m), sm_author_id = pc_author_id m, sm_author_name = pc_author_name m, sm_system = cr_provider c,
     sm_created_at = created, sm_url = or_null (pc_url m)\<rparr>"

text \<open>\<^verbatim>\<open>INSERT ... ON CONFLICT DO NOTHING\<close>, then the row there was: the id, whether it is new, and the table.\<close>

definition store_comment :: "string \<Rightarrow> stored_comment \<Rightarrow> 'z comment_store_scheme \<Rightarrow> uuid option \<times> bool \<times> 'z comment_store_scheme" where
  "store_comment org m st =
     (if \<exists>x \<in> set (public_comments st). sm_connector x = sm_connector m \<and> sm_provider_id x = sm_provider_id m
      then (map_option sm_id (find (\<lambda>x. sm_org_id x = org \<and> sm_connector x = sm_connector m \<and> sm_provider_id x = sm_provider_id m)
              (public_comments st)), False, st)
      else (Some (sm_id m), True, st\<lparr>public_comments := public_comments st @ [m]\<rparr>))"

fun store_comments ::
  "(string \<Rightarrow> time option) \<Rightarrow> (nat \<Rightarrow> nat \<Rightarrow> uuid) \<Rightarrow> time \<Rightarrow> string \<Rightarrow> connector_row \<Rightarrow> comment_policy \<Rightarrow> uuid \<Rightarrow> public_comment list
   \<Rightarrow> comment_counts \<times> 'z comment_store_scheme \<Rightarrow> string option \<times> comment_counts \<times> 'z comment_store_scheme" where
  "store_comments instant ids now org c p t [] s = (None, s)"
| "store_comments instant ids now org c p t (m # ms) (n, st) =
     (if \<not> (valid_public_comment instant m \<and> comment_author_permitted p (pc_author_id m)) \<or> is_comment_echo org (cr_id c) t m st
      then store_comments instant (\<lambda>k. ids (Suc k)) now org c p t ms (n\<lparr>cc_filtered := cc_filtered n + 1\<rparr>, st)
      else (let (stored, new, st1) = store_comment org (stored_comment_of (ids 0 0) (the (instant (pc_created_at m))) org c t m) st;
                n1 = (if new then n\<lparr>cc_stored := cc_stored n + 1\<rparr> else n)
            in case (case stored of None \<Rightarrow> (None, st1) | Some i \<Rightarrow> ensure_comment_deliveries (\<lambda>k. ids 0 (Suc k)) now org i t st1) of
                 (Some e, st2) \<Rightarrow> (Some e, n1, st2)
               | (None, st2) \<Rightarrow> store_comments instant (\<lambda>k. ids (Suc k)) now org c p t ms (n1, st2)))"

definition sync_record_comments ::
  "(string \<Rightarrow> time option) \<Rightarrow> (nat \<Rightarrow> nat \<Rightarrow> uuid) \<Rightarrow> time \<Rightarrow> string \<Rightarrow> connector_row \<Rightarrow> (string \<Rightarrow> string \<Rightarrow> process_error + public_comment list) option
   \<Rightarrow> provider_record \<Rightarrow> uuid \<Rightarrow> comment_counts \<times> 'z comment_store_scheme \<Rightarrow> (process_error + unit) \<times> comment_counts \<times> 'z comment_store_scheme" where
  "sync_record_comments instant ids now org c fetch r t = (\<lambda>(n, st).
     case policy_of c of
       Inl e \<Rightarrow> (Inl (RecordFailed e), n, st)
     | Inr p \<Rightarrow>
         if \<not> comment_can_read p then (Inr (), n, st)
         else case fetch of
                None \<Rightarrow> (Inl (RecordFailed (cr_provider c @ '' does not support public-comment reads'')), n, st)
              | Some f \<Rightarrow>
                  (case f (pv_artifact_type r) (pv_external_id r) of
                     Inl e \<Rightarrow> (Inl e, n, st)
                   | Inr ms \<Rightarrow>
                       (case store_comments instant ids now org c p t ms (n\<lparr>cc_fetched := cc_fetched n + length ms\<rparr>, st) of
                          (Some e, s) \<Rightarrow> (Inl (RecordFailed e), s) | (None, s) \<Rightarrow> (Inr (), s))))"

subsection \<open>One delivery\<close>

datatype provider_error =
    ProviderShed time string
  | ProviderRemote bool "int option" string
  | ProviderCredential string
  | ProviderRefused string

text \<open>An adapter that lacks one of the two optional methods has \<open>None\<close> for it.\<close>

record 'p comment_provider =
  vd_read :: "(string \<Rightarrow> string \<Rightarrow> 'p \<Rightarrow> provider_error + public_comment list) option"
  vd_push :: "(string \<Rightarrow> string \<Rightarrow> string \<Rightarrow> 'p \<Rightarrow> (provider_error + string) \<times> 'p) option"

record due_delivery =
  du_delivery :: comment_delivery
  du_comment :: stored_comment
  du_twin :: twin
  du_target :: connector_row
  du_source :: connector_row

text \<open>One attempt: the clock, the claim and the id it draws, what building the adapter's context throws, and
  what others commit while the provider answers.\<close>

record 's delivery_run =
  dr_claimed_at :: time
  dr_done_at :: time
  dr_claim :: string
  dr_fresh :: uuid
  dr_context :: "string option"
  dr_race :: "'s \<Rightarrow> 's"

definition delivery_claimable :: "time \<Rightarrow> comment_delivery \<Rightarrow> bool" where
  "delivery_claimable now d \<longleftrightarrow> dy_status d \<in> {DeliveryPending, DeliveryFailed} \<or>
     dy_status d = DeliveryProcessing \<and> claim_expired now (dy_claim_expires_at d)"

definition join_delivery :: "string \<Rightarrow> 'z comment_store_scheme \<Rightarrow> comment_delivery \<Rightarrow> due_delivery option" where
  "join_delivery org st d =
     (case (find (\<lambda>m. sm_id m = dy_comment d \<and> sm_org_id m = org) (public_comments st),
            find (\<lambda>t. tw_id t = dy_twin d \<and> tw_org_id t = org) (twins st), find_connector org (dy_connector d) st) of
        (Some m, Some t, Some c) \<Rightarrow>
          (case find_connector org (sm_connector m) st of
             None \<Rightarrow> None
           | Some s \<Rightarrow> Some \<lparr>du_delivery = d, du_comment = m, du_twin = t, du_target = c, du_source = s\<rparr>)
      | _ \<Rightarrow> None)"

definition all_due :: "time \<Rightarrow> string \<Rightarrow> 'z comment_store_scheme \<Rightarrow> due_delivery list" where
  "all_due now org st = List.map_filter (join_delivery org st) (sort_key dy_created_at (sort_key dy_id
     (filter (\<lambda>d. dy_org_id d = org \<and> delivery_claimable now d \<and> claim_expired now (dy_next_attempt_at d)) (deliveries_of st))))"

definition due_deliveries :: "time \<Rightarrow> string \<Rightarrow> 'z comment_store_scheme \<Rightarrow> due_delivery list" where
  "due_deliveries now org st = take 50 (all_due now org st)"

definition claimed_delivery :: "time \<Rightarrow> string \<Rightarrow> comment_delivery \<Rightarrow> comment_delivery" where
  "claimed_delivery now claim d = d\<lparr>dy_status := DeliveryProcessing, dy_attempts := dy_attempts d + 1, dy_claimed_by := Some claim,
     dy_claim_expires_at := Some (now + work_order_claim_ms)\<rparr>"

definition claim_delivery ::
  "time \<Rightarrow> string \<Rightarrow> string \<Rightarrow> uuid \<Rightarrow> 'z comment_store_scheme \<Rightarrow> (comment_delivery \<times> 'z comment_store_scheme) option" where
  "claim_delivery now claim org i st =
     (let P = (\<lambda>d. dy_id d = i \<and> dy_org_id d = org \<and> delivery_claimable now d)
      in case find P (deliveries_of st) of
           None \<Rightarrow> None | Some d \<Rightarrow> Some (claimed_delivery now claim d, set_delivery P (claimed_delivery now claim) st))"

definition delivery_marker :: "due_delivery \<Rightarrow> string" where
  "delivery_marker r = lower (dy_marker (du_delivery r))"

definition delivery_body :: "due_delivery \<Rightarrow> string" where
  "delivery_body r = transferred_comment_body (sm_body (du_comment r)) (sm_author_name (du_comment r)) (sm_author_id (du_comment r))
     (sm_system (du_comment r)) (delivery_marker r)"

text \<open>The comment that already carries the marker, or a new one.\<close>

definition exchange :: "'p comment_provider \<Rightarrow> connector_row \<Rightarrow> due_delivery \<Rightarrow> 'p \<Rightarrow> (provider_error + string) \<times> 'p" where
  "exchange v c r p =
     (let ty = tw_artifact_type (du_twin r); ext = tw_external_id (du_twin r)
      in case vd_push v of
           None \<Rightarrow> (Inl (ProviderRefused (cr_provider c @ '' does not support public-comment writes'')), p)
         | Some push \<Rightarrow>
             (case (case vd_read v of None \<Rightarrow> Inr [] | Some read \<Rightarrow> read ty ext p) of
                Inl e \<Rightarrow> (Inl e, p)
              | Inr ms \<Rightarrow>
                  (case find (\<lambda>m. map_option lower (pc_marker m) = Some (delivery_marker r)) ms of
                     Some m \<Rightarrow> (Inr (pc_external_id m), p)
                   | None \<Rightarrow> push ty ext (delivery_body r) p)))"

definition my_delivery :: "string \<Rightarrow> uuid \<Rightarrow> string \<Rightarrow> comment_delivery \<Rightarrow> bool" where
  "my_delivery org i claim d \<longleftrightarrow> dy_id d = i \<and> dy_org_id d = org \<and> dy_claimed_by d = Some claim"

definition executed_delivery :: "time \<Rightarrow> string \<Rightarrow> comment_delivery \<Rightarrow> comment_delivery" where
  "executed_delivery now target d = d\<lparr>dy_status := DeliveryExecuted, dy_target_comment := Some target, dy_last_error := None,
     dy_next_attempt_at := None, dy_claimed_by := None, dy_claim_expires_at := None, dy_executed_at := Some now\<rparr>"

definition failed_delivery :: "delivery_status \<Rightarrow> string \<Rightarrow> time option \<Rightarrow> comment_delivery \<Rightarrow> comment_delivery" where
  "failed_delivery s message nxt d = d\<lparr>dy_status := s, dy_last_error := Some (take 500 message), dy_next_attempt_at := nxt,
     dy_claimed_by := None, dy_claim_expires_at := None\<rparr>"

definition deferred_delivery :: "time \<Rightarrow> string \<Rightarrow> comment_delivery \<Rightarrow> comment_delivery" where
  "deferred_delivery until_t message d = d\<lparr>dy_status := DeliveryPending, dy_attempts := max (dy_attempts d - 1) 0,
     dy_last_error := Some (take 500 (''Deferred: '' @ message)), dy_next_attempt_at := Some until_t, dy_claimed_by := None,
     dy_claim_expires_at := None\<rparr>"

definition skipped_delivery :: "comment_delivery \<Rightarrow> comment_delivery" where
  "skipped_delivery d = d\<lparr>dy_status := DeliverySkipped,
     dy_last_error := Some ''Current source or target comment policy does not permit this transfer''\<rparr>"

definition transferred_event :: "string \<Rightarrow> connector_row \<Rightarrow> due_delivery \<Rightarrow> string \<Rightarrow> outbox_input" where
  "transferred_event org c r target =
     connector_event org (tw_id (du_twin r)) (''connector:'' @ cr_id c) ''PublicCommentTransferred''
       [(''comment_id'', JStr (sm_id (du_comment r))), (''delivery_id'', JStr (dy_id (du_delivery r))),
        (''target_connector_id'', JStr (cr_id c)), (''target_twin_id'', JStr (tw_id (du_twin r))), (''target_comment_id'', JStr target),
        (''original_author_id'', JStr (sm_author_id (du_comment r))), (''source_system'', JStr (sm_system (du_comment r)))]"

definition transfer_failed_event :: "string \<Rightarrow> connector_row \<Rightarrow> due_delivery \<Rightarrow> int \<Rightarrow> bool \<Rightarrow> bool \<Rightarrow> string \<Rightarrow> outbox_input" where
  "transfer_failed_event org c r attempts retryable final message =
     connector_event org (tw_id (du_twin r)) (''connector:'' @ cr_id c) ''PublicCommentTransferFailed''
       [(''comment_id'', JStr (sm_id (du_comment r))), (''delivery_id'', JStr (dy_id (du_delivery r))),
        (''target_connector_id'', JStr (cr_id c)), (''target_twin_id'', JStr (tw_id (du_twin r))), (''attempts'', JInt attempts),
        (''retryable'', JBool retryable), (''final'', JBool final), (''error'', JStr message)]"

definition provider_message :: "provider_error \<Rightarrow> string" where
  "provider_message e = (case e of ProviderShed _ m \<Rightarrow> m | ProviderRemote _ _ m \<Rightarrow> m | ProviderCredential m \<Rightarrow> m | ProviderRefused m \<Rightarrow> m)"

definition provider_retryable :: "provider_error \<Rightarrow> bool" where
  "provider_retryable e = (case e of ProviderRemote b _ _ \<Rightarrow> b | ProviderCredential _ \<Rightarrow> True | _ \<Rightarrow> False)"

definition provider_retry_ms :: "int \<Rightarrow> provider_error \<Rightarrow> int" where
  "provider_retry_ms attempts e = (case e of
     ProviderRemote _ (Some s) _ \<Rightarrow> if s \<noteq> 0 then s * 1000 else retry_backoff attempts | _ \<Rightarrow> retry_backoff attempts)"

definition fail_delivery ::
  "(string \<Rightarrow> string) \<Rightarrow> 'z comment_store_scheme handler \<Rightarrow> 'z comment_store_scheme delivery_run \<Rightarrow> string \<Rightarrow> connector_row \<Rightarrow> due_delivery
   \<Rightarrow> int \<Rightarrow> provider_error \<Rightarrow> 'z comment_store_scheme \<Rightarrow> string option \<times> bool \<times> 'z comment_store_scheme" where
  "fail_delivery sha pub run org c r attempts e st =
     (let mine = my_delivery org (dy_id (du_delivery r)) (dr_claim run); message = provider_message e
      in case e of
           ProviderShed until_t m \<Rightarrow> (None, False, set_delivery mine (deferred_delivery until_t m) st)
         | _ \<Rightarrow>
             (let again = provider_retryable e \<and> attempts < max_work_order_attempts;
                  s = (if again then DeliveryFailed else DeliveryDead);
                  nxt = (if again then Some (dr_done_at run + provider_retry_ms attempts e) else None)
              in case with_event sha pub (dr_fresh run) (dr_done_at run)
                     (transfer_failed_event org c r attempts (provider_retryable e) (\<not> again) message)
                     (set_delivery mine (failed_delivery s message nxt) st) of
                   Inl d \<Rightarrow> (Some (show_db_error d), False, st)
                 | Inr (_, st1) \<Rightarrow> (None, True, st1)))"

definition settle_delivery ::
  "(string \<Rightarrow> string) \<Rightarrow> 'z comment_store_scheme handler \<Rightarrow> 'z comment_store_scheme delivery_run \<Rightarrow> string \<Rightarrow> connector_row \<Rightarrow> due_delivery
   \<Rightarrow> int \<Rightarrow> provider_error + string \<Rightarrow> comment_counts \<times> 'z comment_store_scheme \<Rightarrow> string option \<times> comment_counts \<times> 'z comment_store_scheme" where
  "settle_delivery sha pub run org c r attempts outcome = (\<lambda>(n, st).
     let fail = (\<lambda>e. case fail_delivery sha pub run org c r attempts e st of
                       (err, counted, st1) \<Rightarrow> (err, if counted then n\<lparr>cc_failed := cc_failed n + 1\<rparr> else n, st1))
     in case outcome of
          Inl e \<Rightarrow> fail e
        | Inr target \<Rightarrow>
            (case with_event sha pub (dr_fresh run) (dr_done_at run) (transferred_event org c r target)
                 (set_delivery (my_delivery org (dy_id (du_delivery r)) (dr_claim run)) (executed_delivery (dr_done_at run) target) st) of
               Inl d \<Rightarrow> fail (ProviderRefused (show_db_error d))
             | Inr (_, st1) \<Rightarrow> (None, n\<lparr>cc_transferred := cc_transferred n + 1\<rparr>, st1)))"

text \<open>\<^verbatim>\<open>getConnector\<close>, \<^verbatim>\<open>getAdapter\<close> and \<^verbatim>\<open>context\<close> stand between the claim and the \<^verbatim>\<open>try\<close>: what they throw
  leaves the delivery claimed and ends the loop and its caller.\<close>

definition execute_comment_delivery ::
  "(string \<Rightarrow> string) \<Rightarrow> 'z comment_store_scheme handler \<Rightarrow> (connector_row \<Rightarrow> 'p comment_provider) \<Rightarrow> 'z comment_store_scheme delivery_run \<Rightarrow> string
   \<Rightarrow> due_delivery \<Rightarrow> comment_counts \<times> 'p \<times> 'z comment_store_scheme \<Rightarrow> string option \<times> comment_counts \<times> 'p \<times> 'z comment_store_scheme" where
  "execute_comment_delivery sha pub vend run org r = (\<lambda>(n, p, st).
     case claim_delivery (dr_claimed_at run) (dr_claim run) org (dy_id (du_delivery r)) st of
       None \<Rightarrow> (None, n, p, st)
     | Some (d, st1) \<Rightarrow>
         (case find_connector org (dy_connector (du_delivery r)) st1 of
            None \<Rightarrow> (Some (''Connector '' @ dy_connector (du_delivery r) @ '' not found''), n, p, st1)
          | Some c \<Rightarrow>
              (case dr_context run of
                 Some e \<Rightarrow> (Some e, n, p, st1)
               | None \<Rightarrow>
                   (case exchange (vend c) c r p of
                      (outcome, p1) \<Rightarrow>
                        (case settle_delivery sha pub run org c r (dy_attempts d) outcome (n, dr_race run st1) of
                           (err, n1, st2) \<Rightarrow> (err, n1, p1, st2))))))"

record 's delivery_turn =
  lt_now :: time
  lt_run :: "uuid \<Rightarrow> 's delivery_run"

definition waits_for_target :: "due_delivery \<Rightarrow> comment_policy \<Rightarrow> bool" where
  "waits_for_target r p \<longleftrightarrow> cr_activated_at (du_target r) = None \<or> cr_status (du_target r) = ''paused'' \<or> \<not> comment_can_write p"

definition transfer_permitted :: "due_delivery \<Rightarrow> comment_policy \<Rightarrow> comment_policy \<Rightarrow> bool" where
  "transfer_permitted r source target \<longleftrightarrow> comment_can_read source \<and> comment_author_permitted source (sm_author_id (du_comment r)) \<and>
     comment_author_permitted target (sm_author_id (du_comment r))"

fun deliver_rows ::
  "(string \<Rightarrow> string) \<Rightarrow> 'z comment_store_scheme handler \<Rightarrow> (connector_row \<Rightarrow> 'p comment_provider) \<Rightarrow> (uuid \<Rightarrow> 'z comment_store_scheme delivery_run) \<Rightarrow> string
   \<Rightarrow> due_delivery list \<Rightarrow> nat \<times> comment_counts \<times> 'p \<times> 'z comment_store_scheme \<Rightarrow> string option \<times> nat \<times> comment_counts \<times> 'p \<times> 'z comment_store_scheme" where
  "deliver_rows sha pub vend run org [] s = (None, s)"
| "deliver_rows sha pub vend run org (r # rs) (k, n, p, st) =
     (case (policy_of (du_source r), policy_of (du_target r)) of
        (Inl e, _) \<Rightarrow> (Some e, k, n, p, st)
      | (_, Inl e) \<Rightarrow> (Some e, k, n, p, st)
      | (Inr source, Inr target) \<Rightarrow>
          if waits_for_target r target then deliver_rows sha pub vend run org rs (k, n, p, st)
          else if \<not> transfer_permitted r source target
          then deliver_rows sha pub vend run org rs (Suc k, n, p,
                 set_delivery (\<lambda>d. dy_id d = dy_id (du_delivery r) \<and> dy_org_id d = org) skipped_delivery st)
          else (case execute_comment_delivery sha pub vend (run (dy_id (du_delivery r))) org r (n, p, st) of
                  (Some e, s) \<Rightarrow> (Some e, k, s)
                | (None, s) \<Rightarrow> deliver_rows sha pub vend run org rs (Suc k, s)))"

text \<open>\<open>turns k\<close> is the \<open>k\<close>-th turn of the loop; a turn that settles nothing is the last one.\<close>

function process_due_deliveries ::
  "(string \<Rightarrow> string) \<Rightarrow> 'z comment_store_scheme handler \<Rightarrow> (connector_row \<Rightarrow> 'p comment_provider) \<Rightarrow> (nat \<Rightarrow> 'z comment_store_scheme delivery_turn) \<Rightarrow> string
   \<Rightarrow> nat \<Rightarrow> nat \<Rightarrow> comment_counts \<times> 'p \<times> 'z comment_store_scheme \<Rightarrow> string option \<times> comment_counts \<times> 'p \<times> 'z comment_store_scheme" where
  "process_due_deliveries sha pub vend turns org k processed (n, p, st) =
     (if processed \<ge> 500 then (None, n, p, st)
      else (case due_deliveries (lt_now (turns k)) org st of
              [] \<Rightarrow> (None, n, p, st)
            | r # rs \<Rightarrow>
                (case deliver_rows sha pub vend (lt_run (turns k)) org (r # rs) (0, n, p, st) of
                   (Some e, _, s) \<Rightarrow> (Some e, s)
                 | (None, j, s) \<Rightarrow> if j = 0 then (None, s)
                     else process_due_deliveries sha pub vend turns org (Suc k) (processed + j) s)))"
  by pat_completeness auto
termination by (relation "measure (\<lambda>(sha, pub, vend, turns, org, k, processed, s). 500 - processed)") auto

declare process_due_deliveries.simps [simp del]

subsection \<open>The marker is read back\<close>

lemma length_marker_head [simp]: "length marker_head = 16"
  by (simp add: marker_head_def)

lemma marker_char_lower: "marker_char c \<Longrightarrow> lower_char c = c"
  by (auto simp: marker_char_def lower_char_def)

lemma lower_code: "(of_char (lower_char c) :: nat) =
  (let n = of_char c in if (65 \<le> n \<and> n \<le> 90) \<or> (192 \<le> n \<and> n \<le> 222 \<and> n \<noteq> 215) then n + 32 else n)"
  by (simp add: lower_char_def Let_def)

lemma lower_ws: "is_ws (lower_char c) \<longleftrightarrow> is_ws c"
proof -
  have "(9 \<le> k \<and> k \<le> 13 \<or> k = 32 \<or> k = 160) = (9 \<le> n \<and> n \<le> 13 \<or> n = 32 \<or> n = 160)"
    if "k = (if (65 \<le> n \<and> n \<le> 90) \<or> (192 \<le> n \<and> n \<le> 222 \<and> n \<noteq> 215) then n + 32 else n)" for k n :: nat
    using that by presburger
  then show ?thesis unfolding is_ws_def lower_code Let_def by simp
qed

lemma char_no_ws: "marker_char c \<Longrightarrow> \<not> is_ws c" "\<not> is_ws (CHR '']'')"
  by (auto simp: marker_char_def is_ws_def)

lemma head_no_ws: "list_all (\<lambda>c. \<not> is_ws c) marker_head"
  by (simp add: marker_head_def is_ws_def)

lemma marker_atD:
  assumes "marker_at s = Some m"
  shows "53 \<le> length s" "list_all (\<lambda>c. \<not> is_ws c) (take 53 s)"
proof -
  let ?t = "map lower_char s"
  have m: "take 16 ?t = marker_head" "length (take 36 (drop 16 ?t)) = 36" "list_all marker_char (take 36 (drop 16 ?t))"
      "take 1 (drop 52 ?t) = '']''"
    using assms by (auto simp: marker_at_def Let_def split: if_splits)
  have "drop 52 ?t \<noteq> []" using m(4) by auto
  then show "53 \<le> length s" by simp
  have "take (16 + (36 + 1)) ?t = take 16 ?t @ take 36 (drop 16 ?t) @ take 1 (drop 36 (drop 16 ?t))" by (simp only: take_add)
  then have "take 53 ?t = take 16 ?t @ take 36 (drop 16 ?t) @ take 1 (drop 52 ?t)" by simp
  then have "take 53 ?t = marker_head @ take 36 (drop 16 ?t) @ '']''" using m by simp
  moreover have "list_all (\<lambda>c. \<not> is_ws c) (marker_head @ take 36 (drop 16 ?t) @ '']'')"
    using m(3) head_no_ws char_no_ws unfolding list_all_iff set_append by auto
  ultimately have "list_all (\<lambda>c. \<not> is_ws c) (map lower_char (take 53 s))" by (simp add: take_map)
  then show "list_all (\<lambda>c. \<not> is_ws c) (take 53 s)" by (simp add: list_all_iff lower_ws)
qed

lemma marker_at_window: "marker_at (take 53 s) = marker_at s"
proof -
  have "take 16 (map lower_char (take 53 s)) = take 16 (map lower_char s)" by (simp add: take_map)
  moreover have "take 36 (drop 16 (map lower_char (take 53 s))) = take 36 (drop 16 (map lower_char s))"
    by (simp add: take_map drop_map drop_take)
  moreover have "take 1 (drop 52 (map lower_char (take 53 s))) = take 1 (drop 52 (map lower_char s))"
    by (simp add: take_map drop_map drop_take)
  ultimately show ?thesis unfolding marker_at_def Let_def by (simp only:)
qed

lemma marker_at_prefix: "take 53 s = take 53 t \<Longrightarrow> marker_at t = marker_at s"
  using marker_at_window by metis

lemma ws_control [simp]: "is_ws (CHR 0x0A)" "is_ws (CHR 0x0D)"
  by (simp_all add: is_ws_def)

text \<open>White space ends what a marker can reach into.\<close>

lemma marker_at_ws:
  assumes "a \<noteq> []" "b = [] \<or> is_ws (last a) \<or> is_ws (hd b)"
  shows "marker_at (a @ b) = marker_at a"
proof (cases "53 \<le> length a")
  case True
  then show ?thesis by (intro marker_at_prefix) simp
next
  case short: False
  then have none: "marker_at a = None" using marker_atD(1) [of a] by (cases "marker_at a") auto
  show ?thesis
  proof (cases "marker_at (a @ b)")
    case (Some m)
    have b: "b \<noteq> []" using marker_atD(1) [OF Some] short by auto
    have "take 53 (a @ b) = a @ take (53 - length a) b" using short by simp
    then have "list_all (\<lambda>c. \<not> is_ws c) (a @ take (53 - length a) b)" using marker_atD(2) [OF Some] by simp
    moreover have "last a \<in> set a" using assms(1) by simp
    moreover have "hd b \<in> set (take (53 - length a) b)" using b short by (cases b; cases "53 - length a") auto
    ultimately have "\<not> is_ws (last a)" "\<not> is_ws (hd b)" by (simp_all add: list_all_iff)
    then show ?thesis using assms(2) b by simp
  qed (use none in simp)
qed

lemma marker_append:
  assumes "a = [] \<or> b = [] \<or> is_ws (last a) \<or> is_ws (hd b)"
  shows "comment_marker (a @ b) = (case comment_marker a of None \<Rightarrow> comment_marker b | Some q \<Rightarrow> Some q)"
  using assms
proof (induction a)
  case (Cons c cs)
  have "marker_at ((c # cs) @ b) = marker_at (c # cs)" using Cons.prems by (intro marker_at_ws) auto
  moreover have "comment_marker (cs @ b) = (case comment_marker cs of None \<Rightarrow> comment_marker b | Some q \<Rightarrow> Some q)"
    using Cons.IH Cons.prems by (cases cs) auto
  ultimately show ?case by (simp split: option.splits)
qed simp

lemma marker_blank: "list_all is_ws w \<Longrightarrow> comment_marker w = None"
proof (induction w)
  case (Cons c cs)
  have "marker_at (c # cs) = None"
  proof (cases "marker_at (c # cs)")
    case (Some m)
    then show ?thesis using marker_atD [OF Some] Cons.prems by simp
  qed simp
  then show ?case using Cons by simp
qed simp

lemma marker_trim: "comment_marker (trim s) = comment_marker s"
proof -
  have left: "comment_marker (dropWhile is_ws u) = comment_marker u" for u
  proof -
    have "list_all is_ws (takeWhile is_ws u)" by (auto simp: list_all_iff dest: set_takeWhileD)
    moreover have "takeWhile is_ws u = [] \<or> dropWhile is_ws u = [] \<or> is_ws (last (takeWhile is_ws u)) \<or> is_ws (hd (dropWhile is_ws u))"
      by (metis last_in_set set_takeWhileD)
    ultimately show ?thesis using marker_append [of "takeWhile is_ws u" "dropWhile is_ws u"] marker_blank by simp
  qed
  have right: "comment_marker (rev (dropWhile is_ws (rev u))) = comment_marker u" for u
  proof -
    let ?a = "rev (dropWhile is_ws (rev u))" and ?w = "rev (takeWhile is_ws (rev u))"
    have "?a @ ?w = u" by (metis rev_append rev_rev_ident takeWhile_dropWhile_id)
    moreover have w: "list_all is_ws ?w" by (auto simp: list_all_iff dest: set_takeWhileD)
    moreover have "?a = [] \<or> ?w = [] \<or> is_ws (last ?a) \<or> is_ws (hd ?w)" using w by (cases ?w) auto
    ultimately show ?thesis using marker_append [of ?a ?w] marker_blank [OF w] by (simp split: option.splits)
  qed
  show ?thesis unfolding trim_def right left ..
qed

lemma lower_bracket: "lower_char c = CHR ''['' \<longleftrightarrow> c = CHR ''[''"
proof -
  have eq: "d = e \<longleftrightarrow> (of_char d :: nat) = of_char e" for d e :: char by simp
  show ?thesis unfolding eq [of "lower_char c"] eq [of c] lower_code by (auto simp: Let_def)
qed

lemma marker_needs_bracket: "CHR ''['' \<notin> set s \<Longrightarrow> comment_marker s = None"
proof (induction s)
  case (Cons c cs)
  have "marker_at (c # cs) = None"
  proof (cases "marker_at (c # cs)")
    case (Some m)
    then have "lower_char c = CHR ''[''" by (auto simp: marker_at_def marker_head_def Let_def split: if_splits)
    then show ?thesis using Cons.prems by (simp add: lower_bracket)
  qed simp
  then show ?case using Cons by simp
qed simp

lemma trim_Nil: "trim s = [] \<longleftrightarrow> list_all is_ws s"
  unfolding trim_def rev_is_Nil_conv dropWhile_eq_Nil_conv set_rev list_all_iff
  by (metis dropWhile_eq_Nil_conv hd_dropWhile hd_in_set set_dropWhileD)

lemma marker_found:
  assumes "length m = 36" "list_all marker_char m"
  shows "comment_marker (marker_head @ m @ '']'') = Some m"
proof -
  have "map lower_char m = m" using assms(2) by (induction m) (auto simp: marker_char_lower)
  moreover have "map lower_char marker_head = marker_head" "map lower_char '']'' = '']''"
    by (simp_all add: marker_head_def lower_char_def)
  ultimately have "map lower_char (marker_head @ m @ '']'') = marker_head @ m @ '']''" by simp
  then have "marker_at (marker_head @ m @ '']'') = Some m" using assms by (simp add: marker_at_def Let_def)
  then show ?thesis by (simp add: marker_head_def)
qed

subsection \<open>The way through Jira\<close>

fun unix_lines :: "string \<Rightarrow> string" where
  "unix_lines [] = []"
| "unix_lines (c # cs) = (if c = CHR 0x0D \<and> take 1 cs = [CHR 0x0A] then unix_lines cs else c # unix_lines cs)"

lemma text_lines_not_Nil [simp]: "text_lines s \<noteq> []"
  by (induction s rule: text_lines.induct) (auto split: list.splits)

lemma lines_joined: "concat (map (\<lambda>l. l @ [CHR 0x0A]) (text_lines s)) = unix_lines s @ [CHR 0x0A]"
proof (induction s rule: text_lines.induct)
  case (2 c cs)
  consider "c = CHR 0x0A" | "c \<noteq> CHR 0x0A" "c = CHR 0x0D \<and> take 1 cs = [CHR 0x0A]"
    | "c \<noteq> CHR 0x0A" "\<not> (c = CHR 0x0D \<and> take 1 cs = [CHR 0x0A])" by blast
  then show ?case
  proof cases
    case 3
    obtain l ls where "text_lines cs = l # ls" by (cases "text_lines cs") auto
    then show ?thesis using 2(3) [OF 3] 3 by auto
  qed (use 2 in auto)
qed simp

lemma jira_text_lines: "jira_comment_text (jira_comment_adf s) = unix_lines s @ [CHR 0x0A]"
proof -
  have "jira_comment_text (JObj [(''type'', JStr ''paragraph''),
      (''content'', JArr (if l = [] then [] else [JObj [(''type'', JStr ''text''), (''text'', JStr l)]]))]) = l @ [CHR 0x0A]" for l
    by (simp add: jprop_def jget_def block_node_def js_truthy_def)
  then have "jira_comment_text (jira_comment_adf s) = concat (map (\<lambda>l. l @ [CHR 0x0A]) (text_lines s))"
    unfolding jira_comment_adf_def by (subst jira_comment_text.simps) (simp add: jprop_def jget_def block_node_def o_def)
  then show ?thesis by (simp add: lines_joined)
qed

lemma unix_prefix:
  "k \<le> length s \<Longrightarrow> list_all (\<lambda>c. \<not> is_ws c) (take k s) \<Longrightarrow> k \<le> length (unix_lines s) \<and> take k (unix_lines s) = take k s"
proof (induction s arbitrary: k)
  case (Cons c cs)
  then show ?case by (cases k) auto
qed simp

lemma unix_prefix_back:
  "k \<le> length (unix_lines s) \<Longrightarrow> list_all (\<lambda>c. \<not> is_ws c) (take k (unix_lines s))
   \<Longrightarrow> take k s = take k (unix_lines s) \<or> take 2 s = [CHR 0x0D, CHR 0x0A]"
proof (induction s arbitrary: k)
  case (Cons c cs)
  show ?case
  proof (cases "c = CHR 0x0D \<and> take 1 cs = [CHR 0x0A]")
    case True
    then show ?thesis by (cases cs) auto
  next
    case False
    then have step: "unix_lines (c # cs) = c # unix_lines cs" by simp
    show ?thesis
    proof (cases k)
      case (Suc j)
      have "take j cs = take j (unix_lines cs) \<or> take 2 cs = [CHR 0x0D, CHR 0x0A]"
        using Cons.IH [of j] Cons.prems [unfolded step] Suc by simp
      then show ?thesis
      proof
        assume two: "take 2 cs = [CHR 0x0D, CHR 0x0A]"
        then obtain ds where ds: "cs = CHR 0x0D # CHR 0x0A # ds" by (cases cs; cases "tl cs") auto
        then have "j = 0" using Cons.prems(2) [unfolded step] Suc by (cases j) (auto simp: ds)
        then show ?thesis unfolding step using Suc by simp
      qed (simp add: step Suc del: unix_lines.simps)
    qed simp
  qed
qed simp

lemma unix_marker_at:
  assumes "take 2 s \<noteq> [CHR 0x0D, CHR 0x0A]"
  shows "marker_at (unix_lines s) = marker_at s"
proof (cases "marker_at s")
  case (Some m)
  have "take 53 (unix_lines s) = take 53 s" using unix_prefix marker_atD [OF Some] by blast
  then show ?thesis by (rule marker_at_prefix [symmetric])
next
  case none: None
  show ?thesis
  proof (cases "marker_at (unix_lines s)")
    case (Some m)
    have "take 53 s = take 53 (unix_lines s)" using unix_prefix_back [of 53 s] marker_atD [OF Some] assms by blast
    then show ?thesis using marker_at_prefix by metis
  qed (use none in simp)
qed

lemma unix_marker: "comment_marker (unix_lines s) = comment_marker s"
proof (induction s)
  case (Cons c cs)
  show ?case
  proof (cases "c = CHR 0x0D \<and> take 1 cs = [CHR 0x0A]")
    case True
    then have "marker_at (c # cs) = None" using marker_at_ws [of "[c]" cs] by (simp add: marker_at_def)
    then show ?thesis using Cons True by simp
  next
    case False
    then have step: "unix_lines (c # cs) = c # unix_lines cs" by simp
    have "take 2 (c # cs) \<noteq> [CHR 0x0D, CHR 0x0A]" using False by (auto simp: numeral_2_eq_2)
    from unix_marker_at [OF this] have "marker_at (c # unix_lines cs) = marker_at (c # cs)" unfolding step .
    then show ?thesis unfolding step comment_marker.simps using Cons by (simp split: option.splits)
  qed
qed simp

lemma jira_keeps_marker: "comment_marker (jira_comment_text (jira_comment_adf s)) = comment_marker s"
  using marker_append [of "unix_lines s" "[CHR 0x0A]"] marker_blank [of "[CHR 0x0A]"]
  by (simp add: jira_text_lines unix_marker split: option.splits)

lemma transferred_marker:
  assumes "length marker = 36" "list_all marker_char marker"
  shows "comment_marker (transferred_comment_body body name author sys marker) =
    (case comment_marker (attributed body name author sys) of None \<Rightarrow> Some marker | Some q \<Rightarrow> Some q)"
proof -
  have "is_ws (last (attributed body name author sys))" by (simp add: attributed_def)
  then show ?thesis unfolding transferred_comment_body_def using marker_append marker_found [OF assms] by metis
qed

lemma attributed_marker: "comment_marker body = Some q \<Longrightarrow> comment_marker (attributed body name author sys) = Some q"
  using marker_append [of "trim body"] by (simp add: attributed_def marker_trim)

text \<open>What \<^verbatim>\<open>fetchPublicComments\<close> reads of a text that \<^verbatim>\<open>pushPublicComment\<close> posted, when the provider keeps it as it was sent.\<close>

definition shown_text :: "string \<Rightarrow> string \<Rightarrow> string" where
  "shown_text provider body = (if provider = ''jira'' then jira_comment_text (jira_comment_adf body) else body)"

lemma shown_marker [simp]: "comment_marker (shown_text provider body) = comment_marker body"
  by (simp add: shown_text_def jira_keeps_marker)

subsection \<open>Echoes\<close>

lemma echo_filtered:
  assumes "is_comment_echo org (cr_id c) t x st"
  shows "store_comments instant ids now org c p t (x # xs) (n, st) =
    store_comments instant (\<lambda>k. ids (Suc k)) now org c p t xs (n\<lparr>cc_filtered := cc_filtered n + 1\<rparr>, st)"
  using assms by simp

lemma marker_not_Nil: "comment_marker s = Some m \<Longrightarrow> length m = 36 \<and> map lower_char m = m"
proof (induction s)
  case (Cons c cs)
  show ?case
  proof (cases "marker_at (c # cs)")
    case (Some q)
    then have "length q = 36" "list_all marker_char q" by (auto simp: marker_at_def Let_def split: if_splits)
    moreover have "map lower_char q = q" if "list_all marker_char q" using that by (induction q) (auto simp: marker_char_lower)
    ultimately show ?thesis using Cons.prems Some by simp
  qed (use Cons in simp)
qed simp

text \<open>C38. A transferred comment is recognised when it comes back: as long as neither the text nor the author of a comment
  contains a marker, what either adapter reads of the posted text carries the marker of its delivery, so the next
  synchronization of the target counts it as filtered and neither stores nor delivers it.\<close>

theorem transferred_comment_is_echo:
  assumes "comment_marker (attributed body name author sys) = None"
    and "d \<in> set (deliveries_of st)" "dy_org_id d = org" "dy_connector d = cr_id c" "dy_twin d = t"
    and "length (dy_marker d) = 36" "list_all marker_char (dy_marker d)"
    and "pc_body x = shown_text (cr_provider c) (transferred_comment_body body name author sys (dy_marker d))"
    and "pc_marker x = comment_marker (pc_body x)"
  shows "store_comments instant ids now org c p t (x # xs) (n, st) =
    store_comments instant (\<lambda>k. ids (Suc k)) now org c p t xs (n\<lparr>cc_filtered := cc_filtered n + 1\<rparr>, st)"
proof (rule echo_filtered)
  have "pc_marker x = Some (dy_marker d)" using assms(1,8,9) transferred_marker [OF assms(6,7)] by simp
  moreover have "lower (dy_marker d) = dy_marker d" using assms(7) by (induction "dy_marker d") (auto simp: lower_def marker_char_lower list_all_iff intro: map_idI)
  ultimately show "is_comment_echo org (cr_id c) t x st"
    using assms(2-6) by (auto simp: is_comment_echo_def or_null_def)
qed


subsection \<open>Delivered once\<close>

text \<open>A provider whose reads list the comments of a record (\<open>shown\<close>), and whose writes add one with the posted text or,
  when they fail, possibly none.\<close>

definition keeps_comments :: "(connector_row \<Rightarrow> 'p comment_provider) \<Rightarrow> ('p \<Rightarrow> uuid \<Rightarrow> string \<Rightarrow> string \<Rightarrow> public_comment list) \<Rightarrow> bool" where
  "keeps_comments vend shown \<longleftrightarrow>
     (\<forall>c. vd_read (vend c) \<noteq> None) \<and>
     (\<forall>c read ty ext p ms. vd_read (vend c) = Some read \<longrightarrow> read ty ext p = Inr ms \<longrightarrow> ms = shown p (cr_id c) ty ext) \<and>
     (\<forall>c push ty ext body p r p'. vd_push (vend c) = Some push \<longrightarrow> push ty ext body p = (r, p') \<longrightarrow>
        (shown p' = shown p \<and> (\<exists>e. r = Inl e)) \<or>
        (\<exists>m. pc_marker m = comment_marker body \<and> shown p' = (shown p)(cr_id c := (shown p (cr_id c))(ty := (shown p (cr_id c) ty)
           (ext := shown p (cr_id c) ty ext @ [m])))))"

definition carried :: "('p \<Rightarrow> uuid \<Rightarrow> string \<Rightarrow> string \<Rightarrow> public_comment list) \<Rightarrow> due_delivery \<Rightarrow> 'p \<Rightarrow> nat" where
  "carried shown r p = length (filter (\<lambda>m. map_option lower (pc_marker m) = Some (delivery_marker r))
     (shown p (dy_connector (du_delivery r)) (tw_artifact_type (du_twin r)) (tw_external_id (du_twin r))))"

definition same_delivery :: "due_delivery \<Rightarrow> due_delivery \<Rightarrow> bool" where
  "same_delivery r s \<longleftrightarrow> dy_id (du_delivery r) = dy_id (du_delivery s) \<and> dy_connector (du_delivery r) = dy_connector (du_delivery s) \<and>
     dy_marker (du_delivery r) = dy_marker (du_delivery s) \<and> tw_artifact_type (du_twin r) = tw_artifact_type (du_twin s) \<and>
     tw_external_id (du_twin r) = tw_external_id (du_twin s)"

definition delivered :: "uuid \<Rightarrow> 'z comment_store_scheme \<Rightarrow> bool" where
  "delivered i st \<longleftrightarrow> (\<exists>d \<in> set (deliveries_of st). dy_id d = i \<and> dy_status d = DeliveryExecuted)"

text \<open>A process that stops between the write and its settlement.\<close>

definition crashed_delivery ::
  "(connector_row \<Rightarrow> 'p comment_provider) \<Rightarrow> 'z comment_store_scheme delivery_run \<Rightarrow> string \<Rightarrow> due_delivery
   \<Rightarrow> 'p \<times> 'z comment_store_scheme \<Rightarrow> 'p \<times> 'z comment_store_scheme" where
  "crashed_delivery vend run org r = (\<lambda>(p, st).
     case claim_delivery (dr_claimed_at run) (dr_claim run) org (dy_id (du_delivery r)) st of
       None \<Rightarrow> (p, st)
     | Some (d, st1) \<Rightarrow>
         (case find_connector org (dy_connector (du_delivery r)) st1 of
            None \<Rightarrow> (p, st1)
          | Some c \<Rightarrow> if dr_context run \<noteq> None then (p, st1) else (snd (exchange (vend c) c r p), st1)))"

inductive comment_step ::
  "(string \<Rightarrow> string) \<Rightarrow> (connector_row \<Rightarrow> 'p comment_provider) \<Rightarrow> ('p \<Rightarrow> uuid \<Rightarrow> string \<Rightarrow> string \<Rightarrow> public_comment list) \<Rightarrow> string \<Rightarrow> due_delivery
   \<Rightarrow> 'p \<times> 'z comment_store_scheme \<Rightarrow> 'p \<times> 'z comment_store_scheme \<Rightarrow> bool"
  for sha vend shown org r where
  attempt: "same_delivery s r \<Longrightarrow> comment_marker (delivery_body s) = Some (delivery_marker s) \<Longrightarrow>
    (\<forall>st. delivered (dy_id (du_delivery r)) (dr_race run st) \<longrightarrow> delivered (dy_id (du_delivery r)) st) \<Longrightarrow>
    execute_comment_delivery sha (store_pub sha) vend run org s (n, p, st) = (err, n', p', st') \<Longrightarrow>
    comment_step sha vend shown org r (p, st) (p', st')"
| crash: "same_delivery s r \<Longrightarrow> comment_marker (delivery_body s) = Some (delivery_marker s) \<Longrightarrow>
    crashed_delivery vend run org s (p, st) = (p', st') \<Longrightarrow> comment_step sha vend shown org r (p, st) (p', st')"
| others: "carried shown r p' = carried shown r p \<Longrightarrow>
    (delivered (dy_id (du_delivery r)) st' \<longrightarrow> delivered (dy_id (du_delivery r)) st) \<Longrightarrow> comment_step sha vend shown org r (p, st) (p', st')"

lemma same_carried: "same_delivery s r \<Longrightarrow> carried shown s = carried shown r"
  by (simp add: same_delivery_def delivery_marker_def carried_def fun_eq_iff)

lemma exchange_carries:
  assumes keeps: "keeps_comments vend shown" and c: "cr_id c = dy_connector (du_delivery r)"
    and body: "comment_marker (delivery_body r) = Some (delivery_marker r)"
    and run: "exchange (vend c) c r p = (out, p')" and once: "carried shown r p \<le> 1"
  shows "carried shown r p' \<le> 1 \<and> carried shown r p \<le> carried shown r p' \<and> (\<forall>i. out = Inr i \<longrightarrow> carried shown r p' = 1)"
proof (cases "vd_push (vend c)")
  case None
  then show ?thesis using run once by (auto simp: exchange_def Let_def)
next
  case (Some push)
  let ?ty = "tw_artifact_type (du_twin r)" and ?ext = "tw_external_id (du_twin r)"
  let ?mine = "\<lambda>m. map_option lower (pc_marker m) = Some (delivery_marker r)"
  have "vd_read (vend c) \<noteq> None" using keeps unfolding keeps_comments_def by blast
  then obtain read where read: "vd_read (vend c) = Some read" by blast
  show ?thesis
  proof (cases "read ?ty ?ext p")
    case (Inl e)
    then show ?thesis using run once Some read by (auto simp: exchange_def Let_def)
  next
    case (Inr ms)
    then have ms: "ms = shown p (dy_connector (du_delivery r)) ?ty ?ext" using keeps read c unfolding keeps_comments_def by metis
    show ?thesis
    proof (cases "find ?mine ms")
      case found: (Some m)
      then have "filter ?mine ms \<noteq> []" using find_SomeD [OF found] unfolding filter_empty_conv by blast
      then have "carried shown r p \<ge> 1" by (simp add: carried_def ms Suc_le_eq)
      then show ?thesis using run once Some read Inr found by (simp add: exchange_def Let_def)
    next
      case none: None
      then have zero: "carried shown r p = 0" by (simp add: carried_def ms find_None_iff_all filter_empty_conv)
      have push: "push ?ty ?ext (delivery_body r) p = (out, p')" using run Some read Inr none by (simp add: exchange_def Let_def)
      have "lower (delivery_marker r) = delivery_marker r" using marker_not_Nil [OF body] by (simp add: lower_def)
      then show ?thesis using keeps [unfolded keeps_comments_def] Some push zero body c by (fastforce simp: carried_def)
    qed
  qed
qed

lemma delivered_set: "(\<And>d. P d \<Longrightarrow> dy_id (f d) = dy_id d) \<Longrightarrow> delivered i (set_delivery P f st) \<longleftrightarrow>
    (\<exists>d \<in> set (deliveries_of st). dy_id d = i \<and> dy_status (if P d then f d else d) = DeliveryExecuted)"
  by (auto simp: delivered_def set_delivery_def update_where_def split: if_splits)

lemma deliveries_more: "store.more st' = store.more st \<Longrightarrow> deliveries_of st' = deliveries_of st"
  by (cases st; cases st') simp

lemma delivered_event: "with_event sha (store_pub sha) fresh now e st = Inr (ev, st') \<Longrightarrow> delivered i st' = delivered i st"
  by (simp add: delivered_def deliveries_more [OF with_event_more])

lemma claim_delivered:
  assumes "claim_delivery now claim org i st = Some (d, st1)"
  shows "delivered j st1 \<longrightarrow> delivered j st" "dy_id d = i" "connectors st1 = connectors st"
proof -
  let ?P = "\<lambda>d. dy_id d = i \<and> dy_org_id d = org \<and> delivery_claimable now d"
  have st1: "st1 = set_delivery ?P (claimed_delivery now claim) st" "\<exists>e. find ?P (deliveries_of st) = Some e \<and> d = claimed_delivery now claim e"
    using assms by (auto simp: claim_delivery_def Let_def split: option.splits)
  show "delivered j st1 \<longrightarrow> delivered j st" unfolding st1(1)
    by (subst delivered_set) (auto simp: claimed_delivery_def delivered_def split: if_splits)
  show "dy_id d = i" using st1(2) by (auto simp: claimed_delivery_def dest: find_SomeD)
  show "connectors st1 = connectors st" by (simp add: st1(1) set_delivery_def)
qed

lemma fail_delivered:
  assumes "fail_delivery sha (store_pub sha) run org c r k e st = (err, b, st')"
  shows "delivered i st' \<longrightarrow> delivered i st"
proof (cases "\<exists>u m. e = ProviderShed u m")
  case True
  then obtain u m where "st' = set_delivery (my_delivery org (dy_id (du_delivery r)) (dr_claim run)) (deferred_delivery u m) st"
    using assms by (auto simp: fail_delivery_def Let_def)
  then show ?thesis by (auto simp: delivered_set deferred_delivery_def) (auto simp: delivered_def split: if_splits)
next
  case False
  define again where "again \<longleftrightarrow> provider_retryable e \<and> k < max_work_order_attempts"
  define nxt where "nxt = (if again then Some (dr_done_at run + provider_retry_ms k e) else None)"
  define s where "s = (if again then DeliveryFailed else DeliveryDead)"
  let ?st = "set_delivery (my_delivery org (dy_id (du_delivery r)) (dr_claim run)) (failed_delivery s (provider_message e) nxt) st"
  have "fail_delivery sha (store_pub sha) run org c r k e st =
     (case with_event sha (store_pub sha) (dr_fresh run) (dr_done_at run)
         (transfer_failed_event org c r k (provider_retryable e) (\<not> again) (provider_message e)) ?st of
        Inl d \<Rightarrow> (Some (show_db_error d), False, st) | Inr (_, st1) \<Rightarrow> (None, True, st1))"
    using False unfolding fail_delivery_def Let_def nxt_def s_def again_def by (cases e) simp_all
  then consider "st' = st" | ev where "with_event sha (store_pub sha) (dr_fresh run) (dr_done_at run)
         (transfer_failed_event org c r k (provider_retryable e) (\<not> again) (provider_message e)) ?st = Inr (ev, st')"
    using assms by (auto split: sum.splits)
  then show ?thesis
  proof cases
    case (2 ev)
    have "delivered i ?st \<longrightarrow> delivered i st"
      by (auto simp: delivered_set failed_delivery_def s_def) (auto simp: delivered_def split: if_splits)
    then show ?thesis using delivered_event [OF 2] by simp
  qed simp
qed

lemma settle_delivered:
  assumes "settle_delivery sha (store_pub sha) run org c r k out (n, st) = (err, n', st')"
  shows "delivered (dy_id (du_delivery r)) st' \<longrightarrow> delivered (dy_id (du_delivery r)) st \<or> (\<exists>i. out = Inr i)"
proof (cases out)
  case (Inl e)
  obtain b where "fail_delivery sha (store_pub sha) run org c r k e st = (err, b, st')"
    using assms Inl by (auto simp: settle_delivery_def Let_def split: prod.splits)
  then show ?thesis using fail_delivered by blast
qed simp

lemma execute_delivery_cases:
  assumes "execute_comment_delivery sha pub vend run org r (n, p, st) = (err, n', p', st')"
  obtains "p' = p" "st' = st"
  | d where "claim_delivery (dr_claimed_at run) (dr_claim run) org (dy_id (du_delivery r)) st = Some (d, st')" "p' = p"
  | d st1 c out where "claim_delivery (dr_claimed_at run) (dr_claim run) org (dy_id (du_delivery r)) st = Some (d, st1)"
      "find_connector org (dy_connector (du_delivery r)) st1 = Some c" "exchange (vend c) c r p = (out, p')"
      "settle_delivery sha pub run org c r (dy_attempts d) out (n, dr_race run st1) = (err, n', st')"
  using assms unfolding execute_comment_delivery_def by (auto split: option.splits prod.splits)

lemma step_carries:
  assumes "comment_step sha vend shown org r (p, st) (p', st')" "keeps_comments vend shown"
    and "carried shown r p \<le> 1 \<and> (delivered (dy_id (du_delivery r)) st \<longrightarrow> carried shown r p = 1)"
  shows "carried shown r p' \<le> 1 \<and> (delivered (dy_id (du_delivery r)) st' \<longrightarrow> carried shown r p' = 1)"
  using assms(1)
proof cases
  case (attempt s run n err n')
  have s: "dy_id (du_delivery s) = dy_id (du_delivery r)" "carried shown s = carried shown r"
    using attempt(1) same_carried by (auto simp: same_delivery_def)
  from attempt(4) show ?thesis
  proof (cases rule: execute_delivery_cases)
    case (2 d)
    then show ?thesis using assms(3) claim_delivered(1) by blast
  next
    case (3 d st1 c out)
    have "cr_id c = dy_connector (du_delivery s)" using 3(2) by (auto simp: find_connector_def dest: find_SomeD)
    then have ex: "carried shown r p' \<le> 1" "carried shown r p \<le> carried shown r p'" "(\<exists>i. out = Inr i) \<longrightarrow> carried shown r p' = 1"
      using exchange_carries [OF assms(2) _ attempt(2) 3(3)] s(2) assms(3) by auto
    have "delivered (dy_id (du_delivery r)) st' \<longrightarrow> delivered (dy_id (du_delivery r)) st \<or> (\<exists>i. out = Inr i)"
      using settle_delivered [OF 3(4)] attempt(3) claim_delivered(1) [OF 3(1)] s(1) by metis
    then show ?thesis using ex assms(3) by (metis le_antisym)
  qed (use assms(3) in simp)
next
  case (crash s run)
  have s: "dy_id (du_delivery s) = dy_id (du_delivery r)" "carried shown s = carried shown r"
    using crash(1) same_carried by (auto simp: same_delivery_def)
  show ?thesis
  proof (cases "claim_delivery (dr_claimed_at run) (dr_claim run) org (dy_id (du_delivery s)) st")
    case None
    then show ?thesis using crash(3) assms(3) by (simp add: crashed_delivery_def)
  next
    case (Some dst)
    obtain d st1 where dst: "dst = (d, st1)" by force
    have came: "delivered (dy_id (du_delivery r)) st1 \<longrightarrow> delivered (dy_id (du_delivery r)) st"
      using claim_delivered(1) Some dst by blast
    show ?thesis
    proof (cases "find_connector org (dy_connector (du_delivery s)) st1 = None \<or> dr_context run \<noteq> None")
      case True
      then show ?thesis using crash(3) assms(3) came Some dst by (auto simp: crashed_delivery_def split: option.splits)
    next
      case False
      then obtain c where c: "find_connector org (dy_connector (du_delivery s)) st1 = Some c" by auto
      have st': "st' = st1" "exchange (vend c) c s p = (fst (exchange (vend c) c s p), p')"
        using crash(3) False c Some dst by (auto simp: crashed_delivery_def)
      have "cr_id c = dy_connector (du_delivery s)" using c by (auto simp: find_connector_def dest: find_SomeD)
      then have "carried shown r p' \<le> 1" "carried shown r p \<le> carried shown r p'"
        using exchange_carries [OF assms(2) _ crash(2) st'(2)] s(2) assms(3) by auto
      then show ?thesis using came assms(3) st'(1) by (metis le_antisym)
    qed
  qed
next
  case others
  then show ?thesis using assms(3) by auto
qed


subsection \<open>Starvation\<close>

definition waiting :: "due_delivery \<Rightarrow> bool" where
  "waiting r \<longleftrightarrow> (case (policy_of (du_source r), policy_of (du_target r)) of (Inr sp, Inr tp) \<Rightarrow> waits_for_target r tp | _ \<Rightarrow> False)"

lemma first_waiting:
  "sorted (map key xs) \<Longrightarrow> (\<forall>x \<in> set xs. \<forall>y \<in> set xs. P x \<longrightarrow> \<not> P y \<longrightarrow> key x < (key y :: int)) \<Longrightarrow> n \<le> length (filter P xs)
   \<Longrightarrow> \<forall>x \<in> set (take n xs). P x"
proof (induction xs arbitrary: n)
  case (Cons x xs)
  show ?case
  proof (cases n)
    case (Suc j)
    have "P x"
    proof (rule ccontr)
      assume np: "\<not> P x"
      then have "filter P xs \<noteq> []" using Cons.prems(3) Suc by auto
      then obtain y where "y \<in> set xs" "P y" by (auto simp: filter_empty_conv)
      then have "key y < key x" "key x \<le> key y" using np Cons.prems(1,2) by auto
      then show False by simp
    qed
    moreover have "sorted (map key xs)" "j \<le> length (filter P xs)" using Cons.prems(1,3) Suc by (simp_all split: if_splits)
    moreover have "\<forall>x \<in> set xs. \<forall>y \<in> set xs. P x \<longrightarrow> \<not> P y \<longrightarrow> key x < key y" using Cons.prems(2) by (meson list.set_intros(2))
    ultimately show ?thesis using Cons.IH [of j] unfolding Suc take_Suc_Cons by (metis set_ConsD)
  qed simp
qed simp

lemma sorted_joined: "sorted (map g ys) \<Longrightarrow> (\<And>y x. f y = Some x \<Longrightarrow> h x = g y) \<Longrightarrow> sorted (map h (List.map_filter f ys))"
  by (induction ys) (auto simp: List.map_filter_def)

lemma join_keeps: "join_delivery org st d = Some r \<Longrightarrow> du_delivery r = d"
  by (auto simp: join_delivery_def split: option.splits)

lemma all_waiting_rows: "\<forall>r \<in> set rs. waiting r \<Longrightarrow> deliver_rows sha pub vend run org rs (k, n, p, st) = (None, k, n, p, st)"
  by (induction rs) (auto simp: waiting_def split: sum.splits)

text \<open>C40. Deliveries that wait for their target block all others of the tenant: as soon as fifty due deliveries wait for
  connectors that are paused, not activated or do not accept comments, and are older than the rest, the loop reads only
  those, settles nothing and ends, whatever else is due, until one of the targets is opened again.\<close>

theorem waiting_targets_starve_others:
  assumes "50 \<le> length (filter waiting (all_due (lt_now (turns 0)) org st))"
    and "\<forall>r \<in> set (all_due (lt_now (turns 0)) org st). \<forall>s \<in> set (all_due (lt_now (turns 0)) org st).
      waiting r \<longrightarrow> \<not> waiting s \<longrightarrow> dy_created_at (du_delivery r) < dy_created_at (du_delivery s)"
  shows "process_due_deliveries sha pub vend turns org 0 0 (n, p, st) = (None, n, p, st)"
proof -
  let ?now = "lt_now (turns 0)"
  have "sorted (map (\<lambda>r. dy_created_at (du_delivery r)) (all_due ?now org st))"
    unfolding all_due_def by (rule sorted_joined [where g = dy_created_at]) (auto dest: join_keeps)
  then have "\<forall>r \<in> set (due_deliveries ?now org st). waiting r"
    unfolding due_deliveries_def using first_waiting assms by blast
  then have "deliver_rows sha pub vend (lt_run (turns 0)) org (due_deliveries ?now org st) (0, n, p, st) = (None, 0, n, p, st)"
    by (rule all_waiting_rows)
  then show ?thesis by (subst process_due_deliveries.simps) (auto split: list.splits)
qed

subsection \<open>Samples\<close>

definition sample_commenting :: "string \<Rightarrow> string \<Rightarrow> string \<Rightarrow> connector_row" where
  "sample_commenting i system status = sample_connector\<lparr>cr_id := i, cr_provider := system, cr_status := status,
     cr_config := JObj [(''commentSync'', JObj [(''enabled'', JBool True)])]\<rparr>"

definition sample_comments :: "stored_comment list \<Rightarrow> comment_delivery list \<Rightarrow> comment_store" where
  "sample_comments ms ds = \<lparr>work_items = [], domain_events = [], audit_events = [], integrity = [], integrity_seq = 1, outbox = [],
     emitted = [], corr_nodes = [sample_node ''a'' ''jira'', sample_node ''b'' ''snow''], corr_links = [sample_link ''1'' ''a'' ''b''],
     snapshots = [], connectors = [sample_commenting ''c1'' ''jira'' ''active'', sample_commenting ''c2'' ''snow'' ''active'',
       sample_commenting ''c3'' ''snow'' ''paused''],
     state_mappings = [], sync_transactions = [], field_mappings = [],
     twins = [sample_twin ''t1'' ''c1'' ''jira'' ''a'', sample_twin ''t2'' ''c2'' ''snow'' ''b'', sample_twin ''t3'' ''c3'' ''snow'' ''c''],
     ingestion = [], ingest_position = 1, work_orders = [], propagations = [], public_comments = ms, deliveries_of = ds\<rparr>"

definition sample_marker :: string where
  "sample_marker = replicate 36 CHR ''7''"

definition sample_delivery :: "string \<Rightarrow> string \<Rightarrow> string \<Rightarrow> string \<Rightarrow> time \<Rightarrow> comment_delivery" where
  "sample_delivery i m c t created = \<lparr>dy_id = i, dy_org_id = ''o1'', dy_comment = m, dy_connector = c, dy_twin = t,
     dy_marker = i, dy_status = DeliveryPending, dy_attempts = 0, dy_target_comment = None, dy_last_error = None, dy_next_attempt_at = None,
     dy_claimed_by = None, dy_claim_expires_at = None, dy_executed_at = None, dy_created_at = created\<rparr>"

definition sample_stored :: "string \<Rightarrow> string \<Rightarrow> stored_comment" where
  "sample_stored i body = \<lparr>sm_id = i, sm_org_id = ''o1'', sm_twin = ''t1'', sm_connector = ''c1'', sm_provider_id = i, sm_body = body,
     sm_author_id = ''u'', sm_author_name = ''U'', sm_system = ''jira'', sm_created_at = 0, sm_url = None\<rparr>"

definition sample_shown :: "string \<Rightarrow> string \<Rightarrow> public_comment" where
  "sample_shown provider body = \<lparr>pc_external_id = ''9'', pc_body = shown_text provider body, pc_author_id = ''s'', pc_author_name = ''S'',
     pc_created_at = ''2026'', pc_url = None, pc_marker = comment_marker (shown_text provider body)\<rparr>"

lemma sample_marker_ok: "length sample_marker = 36" "list_all marker_char sample_marker" "map lower_char sample_marker = sample_marker"
  by (simp_all add: sample_marker_def marker_char_def lower_char_def list_all_iff)

lemma sample_attributed: "comment_marker (attributed ''hi'' ''U'' ''u'' ''jira'') = None"
  by (rule marker_needs_bracket) (simp add: attributed_def attribution_dash_def provider_name_def trim_def is_ws_def)

definition sample_counts :: comment_counts where
  "sample_counts = \<lparr>cc_fetched = 1, cc_stored = 0, cc_filtered = 0, cc_transferred = 0, cc_failed = 0\<rparr>"

lemma transferred_comment_is_echo_witness:
  "store_comments (\<lambda>_. Some 0) (\<lambda>_ _. ''n'') 5 ''o1'' (sample_commenting ''c2'' ''snow'' ''active'') no_comments ''t2''
     [sample_shown ''snow'' (transferred_comment_body ''hi'' ''U'' ''u'' ''jira'' sample_marker)]
     (sample_counts, sample_comments [sample_stored ''m1'' ''hi''] [sample_delivery sample_marker ''m1'' ''c2'' ''t2'' 0]) =
   (None, sample_counts\<lparr>cc_filtered := 1\<rparr>,
      sample_comments [sample_stored ''m1'' ''hi''] [sample_delivery sample_marker ''m1'' ''c2'' ''t2'' 0])"
proof -
  have "store_comments (\<lambda>_. Some 0) (\<lambda>_ _. ''n'') 5 ''o1'' (sample_commenting ''c2'' ''snow'' ''active'') no_comments ''t2''
     [sample_shown ''snow'' (transferred_comment_body ''hi'' ''U'' ''u'' ''jira'' sample_marker)]
     (sample_counts, sample_comments [sample_stored ''m1'' ''hi''] [sample_delivery sample_marker ''m1'' ''c2'' ''t2'' 0]) =
    store_comments (\<lambda>_. Some 0) (\<lambda>k _. ''n'') 5 ''o1'' (sample_commenting ''c2'' ''snow'' ''active'') no_comments ''t2'' []
     (sample_counts\<lparr>cc_filtered := cc_filtered sample_counts + 1\<rparr>,
      sample_comments [sample_stored ''m1'' ''hi''] [sample_delivery sample_marker ''m1'' ''c2'' ''t2'' 0])"
    by (rule transferred_comment_is_echo [OF sample_attributed, where d = "sample_delivery sample_marker ''m1'' ''c2'' ''t2'' 0"])
      (simp_all add: sample_comments_def sample_delivery_def sample_commenting_def sample_shown_def sample_marker_ok(1,2) sample_connector_def)
  then show ?thesis by (simp add: sample_counts_def)
qed


lemma sample_connectors:
  "find_connector ''o1'' ''c1'' (sample_comments ms ds) = Some (sample_commenting ''c1'' ''jira'' ''active'')"
  "find_connector ''o1'' ''c2'' (sample_comments ms ds) = Some (sample_commenting ''c2'' ''snow'' ''active'')"
  "find_connector ''o1'' ''c3'' (sample_comments ms ds) = Some (sample_commenting ''c3'' ''snow'' ''paused'')"
  by (simp_all add: find_connector_def sample_comments_def sample_commenting_def sample_connector_def)

lemma sample_targets: "delivery_targets ''o1'' ''b'' (sample_comments ms ds) =
    [(sample_twin ''t1'' ''c1'' ''jira'' ''a'', sample_commenting ''c1'' ''jira'' ''active'')]"
  unfolding delivery_targets_def
  by (simp add: sample_comments_def [of ms ds, THEN arg_cong [where f = twins]] sample_comments_def [of ms ds, THEN arg_cong [where f = corr_links]]
      sample_link_def sample_twin_def other_end_def sample_connectors)

lemma sample_policy [simp]: "policy_of (sample_commenting i system status) =
    Inr \<lparr>cp_enabled = True, cp_direction = ''bidirectional'', cp_allow = [], cp_block = []\<rparr>"
  by (simp add: policy_of_def sample_commenting_def jprop_def jget_def validate_comment_sync_def comment_policy_keys_def account_list_def)

lemma sample_quoted: "comment_marker (marker_head @ sample_marker @ '']'') = Some sample_marker"
  by (rule marker_found) (simp_all add: sample_marker_ok)


definition sample_comment_queue :: comment_store where
  "sample_comment_queue = sample_comments (map (\<lambda>i. sample_stored (replicate i CHR ''m'') ''hi'') [0..<51])
     (map (\<lambda>i. sample_delivery (replicate i CHR ''d'') (replicate i CHR ''m'') ''c3'' ''t3'' 0) [0..<50] @
      [sample_delivery (replicate 50 CHR ''d'') (replicate 50 CHR ''m'') ''c2'' ''t2'' 1])"

definition sample_turn :: "comment_store delivery_turn" where
  "sample_turn = \<lparr>lt_now = 5, lt_run = (\<lambda>_. \<lparr>dr_claimed_at = 5, dr_done_at = 5, dr_claim = ''k'', dr_fresh = ''e'', dr_context = None, dr_race = (\<lambda>s. s)\<rparr>)\<rparr>"

lemma joined_sorted: "set (List.map_filter f (sort_key g xs)) = set (List.map_filter f xs)"
  "length (filter P (List.map_filter f (sort_key g xs))) = length (filter P (List.map_filter f xs))"
proof -
  have "mset (List.map_filter f (sort_key g xs)) = mset (List.map_filter f xs)" by (simp add: List.map_filter_def)
  then show "set (List.map_filter f (sort_key g xs)) = set (List.map_filter f xs)"
    "length (filter P (List.map_filter f (sort_key g xs))) = length (filter P (List.map_filter f xs))"
    by (metis mset_eq_setD, metis mset_filter size_mset)
qed

lemma sample_comment_found: "i < 51 \<Longrightarrow> find (\<lambda>m. sm_id m = replicate i CHR ''m'' \<and> sm_org_id m = ''o1'') (public_comments sample_comment_queue) =
    Some (sample_stored (replicate i CHR ''m'') ''hi'')"
  by (rule find_unique) (auto simp: sample_comment_queue_def sample_comments_def sample_stored_def dest: arg_cong [where f = length])

lemma sample_joined:
  "i < 50 \<Longrightarrow> join_delivery ''o1'' sample_comment_queue (sample_delivery (replicate i CHR ''d'') (replicate i CHR ''m'') ''c3'' ''t3'' 0) =
    Some \<lparr>du_delivery = sample_delivery (replicate i CHR ''d'') (replicate i CHR ''m'') ''c3'' ''t3'' 0,
      du_comment = sample_stored (replicate i CHR ''m'') ''hi'', du_twin = sample_twin ''t3'' ''c3'' ''snow'' ''c'',
      du_target = sample_commenting ''c3'' ''snow'' ''paused'', du_source = sample_commenting ''c1'' ''jira'' ''active''\<rparr>"
  "join_delivery ''o1'' sample_comment_queue (sample_delivery (replicate 50 CHR ''d'') (replicate 50 CHR ''m'') ''c2'' ''t2'' 1) =
    Some \<lparr>du_delivery = sample_delivery (replicate 50 CHR ''d'') (replicate 50 CHR ''m'') ''c2'' ''t2'' 1,
      du_comment = sample_stored (replicate 50 CHR ''m'') ''hi'', du_twin = sample_twin ''t2'' ''c2'' ''snow'' ''b'',
      du_target = sample_commenting ''c2'' ''snow'' ''active'', du_source = sample_commenting ''c1'' ''jira'' ''active''\<rparr>"
proof -
  have twins: "find (\<lambda>t. tw_id t = ''t3'' \<and> tw_org_id t = ''o1'') (twins sample_comment_queue) = Some (sample_twin ''t3'' ''c3'' ''snow'' ''c'')"
    "find (\<lambda>t. tw_id t = ''t2'' \<and> tw_org_id t = ''o1'') (twins sample_comment_queue) = Some (sample_twin ''t2'' ''c2'' ''snow'' ''b'')"
    by (simp_all add: sample_comment_queue_def sample_comments_def sample_twin_def)
  have fields: "dy_comment (sample_delivery i m c t k) = m" "dy_twin (sample_delivery i m c t k) = t" "dy_connector (sample_delivery i m c t k) = c"
    "sm_connector (sample_stored i b) = ''c1''" for i m c t k b by (simp_all add: sample_delivery_def sample_stored_def)
  have conns: "find_connector ''o1'' ''c1'' sample_comment_queue = Some (sample_commenting ''c1'' ''jira'' ''active'')"
    "find_connector ''o1'' ''c2'' sample_comment_queue = Some (sample_commenting ''c2'' ''snow'' ''active'')"
    "find_connector ''o1'' ''c3'' sample_comment_queue = Some (sample_commenting ''c3'' ''snow'' ''paused'')"
    unfolding sample_comment_queue_def by (rule sample_connectors)+
  have newest: "find (\<lambda>m. sm_id m = replicate 50 CHR ''m'' \<and> sm_org_id m = ''o1'') (public_comments sample_comment_queue) =
    Some (sample_stored (replicate 50 CHR ''m'') ''hi'')" by (rule sample_comment_found) simp
  show "i < 50 \<Longrightarrow> join_delivery ''o1'' sample_comment_queue (sample_delivery (replicate i CHR ''d'') (replicate i CHR ''m'') ''c3'' ''t3'' 0) =
    Some \<lparr>du_delivery = sample_delivery (replicate i CHR ''d'') (replicate i CHR ''m'') ''c3'' ''t3'' 0,
      du_comment = sample_stored (replicate i CHR ''m'') ''hi'', du_twin = sample_twin ''t3'' ''c3'' ''snow'' ''c'',
      du_target = sample_commenting ''c3'' ''snow'' ''paused'', du_source = sample_commenting ''c1'' ''jira'' ''active''\<rparr>"
    using sample_comment_found [of i] by (simp add: join_delivery_def fields twins conns)
  show "join_delivery ''o1'' sample_comment_queue (sample_delivery (replicate 50 CHR ''d'') (replicate 50 CHR ''m'') ''c2'' ''t2'' 1) =
    Some \<lparr>du_delivery = sample_delivery (replicate 50 CHR ''d'') (replicate 50 CHR ''m'') ''c2'' ''t2'' 1,
      du_comment = sample_stored (replicate 50 CHR ''m'') ''hi'', du_twin = sample_twin ''t2'' ''c2'' ''snow'' ''b'',
      du_target = sample_commenting ''c2'' ''snow'' ''active'', du_source = sample_commenting ''c1'' ''jira'' ''active''\<rparr>"
    by (simp only: join_delivery_def fields twins conns newest option.case prod.case)
qed

lemma map_filter_append: "List.map_filter f (xs @ ys) = List.map_filter f xs @ List.map_filter f ys"
  by (simp add: List.map_filter_def)

lemma map_filter_single: "f x \<noteq> None \<Longrightarrow> List.map_filter f [x] = [the (f x)]"
  by (auto simp: List.map_filter_def)

lemma sample_all_due:
  "set (all_due 5 ''o1'' sample_comment_queue) = (\<lambda>i. the (join_delivery ''o1'' sample_comment_queue
      (sample_delivery (replicate i CHR ''d'') (replicate i CHR ''m'') ''c3'' ''t3'' 0))) ` {0..<50} \<union>
    {the (join_delivery ''o1'' sample_comment_queue (sample_delivery (replicate 50 CHR ''d'') (replicate 50 CHR ''m'') ''c2'' ''t2'' 1))}"
  "50 \<le> length (filter waiting (all_due 5 ''o1'' sample_comment_queue))"
proof -
  let ?old = "map (\<lambda>i. sample_delivery (replicate i CHR ''d'') (replicate i CHR ''m'') ''c3'' ''t3'' 0) [0..<50]"
  let ?new = "sample_delivery (replicate 50 CHR ''d'') (replicate 50 CHR ''m'') ''c2'' ''t2'' 1"
  have rows: "deliveries_of sample_comment_queue = ?old @ [?new]"
    by (simp only: sample_comment_queue_def sample_comments_def comment_store.simps)
  have due: "dy_org_id (sample_delivery i m c t k) = ''o1'' \<and> delivery_claimable 5 (sample_delivery i m c t k) \<and>
      claim_expired 5 (dy_next_attempt_at (sample_delivery i m c t k))" for i m c t k
    by (simp add: sample_delivery_def delivery_claimable_def claim_expired_def)
  have kept: "filter (\<lambda>d. dy_org_id d = ''o1'' \<and> delivery_claimable 5 d \<and> claim_expired 5 (dy_next_attempt_at d)) (?old @ [?new]) = ?old @ [?new]"
    by (rule filter_True) (use due in auto)
  have old: "List.map_filter (join_delivery ''o1'' sample_comment_queue) ?old =
      map (\<lambda>i. the (join_delivery ''o1'' sample_comment_queue (sample_delivery (replicate i CHR ''d'') (replicate i CHR ''m'') ''c3'' ''t3'' 0))) [0..<50]"
  proof -
    have "filter (\<lambda>x. join_delivery ''o1'' sample_comment_queue x \<noteq> None) ?old = ?old"
      by (rule filter_True) (auto simp: sample_joined(1) simp del: upt_Suc)
    then show ?thesis unfolding List.map_filter_def by simp
  qed
  have new: "List.map_filter (join_delivery ''o1'' sample_comment_queue) [?new] = [the (join_delivery ''o1'' sample_comment_queue ?new)]"
    by (rule map_filter_single) (subst sample_joined(2), simp only: option.simps not_False_eq_True)
  show "set (all_due 5 ''o1'' sample_comment_queue) = (\<lambda>i. the (join_delivery ''o1'' sample_comment_queue
      (sample_delivery (replicate i CHR ''d'') (replicate i CHR ''m'') ''c3'' ''t3'' 0))) ` {0..<50} \<union>
    {the (join_delivery ''o1'' sample_comment_queue ?new)}"
    unfolding all_due_def rows kept joined_sorted map_filter_append old new by (simp del: upt_Suc replicate_Suc)
  have "waiting (the (join_delivery ''o1'' sample_comment_queue (sample_delivery (replicate i CHR ''d'') (replicate i CHR ''m'') ''c3'' ''t3'' 0)))"
    if "i < 50" for i
    using that by (simp add: sample_joined(1) waiting_def waits_for_target_def) (simp add: sample_commenting_def)
  then have "filter waiting (List.map_filter (join_delivery ''o1'' sample_comment_queue) ?old) =
      List.map_filter (join_delivery ''o1'' sample_comment_queue) ?old"
    unfolding old by (intro filter_True) auto
  then have "length (filter waiting (List.map_filter (join_delivery ''o1'' sample_comment_queue) ?old)) = 50"
    unfolding old by (simp only: length_map length_upt)
  moreover have "length (filter waiting (all_due 5 ''o1'' sample_comment_queue)) =
      length (filter waiting (List.map_filter (join_delivery ''o1'' sample_comment_queue) (?old @ [?new])))"
    unfolding all_due_def rows kept joined_sorted ..
  ultimately show "50 \<le> length (filter waiting (all_due 5 ''o1'' sample_comment_queue))"
    by (simp only: map_filter_append filter_append length_append le_add1)
qed

lemma waiting_targets_starve_others_witness:
  "process_due_deliveries (\<lambda>s. s) (\<lambda>_ st. (None, st)) (\<lambda>_. \<lparr>vd_read = None, vd_push = None\<rparr>) (\<lambda>_. sample_turn) ''o1'' 0 0
     (sample_counts, (), sample_comment_queue) = (None, sample_counts, (), sample_comment_queue) \<and>
   (\<exists>r \<in> set (all_due 5 ''o1'' sample_comment_queue). \<not> waiting r)"
proof
  let ?new = "the (join_delivery ''o1'' sample_comment_queue (sample_delivery (replicate 50 CHR ''d'') (replicate 50 CHR ''m'') ''c2'' ''t2'' 1))"
  have new: "\<not> waiting ?new" "dy_created_at (du_delivery ?new) = 1"
    unfolding sample_joined(2) by (simp_all add: waiting_def waits_for_target_def comment_can_write_def sample_delivery_def del: replicate_Suc)
      (simp add: sample_commenting_def sample_connector_def)
  have old: "waiting (the (join_delivery ''o1'' sample_comment_queue (sample_delivery (replicate i CHR ''d'') (replicate i CHR ''m'') ''c3'' ''t3'' 0)))"
    "dy_created_at (du_delivery (the (join_delivery ''o1'' sample_comment_queue
       (sample_delivery (replicate i CHR ''d'') (replicate i CHR ''m'') ''c3'' ''t3'' 0)))) = 0" if "i < 50" for i
    using that by (simp_all add: sample_joined(1) waiting_def waits_for_target_def) (simp_all add: sample_commenting_def sample_delivery_def)
  show "\<exists>r \<in> set (all_due 5 ''o1'' sample_comment_queue). \<not> waiting r" using new(1) unfolding sample_all_due(1) by blast
  have turn: "lt_now sample_turn = 5" by (simp add: sample_turn_def)
  show "process_due_deliveries (\<lambda>s. s) (\<lambda>_ st. (None, st)) (\<lambda>_. \<lparr>vd_read = None, vd_push = None\<rparr>) (\<lambda>_. sample_turn) ''o1'' 0 0
     (sample_counts, (), sample_comment_queue) = (None, sample_counts, (), sample_comment_queue)"
  proof (rule waiting_targets_starve_others, unfold turn)
    show "50 \<le> length (filter waiting (all_due 5 ''o1'' sample_comment_queue))" by (rule sample_all_due)
    show "\<forall>r \<in> set (all_due 5 ''o1'' sample_comment_queue). \<forall>s \<in> set (all_due 5 ''o1'' sample_comment_queue).
      waiting r \<longrightarrow> \<not> waiting s \<longrightarrow> dy_created_at (du_delivery r) < dy_created_at (du_delivery s)"
      unfolding sample_all_due(1) using new old by auto
  qed
qed

type_synonym sample_world = "uuid \<Rightarrow> string \<Rightarrow> string \<Rightarrow> public_comment list"

definition sample_vendor :: "connector_row \<Rightarrow> sample_world comment_provider" where
  "sample_vendor c = \<lparr>vd_read = Some (\<lambda>ty ext p. Inr (p (cr_id c) ty ext)),
     vd_push = Some (\<lambda>ty ext body p. (Inr ''9'', p(cr_id c := (p (cr_id c))(ty := (p (cr_id c) ty)(ext := p (cr_id c) ty ext @
       [sample_shown (cr_provider c) body])))))\<rparr>"

definition sample_due :: due_delivery where
  "sample_due = \<lparr>du_delivery = sample_delivery sample_marker ''m1'' ''c2'' ''t2'' 0, du_comment = sample_stored ''m1'' ''hi'',
     du_twin = sample_twin ''t2'' ''c2'' ''snow'' ''b'', du_target = sample_commenting ''c2'' ''snow'' ''active'',
     du_source = sample_commenting ''c1'' ''jira'' ''active''\<rparr>"

lemma sample_shown_marker [simp]: "pc_marker (sample_shown provider body) = comment_marker body"
  by (simp add: sample_shown_def)

lemma sample_vendor_keeps: "keeps_comments sample_vendor (\<lambda>p. p)"
  unfolding keeps_comments_def sample_vendor_def by (auto intro!: exI conjI sample_shown_marker)

lemma sample_claim: "claim_delivery now claim ''o1'' i (sample_comments ms [sample_delivery i m c t k]) =
    Some (claimed_delivery now claim (sample_delivery i m c t k), sample_comments ms [claimed_delivery now claim (sample_delivery i m c t k)])"
  by (simp add: claim_delivery_def sample_comments_def sample_delivery_def delivery_claimable_def set_delivery_def)


end
