(* ===== verification/Spec2Isabelle.thy ===== *)
theory Spec2Isabelle
  imports Workflow Consumers RateGovernor FlowRisk SyncGuard Backfill PublicComments
begin

text \<open>Skeleton.\<close>

end
